(* ===== verification/Prelude.thy ===== *)
theory Prelude
  imports Main "HOL-Library.Word" "HOL-Library.Monad_Syntax"
begin

unbundle bit_operations_syntax

text \<open>
  Shared vocabulary of the development.  A C array is a list whose length is the size of the
  object; a read or write outside of it is undefined behaviour in the source and the value
  \<open>None\<close> here, so that a theorem \<open>f x = Some y\<close> says that the run is free of out-of-bounds
  accesses.  The library facts about these accesses carry most of the memory-safety proofs and
  are collected in \<open>mem_simps\<close>.
\<close>

named_theorems mem_simps "checked array accesses inside the bounds"
named_theorems bits_simps "bit-level facts on bytes and code words"

type_synonym byte = "8 word"
type_synonym uint32 = "32 word"

definition aread :: "'a list \<Rightarrow> nat \<Rightarrow> 'a option" where
  "aread xs i = (if i < length xs then Some (xs ! i) else None)"

definition awrite :: "'a list \<Rightarrow> nat \<Rightarrow> 'a \<Rightarrow> 'a list option" where
  "awrite xs i x = (if i < length xs then Some (xs[i := x]) else None)"

lemma aread_inside [mem_simps]: "i < length xs \<Longrightarrow> aread xs i = Some (xs ! i)"
  by (simp add: aread_def)

lemma aread_outside [mem_simps]: "length xs \<le> i \<Longrightarrow> aread xs i = None"
  by (simp add: aread_def)

lemma awrite_inside [mem_simps]: "i < length xs \<Longrightarrow> awrite xs i x = Some (xs[i := x])"
  by (simp add: awrite_def)

lemma awrite_outside [mem_simps]: "length xs \<le> i \<Longrightarrow> awrite xs i x = None"
  by (simp add: awrite_def)

lemma aread_SomeD: "aread xs i = Some x \<Longrightarrow> i < length xs \<and> x = xs ! i"
  by (auto simp: aread_def split: if_splits)

lemma awrite_SomeD: "awrite xs i x = Some ys \<Longrightarrow> i < length xs \<and> ys = xs[i := x]"
  by (auto simp: awrite_def split: if_splits)

text \<open>
  Blocks from the allocator: their bytes are not initialised, so \<open>junk\<close> is an arbitrary
  function giving the byte found at each offset.  Growing a block keeps its contents.
\<close>

definition c_malloc :: "(nat \<Rightarrow> 'a) \<Rightarrow> nat \<Rightarrow> 'a list" where
  "c_malloc junk n = map junk [0..<n]"

definition c_realloc :: "(nat \<Rightarrow> 'a) \<Rightarrow> 'a list \<Rightarrow> nat \<Rightarrow> 'a list" where
  "c_realloc junk xs n = take n xs @ map junk [length xs..<n]"

lemma length_c_malloc [simp]: "length (c_malloc junk n) = n"
  by (simp add: c_malloc_def)

lemma length_c_realloc [simp]: "length (c_realloc junk xs n) = n"
  by (simp add: c_realloc_def)

lemma c_realloc_shrink: "n \<le> length xs \<Longrightarrow> c_realloc junk xs n = take n xs"
  by (simp add: c_realloc_def)

lemma take_c_realloc: "k \<le> length xs \<Longrightarrow> k \<le> n \<Longrightarrow> take k (c_realloc junk xs n) = take k xs"
  by (simp add: c_realloc_def)

text \<open>The number of bits of a natural number, as the C loops
  \<open>for(bits = 0; x >> bits; bits++)\<close> compute it.\<close>

function bit_count_from :: "nat \<Rightarrow> nat \<Rightarrow> nat" where
  "bit_count_from x bits = (if drop_bit bits x \<noteq> 0 then bit_count_from x (Suc bits) else bits)"
  by pat_completeness auto
termination
proof (relation "measure (\<lambda>(x, bits). x - bits)", goal_cases)
  case (2 x bits)
  then have "2 ^ bits \<le> x"
    by (simp add: drop_bit_eq_div div_eq_0_iff not_less)
  moreover have "bits < 2 ^ bits" by simp
  ultimately have "bits < x" by (rule less_le_trans [rotated])
  then show ?case by simp
qed simp

declare bit_count_from.simps [simp del]

definition bit_count :: "nat \<Rightarrow> nat" where
  "bit_count x = bit_count_from x 0"

lemma bit_count_from_bound:
  "x < 2 ^ bit_count_from x b"
proof (induction x b rule: bit_count_from.induct)
  case (1 x bits)
  then show ?case
    by (subst bit_count_from.simps)
       (auto simp: drop_bit_eq_div div_eq_0_iff bit_count_from.simps [of x bits])
qed

lemma bit_count_bound: "x < 2 ^ bit_count x"
  by (simp add: bit_count_def bit_count_from_bound)

lemma bit_count_from_le:
  "x < 2 ^ n \<Longrightarrow> b \<le> n \<Longrightarrow> bit_count_from x b \<le> n"
proof (induction x b rule: bit_count_from.induct)
  case (1 x bits)
  show ?case
  proof (cases "drop_bit bits x \<noteq> 0")
    case True
    then have "2 ^ bits \<le> x"
      by (simp add: drop_bit_eq_div div_eq_0_iff not_less)
    then have "(2::nat) ^ bits < 2 ^ n" using "1.prems"(1) by (rule le_less_trans)
    then have "Suc bits \<le> n" by simp
    with "1.IH" True "1.prems" show ?thesis
      by (subst bit_count_from.simps) simp
  next
    case False
    with "1.prems" show ?thesis by (subst bit_count_from.simps) simp
  qed
qed

lemma bit_count_le: "x < 2 ^ n \<Longrightarrow> bit_count x \<le> n"
  by (simp add: bit_count_def bit_count_from_le)

lemma bit_count_ge: "2 ^ n \<le> x \<Longrightarrow> n < bit_count x"
  by (metis bit_count_bound linorder_not_le order.strict_trans2 power_increasing_iff one_less_numeral_iff semiring_norm(76))

lemma bit_count_eqI: "2 ^ n \<le> x \<Longrightarrow> x < 2 ^ Suc n \<Longrightarrow> bit_count x = Suc n"
  using bit_count_ge [of n x] bit_count_le [of x "Suc n"] by simp

lemma bit_count_mono: "x \<le> y \<Longrightarrow> bit_count x \<le> bit_count y"
  by (meson bit_count_bound bit_count_le le_less_trans)

lemma xor_cancel: "p XOR u = p XOR v \<Longrightarrow> u = v" for p u v :: uint32
proof (rule bit_word_eqI)
  fix n assume "p XOR u = p XOR v"
  then have "bit (p XOR u) n = bit (p XOR v) n" by simp
  then show "bit u n = bit v n" by (auto simp: bit_xor_iff)
qed

text \<open>The signed reading of a 32-bit word.\<close>

lemma sint_uint32: "sint (x :: uint32) = (if uint x < 2 ^ 31 then uint x else uint x - 2 ^ 32)"
proof -
  have "sint x = (uint x + 2 ^ 31) mod 2 ^ 32 - 2 ^ 31"
    using int_word_sint [of "uint x", where ?'a = 32] by simp
  moreover have "0 \<le> uint x" "uint x < 2 ^ 32" using unsigned_less [of x, where ?'a = int] by simp_all
  ultimately show ?thesis
    by (cases "uint x < 2 ^ 31") (simp_all add: mod_pos_pos_trivial mod_pos_geq)
qed

lemma sint_nonneg: "0 \<le> sint (x :: uint32) \<longleftrightarrow> unat x < 2 ^ 31"
proof -
  have "uint x < 2 ^ 32" using unsigned_less [of x, where ?'a = int] by simp
  then have "0 \<le> sint x \<longleftrightarrow> uint x < 2 ^ 31" by (simp add: sint_uint32)
  moreover have "uint x < 2147483648 \<longleftrightarrow> unat x < 2147483648" using uint_nat [of x] by linarith
  ultimately show ?thesis by simp
qed

section \<open>Runs of operations\<close>

text \<open>
  A sequence of fallible operations on a state, and the interface of a component that implements an
  abstract one: every operation that is admissible on what the state means runs, and means what the
  abstract operation does.
\<close>

fun run_steps :: "('op \<Rightarrow> 's \<Rightarrow> 's option) \<Rightarrow> 'op list \<Rightarrow> 's \<Rightarrow> 's option" where
  "run_steps step [] s = Some s"
| "run_steps step (x # xs) s = do { s \<leftarrow> step x s; run_steps step xs s }"

fun all_admissible :: "('op \<Rightarrow> 'v \<Rightarrow> bool) \<Rightarrow> ('op \<Rightarrow> 'v \<Rightarrow> 'v) \<Rightarrow> 'op list \<Rightarrow> 'v \<Rightarrow> bool" where
  "all_admissible adm sem [] v \<longleftrightarrow> True"
| "all_admissible adm sem (x # xs) v \<longleftrightarrow> adm x v \<and> all_admissible adm sem xs (sem x v)"

locale simulation =
  fixes good :: "'s \<Rightarrow> bool" and view :: "'s \<Rightarrow> 'v"
    and step :: "'op \<Rightarrow> 's \<Rightarrow> 's option" and adm :: "'op \<Rightarrow> 'v \<Rightarrow> bool" and sem :: "'op \<Rightarrow> 'v \<Rightarrow> 'v"
  assumes simulates: "good s \<Longrightarrow> adm x (view s) \<Longrightarrow> \<exists>s'. step x s = Some s' \<and> good s' \<and> view s' = sem x (view s)"
begin

lemma run:
  "good s \<Longrightarrow> all_admissible adm sem xs (view s) \<Longrightarrow>
     \<exists>s'. run_steps step xs s = Some s' \<and> good s' \<and> view s' = fold sem xs (view s)"
proof (induction xs arbitrary: s)
  case (Cons x xs)
  then obtain s' where s': "step x s = Some s'" "good s'" "view s' = sem x (view s)" using simulates [of s x] by auto
  with Cons.prems Cons.IH [of s'] show ?case by simp
qed simp

end

end
