(* ===== verification/Lzw.thy ===== *)
theory Lzw
  imports Prelude "HOL-Library.Sublist"
begin

text \<open>
  The LZW coder of \<open>clib/src/lzw\<close>: \<open>lzc.c\<close> (the compressor \<open>lzc\<close>) and \<open>lzuc.c\<close> (the
  decompressor \<open>lzuc\<close>).  Both keep a table of at most 4096 strings; an entry holds its last
  character and the index of its prefix (a C \<open>short\<close>, negative at a root).
\<close>

section \<open>The program\<close>

record lz_entry =
  ent_v :: byte
  ent_p :: int

definition TABLE_SIZE :: nat where "TABLE_SIZE = 4096"

fun initable_loop :: "nat list \<Rightarrow> lz_entry list \<Rightarrow> lz_entry list option" where
  "initable_loop [] table = Some table"
| "initable_loop (i # is) table = do {
     table \<leftarrow> awrite table i \<lparr>ent_v = word_of_nat i, ent_p = -1\<rparr>;
     initable_loop is table }"

text \<open>\<open>initable\<close> returns the table, the number of entries \<open>i\<close> and sets \<open>*bits\<close> to 8.\<close>

definition initable :: "lz_entry list \<Rightarrow> (lz_entry list \<times> nat \<times> nat) option" where
  "initable table = do {
     table \<leftarrow> initable_loop [0..<256] table;
     Some (table, 256, 8) }"

text \<open>
  The \<open>do .. while(1)\<close> of \<open>find\<close>: it compares \<open>in[-l]\<close> with the entry \<open>k\<close> and follows the
  prefix links.  \<open>base\<close> is the offset of \<open>in\<close> in the input; reading before the input is
  undefined.
\<close>

function find_chain :: "lz_entry list \<Rightarrow> byte list \<Rightarrow> nat \<Rightarrow> nat \<Rightarrow> nat \<Rightarrow> nat option" where
  "find_chain table inp base l k =
     (if base < l then None
      else do {
        c \<leftarrow> aread inp (base - l);
        e \<leftarrow> aread table k;
        if c \<noteq> ent_v e then Some 0
        else if ent_p e < 0 then Some (l + 1)
        else find_chain table inp base (l + 1) (nat (ent_p e)) })"
  by pat_completeness auto
termination by (relation "measure (\<lambda>(t, inp, base, l, k). base + 1 - l)") auto

declare find_chain.simps [simp del]

fun find_loop :: "lz_entry list \<Rightarrow> byte list \<Rightarrow> nat \<Rightarrow> nat \<Rightarrow> nat list \<Rightarrow> int option" where
  "find_loop table inp base n [] = Some (- 1)"
| "find_loop table inp base n (j # js) = do {
     l \<leftarrow> find_chain table inp base 0 j;
     if n = l then Some (int j) else find_loop table inp base n js }"

definition lz_find :: "lz_entry list \<Rightarrow> nat \<Rightarrow> byte list \<Rightarrow> nat \<Rightarrow> nat \<Rightarrow> int option" where
  "lz_find table tsz inp base n = find_loop table inp base n [0..<tsz]"

function writevl_loop ::
    "byte list \<Rightarrow> nat \<Rightarrow> nat \<Rightarrow> nat \<Rightarrow> nat \<Rightarrow> uint32 \<Rightarrow> byte list option" where
  "writevl_loop buf byp ebp bp wid val =
     (if byp * 8 < ebp then do {
        b \<leftarrow> aread buf byp;
        buf \<leftarrow> awrite buf byp
          (ucast (((ucast b :: uint32) AND NOT (push_bit (bp mod 8) (mask wid)))
                  OR push_bit (bp mod 8) val));
        writevl_loop buf (byp + 1) ebp (bp + (8 - bp mod 8)) (wid - (8 - bp mod 8))
          (drop_bit (8 - bp mod 8) val) }
      else Some buf)"
  by pat_completeness auto
termination by (relation "measure (\<lambda>(buf, byp, ebp, bp, wid, val). ebp - byp)") auto

declare writevl_loop.simps [simp del]

definition writevl :: "byte list \<Rightarrow> nat \<Rightarrow> nat \<Rightarrow> uint32 \<Rightarrow> byte list option" where
  "writevl buf bp wid val = writevl_loop buf (bp div 8) (bp + wid) bp wid (val AND mask wid)"

text \<open>The inner \<open>do .. while(0 <= j)\<close> of \<open>lzc\<close>: extend the match by one byte at a time.\<close>

function lzc_scan ::
    "lz_entry list \<Rightarrow> nat \<Rightarrow> byte list \<Rightarrow> nat \<Rightarrow> nat \<Rightarrow> int \<Rightarrow> nat \<Rightarrow> (int \<times> int \<times> nat) option" where
  "lzc_scan table i inp pos sz j n = do {
     let pre = j;
     j \<leftarrow> lz_find table i inp (pos + n - 1) n;
     let n = n + 1;
     if 0 \<le> j \<and> sz < n then Some (pre, j, n)
     else if 0 \<le> j then lzc_scan table i inp pos sz j n
     else Some (pre, j, n) }"
  by pat_completeness auto
termination by (relation "measure (\<lambda>(t, i, inp, pos, sz, j, n). sz + 1 - n)") auto

declare lzc_scan.simps [simp del]

text \<open>
  The outer \<open>while(sz)\<close> of \<open>lzc\<close>: \<open>pos\<close> is the offset of \<open>in\<close>, \<open>osz\<close> counts the output bits.
  \<open>bits\<close> is written only on the path that adds a table entry, so the last code of the input
  is written with the width left by the code before it.
\<close>

partial_function (option) lzc_loop ::
    "byte list \<Rightarrow> lz_entry list \<Rightarrow> nat \<Rightarrow> nat \<Rightarrow> nat \<Rightarrow> nat \<Rightarrow> nat \<Rightarrow> nat \<Rightarrow> byte list
     \<Rightarrow> (byte list \<times> nat) option" where
  "lzc_loop inp table pos sz i nexi bits osz ret =
     (if sz = 0 then Some (ret, osz)
      else do {
        c \<leftarrow> aread inp pos;
        (pre, j, n) \<leftarrow> lzc_scan table i inp pos sz (uint c) (if sz = 1 then 1 else 2);
        if 0 \<le> j then do {
          ret \<leftarrow> writevl ret osz bits (word_of_int j);
          Some (ret, osz + bits) }
        else do {
          let bits = bit_count (i - 1);
          ret \<leftarrow> writevl ret osz bits (word_of_int pre);
          let osz = osz + bits;
          (table, i, nexi, bits) \<leftarrow>
            (if 4096 \<le> nexi
             then do { (table, i, bits) \<leftarrow> initable table; Some (table, i, i, bits) }
             else Some (table, nexi, nexi, bits));
          d \<leftarrow> aread inp (pos + (n - 2));
          table \<leftarrow> awrite table i \<lparr>ent_v = d, ent_p = pre\<rparr>;
          lzc_loop inp table (pos + (n - 2)) (sz - (n - 2)) i (nexi + 1) bits osz ret } })"

text \<open>\<open>lzc\<close>: the block returned and \<open>*retsz\<close>.\<close>

definition lzc ::
    "(nat \<Rightarrow> byte) \<Rightarrow> (nat \<Rightarrow> lz_entry) \<Rightarrow> byte list \<Rightarrow> (byte list \<times> nat) option" where
  "lzc junk tjunk inp = do {
     (table, i, bits) \<leftarrow> initable (c_malloc tjunk TABLE_SIZE);
     (ret, osz) \<leftarrow> lzc_loop inp table 0 (length inp) i i bits 0 (c_malloc junk (length inp * 8));
     Some (ret, (osz + 7) div 8) }"

partial_function (option) lz_last :: "lz_entry list \<Rightarrow> nat \<Rightarrow> byte option" where
  "lz_last table i = do {
     e \<leftarrow> aread table i;
     if 0 \<le> ent_p e then lz_last table (nat (ent_p e)) else Some (word_of_nat i) }"

text \<open>The two loops of \<open>writestring\<close>: count the chain, then write it backwards.\<close>

partial_function (option) chain_count :: "lz_entry list \<Rightarrow> nat \<Rightarrow> nat \<Rightarrow> nat option" where
  "chain_count table j n = do {
     e \<leftarrow> aread table j;
     if ent_p e < 0 then Some n else chain_count table (nat (ent_p e)) (n + 1) }"

partial_function (option) chain_write ::
    "lz_entry list \<Rightarrow> nat \<Rightarrow> nat \<Rightarrow> byte list \<Rightarrow> byte list option" where
  "chain_write table j osz ret =
     (if osz = 0 then None
      else do {
        e \<leftarrow> aread table j;
        ret \<leftarrow> awrite ret (osz - 1) (ent_v e);
        if ent_p e < 0 then Some ret else chain_write table (nat (ent_p e)) (osz - 1) ret })"

definition writestring ::
    "(nat \<Rightarrow> byte) \<Rightarrow> lz_entry list \<Rightarrow> nat \<Rightarrow> byte list \<Rightarrow> nat \<Rightarrow> nat
     \<Rightarrow> (byte list \<times> nat \<times> nat) option" where
  "writestring junk table buf ret osz as = do {
     n \<leftarrow> chain_count table buf 1;
     let (ret, as) = (if as \<le> osz + n then (c_realloc junk ret (as + n), as + n) else (ret, as));
     let osz = osz + n;
     ret \<leftarrow> chain_write table buf osz ret;
     Some (ret, osz, as) }"

function readvl_loop :: "byte list \<Rightarrow> nat \<Rightarrow> nat \<Rightarrow> uint32 \<Rightarrow> nat \<Rightarrow> uint32 option" where
  "readvl_loop buf bp wid val vbp =
     (if 0 < wid then do {
        b \<leftarrow> aread buf (bp div 8);
        let bits = (if wid < 8 - bp mod 8 then wid else 8 - bp mod 8);
        readvl_loop buf (bp + bits) (wid - bits)
          (val OR push_bit vbp (drop_bit (bp mod 8) (ucast b) AND mask bits)) (vbp + bits) }
      else Some val)"
  by pat_completeness auto
termination
  by (relation "measure (\<lambda>(buf, bp, wid, val, vbp). wid)") auto

declare readvl_loop.simps [simp del]

definition readvl :: "byte list \<Rightarrow> nat \<Rightarrow> nat \<Rightarrow> uint32 option" where
  "readvl buf bp wid = readvl_loop buf bp wid 0 0"

partial_function (option) lzuc_loop ::
    "(nat \<Rightarrow> byte) \<Rightarrow> byte list \<Rightarrow> nat \<Rightarrow> lz_entry list \<Rightarrow> nat \<Rightarrow> nat \<Rightarrow> nat \<Rightarrow> nat \<Rightarrow> byte list
     \<Rightarrow> nat \<Rightarrow> nat \<Rightarrow> (byte list \<times> nat) option" where
  "lzuc_loop junk inp sz table i bits bp buf ret osz as =
     (if bp + bits \<le> sz * 8 then do {
        (table, i, bits) \<leftarrow> (if 4096 \<le> i then initable table else Some (table, i, bits));
        pre \<leftarrow> readvl inp bp bits;
        let bp = bp + bits;
        let bits = bit_count i;
        c \<leftarrow> lz_last table (unat pre);
        table \<leftarrow> awrite table i \<lparr>ent_v = c, ent_p = int buf\<rparr>;
        (ret, osz, as) \<leftarrow> writestring junk table buf ret osz as;
        lzuc_loop junk inp sz table (i + 1) bits bp (unat pre) ret osz as }
      else do {
        (ret, osz, as) \<leftarrow> writestring junk table buf ret osz as;
        Some (c_realloc junk ret osz, osz) })"

text \<open>\<open>lzuc\<close>: the input is the block \<open>inp\<close>, of which \<open>sz\<close> bytes are code; the result is the
  block returned and \<open>*retsz\<close>.\<close>

definition lzuc ::
    "(nat \<Rightarrow> byte) \<Rightarrow> (nat \<Rightarrow> lz_entry) \<Rightarrow> byte list \<Rightarrow> nat \<Rightarrow> (byte list \<times> nat) option" where
  "lzuc junk tjunk inp sz = do {
     (table, i, bits) \<leftarrow> initable (c_malloc tjunk TABLE_SIZE);
     buf \<leftarrow> readvl inp 0 bits;
     lzuc_loop junk inp sz table i bits bits (unat buf) (c_malloc junk (sz * 20)) 0 (sz * 20) }"

declare lzc_loop.simps [code] lz_last.simps [code] chain_count.simps [code]
  chain_write.simps [code] lzuc_loop.simps [code]

end
