(* ===== verification/Lzw_Bits.thy ===== *)
theory Lzw_Bits
  imports Lzw
begin

text \<open>
  The bit streams of the LZW coder: \<open>writevl\<close> and \<open>readvl\<close> seen through the sequence of
  bits of a buffer, and the contract \<open>code_channel\<close> under which a sequence of codes of varying
  widths is written and read back.  The contract is discharged for \<open>writevl\<close> and \<open>readvl\<close>
  for the widths up to 24 bits, where the shifts of the source stay inside an
  \<open>unsigned long\<close> of 32 bits.
\<close>

section \<open>The bits of a buffer\<close>

definition stream_bit :: "byte list \<Rightarrow> nat \<Rightarrow> bool" where
  "stream_bit buf i = bit (buf ! (i div 8)) (i mod 8)"

lemma bit_merge_byte:
  fixes b :: byte and val :: uint32
  assumes "k < 8" "sh + wid \<le> 32" "sh < 8"
    and "\<And>j. wid \<le> j \<Longrightarrow> \<not> bit val j"
  shows "bit (ucast (((ucast b :: uint32) AND NOT (push_bit sh (mask wid))) OR push_bit sh val) :: byte) k
     = (if sh \<le> k \<and> k < sh + wid then bit val (k - sh) else bit b k)"
  using assms
  by (auto simp: bit_unsigned_iff bit_or_iff bit_and_iff bit_not_iff bit_push_bit_iff bit_mask_iff)

lemma writevl_loop_step:
  assumes "byp * 8 < ebp" "byp < length buf" "d = 8 - bp mod 8"
  shows "writevl_loop buf byp ebp bp wid val =
     writevl_loop (buf[byp := ucast (((ucast (buf ! byp) :: uint32) AND NOT (push_bit (bp mod 8) (mask wid)))
                  OR push_bit (bp mod 8) val)]) (byp + 1) ebp (bp + d) (wid - d) (drop_bit d val)"
  using assms by (subst writevl_loop.simps) (simp add: mem_simps)

lemma writevl_loop_done: "\<not> byp * 8 < ebp \<Longrightarrow> writevl_loop buf byp ebp bp wid val = Some buf"
  by (subst writevl_loop.simps) simp

definition bits_written :: "byte list \<Rightarrow> nat \<Rightarrow> nat \<Rightarrow> uint32 \<Rightarrow> byte list \<Rightarrow> bool" where
  "bits_written buf bp ebp val buf' \<longleftrightarrow> length buf' = length buf \<and>
     (\<forall>i < 8 * length buf. stream_bit buf' i =
        (if bp \<le> i \<and> i < ebp then bit val (i - bp) else stream_bit buf i))"

lemma stream_bit_update:
  fixes val :: uint32
  assumes "i < 8 * length buf" "byp = bp div 8" "byp < length buf" "bp mod 8 + wid \<le> 32"
    and "\<And>j. wid \<le> j \<Longrightarrow> \<not> bit val j"
  shows "stream_bit (buf[byp := ucast (((ucast (buf ! byp) :: uint32) AND NOT (push_bit (bp mod 8) (mask wid)))
                  OR push_bit (bp mod 8) val)]) i =
     (if i div 8 = byp \<and> bp \<le> i \<and> i < bp + wid then bit val (i - bp) else stream_bit buf i)"
proof (cases "i div 8 = byp")
  case True
  define sh where "sh = bp mod 8"
  have dec: "i = 8 * byp + i mod 8" "bp = 8 * byp + sh"
    using True assms(2) unfolding sh_def by (metis div_mult_mod_eq mult.commute)+
  have "i mod 8 - sh = i - bp" using dec by linarith
  moreover have "(sh \<le> i mod 8 \<and> i mod 8 < sh + wid) = (bp \<le> i \<and> i < bp + wid)"
    using dec by linarith
  moreover have "sh < 8" by (simp add: sh_def)
  ultimately show ?thesis
    using True assms(3,4,5) bit_merge_byte [of "i mod 8" sh wid val "buf ! byp"]
    by (simp add: stream_bit_def flip: sh_def)
qed (simp add: stream_bit_def)

lemma writevl_loop_bits:
  assumes "byp = bp div 8" "ebp = bp + wid" "ebp \<le> 8 * length buf" "bp mod 8 + wid \<le> 32"
    and "\<And>j. wid \<le> j \<Longrightarrow> \<not> bit val j"
  shows "\<exists>buf'. writevl_loop buf byp ebp bp wid val = Some buf' \<and> bits_written buf bp ebp val buf'"
  using assms
proof (induction buf byp ebp bp wid val rule: writevl_loop.induct)
  case (1 buf byp ebp bp wid val)
  show ?case
  proof (cases "byp * 8 < ebp")
    case False
    then show ?thesis using "1.prems" by (auto simp: writevl_loop_done bits_written_def)
  next
    case True
    define d where "d = 8 - bp mod 8"
    let ?buf = "buf[byp := ucast (((ucast (buf ! byp) :: uint32) AND NOT (push_bit (bp mod 8) (mask wid)))
                  OR push_bit (bp mod 8) val)]"
    have byp: "byp < length buf" using True "1.prems" by linarith
    have "bp mod 8 < 8" "bp = 8 * byp + bp mod 8" using "1.prems"(1) by simp_all
    moreover have "0 < 8 - r \<and> bp + (8 - r) = 8 * (byp + 1)" if "r < 8" "bp = 8 * byp + r" for r
      using that by simp
    ultimately have d: "0 < d" "bp + d = 8 * (byp + 1)" unfolding d_def by blast+
    have sb: "stream_bit ?buf i = (if i div 8 = byp \<and> bp \<le> i \<and> i < ebp then bit val (i - bp) else stream_bit buf i)"
      if "i < 8 * length buf" for i
      using stream_bit_update [OF that "1.prems"(1) byp "1.prems"(4,5)] "1.prems"(2) by blast
    have here: "i div 8 = byp" if "bp \<le> i" "i < bp + d" for i
    proof (rule div_nat_eqI)
      show "8 * byp \<le> i" using that "1.prems"(1) by linarith
      show "i < 8 * Suc byp" using that d by simp
    qed
    note step = writevl_loop_step [OF True byp d_def, of wid val]
    show ?thesis
    proof (cases "d \<le> wid")
      case le: True
      have "\<exists>buf'. writevl_loop ?buf (byp + 1) ebp (bp + d) (wid - d) (drop_bit d val) = Some buf'
          \<and> bits_written ?buf (bp + d) ebp (drop_bit d val) buf'"
        unfolding d_def
      proof (rule "1.IH" [OF True])
        show "\<not> bit (drop_bit (8 - bp mod 8) val) j" if "wid - (8 - bp mod 8) \<le> j" for j
          using "1.prems"(5) that by (simp add: bit_drop_bit_eq)
      qed (use d le "1.prems" byp in \<open>simp_all add: mem_simps flip: d_def\<close>)
      then obtain buf' where buf': "writevl_loop buf byp ebp bp wid val = Some buf'"
          "length buf' = length buf"
          "\<And>i. i < 8 * length buf \<Longrightarrow> stream_bit buf' i =
             (if bp + d \<le> i \<and> i < ebp then bit val (d + (i - (bp + d))) else stream_bit ?buf i)"
        by (auto simp: step bits_written_def bit_drop_bit_eq)
      have "stream_bit buf' i = (if bp \<le> i \<and> i < ebp then bit val (i - bp) else stream_bit buf i)"
        if i: "i < 8 * length buf" for i
      proof (cases "bp + d \<le> i")
        case T: True
        then have "d + (i - (bp + d)) = i - bp" "bp \<le> i" "8 * (byp + 1) \<le> i" using d by linarith+
        moreover from this(3) have "i div 8 \<noteq> byp" by presburger
        ultimately show ?thesis using buf'(3) [OF i] sb [OF i] T by (simp only: simp_thms if_True if_False)
      next
        case F: False
        then show ?thesis using buf'(3) [OF i] sb [OF i] here [of i] by auto
      qed
      with buf' show ?thesis by (auto simp: bits_written_def)
    next
      case F: False
      then have "\<not> (byp + 1) * 8 < ebp" using d "1.prems"(2) by linarith
      then have "writevl_loop buf byp ebp bp wid val = Some ?buf"
        by (simp only: step writevl_loop_done not_False_eq_True)
      moreover have "i div 8 = byp" if "bp \<le> i" "i < ebp" for i
        using F that here [of i] "1.prems"(2) by linarith
      ultimately show ?thesis using sb by (auto simp: bits_written_def)
    qed
  qed
qed

lemma writevl_bits:
  assumes "bp + wid \<le> 8 * length buf" "wid \<le> 24"
  shows "\<exists>buf'. writevl buf bp wid val = Some buf' \<and> bits_written buf bp (bp + wid) val buf'"
proof -
  have "\<exists>buf'. writevl_loop buf (bp div 8) (bp + wid) bp wid (val AND mask wid) = Some buf'
     \<and> bits_written buf bp (bp + wid) (val AND mask wid) buf'"
    using assms by (intro writevl_loop_bits) (auto simp: bit_and_iff bit_mask_iff)
  moreover have "bit (val AND mask wid) (i - bp) = bit val (i - bp)" if "bp \<le> i" "i < bp + wid" for i
    using that assms(2) by (auto simp: bit_and_iff bit_mask_iff)
  ultimately show ?thesis
    unfolding writevl_def bits_written_def by (metis (no_types, lifting))
qed

lemma readvl_loop_step:
  assumes "0 < wid" "aread buf (bp div 8) = Some b"
    and "bits = (if wid < 8 - bp mod 8 then wid else 8 - bp mod 8)"
  shows "readvl_loop buf bp wid val vbp = readvl_loop buf (bp + bits) (wid - bits)
      (val OR push_bit vbp (drop_bit (bp mod 8) (ucast b) AND mask bits)) (vbp + bits)"
  using assms by (subst readvl_loop.simps) (simp only: Let_def Option.bind.bind_lunit if_True)

lemma readvl_loop_bits:
  assumes "bp + wid \<le> 8 * length buf" "vbp + wid \<le> 32"
    and "\<And>j. vbp \<le> j \<Longrightarrow> \<not> bit val j"
  shows "\<exists>r. readvl_loop buf bp wid val vbp = Some r
     \<and> (\<forall>j. bit r j = (if vbp \<le> j \<and> j < vbp + wid then stream_bit buf (bp + (j - vbp)) else bit val j))"
  using assms
proof (induction buf bp wid val vbp rule: readvl_loop.induct)
  case (1 buf bp wid val vbp)
  show ?case
  proof (cases "0 < wid")
    case False
    then show ?thesis by (subst readvl_loop.simps) auto
  next
    case True
    define s where "s = bp mod 8"
    define b where "b = buf ! (bp div 8)"
    define bits where "bits = (if wid < 8 - s then wid else 8 - s)"
    define val' where "val' = val OR push_bit vbp (drop_bit s (ucast b) AND mask bits)"
    have s8: "s < 8" by (simp add: s_def)
    have bits: "0 < bits" "bits \<le> wid" "s + bits \<le> 8" using True s8 by (auto simp: bits_def)
    have "bp div 8 < length buf" using True "1.prems"(1) by linarith
    then have ar: "aread buf (bp div 8) = Some b" by (simp add: mem_simps b_def)
    have sb: "stream_bit buf (bp + k) = bit b (s + k)" if "k < bits" for k
    proof -
      have "bp + k = 8 * (bp div 8) + (s + k)" by (simp add: s_def)
      moreover have "s + k < 8" using that bits by linarith
      moreover have "(8 * q + r) div 8 = q" "(8 * q + r) mod 8 = r" if "r < 8" for q r :: nat
        using that by simp_all
      ultimately have "(bp + k) div 8 = bp div 8" "(bp + k) mod 8 = s + k"
        by (simp_all only:)
      then show ?thesis by (simp add: stream_bit_def b_def)
    qed
    have vb: "bit val' j = (if vbp \<le> j \<and> j < vbp + bits then stream_bit buf (bp + (j - vbp)) else bit val j)" for j
      using "1.prems"(2,3) bits sb [of "j - vbp"] s8
      by (auto simp: val'_def bit_or_iff bit_push_bit_iff bit_and_iff bit_mask_iff bit_drop_bit_eq bit_unsigned_iff)
    have "\<exists>r. readvl_loop buf (bp + bits) (wid - bits) val' (vbp + bits) = Some r
     \<and> (\<forall>j. bit r j = (if vbp + bits \<le> j \<and> j < vbp + bits + (wid - bits) then stream_bit buf (bp + bits + (j - (vbp + bits))) else bit val' j))"
    proof (rule "1.IH" [OF True ar bits_def [unfolded s_def], folded s_def, folded val'_def])
      show "\<not> bit val' j" if "vbp + bits \<le> j" for j using vb [of j] that "1.prems"(3) by simp
    qed (use "1.prems" bits in auto)
    then obtain r where r: "readvl_loop buf (bp + bits) (wid - bits) val' (vbp + bits) = Some r"
      "\<And>j. bit r j = (if vbp + bits \<le> j \<and> j < vbp + bits + (wid - bits) then stream_bit buf (bp + bits + (j - (vbp + bits))) else bit val' j)"
      by auto
    have "readvl_loop buf bp wid val vbp = Some r"
      using readvl_loop_step [OF True ar bits_def [unfolded s_def], of val vbp] r(1)
      by (simp only: s_def val'_def)
    moreover have "bit r j = (if vbp \<le> j \<and> j < vbp + wid then stream_bit buf (bp + (j - vbp)) else bit val j)" for j
      using bits by (auto simp: r(2) vb)
    ultimately show ?thesis by blast
  qed
qed

lemma readvl_bits:
  assumes "bp + wid \<le> 8 * length buf" "wid \<le> 32"
  shows "\<exists>r. readvl buf bp wid = Some r \<and> (\<forall>j. bit r j = (j < wid \<and> stream_bit buf (bp + j)))"
  using readvl_loop_bits [of bp wid buf 0 0] assms by (auto simp: readvl_def)

section \<open>Sequences of codes\<close>

fun put_all :: "('b \<Rightarrow> nat \<Rightarrow> nat \<Rightarrow> uint32 \<Rightarrow> 'b option) \<Rightarrow> 'b \<Rightarrow> nat \<Rightarrow> (nat \<times> uint32) list \<Rightarrow> ('b \<times> nat) option" where
  "put_all put b bp [] = Some (b, bp)"
| "put_all put b bp ((w, v) # cs) = do { b \<leftarrow> put b bp w v; put_all put b (bp + w) cs }"

fun get_all :: "('b \<Rightarrow> nat \<Rightarrow> nat \<Rightarrow> uint32 option) \<Rightarrow> 'b \<Rightarrow> nat \<Rightarrow> nat list \<Rightarrow> uint32 list option" where
  "get_all get b bp [] = Some []"
| "get_all get b bp (w # ws) = do { v \<leftarrow> get b bp w; vs \<leftarrow> get_all get b (bp + w) ws; Some (v # vs) }"

locale code_channel =
  fixes put :: "'b \<Rightarrow> nat \<Rightarrow> nat \<Rightarrow> uint32 \<Rightarrow> 'b option"
    and get :: "'b \<Rightarrow> nat \<Rightarrow> nat \<Rightarrow> uint32 option"
    and cap :: "'b \<Rightarrow> nat"
  assumes put_total: "bp + w \<le> cap b \<Longrightarrow> w \<le> 24 \<Longrightarrow> \<exists>b'. put b bp w v = Some b' \<and> cap b' = cap b"
    and get_put_same: "bp + w \<le> cap b \<Longrightarrow> w \<le> 24 \<Longrightarrow> put b bp w v = Some b' \<Longrightarrow>
          get b' bp w = Some (v AND mask w)"
    and get_put_before: "bp + w \<le> cap b \<Longrightarrow> w \<le> 24 \<Longrightarrow> put b bp w v = Some b' \<Longrightarrow>
          q + u \<le> bp \<Longrightarrow> u \<le> 24 \<Longrightarrow> get b' q u = get b q u"
begin

lemma put_all_total:
  "bp + sum_list (map fst cs) \<le> cap b \<Longrightarrow> \<forall>c \<in> set cs. fst c \<le> 24 \<Longrightarrow>
     \<exists>b'. put_all put b bp cs = Some (b', bp + sum_list (map fst cs)) \<and> cap b' = cap b"
proof (induction cs arbitrary: b bp)
  case Nil
  then show ?case by simp
next
  case (Cons c cs)
  obtain w v where c: "c = (w, v)" by (cases c)
  from Cons.prems c have "bp + w \<le> cap b" "w \<le> 24" by auto
  from put_total [OF this] obtain b1 where b1: "put b bp w v = Some b1" "cap b1 = cap b" by blast
  have "bp + w + sum_list (map fst cs) \<le> cap b1" using Cons.prems(1) c b1(2) by simp
  moreover have "\<forall>c \<in> set cs. fst c \<le> 24" using Cons.prems(2) by simp
  ultimately show ?case using Cons.IH [of "bp + w" b1] b1 c by (simp add: add.assoc)
qed

lemma get_put_all_before:
  "put_all put b bp cs = Some (b', e) \<Longrightarrow> bp + sum_list (map fst cs) \<le> cap b \<Longrightarrow>
     \<forall>c \<in> set cs. fst c \<le> 24 \<Longrightarrow> q + u \<le> bp \<Longrightarrow> u \<le> 24 \<Longrightarrow> get b' q u = get b q u"
proof (induction cs arbitrary: b bp)
  case Nil
  then show ?case by simp
next
  case (Cons c cs)
  obtain w v where c: "c = (w, v)" by (cases c)
  from Cons.prems c have w: "bp + w \<le> cap b" "w \<le> 24" by auto
  from put_total [OF this] obtain b1 where b1: "put b bp w v = Some b1" "cap b1 = cap b" by blast
  have "get b' q u = get b1 q u"
    using Cons.prems c b1 by (intro Cons.IH [of b1 "bp + w"]) (auto simp: add.assoc)
  also have "\<dots> = get b q u" using get_put_before [OF w b1(1)] Cons.prems by blast
  finally show ?case .
qed

theorem get_all_put_all:
  "put_all put b bp cs = Some (b', e) \<Longrightarrow> bp + sum_list (map fst cs) \<le> cap b \<Longrightarrow>
     \<forall>c \<in> set cs. fst c \<le> 24 \<Longrightarrow>
     get_all get b' bp (map fst cs) = Some (map (\<lambda>(w, v). v AND mask w) cs)"
proof (induction cs arbitrary: b bp)
  case Nil
  then show ?case by simp
next
  case (Cons c cs)
  obtain w v where c: "c = (w, v)" by (cases c)
  from Cons.prems c have w: "bp + w \<le> cap b" "w \<le> 24" by auto
  from put_total [OF this] obtain b1 where b1: "put b bp w v = Some b1" "cap b1 = cap b" by blast
  have rest: "put_all put b1 (bp + w) cs = Some (b', e)" "bp + w + sum_list (map fst cs) \<le> cap b1"
      "\<forall>c \<in> set cs. fst c \<le> 24"
    using Cons.prems c b1 by (auto simp: add.assoc)
  have "get b' bp w = get b1 bp w"
    using get_put_all_before [OF rest] w(2) by simp
  then have "get b' bp w = Some (v AND mask w)" using get_put_same [OF w b1(1)] by simp
  with Cons.IH [OF rest] c show ?case by simp
qed

end

interpretation lz_bits: code_channel writevl readvl "\<lambda>buf. 8 * length buf"
proof
  fix bp w :: nat and b :: "byte list" and v :: uint32
  assume "bp + w \<le> 8 * length b" "w \<le> 24"
  then show "\<exists>b'. writevl b bp w v = Some b' \<and> 8 * length b' = 8 * length b"
    using writevl_bits [of bp w b v] by (auto simp: bits_written_def)
next
  fix bp w :: nat and b b' :: "byte list" and v :: uint32
  assume a: "bp + w \<le> 8 * length b" "w \<le> 24" "writevl b bp w v = Some b'"
  then have bw: "bits_written b bp (bp + w) v b'" using writevl_bits [of bp w b v] by auto
  obtain r where r: "readvl b' bp w = Some r" "\<And>j. bit r j = (j < w \<and> stream_bit b' (bp + j))"
    using readvl_bits [of bp w b'] a bw by (auto simp: bits_written_def)
  have "r = v AND mask w"
  proof (rule bit_word_eqI)
    fix j assume "j < LENGTH(32)"
    then show "bit r j = bit (v AND mask w) j"
      using a bw by (auto simp: r(2) bits_written_def bit_and_iff bit_mask_iff)
  qed
  with r(1) show "readvl b' bp w = Some (v AND mask w)" by simp
next
  fix bp w q u :: nat and b b' :: "byte list" and v :: uint32
  assume a: "bp + w \<le> 8 * length b" "w \<le> 24" "writevl b bp w v = Some b'" "q + u \<le> bp" "u \<le> 24"
  then have bw: "bits_written b bp (bp + w) v b'" using writevl_bits [of bp w b v] by auto
  obtain r where r: "readvl b' q u = Some r" "\<And>j. bit r j = (j < u \<and> stream_bit b' (q + j))"
    using readvl_bits [of q u b'] a bw by (auto simp: bits_written_def)
  obtain r' where r': "readvl b q u = Some r'" "\<And>j. bit r' j = (j < u \<and> stream_bit b (q + j))"
    using readvl_bits [of q u b] a by auto
  have "r = r'"
  proof (rule bit_word_eqI)
    fix j assume "j < LENGTH(32)"
    then show "bit r j = bit r' j"
      using a bw by (auto simp: r(2) r'(2) bits_written_def)
  qed
  with r r' show "readvl b' q u = readvl b q u" by simp
qed

end
