(* ===== verification/Lzw_Dict.thy ===== *)
theory Lzw_Dict
  imports Lzw
begin

text \<open>
  The dictionary that the LZW table stands for: \<open>lz_dict t m\<close> is the list of the strings of
  the first \<open>m\<close> entries, under the invariant \<open>lz_wf\<close> that every prefix link points to an
  earlier entry.  The searches of \<open>lzc.c\<close> are searches in this list, and \<open>lz_parse\<close> is the
  greedy factorisation that the compressor computes.
\<close>

section \<open>The strings of a table\<close>

function lz_string :: "lz_entry list \<Rightarrow> nat \<Rightarrow> byte list" where
  "lz_string t k =
     (if 0 \<le> ent_p (t ! k) \<and> nat (ent_p (t ! k)) < k then lz_string t (nat (ent_p (t ! k))) else [])
     @ [ent_v (t ! k)]"
  by pat_completeness auto
termination by (relation "measure snd") auto

declare lz_string.simps [simp del]

definition lz_wf :: "lz_entry list \<Rightarrow> nat \<Rightarrow> bool" where
  "lz_wf t m \<longleftrightarrow> length t = 4096 \<and> 256 \<le> m \<and> m \<le> 4096
     \<and> (\<forall>k < 256. t ! k = \<lparr>ent_v = word_of_nat k, ent_p = - 1\<rparr>)
     \<and> (\<forall>k. 256 \<le> k \<and> k < m \<longrightarrow> 0 \<le> ent_p (t ! k) \<and> nat (ent_p (t ! k)) < k)"

definition lz_dict :: "lz_entry list \<Rightarrow> nat \<Rightarrow> byte list list" where
  "lz_dict t m = map (lz_string t) [0..<m]"

definition lz_roots :: "byte list list" where
  "lz_roots = map (\<lambda>k. [word_of_nat k]) [0..<256]"

lemma length_lz_dict [simp]: "length (lz_dict t m) = m"
  by (simp add: lz_dict_def)

lemma lz_dict_nth [simp]: "k < m \<Longrightarrow> lz_dict t m ! k = lz_string t k"
  by (simp add: lz_dict_def)

lemma lz_string_nonempty [simp]: "lz_string t k \<noteq> []"
  by (subst lz_string.simps) simp

lemma lz_string_root: "lz_wf t m \<Longrightarrow> k < 256 \<Longrightarrow> lz_string t k = [word_of_nat k]"
  by (subst lz_string.simps) (simp add: lz_wf_def)

lemma lz_string_step:
  "lz_wf t m \<Longrightarrow> k < m \<Longrightarrow> 0 \<le> ent_p (t ! k) \<Longrightarrow>
     lz_string t k = lz_string t (nat (ent_p (t ! k))) @ [ent_v (t ! k)]"
  by (subst lz_string.simps) (cases "k < 256"; simp add: lz_wf_def)

lemma lz_string_neg: "ent_p (t ! k) < 0 \<Longrightarrow> lz_string t k = [ent_v (t ! k)]"
  by (subst lz_string.simps) simp

lemma lz_wf_parent:
  "lz_wf t m \<Longrightarrow> k < m \<Longrightarrow> 0 \<le> ent_p (t ! k) \<Longrightarrow> nat (ent_p (t ! k)) < k"
  by (cases "k < 256") (simp_all add: lz_wf_def)

lemma lz_wf_length: "lz_wf t m \<Longrightarrow> k < m \<Longrightarrow> k < length t"
  by (simp add: lz_wf_def)

lemma lz_string_update: "k < i \<Longrightarrow> lz_string (t[i := e]) k = lz_string t k"
proof (induction k rule: less_induct)
  case (less k)
  then show ?case
    by (subst (1 2) lz_string.simps) auto
qed

lemma lz_dict_roots: "lz_wf t m \<Longrightarrow> lz_dict t 256 = lz_roots"
  by (simp add: lz_dict_def lz_roots_def lz_string_root)

lemma lz_wf_extend:
  assumes "lz_wf t m" "m < 4096" "q < m"
  shows "lz_wf (t[m := \<lparr>ent_v = c, ent_p = int q\<rparr>]) (Suc m)"
  using assms by (auto simp: lz_wf_def nth_list_update)

lemma lz_dict_extend:
  assumes "lz_wf t m" "m < 4096" "q < m"
  shows "lz_dict (t[m := \<lparr>ent_v = c, ent_p = int q\<rparr>]) (Suc m) = lz_dict t m @ [lz_dict t m ! q @ [c]]"
proof -
  let ?t = "t[m := \<lparr>ent_v = c, ent_p = int q\<rparr>]"
  have "lz_string ?t m = lz_string ?t q @ [c]"
    using lz_string_step [OF lz_wf_extend [OF assms, of c], of m] assms by (simp add: lz_wf_def)
  then show ?thesis
    using assms(3) by (simp add: lz_dict_def lz_string_update)
qed

lemma initable_loop_spec:
  "\<forall>i \<in> set is. i < length t \<Longrightarrow> \<exists>t'. initable_loop is t = Some t' \<and> length t' = length t
     \<and> (\<forall>k < length t. t' ! k = (if k \<in> set is then \<lparr>ent_v = word_of_nat k, ent_p = - 1\<rparr> else t ! k))"
proof (induction "is" arbitrary: t)
  case Nil
  then show ?case by simp
next
  case (Cons i "is")
  let ?t = "t[i := \<lparr>ent_v = word_of_nat i, ent_p = - 1\<rparr>]"
  have "\<forall>i \<in> set is. i < length ?t" using Cons.prems by simp
  from Cons.IH [OF this] obtain t' where "initable_loop is ?t = Some t'" "length t' = length t"
    "\<forall>k < length t. t' ! k = (if k \<in> set is then \<lparr>ent_v = word_of_nat k, ent_p = - 1\<rparr> else ?t ! k)"
    by auto
  with Cons.prems show ?case by (auto simp: mem_simps nth_list_update)
qed

lemma initable_spec:
  assumes "length t = 4096"
  shows "\<exists>t'. initable t = Some (t', 256, 8) \<and> lz_wf t' 256 \<and> lz_dict t' 256 = lz_roots"
proof -
  have "\<forall>i \<in> set [0..<256]. i < length t" using assms by simp
  from initable_loop_spec [OF this] obtain t' where t': "initable_loop [0..<256] t = Some t'"
    "length t' = 4096" "\<forall>k < 4096. k < 256 \<longrightarrow> t' ! k = \<lparr>ent_v = word_of_nat k, ent_p = - 1\<rparr>"
    using assms by auto
  then have "lz_wf t' 256" by (simp add: lz_wf_def)
  with t'(1) lz_dict_roots show ?thesis by (auto simp: initable_def)
qed

lemma find_chain_spec:
  assumes "lz_wf t m" "k < m" "base < length inp" "l + length (lz_string t k) \<le> base + 1"
  shows "find_chain t inp base l k =
     Some (if suffix (lz_string t k) (take (base + 1 - l) inp) then l + length (lz_string t k) else 0)"
  using assms(2,4)
proof (induction k arbitrary: l rule: less_induct)
  case (less k)
  have "0 < length (lz_string t k)" by simp
  with less.prems have l: "l \<le> base" by linarith
  define q where "q = base - l"
  have q: "q < length inp" using assms(3) by (simp add: q_def)
  have tk: "take (Suc base - l) inp = take q inp @ [inp ! q]"
    using l q by (simp add: q_def Suc_diff_le take_Suc_conv_app_nth)
  note unfold = find_chain.simps [of t inp base l k]
  have ar: "aread inp (base - l) = Some (inp ! q)" "aread t k = Some (t ! k)"
    using q less.prems lz_wf_length [OF assms(1)] by (simp_all add: mem_simps q_def)
  show ?case
  proof (cases "0 \<le> ent_p (t ! k)")
    case False
    then show ?thesis
      using l ar by (auto simp: unfold tk lz_string_neg)
  next
    case True
    let ?p = "nat (ent_p (t ! k))"
    have s: "lz_string t k = lz_string t ?p @ [ent_v (t ! k)]"
      by (rule lz_string_step [OF assms(1) less.prems(1) True])
    have p: "?p < k" by (rule lz_wf_parent [OF assms(1) less.prems(1) True])
    have tk': "take (base + 1 - (l + 1)) inp = take q inp" by (simp add: q_def)
    have "find_chain t inp base (l + 1) ?p = Some (if suffix (lz_string t ?p) (take (base + 1 - (l + 1)) inp)
        then l + 1 + length (lz_string t ?p) else 0)"
      by (rule less.IH) (use p less.prems s in auto)
    then show ?thesis
      using True l ar by (auto simp: unfold tk s tk' simp flip: q_def)
  qed
qed

lemma suffix_of_length:
  assumes "length w = b" "n \<le> b"
  shows "(suffix s w \<and> length s = n) = (s = drop (b - n) w)"
  using assms by (auto simp: suffix_drop) (auto simp: suffix_def)

definition first_of :: "nat list \<Rightarrow> int" where
  "first_of js = (case js of [] \<Rightarrow> - 1 | j # _ \<Rightarrow> int j)"

definition lz_index :: "byte list list \<Rightarrow> byte list \<Rightarrow> int" where
  "lz_index D s = first_of (filter (\<lambda>j. D ! j = s) [0..<length D])"

lemma find_loop_spec:
  assumes "lz_wf t m" "set js \<subseteq> {..<m}" "base < length inp" "0 < n" "n \<le> base + 1"
    and "\<And>j. j \<in> set js \<Longrightarrow> length (lz_string t j) \<le> base + 1"
  shows "find_loop t inp base n js =
     Some (first_of (filter (\<lambda>j. lz_string t j = drop (base + 1 - n) (take (base + 1) inp)) js))"
  using assms(2,6)
proof (induction js)
  case Nil
  then show ?case by (simp add: first_of_def)
next
  case (Cons j js)
  define w where "w = take (base + 1) inp"
  have "length w = base + 1" using assms(3) by (simp add: w_def)
  then have eq: "(suffix (lz_string t j) w \<and> length (lz_string t j) = n) =
      (lz_string t j = drop (base + 1 - n) w)"
    using assms(5) by (intro suffix_of_length)
  have chain: "find_chain t inp base 0 j = Some (if suffix (lz_string t j) w then length (lz_string t j) else 0)"
    using find_chain_spec [OF assms(1) _ assms(3), of j 0] Cons.prems by (simp add: w_def)
  have IH: "find_loop t inp base n js =
     Some (first_of (filter (\<lambda>j. lz_string t j = drop (base + 1 - n) w) js))"
    using Cons by (simp add: w_def)
  show ?case
  proof (cases "lz_string t j = drop (base + 1 - n) w")
    case True
    then have "find_chain t inp base 0 j = Some n" using chain eq by simp
    then show ?thesis unfolding w_def [symmetric] using True by (simp add: first_of_def)
  next
    case False
    then have "find_chain t inp base 0 j \<noteq> Some n" using chain eq assms(4) by auto
    then show ?thesis unfolding w_def [symmetric] using False IH chain by (simp add: first_of_def)
  qed
qed

lemma lz_find_spec:
  assumes "lz_wf t m" "i \<le> m" "0 < n" "n \<le> length xs" "drop pos inp = xs" "xs \<noteq> []"
    and "\<And>j. j < i \<Longrightarrow> length (lz_string t j) \<le> pos + 1"
  shows "lz_find t i inp (pos + n - 1) n = Some (lz_index (lz_dict t i) (take n xs))"
proof -
  have pos: "pos + length xs = length inp" using assms(5,6)
    by (metis add.commute drop_eq_Nil2 le_add_diff_inverse2 length_drop nle_le)
  have w: "drop (pos + n - 1 + 1 - n) (take (pos + n - 1 + 1) inp) = take n xs"
    using assms(3,5) by (auto simp: take_drop add.commute)
  have len: "length (lz_string t j) \<le> pos + n - 1 + 1" if "j < i" for j
    using assms(3) assms(7) [OF that] by simp
  have "lz_find t i inp (pos + n - 1) n = Some (first_of (filter (\<lambda>j. lz_string t j = take n xs) [0..<i]))"
    unfolding lz_find_def w [symmetric]
    by (rule find_loop_spec [OF assms(1)]) (use assms pos len in auto)
  also have "filter (\<lambda>j. lz_string t j = take n xs) [0..<i] = filter (\<lambda>j. lz_dict t i ! j = take n xs) [0..<i]"
    by (rule filter_cong) auto
  finally show ?thesis by (simp add: lz_index_def)
qed

section \<open>The greedy factorisation\<close>

function lz_match :: "byte list list \<Rightarrow> byte list \<Rightarrow> nat \<Rightarrow> nat" where
  "lz_match D xs n = (if n < length xs \<and> take (Suc n) xs \<in> set D then lz_match D xs (Suc n) else n)"
  by pat_completeness auto
termination by (relation "measure (\<lambda>(D, xs, n). length xs - n)") auto

declare lz_match.simps [simp del]

lemma lz_match_ge: "n \<le> lz_match D xs n"
proof (induction D xs n rule: lz_match.induct)
  case (1 D xs n)
  then show ?case by (subst lz_match.simps) auto
qed

lemma lz_match_le: "n \<le> length xs \<Longrightarrow> lz_match D xs n \<le> length xs"
proof (induction D xs n rule: lz_match.induct)
  case (1 D xs n)
  then show ?case by (subst lz_match.simps) auto
qed

lemma lz_match_mem: "take n xs \<in> set D \<Longrightarrow> take (lz_match D xs n) xs \<in> set D"
proof (induction D xs n rule: lz_match.induct)
  case (1 D xs n)
  then show ?case by (subst lz_match.simps) auto
qed

text \<open>The reference parse.\<close>

function lz_parse :: "byte list list \<Rightarrow> byte list \<Rightarrow> byte list \<Rightarrow> nat list" where
  "lz_parse D prev xs =
     (if xs = [] then []
      else let L = lz_match D xs 1
           in nat (lz_index D (take L xs))
              # lz_parse (if prev = [] then D else D @ [prev @ [hd xs]]) (take L xs) (drop L xs))"
  by pat_completeness auto
termination
proof (relation "measure (\<lambda>(D, prev, xs). length xs)", goal_cases)
  case (2 D prev xs L)
  then show ?case using lz_match_ge [of 1 D xs] by simp
qed simp

declare lz_parse.simps [simp del]

lemma byte_unat_less: "unat (c :: byte) < 256"
  using unsigned_less [of c, where ?'a = nat] by simp

definition lz_full :: "byte list list \<Rightarrow> bool" where
  "lz_full D \<longleftrightarrow> (\<forall>c. [c] \<in> set D)"

lemma lz_full_append [simp]: "lz_full D \<Longrightarrow> lz_full (D @ E)"
  by (simp add: lz_full_def)

lemma take_one: "xs \<noteq> [] \<Longrightarrow> take (Suc 0) xs = [hd xs]"
  by (cases xs) auto

lemma lz_full_match: "lz_full D \<Longrightarrow> xs \<noteq> [] \<Longrightarrow> take (lz_match D xs 1) xs \<in> set D"
  by (rule lz_match_mem) (simp add: take_one lz_full_def)

lemma lz_roots_full [simp]: "lz_full lz_roots"
proof -
  have "[c] \<in> set lz_roots" for c :: byte
  proof -
    have "unat c < 256" by (rule byte_unat_less)
    then show ?thesis by (auto simp: lz_roots_def image_iff intro!: bexI [of _ "unat c"])
  qed
  then show ?thesis by (simp add: lz_full_def)
qed

lemma lz_index_nonneg: "s \<in> set D \<Longrightarrow> 0 \<le> lz_index D s \<and> nat (lz_index D s) < length D \<and> D ! nat (lz_index D s) = s"
proof -
  assume "s \<in> set D"
  then have "filter (\<lambda>j. D ! j = s) [0..<length D] \<noteq> []"
    by (auto simp: filter_empty_conv in_set_conv_nth)
  then obtain j js where "filter (\<lambda>j. D ! j = s) [0..<length D] = j # js" by (cases "filter (\<lambda>j. D ! j = s) [0..<length D]") auto
  moreover from this have "j \<in> set (filter (\<lambda>j. D ! j = s) [0..<length D])"
    by (metis list.set_intros(1))
  then have "j < length D \<and> D ! j = s" by simp
  ultimately show ?thesis by (simp add: lz_index_def first_of_def)
qed

lemma lz_index_absent: "s \<notin> set D \<Longrightarrow> lz_index D s = - 1"
  by (auto simp: lz_index_def first_of_def filter_empty_conv in_set_conv_nth split: list.split
      dest!: Cons_eq_filterD)

lemma lz_index_root:
  assumes "lz_wf t m" "256 \<le> i" "i \<le> m"
  shows "lz_index (lz_dict t i) [c] = uint c"
proof -
  let ?P = "\<lambda>j. lz_dict t i ! j = [c]"
  have c: "unat c < 256" by (rule byte_unat_less)
  obtain d where "i = unat c + Suc d"
    using c assms(2) by (metis add_Suc_right less_imp_Suc_add less_le_trans)
  then have "[0..<i] = [0..<unat c] @ unat c # [Suc (unat c)..<i]"
    using upt_add_eq_append [of 0 "unat c" "Suc d"] by (simp add: upt_conv_Cons del: upt_Suc)
  moreover have "filter ?P [0..<unat c] = []"
  proof -
    have "lz_string t j \<noteq> [c]" if "j < unat c" for j
      using that c lz_string_root [OF assms(1), of j] by (auto simp: word_unat_eq_iff unat_of_nat)
    then show ?thesis using c assms(2) by (auto simp: filter_empty_conv)
  qed
  moreover have "?P (unat c)" using c assms by (simp add: lz_string_root)
  ultimately show ?thesis by (simp add: lz_index_def first_of_def)
qed

lemma lzc_scan_spec:
  assumes "lz_wf t m" "i \<le> m" "drop pos inp = xs" "length xs = sz" "xs \<noteq> []"
    and "\<And>j. j < i \<Longrightarrow> length (lz_string t j) \<le> pos + 1"
    and "0 < n" "n \<le> sz"
  shows "lzc_scan t i inp pos sz j n =
    (let L = lz_match (lz_dict t i) xs (n - 1)
     in if L = sz then Some (if sz = n then j else lz_index (lz_dict t i) (take (sz - 1) xs), lz_index (lz_dict t i) xs, sz + 1)
        else Some (if L = n - 1 then j else lz_index (lz_dict t i) (take L xs), - 1, L + 2))"
  using assms(7,8)
proof (induction "sz - n" arbitrary: n j rule: less_induct)
  case less
  let ?D = "lz_dict t i"
  have find: "lz_find t i inp (pos + n - Suc 0) n = Some (lz_index ?D (take n xs))"
    using less.prems assms lz_find_spec [of t m i n xs pos inp] by simp
  have n: "Suc (n - Suc 0) = n" using less.prems by simp
  note unf = lzc_scan.simps [of t i inp pos sz j n] find
  show ?case
  proof (cases "take n xs \<in> set ?D")
    case False
    then have "lz_match ?D xs (n - 1) = n - 1" by (subst lz_match.simps) (simp add: n)
    moreover have "n - 1 \<noteq> sz" using less.prems by linarith
    ultimately show ?thesis using False less.prems
      by (simp add: unf lz_index_absent)
  next
    case True
    then have m: "lz_match ?D xs (n - Suc 0) = lz_match ?D xs n"
      using less.prems assms(4) by (subst lz_match.simps) (auto simp: n)
    have pos: "0 \<le> lz_index ?D (take n xs)" using lz_index_nonneg [OF True] by simp
    show ?thesis
    proof (cases "n = sz")
      case True
      then have "lz_match ?D xs n = sz" using assms(4) by (subst lz_match.simps) simp
      then show ?thesis
        unfolding lzc_scan.simps [of t i inp pos sz j n]
        using True pos assms(4) find m by simp
    next
      case False
      then have IH: "lzc_scan t i inp pos sz (lz_index ?D (take n xs)) (n + 1) =
        (let L = lz_match ?D xs n
         in if L = sz then Some (if sz = n + 1 then lz_index ?D (take n xs) else lz_index ?D (take (sz - 1) xs), lz_index ?D xs, sz + 1)
            else Some (if L = n then lz_index ?D (take n xs) else lz_index ?D (take L xs), - 1, L + 2))"
        using less.hyps [of "n + 1"] less.prems by (simp add: Let_def)
      have "n \<le> lz_match ?D xs n" by (rule lz_match_ge)
      then show ?thesis using False pos less.prems IH
        by (auto simp: unf m Let_def)
    qed
  qed
qed

end
