(* ===== verification/Lzw_Correct.thy ===== *)
theory Lzw_Correct
  imports Lzw_Bits Lzw_Dict
begin

text \<open>
  The compressor writes the codes of the greedy factorisation, the decompressor reads them back
  and rebuilds the input.  The theorems cover the inputs of at most 3841 codes, for which the
  dictionary is not restarted.
\<close>

section \<open>The compressor\<close>

lemma lzc_scan_start:
  assumes "lz_wf t m" "256 \<le> i" "i \<le> m" "drop pos inp = xs" "xs \<noteq> []" "lz_full (lz_dict t i)"
    and "\<And>j. j < i \<Longrightarrow> length (lz_string t j) \<le> pos + 1"
    and "L = lz_match (lz_dict t i) xs 1"
  shows "\<exists>pre. lzc_scan t i inp pos (length xs) (uint (hd xs)) (if length xs = 1 then 1 else 2) =
    Some (if L = length xs then (pre, lz_index (lz_dict t i) xs, length xs + 1)
          else (lz_index (lz_dict t i) (take L xs), - 1, L + 2))"
proof -
  let ?D = "lz_dict t i" and ?n = "if length xs = 1 then 1 else (2::nat)"
  have t1: "take (Suc 0) xs = [hd xs]" by (rule take_one [OF assms(5)])
  have "0 < length xs" using assms(5) by simp
  have "lz_match ?D xs (?n - 1) = L"
  proof (cases "length xs = 1")
    case True
    then have "lz_match ?D xs 0 = lz_match ?D xs (Suc 0)"
      using assms(6) \<open>0 < length xs\<close> by (subst lz_match.simps) (simp add: t1 lz_full_def)
    with True assms(8) show ?thesis by simp
  qed (simp add: assms(8))
  moreover have "lz_index ?D (take L xs) = uint (hd xs)" if "L = ?n - 1" "L \<noteq> length xs"
  proof -
    have "1 \<le> L" unfolding assms(8) by (rule lz_match_ge)
    then have "L = Suc 0" using that by (auto split: if_splits)
    then show ?thesis using lz_index_root [OF assms(1,2,3)] by (simp add: t1)
  qed
  moreover have "?n \<le> length xs" "0 < ?n" using \<open>0 < length xs\<close> by (cases "length xs"; simp)+
  ultimately show ?thesis
    using lzc_scan_spec [OF assms(1,3,4) refl assms(5,7), of ?n "uint (hd xs)"] by (auto simp: Let_def)
qed

fun lz_widths :: "nat \<Rightarrow> bool \<Rightarrow> nat \<Rightarrow> nat \<Rightarrow> nat list" where
  "lz_widths d first bits 0 = []"
| "lz_widths d first bits (Suc 0) = [bits]"
| "lz_widths d first bits (Suc (Suc m)) =
     bit_count (d - 1) # lz_widths (if first then d else d + 1) False (bit_count (d - 1)) (Suc m)"

definition lz_ext :: "byte list list \<Rightarrow> byte list \<Rightarrow> byte list \<Rightarrow> byte list list" where
  "lz_ext D prev xs = (if prev = [] then D else D @ [prev @ [hd xs]])"

lemma lz_parse_step:
  "xs \<noteq> [] \<Longrightarrow> L = lz_match D xs 1 \<Longrightarrow>
     lz_parse D prev xs = nat (lz_index D (take L xs)) # lz_parse (lz_ext D prev xs) (take L xs) (drop L xs)"
  by (subst lz_parse.simps) (simp add: lz_ext_def Let_def)

lemma lz_parse_Nil [simp]: "lz_parse D prev [] = []"
  by (subst lz_parse.simps) simp

lemma lz_parse_Cons_iff: "xs \<noteq> [] \<Longrightarrow> \<exists>c cs. lz_parse D prev xs = c # cs"
  using lz_parse_step [of xs _ D prev] by blast

theorem lzc_loop_spec:
  assumes "lz_wf t nexi" "256 \<le> i" "i \<le> nexi" "drop pos inp = xs" "xs \<noteq> []"
    and "lz_full (lz_dict t i)" "lz_dict t nexi = lz_ext (lz_dict t i) prev xs"
    and "\<And>j. j < nexi \<Longrightarrow> length (lz_string t j) \<le> pos + 1"
    and "nexi + length (lz_parse (lz_dict t i) prev xs) \<le> 4097"
  shows "lzc_loop inp t pos (length xs) i nexi bits osz ret =
     put_all writevl ret osz
       (zip (lz_widths i (prev = []) bits (length (lz_parse (lz_dict t i) prev xs)))
            (map word_of_nat (lz_parse (lz_dict t i) prev xs)))"
  using assms
proof (induction "length xs" arbitrary: t pos xs i nexi bits osz ret prev rule: less_induct)
  case less
  let ?D = "lz_dict t i"
  define L where "L = lz_match ?D xs 1"
  define c where "c = nat (lz_index ?D (take L xs))"
  have L: "1 \<le> L" unfolding L_def by (rule lz_match_ge)
  have Lle: "L \<le> length xs" unfolding L_def using less.prems(5) by (intro lz_match_le) (cases xs; simp)
  have mem: "take L xs \<in> set ?D" unfolding L_def by (rule lz_full_match [OF less.prems(6,5)])
  note idx = lz_index_nonneg [OF mem]
  have c: "lz_index ?D (take L xs) = int c" "c < i" "?D ! c = take L xs"
    using idx by (simp_all add: c_def)
  have parse: "lz_parse ?D prev xs = c # lz_parse (lz_dict t nexi) (take L xs) (drop L xs)"
    using lz_parse_step [OF less.prems(5) L_def] less.prems(7) by (simp add: c_def)
  have pos: "pos < length inp" and inp: "inp ! pos = hd xs" and len: "pos + length xs = length inp"
    using less.prems(4,5) by (auto simp: hd_drop_conv_nth)
  have str: "\<And>j. j < i \<Longrightarrow> length (lz_string t j) \<le> pos + 1" using less.prems(3,8) by simp
  obtain pre where scan: "lzc_scan t i inp pos (length xs) (uint (hd xs)) (if length xs = 1 then 1 else 2) =
    Some (if L = length xs then (pre, lz_index ?D xs, length xs + 1) else (int c, - 1, L + 2))"
    using lzc_scan_start [OF less.prems(1,2,3,4,5,6) str L_def] unfolding c(1) by blast
  note unfold = lzc_loop.simps [of inp t pos "length xs" i nexi bits osz ret]
  show ?case
  proof (cases "L = length xs")
    case True
    then have "lz_index ?D xs = int c" using c(1) by simp
    with True show ?thesis
      using scan pos less.prems(5) inp unfolding parse unfold by (simp add: mem_simps)
  next
    case False
    with Lle have Llt: "L < length xs" by simp
    define d where "d = inp ! (pos + L)"
    define t' where "t' = t[nexi := \<lparr>ent_v = d, ent_p = int c\<rparr>]"
    have rest: "drop L xs \<noteq> []" "hd (drop L xs) = d"
      using Llt less.prems(4) by (auto simp: d_def hd_drop_conv_nth)
    obtain c2 cs where p2: "lz_parse (lz_dict t nexi) (take L xs) (drop L xs) = c2 # cs"
      using lz_parse_Cons_iff [OF rest(1)] by blast
    have nexi: "nexi < 4096" using less.prems(9) parse p2 by simp
    have wf': "lz_wf t' (nexi + 1)"
      using lz_wf_extend [OF less.prems(1) nexi, of c d] c(2) less.prems(3) by (simp add: t'_def)
    have dict': "lz_dict t' nexi = lz_dict t nexi"
      by (simp add: lz_dict_def t'_def lz_string_update)
    have Dc: "lz_dict t nexi ! c = take L xs"
      using c(2,3) less.prems(3) by simp
    have dict2: "lz_dict t' (nexi + 1) = lz_dict t nexi @ [take L xs @ [d]]"
      using lz_dict_extend [OF less.prems(1) nexi, of c d] c(2) less.prems(3) Dc by (simp add: t'_def)
    have str': "length (lz_string t' j) \<le> pos + L + 1" if "j < nexi + 1" for j
    proof -
      have "lz_string t' j = (lz_dict t nexi @ [take L xs @ [d]]) ! j"
        using that dict2 by (metis lz_dict_nth)
      then show ?thesis using that less.prems(8) [of j] L Llt by (auto simp: nth_append)
    qed
    have full': "lz_full (lz_dict t' nexi)"
      using less.prems(6,7) by (simp add: dict' lz_ext_def)
    have IH: "lzc_loop inp t' (pos + L) (length (drop L xs)) nexi (nexi + 1) (bit_count (i - 1)) (osz + bit_count (i - 1)) r =
     put_all writevl r (osz + bit_count (i - 1))
       (zip (lz_widths nexi (take L xs = []) (bit_count (i - 1)) (length (c2 # cs))) (map word_of_nat (c2 # cs)))" for r
      unfolding p2 [symmetric] dict' [symmetric]
    proof (rule less.hyps)
      show "length (drop L xs) < length xs" using L less.prems(5) by simp
      show "lz_dict t' (nexi + 1) = lz_ext (lz_dict t' nexi) (take L xs) (drop L xs)"
        using dict2 rest L less.prems(5) by (simp add: lz_ext_def dict')
      show "nexi + 1 + length (lz_parse (lz_dict t' nexi) (take L xs) (drop L xs)) \<le> 4097"
        using less.prems(9) parse by (simp add: dict')
      show "drop (pos + L) inp = drop L xs" using less.prems(4) by (simp add: drop_drop add.commute flip: less.prems(4))
    qed (use wf' less.prems full' rest str' in auto)
    have L0: "take L xs \<noteq> []" using L less.prems(5) by auto
    have nexi_eq: "nexi = (if prev = [] then i else i + 1)"
      using arg_cong [OF less.prems(7), of length] by (simp add: lz_ext_def split: if_splits)
    have rd: "aread inp pos = Some (hd xs)" "aread inp (pos + L) = Some d"
      using pos inp len Llt by (simp_all add: mem_simps d_def)
    have wr: "awrite t nexi \<lparr>ent_v = d, ent_p = int c\<rparr> = Some t'"
      using nexi less.prems(1) by (simp add: mem_simps t'_def lz_wf_def)
    have "lzc_loop inp t pos (length xs) i nexi bits osz ret =
      do { ret \<leftarrow> writevl ret osz (bit_count (i - 1)) (word_of_nat c);
           lzc_loop inp t' (pos + L) (length xs - L) nexi (nexi + 1) (bit_count (i - 1)) (osz + bit_count (i - 1)) ret }"
      unfolding unfold using less.prems(5) scan rd wr nexi False by (simp add: Let_def)
    also have "\<dots> = put_all writevl ret osz
       (zip (lz_widths i (prev = []) bits (length (c # c2 # cs))) (map word_of_nat (c # c2 # cs)))"
      using IH L0 nexi_eq by (simp add: Let_def)
    finally show ?thesis by (simp only: parse p2)
  qed
qed

section \<open>The decompressor\<close>

lemma lz_last_spec: "lz_wf t m \<Longrightarrow> k < m \<Longrightarrow> lz_last t k = Some (hd (lz_string t k))"
proof (induction k rule: less_induct)
  case (less k)
  have ar: "aread t k = Some (t ! k)" using lz_wf_length [OF less.prems] by (simp add: mem_simps)
  show ?case
  proof (cases "0 \<le> ent_p (t ! k)")
    case True
    then show ?thesis
      using less lz_wf_parent [OF less.prems True] ar
      by (subst lz_last.simps) (simp add: lz_string_step [OF less.prems True])
  next
    case False
    then have "k < 256" using less.prems by (metis lz_wf_def not_less)
    then show ?thesis using False ar less.prems
      by (subst lz_last.simps) (simp add: lz_string_root [OF less.prems(1)])
  qed
qed

lemma chain_count_spec:
  "lz_wf t m \<Longrightarrow> k < m \<Longrightarrow> chain_count t k (Suc n) = Some (n + length (lz_string t k))"
proof (induction k arbitrary: n rule: less_induct)
  case (less k)
  have ar: "aread t k = Some (t ! k)" using lz_wf_length [OF less.prems] by (simp add: mem_simps)
  show ?case
  proof (cases "0 \<le> ent_p (t ! k)")
    case True
    then show ?thesis
      using less.IH [of "nat (ent_p (t ! k))" "Suc n"] less.prems lz_wf_parent [OF less.prems True] ar
      by (subst chain_count.simps) (simp add: lz_string_step [OF less.prems True])
  next
    case False
    then show ?thesis using ar
      by (subst chain_count.simps) (simp add: lz_string_neg)
  qed
qed

lemma chain_write_spec:
  "lz_wf t m \<Longrightarrow> k < m \<Longrightarrow> length (lz_string t k) \<le> osz \<Longrightarrow> osz \<le> length ret \<Longrightarrow>
     chain_write t k osz ret = Some (take (osz - length (lz_string t k)) ret @ lz_string t k @ drop osz ret)"
proof (induction k arbitrary: osz ret rule: less_induct)
  case (less k)
  have ar: "aread t k = Some (t ! k)" using lz_wf_length [OF less.prems(1,2)] by (simp add: mem_simps)
  have "0 < length (lz_string t k)" by simp
  then obtain q where q: "osz = Suc q" using less.prems(3) by (cases osz) auto
  then have qr: "q < length ret" using less.prems(4) by simp
  let ?r = "ret[q := ent_v (t ! k)]"
  have r: "take q ?r = take q ret" "drop q ?r = ent_v (t ! k) # drop (Suc q) ret"
    using qr by (simp_all add: drop_update_swap Cons_nth_drop_Suc [symmetric])
  show ?case
  proof (cases "0 \<le> ent_p (t ! k)")
    case True
    note s = lz_string_step [OF less.prems(1,2) True]
    have p: "nat (ent_p (t ! k)) < k" by (rule lz_wf_parent [OF less.prems(1,2) True])
    have "chain_write t (nat (ent_p (t ! k))) q ?r
      = Some (take (q - length (lz_string t (nat (ent_p (t ! k))))) ?r @ lz_string t (nat (ent_p (t ! k))) @ drop q ?r)"
      using less.prems p s q qr by (intro less.IH) auto
    moreover have "take (q - j) ?r = take (q - j) ret" for j
      using r(1) by (metis diff_le_self min.absorb1 take_take)
    ultimately show ?thesis
      using True ar q qr r by (subst chain_write.simps) (simp add: s mem_simps)
  next
    case False
    then show ?thesis
      using ar q qr r by (subst chain_write.simps)
        (simp add: lz_string_neg mem_simps, metis append_take_drop_id r)
  qed
qed

lemma writestring_spec:
  assumes "lz_wf t m" "buf < m" "length ret = as" "osz \<le> as"
  shows "\<exists>ret' as'. writestring junk t buf ret osz as = Some (ret', osz + length (lz_string t buf), as')
     \<and> length ret' = as' \<and> osz + length (lz_string t buf) \<le> as'
     \<and> take (osz + length (lz_string t buf)) ret' = take osz ret @ lz_string t buf"
proof -
  let ?s = "lz_string t buf"
  define r where "r = (if as \<le> osz + length ?s then c_realloc junk ret (as + length ?s) else ret)"
  have r: "osz + length ?s \<le> length r" "take osz r = take osz ret"
    using assms(3,4) by (auto simp: r_def take_c_realloc)
  have "chain_write t buf (osz + length ?s) r = Some (take osz r @ ?s @ drop (osz + length ?s) r)"
    using chain_write_spec [OF assms(1,2), of "osz + length ?s" r] r by simp
  then show ?thesis
    using chain_count_spec [OF assms(1,2), of 0] r assms(3)
    by (auto simp: writestring_def Let_def r_def)
qed

fun lz_decode :: "byte list list \<Rightarrow> nat \<Rightarrow> nat list \<Rightarrow> byte list" where
  "lz_decode D b [] = D ! b"
| "lz_decode D b (c # cs) = D ! b @ lz_decode (D @ [D ! b @ [hd (D ! c)]]) c cs"

fun lz_valid :: "nat \<Rightarrow> nat list \<Rightarrow> bool" where
  "lz_valid d [] = True"
| "lz_valid d (c # cs) = (c < d \<and> lz_valid (d + 1) cs)"

definition dec_widths :: "nat \<Rightarrow> nat \<Rightarrow> nat list" where
  "dec_widths d n = map (\<lambda>e. bit_count (e - 1)) [d..<d + n]"

lemma dec_widths_0 [simp]: "dec_widths d 0 = []"
  by (simp add: dec_widths_def)

lemma dec_widths_Suc [simp]: "dec_widths d (Suc n) = bit_count (d - 1) # dec_widths (d + 1) n"
  by (simp add: dec_widths_def upt_conv_Cons del: upt_Suc)

theorem lzuc_loop_spec:
  assumes "lz_wf t i" "buf < i" "length ret = as" "osz \<le> as" "i + length cs \<le> 4096"
    and "bits = bit_count (i - 1)"
    and "get_all readvl inp bp (dec_widths i (length cs)) = Some (map word_of_nat cs)"
    and "lz_valid i cs"
    and "bp + sum_list (dec_widths i (length cs)) \<le> sz * 8"
    and "sz * 8 < bp + sum_list (dec_widths i (length cs)) + bit_count (i + length cs - 1)"
  shows "\<exists>r. lzuc_loop junk inp sz t i bits bp buf ret osz as =
     Some (r, osz + length (lz_decode (lz_dict t i) buf cs))
     \<and> r = take osz ret @ lz_decode (lz_dict t i) buf cs"
  using assms
proof (induction cs arbitrary: t i buf ret osz as bits bp)
  case Nil
  obtain ret' as' where w: "writestring junk t buf ret osz as = Some (ret', osz + length (lz_string t buf), as')"
     "length ret' = as'" "osz + length (lz_string t buf) \<le> as'"
     "take (osz + length (lz_string t buf)) ret' = take osz ret @ lz_string t buf"
    using writestring_spec [OF Nil.prems(1-4)] by blast
  then show ?case
    using Nil.prems by (subst lzuc_loop.simps) (simp add: c_realloc_shrink)
next
  case (Cons c cs)
  let ?D = "lz_dict t i" and ?t = "t[i := \<lparr>ent_v = hd (lz_string t c), ent_p = int buf\<rparr>]"
  have i: "i < 4096" "length t = 4096" using Cons.prems(1,5) by (auto simp: lz_wf_def)
  have c: "c < i" using Cons.prems(8) by simp
  then have "c < 2 ^ LENGTH(32)" using i by simp
  then have uc: "unat (word_of_nat c :: uint32) = c" by (simp add: unsigned_of_nat take_bit_nat_eq_self)
  from Cons.prems(7) obtain v vs where "readvl inp bp (bit_count (i - 1)) = Some v"
      "get_all readvl inp (bp + bit_count (i - 1)) (dec_widths (i + 1) (length cs)) = Some vs"
      "v # vs = map word_of_nat (c # cs)"
    by (auto simp: bind_eq_Some_conv)
  then have rd: "readvl inp bp bits = Some (word_of_nat c)"
     and rds: "get_all readvl inp (bp + bits) (dec_widths (i + 1) (length cs)) = Some (map word_of_nat cs)"
    using Cons.prems(6) by simp_all
  have cond: "bp + bits \<le> sz * 8" using Cons.prems(6,9) by simp
  have wf: "lz_wf ?t (i + 1)"
    using lz_wf_extend [OF Cons.prems(1) i(1) Cons.prems(2)] by simp
  have dict: "lz_dict ?t (i + 1) = ?D @ [?D ! buf @ [hd (?D ! c)]]"
    using lz_dict_extend [OF Cons.prems(1) i(1) Cons.prems(2)] c by simp
  have str: "lz_string ?t buf = ?D ! buf"
    using Cons.prems(2) by (simp add: lz_string_update)
  obtain ret' as' where w: "writestring junk ?t buf ret osz as = Some (ret', osz + length (?D ! buf), as')"
     "length ret' = as'" "osz + length (?D ! buf) \<le> as'"
     "take (osz + length (?D ! buf)) ret' = take osz ret @ ?D ! buf"
    using writestring_spec [OF wf _ Cons.prems(3,4), of buf junk] Cons.prems(2) unfolding str by auto
  have "\<exists>r. lzuc_loop junk inp sz ?t (i + 1) (bit_count i) (bp + bits) c ret' (osz + length (?D ! buf)) as' =
     Some (r, osz + length (?D ! buf) + length (lz_decode (lz_dict ?t (i + 1)) c cs))
     \<and> r = take (osz + length (?D ! buf)) ret' @ lz_decode (lz_dict ?t (i + 1)) c cs"
    using wf c w rds Cons.prems(5,6,8,9,10) by (intro Cons.IH) (simp_all add: add.assoc)
  moreover have "lzuc_loop junk inp sz t i bits bp buf ret osz as =
     lzuc_loop junk inp sz ?t (i + 1) (bit_count i) (bp + bits) c ret' (osz + length (?D ! buf)) as'"
    using cond i rd uc lz_last_spec [OF Cons.prems(1) c] w(1)
    by (subst lzuc_loop.simps) (simp add: mem_simps Let_def)
  ultimately show ?case
    using w(4) dict by (simp add: add.assoc)
qed

lemma lz_parse_valid:
  "lz_full D \<Longrightarrow> prev \<noteq> [] \<Longrightarrow> lz_valid (length D) (lz_parse D prev xs)"
proof (induction D prev xs rule: lz_parse.induct)
  case (1 D prev xs)
  show ?case
  proof (cases "xs = []")
    case False
    define L where "L = lz_match D xs 1"
    have "1 \<le> L" unfolding L_def by (rule lz_match_ge)
    then have "take L xs \<noteq> []" using False by auto
    then have "lz_valid (length (lz_ext D prev xs)) (lz_parse (lz_ext D prev xs) (take L xs) (drop L xs))"
      using "1.IH" [OF False L_def] "1.prems" by (simp add: lz_ext_def)
    moreover have "take L xs \<in> set D" unfolding L_def by (rule lz_full_match [OF "1.prems"(1) False])
    ultimately show ?thesis
      using "1.prems"(2) lz_index_nonneg [of "take L xs" D]
      by (simp add: lz_parse_step [OF False L_def]) (simp add: lz_ext_def)
  qed simp
qed

lemma lz_decode_parse:
  "lz_full D \<Longrightarrow> b < length D \<Longrightarrow> D ! b \<noteq> [] \<Longrightarrow> lz_decode D b (lz_parse D (D ! b) xs) = D ! b @ xs"
proof (induction "length xs" arbitrary: D b xs rule: less_induct)
  case less
  show ?case
  proof (cases "xs = []")
    case False
    define L where "L = lz_match D xs 1"
    have L: "1 \<le> L" unfolding L_def by (rule lz_match_ge)
    have tk: "take L xs \<noteq> []" "hd (take L xs) = hd xs" using L False by (auto simp: hd_take)
    define c where "c = nat (lz_index D (take L xs))"
    have "take L xs \<in> set D" unfolding L_def by (rule lz_full_match [OF less.prems(1) False])
    then have c: "c < length D" "D ! c = take L xs"
      using lz_index_nonneg [of "take L xs" D] by (simp_all add: c_def)
    let ?D = "D @ [D ! b @ [hd xs]]"
    have "?D ! c = take L xs" using c by (simp add: nth_append)
    then have "lz_decode ?D c (lz_parse ?D (take L xs) (drop L xs)) = take L xs @ drop L xs"
      using less.hyps [of "drop L xs" ?D c] less.prems(1) c(1) L False tk by simp
    then show ?thesis
      using less.prems(3) c tk by (simp add: lz_parse_step [OF False L_def] lz_ext_def flip: c_def)
  qed simp
qed

lemma lz_widths_dec:
  "0 < n \<Longrightarrow> (n = 1 \<Longrightarrow> bits = bit_count (d - 1)) \<Longrightarrow>
     (2 \<le> n \<Longrightarrow> bit_count (d + n - 3) = bit_count (d + n - 2)) \<Longrightarrow>
     lz_widths d False bits n = dec_widths d n"
proof (induction n arbitrary: bits d)
  case (Suc n)
  show ?case
  proof (cases n)
    case 0
    then show ?thesis using Suc.prems by simp
  next
    case (Suc m)
    have "bit_count (d + 1 + n - 3) = bit_count (d + 1 + n - 2)" if "2 \<le> n"
      using Suc.prems(3) that by simp
    moreover have "bit_count (d - 1) = bit_count d" if "n = 1" using Suc.prems(3) that by simp
    ultimately have "lz_widths (d + 1) False (bit_count (d - 1)) n = dec_widths (d + 1) n"
      using Suc by (intro Suc.IH) auto
    then show ?thesis using Suc by simp
  qed
qed simp

section \<open>The round trip\<close>

lemma length_lz_roots: "length lz_roots = 256"
  by (simp add: lz_roots_def)

lemma length_lz_parse: "length (lz_parse D prev xs) \<le> length xs"
proof (induction "length xs" arbitrary: D prev xs rule: less_induct)
  case less
  show ?case
  proof (cases "xs = []")
    case False
    define L where "L = lz_match D xs 1"
    have L: "1 \<le> L" unfolding L_def by (rule lz_match_ge)
    have "length (lz_parse (lz_ext D prev xs) (take L xs) (drop L xs)) \<le> length (drop L xs)"
      using L False by (intro less.hyps) simp
    then show ?thesis
      using L False by (simp add: lz_parse_step [OF False L_def]) (cases xs; simp)
  qed simp
qed

lemma dec_widths_le: "d + n \<le> 4097 \<Longrightarrow> \<forall>w \<in> set (dec_widths d n). w \<le> 12"
  by (auto simp: dec_widths_def intro!: bit_count_le)

lemma length_dec_widths [simp]: "length (dec_widths d n) = n"
  by (simp add: dec_widths_def)

lemma lz_valid_mask:
  "lz_valid d cs \<Longrightarrow> d + length cs \<le> 4097 \<Longrightarrow>
     map (\<lambda>(w, v). v AND mask w) (zip (dec_widths d (length cs)) (map word_of_nat cs))
       = (map word_of_nat cs :: uint32 list)"
proof (induction cs arbitrary: d)
  case (Cons c cs)
  have "c < 2 ^ bit_count (d - 1)"
    using Cons.prems(1) bit_count_bound [of "d - 1"] by (auto intro: le_less_trans [of c "d - 1"])
  then have "take_bit (bit_count (d - 1)) (word_of_nat c :: uint32) = word_of_nat c"
    by (metis of_nat_take_bit take_bit_nat_eq_self)
  then show ?case using Cons by (simp add: take_bit_eq_mask)
qed simp

definition lz_codes :: "byte list \<Rightarrow> nat list" where
  "lz_codes inp = lz_parse lz_roots [] inp"

lemma lz_codes_first:
  assumes "inp \<noteq> []"
  obtains b cs where "lz_codes inp = b # cs" "b < 256" "lz_valid 256 cs" "lz_decode lz_roots b cs = inp"
proof -
  define L where "L = lz_match lz_roots inp 1"
  define b where "b = nat (lz_index lz_roots (take L inp))"
  have L: "1 \<le> L" unfolding L_def by (rule lz_match_ge)
  have mem: "take L inp \<in> set lz_roots"
    unfolding L_def by (rule lz_full_match [OF lz_roots_full assms])
  have b: "b < 256" "lz_roots ! b = take L inp"
    using lz_index_nonneg [OF mem] by (simp_all add: b_def lz_roots_def)
  have ne: "take L inp \<noteq> []" using L assms by auto
  show thesis
  proof (rule that)
    show "lz_codes inp = b # lz_parse lz_roots (take L inp) (drop L inp)"
      using lz_parse_step [OF assms L_def] by (simp add: lz_codes_def b_def lz_ext_def)
    show "lz_valid 256 (lz_parse lz_roots (take L inp) (drop L inp))"
      using lz_parse_valid [OF lz_roots_full ne, of "drop L inp"] by (simp add: lz_roots_def)
    show "lz_decode lz_roots b (lz_parse lz_roots (take L inp) (drop L inp)) = inp"
      using lz_decode_parse [OF lz_roots_full, of b "drop L inp"] b ne by (simp add: length_lz_roots)
  qed (rule b(1))
qed

lemma lz_widths_first: "lz_widths 256 True 8 (Suc n) = 8 # (if n = 0 then [] else lz_widths 256 False 8 n)"
proof -
  have "bit_count 255 = 8" using bit_count_eqI [of 7 255] by simp
  then show ?thesis by (cases n) auto
qed

lemma bit_count_step:
  assumes "x \<ge> 256" "x < 4096" "x + 1 \<noteq> 512" "x + 1 \<noteq> 1024" "x + 1 \<noteq> 2048" "x + 1 \<noteq> 4096"
  shows "bit_count x = bit_count (x + 1)"
proof -
  consider "x + 1 < 512" | "512 \<le> x" "x + 1 < 1024" | "1024 \<le> x" "x + 1 < 2048" | "2048 \<le> x" "x + 1 < 4096"
    using assms by linarith
  then show ?thesis
    using assms bit_count_eqI [of 8 x] bit_count_eqI [of 8 "x + 1"] bit_count_eqI [of 9 x] bit_count_eqI [of 9 "x + 1"]
      bit_count_eqI [of 10 x] bit_count_eqI [of 10 "x + 1"] bit_count_eqI [of 11 x] bit_count_eqI [of 11 "x + 1"]
    by cases auto
qed

definition lz_last_width_ok :: "nat \<Rightarrow> bool" where
  "lz_last_width_ok m \<longleftrightarrow> m \<notin> {3, 259, 771, 1795}"

lemma lz_widths_agree:
  assumes "n + 1 \<le> 3841" "lz_last_width_ok (n + 1)"
  shows "lz_widths 256 True 8 (Suc n) = 8 # dec_widths 256 n"
proof (cases "n = 0")
  case False
  have "bit_count 255 = 8" using bit_count_eqI [of 7 255] by simp
  moreover have "bit_count (256 + n - 3) = bit_count (256 + n - 2)" if "2 \<le> n"
  proof (cases "n = 2")
    case True
    have "bit_count 255 = bit_count 256" if False using that by simp
    then show ?thesis using assms True by (simp add: lz_last_width_ok_def)
  next
    case False
    then show ?thesis
      using bit_count_step [of "253 + n"] that assms by (auto simp: lz_last_width_ok_def)
  qed
  ultimately show ?thesis
    using False lz_widths_dec [of n 8 256] by (simp add: lz_widths_first)
qed (simp add: lz_widths_first)

lemma lz_widths_le: "256 \<le> d \<Longrightarrow> d + n \<le> 4097 \<Longrightarrow> bits \<le> 12 \<Longrightarrow> \<forall>w \<in> set (lz_widths d first bits n). w \<le> 12"
proof (induction d first bits n rule: lz_widths.induct)
  case (3 d first bits m)
  have "bit_count (d - Suc 0) \<le> 12" using "3.prems" by (intro bit_count_le) simp
  with 3 show ?case by auto
qed auto

lemma length_lz_widths [simp]: "length (lz_widths d first bits n) = n"
  by (induction d first bits n rule: lz_widths.induct) auto

lemma lzc_spec:
  fixes inp :: "byte list"
  assumes "inp \<noteq> []" "length (lz_codes inp) \<le> 3841"
  defines "ws \<equiv> lz_widths 256 True 8 (length (lz_codes inp))"
  shows "\<exists>ret. lzc junk tjunk inp = Some (ret, (sum_list ws + 7) div 8) \<and>
     get_all readvl ret 0 ws = Some (map (\<lambda>(w, v). v AND mask w) (zip ws (map word_of_nat (lz_codes inp))))"
proof -
  define out where "out = zip ws (map word_of_nat (lz_codes inp) :: uint32 list)"
  have fst_out: "map fst out = ws" by (simp add: out_def ws_def)
  obtain m where m: "length (lz_codes inp) = Suc m"
    using lz_codes_first [OF assms(1)] by (metis length_Cons)
  have "\<forall>w \<in> set ws. w \<le> 12"
    using lz_widths_le [of 256 m 8 False] m assms(2) by (auto simp: ws_def lz_widths_first)
  then have w12: "\<forall>w \<in> set ws. w \<le> 12" .
  have w24: "\<forall>c \<in> set out. fst c \<le> 24"
  proof
    fix c assume "c \<in> set out"
    then have "fst c \<in> set ws" using fst_out by (metis image_eqI list.set_map)
    then show "fst c \<le> 24" using w12 by force
  qed
  have "sum_list ws \<le> 12 * length ws" using w12 by (induction ws) auto
  moreover have "length ws \<le> length inp"
    using length_lz_parse [of lz_roots "[]" inp] by (simp add: lz_codes_def ws_def)
  ultimately have cap: "sum_list ws \<le> 64 * length inp" by simp
  obtain t where t: "initable (c_malloc tjunk TABLE_SIZE) = Some (t, 256, 8)" "lz_wf t 256" "lz_dict t 256 = lz_roots"
    using initable_spec [of "c_malloc tjunk TABLE_SIZE"] by (auto simp: TABLE_SIZE_def)
  have "lzc_loop inp t 0 (length inp) 256 256 8 0 (c_malloc junk (length inp * 8)) = put_all writevl (c_malloc junk (length inp * 8)) 0 out"
  proof -
    have "length (lz_string t j) \<le> 0 + 1" if "j < 256" for j
      using t(2) that by (simp add: lz_string_root)
    moreover have "256 + length (lz_parse (lz_dict t 256) [] inp) \<le> 4097"
      using assms(2) t(3) by (simp add: lz_codes_def)
    ultimately show ?thesis
      using lzc_loop_spec [OF t(2), of 256 0 inp inp "[]" 8 0 "c_malloc junk (length inp * 8)"] assms(1) t
      by (simp add: lz_ext_def out_def ws_def flip: lz_codes_def)
  qed
  then obtain ret where ret: "put_all writevl (c_malloc junk (length inp * 8)) 0 out = Some (ret, sum_list ws)"
      "8 * length ret = 64 * length inp"
      "lzc_loop inp t 0 (length inp) 256 256 8 0 (c_malloc junk (length inp * 8)) = Some (ret, sum_list ws)"
    using lz_bits.put_all_total [of 0 out "c_malloc junk (length inp * 8)"] w24 cap fst_out by auto
  have "get_all readvl ret 0 ws = Some (map (\<lambda>(w, v). v AND mask w) out)"
    using lz_bits.get_all_put_all [OF ret(1)] w24 cap fst_out by simp
  moreover have "lzc junk tjunk inp = Some (ret, (sum_list ws + 7) div 8)"
    using t(1) ret(3) by (simp add: lzc_def)
  ultimately show ?thesis by (auto simp: out_def)
qed

lemma lzuc_spec:
  assumes "get_all readvl ret 0 (8 # dec_widths 256 (length cs)) = Some (map word_of_nat (b # cs))"
    and "b < 256" "lz_valid 256 cs" "256 + length cs \<le> 4096"
    and "8 + sum_list (dec_widths 256 (length cs)) \<le> sz * 8"
    and "sz * 8 < 8 + sum_list (dec_widths 256 (length cs)) + bit_count (255 + length cs)"
  shows "lzuc junk tjunk ret sz = Some (lz_decode lz_roots b cs, length (lz_decode lz_roots b cs))"
proof -
  obtain t where t: "initable (c_malloc tjunk TABLE_SIZE) = Some (t, 256, 8)" "lz_wf t 256" "lz_dict t 256 = lz_roots"
    using initable_spec [of "c_malloc tjunk TABLE_SIZE"] by (auto simp: TABLE_SIZE_def)
  have rd: "readvl ret 0 8 = Some (word_of_nat b)"
      "get_all readvl ret 8 (dec_widths 256 (length cs)) = Some (map word_of_nat cs)"
    using assms(1) by (auto simp: bind_eq_Some_conv)
  have "bit_count 255 = 8" using bit_count_eqI [of 7 255] by simp
  then have "\<exists>r. lzuc_loop junk ret sz t 256 8 8 b (c_malloc junk (sz * 20)) 0 (sz * 20) =
     Some (r, 0 + length (lz_decode (lz_dict t 256) b cs)) \<and>
     r = take 0 (c_malloc junk (sz * 20)) @ lz_decode (lz_dict t 256) b cs"
    using t assms rd by (intro lzuc_loop_spec) simp_all
  moreover have "unat (word_of_nat b :: uint32) = b"
    using assms(2) by (simp add: unsigned_of_nat take_bit_nat_eq_self)
  ultimately show ?thesis
    using t(1,3) rd(1) by (auto simp: lzuc_def)
qed

lemma lz_codes_mask:
  assumes "b < 256" "lz_valid 256 cs" "length cs \<le> 3841"
  shows "map (\<lambda>(w, v). v AND mask w) (zip (8 # dec_widths 256 (length cs)) (map word_of_nat (b # cs)))
     = (map word_of_nat (b # cs) :: uint32 list)"
proof -
  have "(word_of_nat b AND mask 8 :: uint32) = word_of_nat b"
    using assms(1) by (simp add: take_bit_nat_eq_self flip: take_bit_eq_mask of_nat_take_bit)
  then show ?thesis using lz_valid_mask [of 256 cs] assms by simp
qed

text \<open>C1: decompression inverts compression.  For every non-empty input that factors into at most
  3841 codes (every input of up to 3841 bytes does), whatever the uninitialised memory holds,
  \<open>lzc\<close> returns a block and a size without an access out of bounds, and \<open>lzuc\<close> on them
  returns the input and its size -- unless the number of codes is one of 3, 259, 771 and 1795,
  where the last code is written one bit narrower than it is read.\<close>

theorem lzc_lzuc:
  assumes "inp \<noteq> []" "length (lz_codes inp) \<le> 3841" "length (lz_codes inp) \<notin> {3, 259, 771, 1795}"
  shows "\<exists>ret n. lzc junk tjunk inp = Some (ret, n) \<and> lzuc junk' tjunk' ret n = Some (inp, length inp)"
proof -
  obtain b cs where bcs: "lz_codes inp = b # cs" "b < 256" "lz_valid 256 cs" "lz_decode lz_roots b cs = inp"
    by (rule lz_codes_first [OF assms(1)])
  define n where "n = length cs"
  have n: "n + 1 \<le> 3841" "lz_last_width_ok (n + 1)"
    using assms(2,3) bcs(1) by (simp_all add: n_def lz_last_width_ok_def)
  define sz where "sz = (8 + sum_list (dec_widths 256 n) + 7) div 8"
  obtain ret where ret: "lzc junk tjunk inp = Some (ret, sz)"
      "get_all readvl ret 0 (8 # dec_widths 256 n) = Some (map word_of_nat (b # cs))"
    using lzc_spec [OF assms(1,2), of junk tjunk] lz_widths_agree [OF n] lz_codes_mask [OF bcs(2,3)] n(1) bcs(1)
    by (auto simp: sz_def n_def simp del: zip_Cons_Cons)
  have "7 < bit_count (255 + n)" by (rule bit_count_ge) simp
  then have "lzuc junk' tjunk' ret sz = Some (inp, length inp)"
    using lzuc_spec [of ret cs b sz junk' tjunk'] ret(2) bcs n(1) by (simp add: sz_def n_def)
  with ret(1) show ?thesis by blast
qed

lemma lzc_lzuc_witness:
  "\<exists>ret n. lzc (\<lambda>_. 0) (\<lambda>_. \<lparr>ent_v = 0, ent_p = 0\<rparr>) [65, 66] = Some (ret, n)
     \<and> lzuc (\<lambda>_. 7) (\<lambda>_. \<lparr>ent_v = 1, ent_p = 1\<rparr>) ret n = Some ([65, 66], 2)"
proof -
  have "length (lz_codes [65, 66]) \<le> 2"
    using length_lz_parse [of lz_roots "[]" "[65, 66]"] by (simp add: lz_codes_def)
  then show ?thesis using lzc_lzuc [of "[65, 66]"] by (simp add: numeral_2_eq_2)
qed

text \<open>The defect of the last code.  \<open>lzc\<close> writes the last code of the input with the width
  left by the code before it; for three bytes that are not all equal this is 8 bits where
  \<open>lzuc\<close> expects 9, so that the decompressor stops early and loses the third byte.\<close>

corollary lzc_lzuc_three: 
  "a \<noteq> b \<or> b \<noteq> c \<Longrightarrow> \<exists>ret n. lzc junk tjunk [a, b, c] = Some (ret, n) \<and> lzuc junk' tjunk' ret n = Some ([a, b], 2)"
proof -
  assume ab: "a \<noteq> b \<or> b \<noteq> c"
  let ?inp = "[a, b, c]"
  obtain k cs where bcs: "lz_codes ?inp = k # cs" "k < 256" "lz_valid 256 cs" "lz_decode lz_roots k cs = ?inp"
    by (rule lz_codes_first [of ?inp]) auto
  have nr: "[x, y] \<notin> set lz_roots" for x y by (auto simp: lz_roots_def)
  then have m: "lz_match lz_roots ?inp 1 = 1" "lz_match lz_roots [b, c] 1 = 1" "lz_match (lz_roots @ [[a, b]]) [b, c] 1 = 1" "lz_match (lz_roots @ [[a, b]]) [c] 1 = 1"
      "lz_match (lz_roots @ [[a, b], [b, c]]) [c] 1 = 1"
    using ab by (subst lz_match.simps, auto)+
  then have "length (lz_codes ?inp) = 3"
    unfolding lz_codes_def by (simp add: lz_parse_step lz_ext_def)
  then obtain c2 c3 where cs: "cs = [c2, c3]"
    using bcs(1) by (auto simp: length_Suc_conv numeral_3_eq_3)
  have len: "length (lz_codes ?inp) = Suc 2" by (simp add: bcs(1) cs)
  have b255: "bit_count 255 = 8" using bit_count_eqI [of 7 255] by simp
  then have ws: "lz_widths 256 True 8 (length (lz_codes ?inp)) = [8, 8, 8]"
    unfolding len lz_widths_first by (simp add: numeral_2_eq_2)
  obtain ret where ret: "lzc junk tjunk ?inp = Some (ret, 3)"
      "get_all readvl ret 0 [8, 8, 8] = Some (map (\<lambda>(w, v). v AND mask w) (zip [8, 8, 8] (map word_of_nat (lz_codes ?inp))))"
    using lzc_spec [of ?inp junk tjunk] len unfolding ws by auto
  have c2: "lz_valid 256 [c2]" using bcs(3) cs by simp
  have ws2: "8 # dec_widths 256 (length [c2]) = [8, 8]" using b255 by simp
  have "get_all readvl ret 0 [8, 8] = Some (map word_of_nat [k, c2])"
    using ret(2) lz_codes_mask [OF bcs(2) c2] unfolding bcs(1) cs ws2
    by (auto simp: bind_eq_Some_conv)
  moreover have "8 < bit_count 256" by (rule bit_count_ge) simp
  ultimately have uc: "lzuc junk' tjunk' ret 3 = Some (lz_decode lz_roots k [c2], length (lz_decode lz_roots k [c2]))"
    using bcs(2) c2 b255 by (intro lzuc_spec) (unfold ws2, simp_all)
  have "lz_decode lz_roots k [c2] = [a, b]"
  proof -
    have k: "lz_roots ! k = [word_of_nat k]" using bcs(2) by (simp add: lz_roots_def)
    have "c2 < 257" "c3 < 258" using bcs(3) cs by simp_all
    have "lz_codes ?inp = [nat (lz_index lz_roots [a]), nat (lz_index lz_roots [b]), c3]"
      using m bcs(1) cs unfolding lz_codes_def by (simp add: lz_parse_step lz_ext_def)
    then have "c2 = nat (lz_index lz_roots [b])" "k = nat (lz_index lz_roots [a])" using bcs(1) cs by simp_all
    moreover have "[x] \<in> set lz_roots" for x using lz_roots_full by (simp add: lz_full_def)
    ultimately show ?thesis
      using lz_index_nonneg [of _ lz_roots] by (simp add: nth_append)
  qed
  with ret(1) uc show ?thesis by (auto simp del: lz_decode.simps)
qed

lemma lzc_lzuc_three_witness:
  "\<exists>ret n. lzc (\<lambda>_. 0) (\<lambda>_. \<lparr>ent_v = 0, ent_p = 0\<rparr>) [97, 98, 99] = Some (ret, n)
     \<and> lzuc (\<lambda>_. 0) (\<lambda>_. \<lparr>ent_v = 0, ent_p = 0\<rparr>) ret n = Some ([97, 98], 2)"
  using lzc_lzuc_three [of 97 98 99] by simp



end
