(* ===== verification/Crc32.thy ===== *)
theory Crc32
  imports Prelude
begin

text \<open>
  The CRC-32 of \<open>clib/src/crc32.c\<close>: the table \<open>crc_table\<close>, filled on first use, and the
  byte-wise loop over it.  The static variables of the file are the record \<open>crc_state\<close>.  The
  specification is the bit-serial shift register \<open>crc_shift\<close>; the table-driven code is proved
  equal to it for every buffer, and the algebra of the register gives the properties of the
  checksum.
\<close>

section \<open>The program\<close>

record crc_state =
  crc_table :: "uint32 list"
  crc_init :: bool

text \<open>The static storage when the program starts.\<close>

definition crc_start :: crc_state where
  "crc_start = \<lparr>crc_table = replicate 256 0, crc_init = False\<rparr>"

fun crc_table_entry :: "nat \<Rightarrow> uint32 \<Rightarrow> uint32" where
  "crc_table_entry 0 c = c"
| "crc_table_entry (Suc j) c =
     crc_table_entry j (if c AND 1 \<noteq> 0 then 0xEDB88320 XOR drop_bit 1 c else drop_bit 1 c)"

fun crc_fill :: "nat list \<Rightarrow> uint32 list \<Rightarrow> uint32 list option" where
  "crc_fill [] t = Some t"
| "crc_fill (i # is) t = do { t \<leftarrow> awrite t i (crc_table_entry 8 (word_of_nat i)); crc_fill is t }"

definition clib_crc32_make_crc_table :: "crc_state \<Rightarrow> crc_state option" where
  "clib_crc32_make_crc_table st =
     (if crc_init st then Some st
      else do {
        t \<leftarrow> crc_fill [0..<256] (crc_table st);
        Some (st\<lparr>crc_table := t, crc_init := True\<rparr>) })"

function crc_loop :: "uint32 list \<Rightarrow> byte list \<Rightarrow> nat \<Rightarrow> nat \<Rightarrow> uint32 \<Rightarrow> uint32 option" where
  "crc_loop table buf i len c =
     (if i < len then do {
        b \<leftarrow> aread buf i;
        t \<leftarrow> aread table (unat ((c XOR ucast b) AND 0xFF));
        crc_loop table buf (i + 1) len (t XOR drop_bit 8 c) }
      else Some c)"
  by pat_completeness auto
termination by (relation "measure (\<lambda>(table, buf, i, len, c). len - i)") auto

declare crc_loop.simps [simp del]

definition clib_crc32_direct :: "crc_state \<Rightarrow> byte list \<Rightarrow> nat \<Rightarrow> uint32 \<Rightarrow> uint32 option" where
  "clib_crc32_direct st buf len c = do {
     c \<leftarrow> crc_loop (crc_table st) buf 0 len (c XOR 0xFFFFFFFF);
     Some (c XOR 0xFFFFFFFF) }"

definition clib_crc32 :: "crc_state \<Rightarrow> byte list \<Rightarrow> nat \<Rightarrow> (uint32 \<times> crc_state) option" where
  "clib_crc32 st buf len = do {
     st \<leftarrow> clib_crc32_make_crc_table st;
     r \<leftarrow> clib_crc32_direct st buf len 0;
     Some (r, st) }"

definition clib_crc32_update ::
    "crc_state \<Rightarrow> byte list \<Rightarrow> nat \<Rightarrow> uint32 \<Rightarrow> (uint32 \<times> crc_state) option" where
  "clib_crc32_update st buf len crc32 = do {
     st \<leftarrow> clib_crc32_make_crc_table st;
     r \<leftarrow> clib_crc32_direct st buf len crc32;
     Some (r, st) }"

definition clib_crc32_get_crc_table :: "crc_state \<Rightarrow> uint32 list" where
  "clib_crc32_get_crc_table st = crc_table st"

section \<open>The shift register\<close>

definition crc_shift :: "uint32 \<Rightarrow> uint32" where
  "crc_shift c = (if bit c 0 then 0xEDB88320 XOR drop_bit 1 c else drop_bit 1 c)"

text \<open>The specification: feed the register bit by bit, the bits of a byte from the lowest.\<close>

definition crc_byte :: "uint32 \<Rightarrow> byte \<Rightarrow> uint32" where
  "crc_byte c b = (crc_shift ^^ 8) (c XOR ucast b)"

definition crc_reg :: "byte list \<Rightarrow> uint32 \<Rightarrow> uint32" where
  "crc_reg bs c = NOT (foldl crc_byte (NOT c) bs)"

lemma crc_table_entry_shift: "crc_table_entry n c = (crc_shift ^^ n) c"
proof (induction n arbitrary: c)
  case (Suc n)
  have "(c AND 1 \<noteq> 0) = bit c 0"
    by (simp add: and_one_eq bit_0 odd_iff_mod_2_eq_one)
  then have "crc_table_entry (Suc n) c = (crc_shift ^^ n) (crc_shift c)"
    by (simp add: Suc crc_shift_def [of c])
  then show ?case by (simp add: funpow_swap1)
qed simp

lemma crc_shift_xor: "crc_shift (a XOR b) = crc_shift a XOR crc_shift b"
proof -
  have d: "drop_bit 1 (a XOR b) = drop_bit 1 a XOR drop_bit 1 b" by (rule drop_bit_xor)
  show ?thesis by (simp add: crc_shift_def d bit_xor_iff) (simp add: xor.assoc xor.left_commute)
qed

lemma crc_shift_pow_xor: "(crc_shift ^^ n) (a XOR b) = (crc_shift ^^ n) a XOR (crc_shift ^^ n) b"
  by (induction n) (simp_all add: crc_shift_xor)

text \<open>Where the low bits are zero the register only shifts.\<close>

lemma crc_shift_pow_push:
  "n \<le> k \<Longrightarrow> (\<And>j. j < n \<Longrightarrow> \<not> bit c j) \<Longrightarrow> (crc_shift ^^ n) c = drop_bit n c"
proof (induction n)
  case (Suc n)
  then have "(crc_shift ^^ n) c = drop_bit n c" by simp
  moreover have "\<not> bit (drop_bit n c) 0" using Suc.prems(2) [of n] by (simp add: bit_drop_bit_eq)
  ultimately show ?case by (simp add: crc_shift_def [of "drop_bit n c"])
qed simp

lemma crc_shift_inj: "inj crc_shift"
proof (rule injI)
  fix a b assume eq: "crc_shift a = crc_shift b"
  have top: "bit (crc_shift c) 31 = bit c 0" for c :: uint32
    by (auto simp: crc_shift_def bit_xor_iff bit_drop_bit_eq dest: bit_imp_le_length)
  show "a = b"
  proof (rule bit_word_eqI)
    have 0: "bit a 0 = bit b 0" using top eq by metis
    have d: "drop_bit 1 a = drop_bit 1 b"
    proof (cases "bit a 0")
      case True
      then have "0xEDB88320 XOR drop_bit 1 a = 0xEDB88320 XOR drop_bit 1 b"
        using eq 0 by (simp only: crc_shift_def if_True)
      then show ?thesis by (rule xor_cancel)
    next
      case False
      then show ?thesis using eq 0 by (simp only: crc_shift_def if_False)
    qed
    fix n assume "n < LENGTH(32)"
    show "bit a n = bit b n"
    proof (cases n)
      case (Suc m)
      then show ?thesis using arg_cong [OF d, of "\<lambda>x. bit x m"] by (simp add: bit_drop_bit_eq)
    qed (simp add: 0)
  qed
qed

lemma crc_shift_pow_inj: "inj (crc_shift ^^ n)"
  by (induction n) (auto intro: inj_compose [OF crc_shift_inj, unfolded comp_def] simp: comp_def)

section \<open>The table-driven code\<close>

definition crc_ready :: "crc_state \<Rightarrow> bool" where
  "crc_ready st \<longleftrightarrow> crc_table st = map (\<lambda>i. (crc_shift ^^ 8) (word_of_nat i)) [0..<256]"

text \<open>The states of the file's static variables that the program can be in.\<close>

definition crc_valid :: "crc_state \<Rightarrow> bool" where
  "crc_valid st \<longleftrightarrow> length (crc_table st) = 256 \<and> (crc_init st \<longrightarrow> crc_ready st)"

lemma crc_start_valid: "crc_valid crc_start"
  by (simp add: crc_valid_def crc_start_def)

lemma crc_fill_spec:
  "n \<le> length t \<Longrightarrow> m \<le> n \<Longrightarrow>
     \<exists>t'. crc_fill [m..<n] t = Some t' \<and> length t' = length t \<and> take m t' = take m t \<and>
       (\<forall>i. m \<le> i \<and> i < n \<longrightarrow> t' ! i = (crc_shift ^^ 8) (word_of_nat i))"
proof (induction "n - m" arbitrary: m t)
  case (Suc k)
  then have m: "m < n" by simp
  let ?t = "t[m := crc_table_entry 8 (word_of_nat m)]"
  from Suc(2) m have "k = n - Suc m" by simp
  from Suc(1) [OF this, of ?t] Suc.prems m obtain t' where
    t': "crc_fill [Suc m..<n] ?t = Some t'" "length t' = length t" "take (Suc m) t' = take (Suc m) ?t"
       "\<forall>i. Suc m \<le> i \<and> i < n \<longrightarrow> t' ! i = (crc_shift ^^ 8) (word_of_nat i)"
    by auto
  have "take m t' = take m ?t" "t' ! m = ?t ! m"
    using t'(3) m by (metis (no_types, lifting) min.absorb1 lessI less_imp_le take_take nth_take)+
  moreover have "t' ! i = (crc_shift ^^ 8) (word_of_nat i)" if "m \<le> i" "i < n" for i
    using that t'(4) \<open>t' ! m = ?t ! m\<close> m Suc.prems
    by (cases "i = m") (auto simp: crc_table_entry_shift)
  ultimately show ?case
    using t' m Suc.prems by (simp add: upt_conv_Cons mem_simps del: upt_Suc)
qed auto

lemma make_crc_table_spec:
  "crc_valid st \<Longrightarrow> \<exists>st'. clib_crc32_make_crc_table st = Some st' \<and> crc_valid st' \<and> crc_ready st' \<and> crc_init st'"
proof (cases "crc_init st")
  case False
  assume "crc_valid st"
  then obtain t where "crc_fill [0..<256] (crc_table st) = Some t" "length t = 256"
      "\<forall>i<256. t ! i = (crc_shift ^^ 8) (word_of_nat i)"
    using crc_fill_spec [of 256 "crc_table st" 0] by (auto simp: crc_valid_def)
  moreover from this have "t = map (\<lambda>i. (crc_shift ^^ 8) (word_of_nat i)) [0..<256]"
    by (intro nth_equalityI) (simp_all del: upt_conv_Cons)
  ultimately show ?thesis using False
    by (auto simp: clib_crc32_make_crc_table_def crc_valid_def crc_ready_def)
qed (auto simp: clib_crc32_make_crc_table_def crc_valid_def)

text \<open>One step of the byte loop is eight steps of the register.\<close>

lemma crc_step:
  "(crc_shift ^^ 8) ((c XOR ucast b) AND 0xFF) XOR drop_bit 8 c = crc_byte c b"
proof -
  let ?x = "c XOR ucast (b :: byte)"
  have ff: "bit (0xFF :: uint32) j \<longleftrightarrow> j < 8" for j
  proof -
    have "(0xFF :: uint32) = mask 8" by (simp add: mask_eq_exp_minus_1)
    then show ?thesis by (simp only: bit_mask_iff) auto
  qed
  have split: "?x = (?x AND 0xFF) XOR (?x AND NOT 0xFF)"
    by (rule bit_word_eqI) (simp only: bit_xor_iff bit_and_iff bit_not_iff ff, auto)
  have "(crc_shift ^^ 8) (?x AND NOT 0xFF) = drop_bit 8 (?x AND NOT 0xFF)"
    by (rule crc_shift_pow_push [of 8 8]) (simp_all only: bit_and_iff bit_not_iff ff, auto)
  also have "\<dots> = drop_bit 8 c"
    by (rule bit_word_eqI)
       (simp only: bit_drop_bit_eq comp_def bit_and_iff bit_xor_iff bit_not_iff ff bit_unsigned_iff,
        auto dest: bit_imp_le_length)
  finally show ?thesis
    unfolding crc_byte_def by (subst (2) split) (simp add: crc_shift_pow_xor)
qed

lemma crc_loop_spec:
  assumes "t = map (\<lambda>i. (crc_shift ^^ 8) (word_of_nat i)) [0..<256]" "len \<le> length buf" "i \<le> len"
  shows "crc_loop t buf i len c = Some (foldl crc_byte c (take (len - i) (drop i buf)))"
  using assms(3)
proof (induction "len - i" arbitrary: i c)
  case 0
  then show ?case by (subst crc_loop.simps) simp
next
  case (Suc k)
  then have i: "i < len" by simp
  have "(c XOR ucast (buf ! i)) AND 0xFF \<le> (0xFF :: uint32)" by (rule word_and_le1)
  then have "unat ((c XOR ucast (buf ! i)) AND 0xFF) < 256" by (simp add: word_le_nat_alt)
  then have "aread t (unat ((c XOR ucast (buf ! i)) AND 0xFF))
      = Some ((crc_shift ^^ 8) ((c XOR ucast (buf ! i)) AND 0xFF))"
    unfolding assms(1) by (simp add: mem_simps)
  moreover have "crc_loop t buf (Suc i) len (crc_byte c (buf ! i))
      = Some (foldl crc_byte (crc_byte c (buf ! i)) (take (len - Suc i) (drop (Suc i) buf)))"
    using Suc by (intro Suc.hyps) auto
  moreover have "take (len - i) (drop i buf) = buf ! i # take (len - Suc i) (drop (Suc i) buf)"
    using i assms(2) by (metis Cons_nth_drop_Suc Suc_diff_Suc less_le_trans take_Suc_Cons)
  ultimately show ?case
    using i assms(2) by (subst crc_loop.simps) (simp add: mem_simps crc_step)
qed

lemma crc32_update_spec:
  "crc_valid st \<Longrightarrow> len \<le> length buf \<Longrightarrow>
     \<exists>st'. clib_crc32_update st buf len c = Some (crc_reg (take len buf) c, st') \<and> crc_valid st' \<and> crc_init st'"
proof -
  assume a: "crc_valid st" "len \<le> length buf"
  from make_crc_table_spec [OF a(1)] obtain st' where
    st': "clib_crc32_make_crc_table st = Some st'" "crc_valid st'" "crc_ready st'" "crc_init st'" by blast
  have ff: "(0xFFFFFFFF :: uint32) = - 1" by simp
  have "clib_crc32_direct st' buf len c = Some (crc_reg (take len buf) c)"
    using st'(3) a(2) unfolding clib_crc32_direct_def ff
    by (subst crc_loop_spec) (auto simp: crc_ready_def crc_reg_def)
  with st' show ?thesis by (simp add: clib_crc32_update_def)
qed

lemma crc32_spec: "clib_crc32 st buf len = clib_crc32_update st buf len 0"
  by (simp add: clib_crc32_def clib_crc32_update_def)

section \<open>Bursts\<close>

definition le_word :: "byte list \<Rightarrow> uint32" where
  "le_word bs = foldl (\<lambda>w i. w OR push_bit (8 * i) (ucast (bs ! i))) 0 [0..<length bs]"

lemma bit_or_fold:
  "bit (foldl (\<lambda>w i. w OR push_bit (8 * i) (ucast (bs ! i))) (0 :: uint32) [0..<n]) j \<longleftrightarrow>
     j < 32 \<and> j < 8 * n \<and> bit (bs ! (j div 8) :: byte) (j mod 8)"
proof (induction n)
  case (Suc n)
  show ?case
  proof (cases "8 * n \<le> j \<and> j < 8 * Suc n")
    case True
    then have "j div 8 = n" by auto
    moreover have "j mod 8 = j - 8 * n" using minus_mult_div_eq_mod [of j 8] calculation by simp
    ultimately show ?thesis using Suc True
      by (auto simp: bit_or_iff bit_push_bit_iff bit_unsigned_iff)
  next
    case False
    then show ?thesis using Suc
      by (auto simp: bit_or_iff bit_push_bit_iff bit_unsigned_iff dest: bit_imp_le_length)
  qed
qed simp

lemma bit_le_word: "bit (le_word bs) j \<longleftrightarrow> j < 32 \<and> j < 8 * length bs \<and> bit (bs ! (j div 8)) (j mod 8)"
  unfolding le_word_def by (rule bit_or_fold)

lemma le_word_inj: "le_word a = le_word b \<Longrightarrow> length a = length b \<Longrightarrow> length a \<le> 4 \<Longrightarrow> a = b"
proof (rule nth_equalityI)
  fix i assume a: "le_word a = le_word b" "length a = length b" "length a \<le> 4" "i < length a"
  show "a ! i = b ! i"
  proof (rule bit_word_eqI)
    fix k assume "k < LENGTH(8)"
    then have "(8 * i + k) div 8 = i" "(8 * i + k) mod 8 = k" "8 * i + k < 32" "8 * i + k < 8 * length a"
      using a by auto
    with a show "bit (a ! i) k = bit (b ! i) k"
      using bit_le_word [of a "8 * i + k"] bit_le_word [of b "8 * i + k"] by simp
  qed
qed

lemma le_word_snoc: "length bs < 4 \<Longrightarrow> le_word (bs @ [b]) = le_word bs XOR push_bit (8 * length bs) (ucast b)"
proof (rule bit_word_eqI)
  fix n assume a: "length bs < 4" "n < LENGTH(32)"
  show "bit (le_word (bs @ [b])) n = bit (le_word bs XOR push_bit (8 * length bs) (ucast b)) n"
  proof (cases "n < 8 * length bs")
    case True
    then have "n div 8 < length bs" by auto
    with True show ?thesis using a
      by (simp add: bit_le_word bit_xor_iff bit_push_bit_iff bit_unsigned_iff nth_append)
  next
    case False
    note ge = this
    show ?thesis
    proof (cases "n < 8 * length bs + 8")
      case True
      then have "n div 8 = length bs" using ge by auto
      moreover have "n mod 8 = n - 8 * length bs" using minus_mult_div_eq_mod [of n 8] calculation by simp
      moreover have "n - 8 * length bs < 32" using True by linarith
      ultimately show ?thesis using a True ge
        by (simp add: bit_le_word bit_xor_iff bit_push_bit_iff bit_unsigned_iff)
    next
      case False
      then have "\<not> bit b (n - 8 * length bs)" using bit_imp_le_length [of b "n - 8 * length bs"] by auto
      then show ?thesis using a False
        by (simp add: bit_le_word bit_xor_iff bit_push_bit_iff bit_unsigned_iff)
    qed
  qed
qed

lemma crc_burst_fold:
  "length bs \<le> 4 \<Longrightarrow> foldl crc_byte c bs = (crc_shift ^^ (8 * length bs)) (c XOR le_word bs)"
proof (induction bs rule: rev_induct)
  case Nil
  then show ?case by (simp add: le_word_def)
next
  case (snoc b bs)
  let ?n = "8 * length bs" and ?u = "push_bit (8 * length bs) (ucast b :: uint32)"
  have "(crc_shift ^^ ?n) ?u = drop_bit ?n ?u"
    by (rule crc_shift_pow_push [of _ ?n]) (simp_all add: bit_push_bit_iff)
  also have "\<dots> = ucast b"
    using snoc.prems
    by (intro bit_word_eqI)
       (auto simp: bit_drop_bit_eq bit_push_bit_iff bit_unsigned_iff dest: bit_imp_le_length)
  finally have b: "ucast b = (crc_shift ^^ ?n) ?u" by simp
  have "foldl crc_byte c (bs @ [b]) = (crc_shift ^^ 8) ((crc_shift ^^ ?n) (c XOR le_word bs) XOR ucast b)"
    using snoc by (simp add: crc_byte_def [of "(crc_shift ^^ ?n) (c XOR le_word bs)"])
  also have "\<dots> = (crc_shift ^^ (8 + ?n)) ((c XOR le_word bs) XOR ?u)"
    by (subst b) (simp only: crc_shift_pow_xor [symmetric] funpow_add comp_def)
  also have "(c XOR le_word bs) XOR ?u = c XOR le_word (bs @ [b])"
    using snoc.prems by (simp add: le_word_snoc xor.assoc)
  finally show ?case by (simp add: add.commute)
qed

lemma crc_fold_inj: "foldl crc_byte c bs = foldl crc_byte d bs \<Longrightarrow> c = d"
proof (induction bs arbitrary: c d)
  case (Cons b bs)
  then have "crc_byte c b = crc_byte d b" by simp
  then have "c XOR ucast b = d XOR ucast b"
    unfolding crc_byte_def by (rule injD [OF crc_shift_pow_inj])
  then have "ucast b XOR c = ucast b XOR d" by (simp add: xor.commute)
  then show ?case by (rule xor_cancel)
qed simp

lemma crc_reg_burst:
  assumes "length a = length b" "length a \<le> 4" "a \<noteq> b"
  shows "crc_reg (xs @ a @ ys) c \<noteq> crc_reg (xs @ b @ ys) c"
proof
  let ?d = "foldl crc_byte (NOT c) xs"
  assume "crc_reg (xs @ a @ ys) c = crc_reg (xs @ b @ ys) c"
  then have "NOT (NOT (foldl crc_byte (foldl crc_byte ?d a) ys)) = NOT (NOT (foldl crc_byte (foldl crc_byte ?d b) ys))"
    by (simp add: crc_reg_def)
  then have "foldl crc_byte ?d a = foldl crc_byte ?d b"
    unfolding bit.double_compl by (rule crc_fold_inj)
  then have "?d XOR le_word a = ?d XOR le_word b"
    using assms injD [OF crc_shift_pow_inj [of "8 * length a"]] by (simp add: crc_burst_fold)
  then have "le_word a = le_word b" by (rule xor_cancel)
  with assms show False using le_word_inj by blast
qed

section \<open>Properties\<close>

text \<open>C3: the table-driven code computes the CRC-32.  From every state of the static variables
  (the table not yet built, or built), \<open>clib_crc32\<close> on a buffer of at least \<open>len\<close> bytes
  returns the value of the bit-serial shift register over the first \<open>len\<close> bytes, reads nothing
  beyond them, and leaves the variables in such a state again, with the table built.\<close>

theorem crc32_correct:
  assumes "crc_valid st" "len \<le> length buf"
  shows "\<exists>st'. clib_crc32 st buf len = Some (crc_reg (take len buf) 0, st') \<and> crc_valid st' \<and> crc_init st'"
  using crc32_update_spec [OF assms] by (simp add: crc32_spec)

lemma crc32_correct_witness:
  "\<exists>st'. clib_crc32 crc_start [0x31, 0x32, 0x33] 2 = Some (crc_reg [0x31, 0x32] 0, st')
     \<and> crc_valid st' \<and> crc_init st'"
  using crc32_correct [OF crc_start_valid, of 2 "[0x31, 0x32, 0x33]"] by simp

text \<open>A checksum can be continued.  Computing the checksum of a first part and updating it
  with a second gives the checksum of the concatenation.\<close>

theorem crc32_append:
  assumes "crc_valid st"
  shows "map_option fst (clib_crc32 st (xs @ ys) (length (xs @ ys))) =
    map_option fst (do { (c, st1) \<leftarrow> clib_crc32 st xs (length xs); clib_crc32_update st1 ys (length ys) c })"
proof -
  obtain s1 where s1: "clib_crc32 st (xs @ ys) (length (xs @ ys)) = Some (crc_reg (xs @ ys) 0, s1)"
    using crc32_update_spec [OF assms order_refl, of "xs @ ys" 0] by (auto simp: crc32_spec)
  obtain s2 where s2: "clib_crc32 st xs (length xs) = Some (crc_reg xs 0, s2)" "crc_valid s2"
    using crc32_update_spec [OF assms order_refl, of xs 0] by (auto simp: crc32_spec)
  obtain s3 where s3: "clib_crc32_update s2 ys (length ys) (crc_reg xs 0) = Some (crc_reg ys (crc_reg xs 0), s3)"
    using crc32_update_spec [OF s2(2) order_refl, of ys "crc_reg xs 0"] by auto
  have "crc_reg (xs @ ys) 0 = crc_reg ys (crc_reg xs 0)" by (simp add: crc_reg_def)
  with s1 s2 s3 show ?thesis by simp
qed

lemma crc32_append_witness:
  "map_option fst (clib_crc32 crc_start ([1, 2] @ [3]) (length [1, 2, 3 :: byte])) =
    map_option fst (do { (c, st1) \<leftarrow> clib_crc32 crc_start [1, 2] (length [1, 2 :: byte]);
                         clib_crc32_update st1 [3] (length [3 :: byte]) c })"
  using crc32_append [OF crc_start_valid, of "[1, 2]" "[3]"] by simp

text \<open>Error detection.  Two buffers that differ only inside a window of at most four bytes
  have different checksums.\<close>

theorem crc32_burst:
  assumes "crc_valid st" "length a = length b" "length a \<le> 4" "a \<noteq> b"
  shows "map_option fst (clib_crc32 st (xs @ a @ ys) (length (xs @ a @ ys))) \<noteq>
         map_option fst (clib_crc32 st (xs @ b @ ys) (length (xs @ b @ ys)))"
proof -
  obtain s1 where "clib_crc32 st (xs @ a @ ys) (length (xs @ a @ ys)) = Some (crc_reg (xs @ a @ ys) 0, s1)"
    using crc32_update_spec [OF assms(1) order_refl, of "xs @ a @ ys" 0] by (auto simp: crc32_spec)
  moreover obtain s2 where "clib_crc32 st (xs @ b @ ys) (length (xs @ b @ ys)) = Some (crc_reg (xs @ b @ ys) 0, s2)"
    using crc32_update_spec [OF assms(1) order_refl, of "xs @ b @ ys" 0] by (auto simp: crc32_spec)
  ultimately show ?thesis using crc_reg_burst [OF assms(2-4)] by simp
qed

lemma crc32_burst_witness:
  "map_option fst (clib_crc32 crc_start [7, 1, 2, 9] 4) \<noteq> map_option fst (clib_crc32 crc_start [7, 1, 3, 9] 4)"
  using crc32_burst [OF crc_start_valid, of "[2]" "[3]" "[7, 1]" "[9]"] by (simp add: numeral_eq_Suc)

end
