(* ===== verification/Rseq.thy ===== *)
theory Rseq
  imports Prelude
begin

text \<open>
  The random number sequences of \<open>clib/src/rseq.c\<close> and \<open>clib/include/clib/rseq.h\<close>, with the
  method the header selects (\<open>RSEQMETHOD\<close> 5, two multiply-with-carry generators of 16 bits).
  The macros \<open>init_rseq\<close>, \<open>initfull_rseq\<close> and \<open>rseq\<close> of the header and their function versions
  are separate definitions.  A \<open>double\<close> seed enters as its two 32-bit halves, the way
  \<open>init_rseqf_double\<close> reads it.
\<close>

section \<open>The program\<close>

record random_sequence =
  rs_z :: uint32
  rs_w :: uint32

definition init_rseq :: "uint32 \<Rightarrow> random_sequence" where
  "init_rseq seed = \<lparr>rs_z = seed, rs_w = (seed XOR 123459876) * 123459871\<rparr>"

definition initfull_rseq :: "uint32 \<Rightarrow> uint32 \<Rightarrow> random_sequence" where
  "initfull_rseq seed1 seed2 =
     (let z = seed1;
          w = (z XOR 123459876) * 123459871;
          w = w + seed2
      in \<lparr>rs_z = z + (w XOR 1534241562) * 123459876, rs_w = w\<rparr>)"

definition znew :: "uint32 \<Rightarrow> uint32" where
  "znew z = 36969 * (z AND 65535) + drop_bit 16 z"

definition wnew :: "uint32 \<Rightarrow> uint32" where
  "wnew w = 18000 * (w AND 65535) + drop_bit 16 w"

definition rseq :: "random_sequence \<Rightarrow> uint32 \<times> random_sequence" where
  "rseq rs =
     (let z = znew (rs_z rs); w = wnew (rs_w rs)
      in (push_bit 16 z + w, \<lparr>rs_z = z, rs_w = w\<rparr>))"

definition MASK :: uint32 where "MASK = 23459876"

definition init_rseqf :: "uint32 \<Rightarrow> random_sequence" where
  "init_rseqf seed = \<lparr>rs_z = seed, rs_w = (seed XOR MASK) * 123459871\<rparr>"

definition init_rseqf_double :: "64 word \<Rightarrow> random_sequence" where
  "init_rseqf_double seed = initfull_rseq (ucast seed) (ucast (drop_bit 32 seed))"

definition rseqf :: "random_sequence \<Rightarrow> uint32 \<times> random_sequence" where
  "rseqf rs =
     (let z = znew (rs_z rs); w = wnew (rs_w rs)
      in (push_bit 16 z + w, \<lparr>rs_z = z, rs_w = w\<rparr>))"

section \<open>Multiply with carry\<close>

text \<open>\<open>mwc\<close> is one step on natural numbers: the low half times \<open>a\<close> plus the high half.\<close>

definition mwc :: "nat \<Rightarrow> nat \<Rightarrow> nat" where
  "mwc a x = a * (x mod 65536) + x div 65536"

lemma and_65535: "unat ((x :: uint32) AND 65535) = unat x mod 65536"
proof -
  have "(65535 :: uint32) = mask 16" by (simp add: mask_eq_exp_minus_1)
  then have "x AND 65535 = take_bit 16 x" by (simp only: take_bit_eq_mask)
  then show ?thesis by (simp only: unsigned_take_bit_eq) (simp add: take_bit_eq_mod)
qed

lemma drop_16: "unat (drop_bit 16 (x :: uint32)) = unat x div 65536"
proof -
  have "unat (drop_bit 16 x) = drop_bit 16 (unat x)" by (rule unat_drop_bit_eq)
  also have "\<dots> = unat x div 2 ^ 16" by (rule drop_bit_eq_div)
  finally show ?thesis by simp
qed

lemma unat_div_less: "unat (x :: uint32) div 65536 < 65536"
  using unsigned_less [of x, where ?'a = nat] by (simp add: less_mult_imp_div_less)

lemma unat_mwc:
  assumes "a \<le> 65535"
  shows "unat (word_of_nat a * (x AND 65535) + drop_bit 16 x :: uint32) = mwc a (unat x)"
proof -
  have "a * (unat x mod 65536) \<le> 65535 * 65535"
    using assms by (intro mult_le_mono) auto
  then have "mwc a (unat x) < 2 ^ 32"
    using unat_div_less [of x] by (simp add: mwc_def)
  then have "unat (word_of_nat (mwc a (unat x)) :: uint32) = mwc a (unat x)"
    by (simp add: unsigned_of_nat take_bit_nat_eq_self)
  moreover have "word_of_nat a * (x AND 65535) + drop_bit 16 x = word_of_nat (mwc a (unat x))"
    by (simp add: mwc_def flip: and_65535 drop_16)
  ultimately show ?thesis by simp
qed

lemma unat_znew: "unat (znew z) = mwc 36969 (unat z)"
  using unat_mwc [of 36969 z] by (simp add: znew_def)

lemma unat_wnew: "unat (wnew w) = mwc 18000 (unat w)"
  using unat_mwc [of 18000 w] by (simp add: wnew_def)

text \<open>In the ring modulo \<open>a * 65536 - 1\<close> a step divides by 65536.\<close>

lemma mwc_cong: "0 < a \<Longrightarrow> (65536 * mwc a x) mod (a * 65536 - 1) = x mod (a * 65536 - 1)"
proof -
  assume "0 < a"
  then obtain p where p: "a * 65536 = Suc p" by (cases "a * 65536") auto
  have "65536 * mwc a x = (a * 65536) * (x mod 65536) + 65536 * (x div 65536)"
    by (simp add: mwc_def algebra_simps)
  also have "\<dots> = p * (x mod 65536) + x" unfolding p by (simp add: algebra_simps)
  finally show ?thesis by (simp add: p)
qed

lemma mwc_pow_cong: "0 < a \<Longrightarrow> (65536 ^ n * (mwc a ^^ n) x) mod (a * 65536 - 1) = x mod (a * 65536 - 1)"
proof (induction n)
  case (Suc n)
  let ?p = "a * 65536 - 1"
  have "(65536 ^ Suc n * (mwc a ^^ Suc n) x) mod ?p = (65536 ^ n * (65536 * mwc a ((mwc a ^^ n) x))) mod ?p"
    by (simp add: algebra_simps)
  also have "\<dots> = (65536 ^ n * (mwc a ^^ n) x) mod ?p"
    using mod_mult_right_eq [of "65536 ^ n" "65536 * mwc a ((mwc a ^^ n) x)" ?p]
      mod_mult_right_eq [of "65536 ^ n" "(mwc a ^^ n) x" ?p] mwc_cong [OF Suc.prems]
    by (simp only:)
  finally show ?case using Suc by simp
qed simp

text \<open>The states from which a generator is stuck: 0 and the modulus.\<close>

lemma mwc_pow_zero:
  assumes "0 < a" "coprime (65536 :: nat) (a * 65536 - 1)"
  shows "(mwc a ^^ n) x mod (a * 65536 - 1) = 0 \<longleftrightarrow> x mod (a * 65536 - 1) = 0"
proof -
  have "coprime (a * 65536 - 1) (65536 ^ n)" using assms(2) by (simp add: coprime_commute)
  then have "(a * 65536 - 1) dvd 65536 ^ n * (mwc a ^^ n) x \<longleftrightarrow> (a * 65536 - 1) dvd (mwc a ^^ n) x"
    by (rule coprime_dvd_mult_right_iff)
  then show ?thesis using mwc_pow_cong [OF assms(1), of n x] by (auto simp: dvd_eq_mod_eq_0)
qed

fun rseq_take :: "nat \<Rightarrow> random_sequence \<Rightarrow> uint32 list \<times> random_sequence" where
  "rseq_take 0 rs = ([], rs)"
| "rseq_take (Suc n) rs =
     (fst (rseq rs) # fst (rseq_take n (snd (rseq rs))), snd (rseq_take n (snd (rseq rs))))"

lemma rseq_snd: "rs_z (snd (rseq rs)) = znew (rs_z rs)" "rs_w (snd (rseq rs)) = wnew (rs_w rs)"
  by (simp_all add: rseq_def Let_def)

lemma rseq_take_snd:
  "unat (rs_z (snd (rseq_take n rs))) = (mwc 36969 ^^ n) (unat (rs_z rs))
   \<and> unat (rs_w (snd (rseq_take n rs))) = (mwc 18000 ^^ n) (unat (rs_w rs))"
  by (induction n arbitrary: rs) (simp_all add: rseq_snd unat_znew unat_wnew funpow_swap1)

lemma rseq_take_nth:
  "k < n \<Longrightarrow> fst (rseq_take n rs) ! k =
     (let rs' = snd (rseq_take (Suc k) rs) in push_bit 16 (rs_z rs') + rs_w rs')"
proof (induction n arbitrary: rs k)
  case (Suc n)
  show ?case
  proof (cases k)
    case 0
    then show ?thesis by (simp add: rseq_def Let_def)
  next
    case (Suc j)
    then show ?thesis using Suc.IH [of j "snd (rseq rs)"] Suc.prems by (simp add: Let_def)
  qed
qed simp

lemma seed_mult_inj: "a * 123459871 = b * (123459871 :: uint32) \<Longrightarrow> a = b"
proof -
  assume "a * 123459871 = b * (123459871 :: uint32)"
  then have "(a * 123459871) * 1981833951 = (b * 123459871) * (1981833951 :: uint32)" by (simp only:)
  moreover have "123459871 * 1981833951 = (1 :: uint32)" by code_simp
  ultimately show ?thesis by (simp only: mult.assoc mult_1_right)
qed

section \<open>Properties\<close>

text \<open>C35: the generator is the pair of multiplicative congruential sequences it is meant to be.
  After \<open>n\<close> draws from any state the 32-bit arithmetic has lost nothing: each half of the state
  is the start value divided \<open>n\<close> times by 65536 modulo \<open>36969 * 65536 - 1\<close> and modulo
  \<open>18000 * 65536 - 1\<close>, and the \<open>k\<close>-th value drawn combines the halves after \<open>k + 1\<close> steps.\<close>

theorem rseq_congruential:
  "(65536 ^ n * unat (rs_z (snd (rseq_take n rs)))) mod 2422800383 = unat (rs_z rs) mod 2422800383
   \<and> (65536 ^ n * unat (rs_w (snd (rseq_take n rs)))) mod 1179647999 = unat (rs_w rs) mod 1179647999
   \<and> length (fst (rseq_take n rs)) = n
   \<and> (\<forall>k < n. fst (rseq_take n rs) ! k =
        push_bit 16 (rs_z (snd (rseq_take (Suc k) rs))) + rs_w (snd (rseq_take (Suc k) rs)))"
proof -
  have "length (fst (rseq_take n rs)) = n" by (induction n arbitrary: rs) simp_all
  then show ?thesis
    using mwc_pow_cong [of 36969 n "unat (rs_z rs)"] mwc_pow_cong [of 18000 n "unat (rs_w rs)"]
    by (simp add: rseq_take_snd rseq_take_nth Let_def del: rseq_take.simps)
qed

lemma rseq_congruential_witness:
  "(65536 ^ 3 * unat (rs_z (snd (rseq_take 3 (init_rseq 42))))) mod 2422800383 = 42"
  using rseq_congruential [of 3 "init_rseq 42"] by (simp add: init_rseq_def del: rseq_take.simps)

text \<open>A sequence does not run dry.  A state whose two halves are no multiples of the moduli
  never reaches one of the degenerate halves, 0 and the modulus, from which a half never moves.\<close>

theorem rseq_alive:
  assumes "unat (rs_z rs) mod 2422800383 \<noteq> 0" "unat (rs_w rs) mod 1179647999 \<noteq> 0"
  shows "rs_z (snd (rseq_take n rs)) \<noteq> 0 \<and> rs_w (snd (rseq_take n rs)) \<noteq> 0
    \<and> rs_z (snd (rseq_take n rs)) \<noteq> 2422800383 \<and> rs_w (snd (rseq_take n rs)) \<noteq> 1179647999"
proof -
  have c: "coprime (65536 :: nat) (36969 * 65536 - 1)" "coprime (65536 :: nat) (18000 * 65536 - 1)"
    by (simp_all add: coprime_iff_gcd_eq_1 gcd_nat.simps)
  have "unat (rs_z (snd (rseq_take n rs))) mod 2422800383 \<noteq> 0"
       "unat (rs_w (snd (rseq_take n rs))) mod 1179647999 \<noteq> 0"
    using mwc_pow_zero [OF _ c(1), of n "unat (rs_z rs)"] mwc_pow_zero [OF _ c(2), of n "unat (rs_w rs)"] assms
    by (simp_all add: rseq_take_snd del: rseq_take.simps)
  then show ?thesis by auto
qed

lemma rseq_alive_witness: "rs_z (snd (rseq_take 100 (init_rseq 1))) \<noteq> 0"
  using rseq_alive [of "init_rseq 1" 100] by (simp add: init_rseq_def del: rseq_take.simps)

text \<open>The function version of the initialiser is not the macro.  For every seed
  \<open>init_rseqf\<close> and the macro \<open>init_rseq\<close> start different sequences, because they mask the seed
  with different constants; the drawing function \<open>rseqf\<close> is the macro \<open>rseq\<close>.\<close>

theorem init_rseqf_differs:
  "rs_z (init_rseqf seed) = rs_z (init_rseq seed) \<and> rs_w (init_rseqf seed) \<noteq> rs_w (init_rseq seed)
   \<and> rseqf rs = rseq rs"
proof -
  have "seed XOR MASK \<noteq> seed XOR 123459876"
  proof
    assume "seed XOR MASK = seed XOR 123459876"
    then have "MASK = 123459876" by (rule xor_cancel)
    then show False by (simp add: MASK_def)
  qed
  then have "(seed XOR MASK) * 123459871 \<noteq> (seed XOR 123459876) * 123459871"
    using seed_mult_inj by blast
  moreover have "rseqf rs = rseq rs" by (simp only: rseqf_def rseq_def)
  ultimately show ?thesis by (simp only: init_rseqf_def init_rseq_def random_sequence.select_convs) simp
qed

end
