(* ===== verification/CString.thy ===== *)
theory CString
  imports Prelude
begin

text \<open>
  The parts of the C library's strings that the sources use.  A block of characters is a list
  of bytes whose length is the size of the object; a string in it is what stands before the
  first NUL.  A call that would run past the end of a block is \<open>None\<close>.
\<close>

section \<open>The library calls\<close>

definition c_strlen :: "byte list \<Rightarrow> nat option" where
  "c_strlen blk = (if 0 \<in> set blk then Some (length (takeWhile (\<lambda>c. c \<noteq> 0) blk)) else None)"

definition write_at :: "byte list \<Rightarrow> nat \<Rightarrow> byte list \<Rightarrow> byte list option" where
  "write_at blk i bs =
     (if i + length bs \<le> length blk then Some (take i blk @ bs @ drop (i + length bs) blk) else None)"

definition c_strcpy :: "byte list \<Rightarrow> byte list \<Rightarrow> byte list option" where
  "c_strcpy dst src = do { n \<leftarrow> c_strlen src; write_at dst 0 (take n src @ [0]) }"

text \<open>\<open>strncpy\<close> writes exactly \<open>n\<close> bytes: characters up to the NUL, then zeros.\<close>

definition c_strncpy :: "byte list \<Rightarrow> byte list \<Rightarrow> nat \<Rightarrow> byte list option" where
  "c_strncpy dst src n =
     (let t = takeWhile (\<lambda>c. c \<noteq> 0) (take n src)
      in if length t < n \<and> length t = length src then None
         else write_at dst 0 (t @ replicate (n - length t) 0))"

text \<open>\<open>strncat\<close> appends at most \<open>n\<close> characters and always a NUL.\<close>

definition c_strncat :: "byte list \<Rightarrow> byte list \<Rightarrow> nat \<Rightarrow> byte list option" where
  "c_strncat dst src n = do {
     d \<leftarrow> c_strlen dst;
     let t = takeWhile (\<lambda>c. c \<noteq> 0) (take n src);
     if length t < n \<and> length t = length src then None
     else write_at dst d (t @ [0]) }"

text \<open>\<open>sprintf(buf, "%ld", n)\<close>: the decimal digits with a sign.\<close>

fun decimal :: "nat \<Rightarrow> byte list" where
  "decimal n = (if n < 10 then [word_of_nat (48 + n)] else decimal (n div 10) @ [word_of_nat (48 + n mod 10)])"

declare decimal.simps [simp del]

definition c_decimal :: "int \<Rightarrow> byte list" where
  "c_decimal n = (if n < 0 then 45 # decimal (nat (- n)) else decimal (nat n))"

text \<open>Reading a number back, as \<open>strtol\<close> with base 10 does on its digits.\<close>

definition c_number :: "byte list \<Rightarrow> int" where
  "c_number ds = (case ds of
     [] \<Rightarrow> 0
   | d # rest \<Rightarrow> if d = 45 then - foldl (\<lambda>v c. 10 * v + (uint c - 48)) 0 rest
                 else foldl (\<lambda>v c. 10 * v + (uint c - 48)) 0 ds)"

section \<open>Facts\<close>

definition holds_text :: "byte list \<Rightarrow> byte list \<Rightarrow> bool" where
  "holds_text blk t \<longleftrightarrow> 0 \<notin> set t \<and> length t < length blk \<and> take (length t + 1) blk = t @ [0]"

lemma holds_text_alt: "holds_text blk t \<longleftrightarrow> 0 \<notin> set t \<and> (\<exists>rest. blk = t @ 0 # rest)"
proof
  assume h: "holds_text blk t"
  then have "blk = (t @ [0]) @ drop (length t + 1) blk"
    by (metis append_take_drop_id holds_text_def)
  with h show "0 \<notin> set t \<and> (\<exists>rest. blk = t @ 0 # rest)" by (auto simp: holds_text_def)
qed (auto simp: holds_text_def)

lemma takeWhile_zero: "0 \<notin> set t \<Longrightarrow> takeWhile (\<lambda>c. c \<noteq> 0) (t @ 0 # r) = t"
  by (induction t) auto

lemma takeWhile_text: "holds_text blk t \<Longrightarrow> takeWhile (\<lambda>c. c \<noteq> 0) blk = t"
proof -
  assume "holds_text blk t"
  then obtain rest where "0 \<notin> set t" "blk = t @ 0 # rest" by (auto simp: holds_text_alt)
  then show ?thesis by (simp add: takeWhile_zero)
qed

lemma c_strlen_text [simp]: "holds_text blk t \<Longrightarrow> c_strlen blk = Some (length t)"
  by (auto simp: c_strlen_def takeWhile_text) (auto simp: holds_text_alt)

lemma holds_text_take: "holds_text blk t \<Longrightarrow> n \<le> length t \<Longrightarrow> take n blk = take n t"
  by (auto simp: holds_text_alt)

lemma write_at_text:
  "0 \<notin> set t \<Longrightarrow> 0 \<notin> set s \<Longrightarrow> take (length s) dst = s \<Longrightarrow> length s + length t < length dst \<Longrightarrow>
     \<exists>b. write_at dst (length s) (t @ [0]) = Some b \<and> holds_text b (s @ t) \<and> length b = length dst"
  by (auto simp: write_at_def holds_text_alt)

lemma c_strcpy_text:
  assumes "holds_text src t" "length t < length dst"
  shows "\<exists>b. c_strcpy dst src = Some b \<and> holds_text b t \<and> length b = length dst"
  using write_at_text [of t "[]" dst] assms
  by (simp add: c_strcpy_def holds_text_take) (simp add: holds_text_def)

lemma takeWhile_take_text:
  "holds_text src t \<Longrightarrow> takeWhile (\<lambda>c. c \<noteq> 0) (take n src) = take n t"
proof (cases "n \<le> length t")
  case True
  assume h: "holds_text src t"
  then have "take n src = take n t" using True by (rule holds_text_take)
  moreover have "\<forall>c \<in> set (take n t). c \<noteq> 0" using h by (auto simp: holds_text_def dest: in_set_takeD)
  ultimately show ?thesis by (simp add: takeWhile_eq_all_conv)
next
  case False
  assume "holds_text src t"
  then obtain rest where "0 \<notin> set t" "src = t @ 0 # rest" by (auto simp: holds_text_alt)
  moreover obtain k where "n - length t = Suc k" using False by (metis Suc_diff_Suc not_le)
  ultimately show ?thesis by (simp add: takeWhile_zero)
qed

lemma c_strncat_text:
  assumes "holds_text dst s" "holds_text src t" "length s + min n (length t) < length dst"
  shows "\<exists>b. c_strncat dst src n = Some b \<and> holds_text b (s @ take n t) \<and> length b = length dst"
proof -
  have "length (take n t) \<noteq> length src" using assms(2) by (auto simp: holds_text_def)
  moreover have "0 \<notin> set (take n t)" using assms(2) by (auto simp: holds_text_def dest: in_set_takeD)
  moreover have "0 \<notin> set s" "take (length s) dst = s" using assms(1) by (auto simp: holds_text_alt)
  ultimately show ?thesis
    using write_at_text [of "take n t" s dst] assms
    by (simp add: c_strncat_def takeWhile_take_text Let_def min.commute)
qed

lemma c_strncpy_text:
  assumes "holds_text src t" "n < length dst" "length t \<le> n"
  shows "\<exists>b. c_strncpy dst src (Suc n) = Some b \<and> holds_text b t \<and> length b = length dst"
proof -
  have "take (Suc n) t = t" "length t \<noteq> length src" using assms by (auto simp: holds_text_def)
  moreover obtain k where "Suc n - length t = Suc k" using assms(3) by (metis Suc_diff_le)
  ultimately show ?thesis using assms
    by (auto simp: c_strncpy_def takeWhile_take_text Let_def write_at_def holds_text_alt)
qed

lemma digit_word: "d < 10 \<Longrightarrow> uint (word_of_nat (48 + d) :: byte) = 48 + int d"
proof -
  assume "d < 10"
  then have "unat (word_of_nat (48 + d) :: byte) = 48 + d"
    by (simp add: unsigned_of_nat take_bit_nat_eq_self del: of_nat_add)
  then show ?thesis by (metis of_nat_add of_nat_numeral uint_nat)
qed

lemma decimal_value: "foldl (\<lambda>v c. 10 * v + (uint c - 48)) 0 (decimal n) = int n"
proof (induction n rule: decimal.induct)
  case (1 n)
  show ?case
  proof (cases "n < 10")
    case True
    then show ?thesis using digit_word [of n] by (subst decimal.simps) simp
  next
    case False
    then show ?thesis using 1 digit_word [of "n mod 10"]
      by (subst decimal.simps) (simp add: zdiv_int zmod_int)
  qed
qed

lemma decimal_digits: "c \<in> set (decimal n) \<Longrightarrow> 48 \<le> uint c \<and> uint c \<le> 57"
proof (induction n rule: decimal.induct)
  case (1 n)
  show ?case
  proof (cases "n < 10")
    case True
    then show ?thesis using "1.prems" digit_word [of n] by (subst (asm) decimal.simps) simp
  next
    case False
    then have "c \<in> set (decimal (n div 10)) \<or> c = word_of_nat (48 + n mod 10)"
      using "1.prems" by (subst (asm) decimal.simps) auto
    then show ?thesis using False "1.IH" digit_word [of "n mod 10"] by auto
  qed
qed

lemma decimal_nonempty [simp]: "decimal n \<noteq> []"
  by (subst decimal.simps) simp

lemma c_number_decimal: "c_number (c_decimal n) = n"
proof (cases "n < 0")
  case True
  then show ?thesis by (simp add: c_decimal_def c_number_def decimal_value)
next
  case False
  obtain d ds where d: "decimal (nat n) = d # ds" by (cases "decimal (nat n)") auto
  then have "d \<noteq> 45" using decimal_digits [of d "nat n"] by auto
  then show ?thesis using False d decimal_value [of "nat n"]
    by (simp add: c_decimal_def c_number_def)
qed

lemma c_decimal_text: "0 \<notin> set (c_decimal n)"
  using decimal_digits [of 0] by (auto simp: c_decimal_def)

lemma length_decimal: "n < 10 ^ k \<Longrightarrow> 0 < k \<Longrightarrow> length (decimal n) \<le> k"
proof (induction n arbitrary: k rule: decimal.induct)
  case (1 n)
  show ?case
  proof (cases "n < 10")
    case True
    with "1.prems" show ?thesis by (subst decimal.simps) simp
  next
    case False
    then obtain j where j: "k = Suc j" "0 < j" using "1.prems" by (cases k; cases "k - 1") auto
    have "n div 10 < 10 ^ j" using "1.prems" j by (simp add: less_mult_imp_div_less mult.commute)
    then have "length (decimal (n div 10)) \<le> j" using 1 False j by simp
    then show ?thesis using False j by (subst decimal.simps) simp
  qed
qed

end
