(* ===== verification/Dstr.thy ===== *)
theory Dstr
  imports CString
begin

text \<open>
  The expanding strings of \<open>clib/src/dstr.c\<close>.  A \<open>dstr\<close> has a size, which does not count the
  terminating NUL, and a block, \<open>None\<close> for a null pointer.  The allocator is a parameter: \<open>ok n\<close>
  says whether a request of \<open>n\<close> bytes succeeds, and \<open>junk\<close> gives the bytes of fresh memory.  The
  pointer that the functions return is the block of the new state.
\<close>

section \<open>The program\<close>

record dstr =
  ds_size :: nat
  ds_s :: "byte list option"

definition dstr0 :: dstr where "dstr0 = \<lparr>ds_size = 0, ds_s = None\<rparr>"

definition alunit :: nat where "alunit = 0x80"

definition alsize :: "nat \<Rightarrow> nat" where
  "alsize s = ((s + alunit - 1) div alunit) * alunit"

definition c_grow :: "(nat \<Rightarrow> bool) \<Rightarrow> (nat \<Rightarrow> byte) \<Rightarrow> byte list option \<Rightarrow> nat \<Rightarrow> byte list option" where
  "c_grow ok junk blk n =
     (if ok n then Some (c_realloc junk (case blk of None \<Rightarrow> [] | Some b \<Rightarrow> b) n) else None)"

definition dstralloc :: "(nat \<Rightarrow> bool) \<Rightarrow> (nat \<Rightarrow> byte) \<Rightarrow> dstr \<Rightarrow> nat \<Rightarrow> dstr option" where
  "dstralloc ok junk dst sl =
     (if alsize (ds_size dst) < sl then
        let s = c_grow ok junk (ds_s dst) (alsize sl + 1)
        in if ds_size dst \<noteq> 0 \<and> s = None then Some \<lparr>ds_size = 0, ds_s = None\<rparr>
           else do {
             b \<leftarrow> s;
             b \<leftarrow> awrite b sl 0;
             Some \<lparr>ds_size = sl, ds_s = Some b\<rparr> }
      else Some (dst\<lparr>ds_size := sl\<rparr>))"

definition dstrcpy :: "(nat \<Rightarrow> bool) \<Rightarrow> (nat \<Rightarrow> byte) \<Rightarrow> dstr \<Rightarrow> byte list option \<Rightarrow> dstr option" where
  "dstrcpy ok junk dst src = do {
     src \<leftarrow> src;
     sl \<leftarrow> c_strlen src;
     let grow = (alsize (ds_size dst) < sl);
     let s = (if grow then c_grow ok junk (ds_s dst) (alsize sl + 1) else ds_s dst);
     if grow \<and> ds_size dst \<noteq> 0 \<and> s = None then Some \<lparr>ds_size = 0, ds_s = None\<rparr>
     else do {
       b \<leftarrow> s;
       b \<leftarrow> c_strcpy b src;
       Some \<lparr>ds_size = sl, ds_s = Some b\<rparr> } }"

definition dstrncat :: "(nat \<Rightarrow> bool) \<Rightarrow> (nat \<Rightarrow> byte) \<Rightarrow> dstr \<Rightarrow> byte list option \<Rightarrow> nat \<Rightarrow> dstr option" where
  "dstrncat ok junk dst src len =
     (case src of
        None \<Rightarrow> Some dst
      | Some src \<Rightarrow> do {
          sl \<leftarrow> c_strlen src;
          let sl = (if len < sl then len else sl);
          if sl = 0 then Some dst
          else do {
            let grow = (alsize (ds_size dst) < ds_size dst + sl);
            let s = (if grow then c_grow ok junk (ds_s dst) (alsize (ds_size dst + sl) + 1) else ds_s dst);
            if grow \<and> ds_size dst \<noteq> 0 \<and> s = None then Some \<lparr>ds_size = 0, ds_s = None\<rparr>
            else do {
              b \<leftarrow> s;
              b \<leftarrow> (if ds_size dst \<noteq> 0 then c_strncat b src sl else c_strncpy b src (sl + 1));
              Some \<lparr>ds_size = ds_size dst + sl, ds_s = Some b\<rparr> } } })"

definition dstrcat :: "(nat \<Rightarrow> bool) \<Rightarrow> (nat \<Rightarrow> byte) \<Rightarrow> dstr \<Rightarrow> byte list option \<Rightarrow> dstr option" where
  "dstrcat ok junk dst src = do { b \<leftarrow> src; n \<leftarrow> c_strlen b; dstrncat ok junk dst src n }"

text \<open>\<open>dstrlong\<close> formats into a buffer of 65 bytes, then concatenates.\<close>

definition dstrlong :: "(nat \<Rightarrow> bool) \<Rightarrow> (nat \<Rightarrow> byte) \<Rightarrow> dstr \<Rightarrow> 64 word \<Rightarrow> dstr option" where
  "dstrlong ok junk dst src = do {
     buf \<leftarrow> write_at (c_malloc junk 65) 0 (c_decimal (sint src) @ [0]);
     dstrcat ok junk dst (Some buf) }"

text \<open>The macro \<open>dstrfree\<close>.\<close>

definition dstrfree :: "dstr \<Rightarrow> dstr" where
  "dstrfree dst = dst\<lparr>ds_size := 0, ds_s := None\<rparr>"

section \<open>The text of a string\<close>

text \<open>\<open>dstr_text d t\<close>: the string holds the text \<open>t\<close>, and its block is as large as the code
  assumes from the size.\<close>

definition dstr_text :: "dstr \<Rightarrow> byte list \<Rightarrow> bool" where
  "dstr_text d t \<longleftrightarrow> ds_size d = length t \<and> 0 \<notin> set t \<and>
     (case ds_s d of None \<Rightarrow> t = [] | Some b \<Rightarrow> alsize (length t) < length b \<and> (t \<noteq> [] \<longrightarrow> holds_text b t))"

lemma alsize_ge: "n \<le> alsize n"
proof -
  have "(n + 127) div 128 * 128 + (n + 127) mod 128 = n + 127" by (rule div_mult_mod_eq)
  moreover have "(n + 127) mod 128 < 128" by simp
  ultimately show ?thesis by (simp add: alsize_def alunit_def)
qed

lemma alsize_less: "alsize n < n + 128"
proof -
  have "(n + 127) div 128 * 128 + (n + 127) mod 128 = n + 127" by (rule div_mult_mod_eq)
  then show ?thesis by (simp add: alsize_def alunit_def)
qed

lemma alsize_mono: "m \<le> n \<Longrightarrow> alsize m \<le> alsize n"
  by (simp add: alsize_def alunit_def div_le_mono)

lemma alsize_bound: "n \<le> alsize m \<Longrightarrow> alsize n \<le> alsize m"
proof -
  assume "n \<le> alsize m"
  then have "alsize n \<le> alsize (alsize m)" by (rule alsize_mono)
  also have "alsize (alsize m) = alsize m" by (simp add: alsize_def alunit_def)
  finally show ?thesis .
qed

lemma dstr_text_0 [simp]: "dstr_text dstr0 []"
  by (simp add: dstr_text_def dstr0_def)

lemma dstrncat_text:
  assumes "dstr_text d t" "holds_text src u" "length u \<le> len" "\<forall>n. ok n"
  shows "\<exists>d'. dstrncat ok junk d (Some src) len = Some d' \<and> dstr_text d' (t @ u)"
proof (cases "u = []")
  case True
  then show ?thesis using assms by (simp add: dstrncat_def)
next
  case False
  let ?n = "length t + length u"
  define grow where "grow \<longleftrightarrow> alsize (length t) < ?n"
  define blk where "blk = (case ds_s d of None \<Rightarrow> [] | Some b \<Rightarrow> b)"
  define b where "b = (if grow then c_realloc junk blk (alsize ?n + 1) else blk)"
  have sz: "ds_size d = length t" "0 \<notin> set t" using assms(1) by (simp_all add: dstr_text_def)
  have u: "0 \<notin> set u" using assms(2) by (simp add: holds_text_def)
  have none: "ds_s d = None \<Longrightarrow> grow"
    using assms(1) False by (cases u) (auto simp: dstr_text_def grow_def alsize_def alunit_def)
  then have s: "(if grow then c_grow ok junk (ds_s d) (alsize ?n + 1) else ds_s d) = Some b"
    using assms(4) by (auto simp: c_grow_def b_def blk_def split: option.splits)
  have cap: "alsize ?n < length b"
  proof (cases grow)
    case True
    then show ?thesis by (simp add: b_def)
  next
    case False
    then have "alsize ?n \<le> alsize (length t)" by (intro alsize_bound) (simp add: grow_def)
    with none assms(1) False show ?thesis by (auto simp: dstr_text_def b_def blk_def split: option.splits)
  qed
  have old: "holds_text b t" if "t \<noteq> []"
  proof -
    from that assms(1) have h: "holds_text blk t" by (auto simp: dstr_text_def blk_def split: option.splits)
    show ?thesis
    proof (cases grow)
      case True
      have "length t + 1 \<le> alsize ?n + 1" using alsize_ge [of ?n] by simp
      then show ?thesis using h True unfolding b_def holds_text_def
        by (simp add: take_c_realloc)
    qed (simp add: b_def h)
  qed
  have len: "?n < length b" using cap alsize_ge [of ?n] by simp
  have "\<exists>b'. (if ds_size d \<noteq> 0 then c_strncat b src (length u) else c_strncpy b src (length u + 1)) = Some b'
      \<and> holds_text b' (t @ u) \<and> length b' = length b"
  proof (cases "t = []")
    case True
    then show ?thesis using c_strncpy_text [OF assms(2), of "length u" b] len sz by simp
  next
    case False
    then show ?thesis using c_strncat_text [OF old assms(2), of "length u"] len sz by simp
  qed
  then obtain b' where b': "(if ds_size d \<noteq> 0 then c_strncat b src (length u) else c_strncpy b src (length u + 1)) = Some b'"
      "holds_text b' (t @ u)" "length b' = length b" by blast
  have "dstrncat ok junk d (Some src) len = Some \<lparr>ds_size = ?n, ds_s = Some b'\<rparr>"
    using assms(2,3) False s b'(1) sz unfolding dstrncat_def grow_def
    by (auto simp: Let_def)
  then show ?thesis using b' cap sz u by (simp add: dstr_text_def)
qed

lemma dstrcat_text:
  assumes "dstr_text d t" "holds_text src u" "\<forall>n. ok n"
  shows "\<exists>d'. dstrcat ok junk d (Some src) = Some d' \<and> dstr_text d' (t @ u)"
  using dstrncat_text [OF assms(1,2) order_refl assms(3)] assms(2) by (simp add: dstrcat_def)

lemma dstrcpy_text:
  assumes "dstr_text d t" "holds_text src u" "\<forall>n. ok n" "ds_s d \<noteq> None \<or> u \<noteq> []"
  shows "\<exists>d'. dstrcpy ok junk d (Some src) = Some d' \<and> dstr_text d' u"
proof -
  define grow where "grow \<longleftrightarrow> alsize (length t) < length u"
  define blk where "blk = (case ds_s d of None \<Rightarrow> [] | Some b \<Rightarrow> b)"
  define b where "b = (if grow then c_realloc junk blk (alsize (length u) + 1) else blk)"
  have sz: "ds_size d = length t" using assms(1) by (simp add: dstr_text_def)
  have u: "0 \<notin> set u" using assms(2) by (simp add: holds_text_def)
  have none: "ds_s d = None \<Longrightarrow> grow"
    using assms(1,4) by (cases u) (auto simp: dstr_text_def grow_def alsize_def alunit_def)
  then have s: "(if grow then c_grow ok junk (ds_s d) (alsize (length u) + 1) else ds_s d) = Some b"
    using assms(3) by (auto simp: c_grow_def b_def blk_def split: option.splits)
  have cap: "alsize (length u) < length b"
  proof (cases grow)
    case True
    then show ?thesis by (simp add: b_def)
  next
    case False
    then have "alsize (length u) \<le> alsize (length t)" by (intro alsize_bound) (simp add: grow_def)
    with none assms(1) False show ?thesis by (auto simp: dstr_text_def b_def blk_def split: option.splits)
  qed
  then have "length u < length b" using alsize_ge [of "length u"] by simp
  from c_strcpy_text [OF assms(2) this] obtain b' where
    b': "c_strcpy b src = Some b'" "holds_text b' u" "length b' = length b" by blast
  have "dstrcpy ok junk d (Some src) = Some \<lparr>ds_size = length u, ds_s = Some b'\<rparr>"
    using assms(2) s b'(1) sz unfolding dstrcpy_def grow_def by (auto simp: Let_def)
  then show ?thesis using b' cap u by (simp add: dstr_text_def)
qed

lemmas dstr_ops_text = dstrncat_text dstrcat_text dstrcpy_text

fun dstrcat_all :: "(nat \<Rightarrow> bool) \<Rightarrow> (nat \<Rightarrow> byte) \<Rightarrow> dstr \<Rightarrow> byte list list \<Rightarrow> dstr option" where
  "dstrcat_all ok junk d [] = Some d"
| "dstrcat_all ok junk d (src # srcs) = do {
     d \<leftarrow> dstrcat ok junk d (Some src); dstrcat_all ok junk d srcs }"

section \<open>Properties\<close>

text \<open>C33: building a text by concatenation.  Starting from a string that holds \<open>t\<close> and while the
  allocator succeeds, any sequence of \<open>dstrcat\<close> calls runs without touching memory outside of
  a block, and the string then holds \<open>t\<close> followed by all the texts; copying a text over the
  result with \<open>dstrcpy\<close> makes it hold that text alone.\<close>

theorem dstr_builds:
  assumes "dstr_text d t" "list_all2 holds_text srcs us" "\<forall>n. ok n" "holds_text src u" "u \<noteq> []"
  shows "\<exists>d' d''. dstrcat_all ok junk d srcs = Some d' \<and> dstr_text d' (t @ concat us)
    \<and> dstrcpy ok junk d' (Some src) = Some d'' \<and> dstr_text d'' u"
proof -
  have "\<exists>d'. dstrcat_all ok junk d srcs = Some d' \<and> dstr_text d' (t @ concat us)"
    using assms(2,1)
  proof (induction srcs us arbitrary: d t rule: list_all2_induct)
    case (Cons b srcs v us)
    obtain d1 where d1: "dstrcat ok junk d (Some b) = Some d1" "dstr_text d1 (t @ v)"
      using dstrcat_text [OF Cons.prems Cons.hyps(1) assms(3)] by blast
    from Cons.IH [OF d1(2)] d1(1) show ?case by simp
  qed simp
  then show ?thesis using dstrcpy_text [OF _ assms(4,3)] assms(5) by blast
qed

lemma dstr_builds_witness:
  "\<exists>d'. dstrcat_all (\<lambda>_. True) (\<lambda>_. 1) dstr0 [[97, 98, 0], [0], [99, 0, 100]] = Some d' \<and> dstr_text d' [97, 98, 99]"
  using dstr_builds [of dstr0 "[]" "[[97, 98, 0], [0], [99, 0, 100]]" "[[97, 98], [], [99]]" "\<lambda>_. True" "[97, 0]" "[97]"]
  by (simp add: holds_text_def) blast

text \<open>Appending a number.  \<open>dstrlong\<close> appends the decimal text of every \<open>long\<close>, and
  reading that text back gives the number; its formatting buffer is never overrun.\<close>

theorem dstrlong_text:
  assumes "dstr_text d t" "\<forall>n. ok n"
  shows "\<exists>d' u. dstrlong ok junk d x = Some d' \<and> dstr_text d' (t @ u) \<and> c_number u = sint x"
proof -
  let ?u = "c_decimal (sint x)"
  have "- (2 ^ 63) \<le> sint x" "sint x < 2 ^ 63"
    using sint_ge [of x] sint_lt [of x] by simp_all
  then have "nat \<bar>sint x\<bar> < 10 ^ 63" by simp
  then have "length (decimal (nat (sint x))) \<le> 63" "length (decimal (nat (- sint x))) \<le> 63"
    using length_decimal [of "nat (sint x)" 63] length_decimal [of "nat (- sint x)" 63] by linarith+
  then have "length ?u \<le> 64" by (simp add: c_decimal_def)
  then obtain b where b: "write_at (c_malloc junk 65) 0 (?u @ [0]) = Some b" "holds_text b ?u"
    using write_at_text [of ?u "[]" "c_malloc junk 65"] c_decimal_text by auto
  then show ?thesis
    using dstrcat_text [OF assms(1) b(2) assms(2), of junk] c_number_decimal
    by (auto simp: dstrlong_def)
qed

lemma dstrlong_text_witness:
  "\<exists>d' u. dstrlong (\<lambda>_. True) (\<lambda>_. 1) dstr0 (- 5) = Some d' \<and> dstr_text d' u \<and> c_number u = - 5"
  using dstrlong_text [of dstr0 "[]" "\<lambda>_. True" "\<lambda>_. 1" "- 5"] by simp

text \<open>Two edges of an empty string.  Copying an empty text into a string that has no block
  writes through the null pointer; and appending the first \<open>len\<close> characters of a longer text to
  an empty string stores one character too many and no NUL, so that it does not hold them.\<close>

theorem dstr_empty_edges:
  assumes "holds_text src []" "holds_text src' u" "0 < len" "len < length u" "\<forall>n. ok n"
  shows "dstrcpy ok junk dstr0 (Some src) = None
    \<and> (\<exists>d'. dstrncat ok junk dstr0 (Some src') len = Some d' \<and> \<not> dstr_text d' (take len u))"
proof
  show "dstrcpy ok junk dstr0 (Some src) = None"
    using assms(1) by (simp add: dstrcpy_def dstr0_def)
  define b where "b = c_realloc junk [] (alsize len + 1)"
  let ?t = "take (Suc len) u"
  have t: "takeWhile (\<lambda>c. c \<noteq> 0) (take (Suc len) src') = ?t" "length ?t = Suc len" "0 \<notin> set ?t"
    using takeWhile_take_text [OF assms(2)] assms(2,4) by (auto simp: holds_text_def dest: in_set_takeD)
  have "len < length b" using alsize_ge [of len] by (simp add: b_def)
  then obtain b' where b': "c_strncpy b src' (Suc len) = Some b'" "take (Suc len) b' = ?t"
    using t by (simp add: c_strncpy_def Let_def write_at_def)
  have "alsize 0 < len" using assms(3) by (simp add: alsize_def alunit_def)
  then have "dstrncat ok junk dstr0 (Some src') len = Some \<lparr>ds_size = len, ds_s = Some b'\<rparr>"
    using assms b'(1) by (auto simp: dstrncat_def dstr0_def Let_def c_grow_def b_def)
  moreover have "\<not> dstr_text \<lparr>ds_size = len, ds_s = Some b'\<rparr> (take len u)"
  proof
    assume "dstr_text \<lparr>ds_size = len, ds_s = Some b'\<rparr> (take len u)"
    then have "holds_text b' (take len u)" using assms(3,4) by (auto simp: dstr_text_def)
    then have "0 \<in> set (take (Suc len) b')" using assms(4) by (simp add: holds_text_def min_def)
    with b'(2) t(3) show False by simp
  qed
  ultimately show "\<exists>d'. dstrncat ok junk dstr0 (Some src') len = Some d' \<and> \<not> dstr_text d' (take len u)"
    by blast
qed

lemma dstr_empty_edges_witness:
  "dstrcpy (\<lambda>_. True) (\<lambda>_. 1) dstr0 (Some [0]) = None
    \<and> (\<exists>d'. dstrncat (\<lambda>_. True) (\<lambda>_. 1) dstr0 (Some [97, 98, 99, 0]) 2 = Some d' \<and> \<not> dstr_text d' [97, 98])"
  using dstr_empty_edges [of "[0]" "[97, 98, 99, 0]" "[97, 98, 99]" 2 "\<lambda>_. True"]
  by (simp add: holds_text_def)

end
