(* ===== verification/Vecmath.thy ===== *)
theory Vecmath
  imports Prelude Complex_Main
begin

text \<open>
  The vector, matrix and quaternion arithmetic of \<open>clib\<close>: the macros of \<open>avec3.h\<close>,
  \<open>amat3.h\<close>, \<open>amat4.h\<close>, \<open>aquat.h\<close> and \<open>aquatrot.h\<close> and the functions of \<open>amat3.c\<close>,
  \<open>amat4.c\<close>, \<open>aquat.c\<close>, \<open>aquatrot.c\<close> and \<open>cfloat.c\<close>.  The fixed arrays of doubles are
  datatypes whose \<open>k\<close>-th field is the element \<open>[k]\<close>.  A \<open>double\<close> is a real number: the
  theorems are about the formulas, without rounding, infinities or NaN.
\<close>

section \<open>Vectors\<close>

datatype vec3 = V3 real real real

datatype vec4 = V4 real real real real

fun VECADD :: "vec3 \<Rightarrow> vec3 \<Rightarrow> vec3" where
  "VECADD (V3 a0 a1 a2) (V3 b0 b1 b2) = V3 (a0 + b0) (a1 + b1) (a2 + b2)"

fun VECSUB :: "vec3 \<Rightarrow> vec3 \<Rightarrow> vec3" where
  "VECSUB (V3 a0 a1 a2) (V3 b0 b1 b2) = V3 (a0 - b0) (a1 - b1) (a2 - b2)"

fun VECSADD :: "vec3 \<Rightarrow> vec3 \<Rightarrow> real \<Rightarrow> vec3" where
  "VECSADD (V3 r0 r1 r2) (V3 b0 b1 b2) s = V3 (r0 + b0 * s) (r1 + b1 * s) (r2 + b2 * s)"

fun VECSCALE :: "vec3 \<Rightarrow> real \<Rightarrow> vec3" where
  "VECSCALE (V3 a0 a1 a2) s = V3 (a0 * s) (a1 * s) (a2 * s)"

fun VECSLEN :: "vec3 \<Rightarrow> real" where
  "VECSLEN (V3 a0 a1 a2) = a0 * a0 + a1 * a1 + a2 * a2"

fun VECLEN :: "vec3 \<Rightarrow> real" where
  "VECLEN (V3 a0 a1 a2) = sqrt (a0 * a0 + a1 * a1 + a2 * a2)"

fun VECSP :: "vec3 \<Rightarrow> vec3 \<Rightarrow> real" where
  "VECSP (V3 a0 a1 a2) (V3 b0 b1 b2) = a0 * b0 + a1 * b1 + a2 * b2"

fun VECVP :: "vec3 \<Rightarrow> vec3 \<Rightarrow> vec3" where
  "VECVP (V3 a0 a1 a2) (V3 b0 b1 b2) =
     V3 (a1 * b2 - a2 * b1) (a2 * b0 - a0 * b2) (a0 * b1 - a1 * b0)"

fun VECSDIST :: "vec3 \<Rightarrow> vec3 \<Rightarrow> real" where
  "VECSDIST (V3 a0 a1 a2) (V3 b0 b1 b2) =
     (a0 - b0) * (a0 - b0) + (a1 - b1) * (a1 - b1) + (a2 - b2) * (a2 - b2)"

definition VECNORM :: "vec3 \<Rightarrow> vec3" where
  "VECNORM a = (let s = VECLEN a in case a of V3 a0 a1 a2 \<Rightarrow> V3 (a0 / s) (a1 / s) (a2 / s))"

definition avec3_000 :: vec3 where "avec3_000 = V3 0 0 0"
definition avec3_100 :: vec3 where "avec3_100 = V3 1 0 0"
definition avec3_010 :: vec3 where "avec3_010 = V3 0 1 0"
definition avec3_001 :: vec3 where "avec3_001 = V3 0 0 1"

section \<open>Matrices of three rows\<close>

datatype mat3 = M3 real real real real real real real real real

definition mat3identity :: mat3 where
  "mat3identity = M3 1 0 0 0 1 0 0 0 1"

fun MATTRANSPOSE :: "mat3 \<Rightarrow> mat3" where
  "MATTRANSPOSE (M3 a0 a1 a2 a3 a4 a5 a6 a7 a8) = M3 a0 a3 a6 a1 a4 a7 a2 a5 a8"

fun MATVP :: "mat3 \<Rightarrow> vec3 \<Rightarrow> vec3" where
  "MATVP (M3 a0 a1 a2 a3 a4 a5 a6 a7 a8) (V3 b0 b1 b2) =
     V3 (a0 * b0 + a3 * b1 + a6 * b2) (a1 * b0 + a4 * b1 + a7 * b2) (a2 * b0 + a5 * b1 + a8 * b2)"

fun MATMP :: "mat3 \<Rightarrow> mat3 \<Rightarrow> mat3" where
  "MATMP a (M3 b0 b1 b2 b3 b4 b5 b6 b7 b8) =
     (case (MATVP a (V3 b0 b1 b2), MATVP a (V3 b3 b4 b5), MATVP a (V3 b6 b7 b8)) of
        (V3 r0 r1 r2, V3 r3 r4 r5, V3 r6 r7 r8) \<Rightarrow> M3 r0 r1 r2 r3 r4 r5 r6 r7 r8)"

fun MATDET :: "mat3 \<Rightarrow> real" where
  "MATDET (M3 a0 a1 a2 a3 a4 a5 a6 a7 a8) =
     a0 * a4 * a8 + a1 * a5 * a6 + a2 * a3 * a7 - a0 * a5 * a7 - a1 * a3 * a8 - a2 * a4 * a6"

fun mat3_at :: "mat3 \<Rightarrow> nat \<Rightarrow> real" where
  "mat3_at (M3 a0 a1 a2 a3 a4 a5 a6 a7 a8) k = [a0, a1, a2, a3, a4, a5, a6, a7, a8] ! k"

text \<open>The element \<open>i * 3 + j\<close> that the loops of \<open>MATINV\<close> store.\<close>

definition MATINV_at :: "mat3 \<Rightarrow> nat \<Rightarrow> nat \<Rightarrow> real" where
  "MATINV_at ma i j =
     (let i1 = (i + 1) mod 3; j1 = (j + 1) mod 3; i2 = (i + 2) mod 3; j2 = (j + 2) mod 3
      in (mat3_at ma (i1 * 3 + j1) * mat3_at ma (i2 * 3 + j2)
          - mat3_at ma (i1 * 3 + j2) * mat3_at ma (i2 * 3 + j1)) / MATDET ma)"

definition MATINV :: "mat3 \<Rightarrow> mat3" where
  "MATINV ma = M3 (MATINV_at ma 0 0) (MATINV_at ma 0 1) (MATINV_at ma 0 2)
                  (MATINV_at ma 1 0) (MATINV_at ma 1 1) (MATINV_at ma 1 2)
                  (MATINV_at ma 2 0) (MATINV_at ma 2 1) (MATINV_at ma 2 2)"

text \<open>\<open>matinv\<close> leaves the result object as it is when the determinant is zero.\<close>

definition matinv :: "mat3 \<Rightarrow> mat3 \<Rightarrow> mat3" where
  "matinv mr ma = (if MATDET ma = 0 then mr else MATINV ma)"

section \<open>Matrices of four rows\<close>

datatype mat4 = M4 real real real real real real real real real real real real real real real real

definition mat4identity :: mat4 where
  "mat4identity = M4 1 0 0 0 0 1 0 0 0 0 1 0 0 0 0 1"

fun mat4transpose :: "mat4 \<Rightarrow> mat4" where
  "mat4transpose (M4 a0 a1 a2 a3 a4 a5 a6 a7 a8 a9 a10 a11 a12 a13 a14 a15) =
     M4 a0 a4 a8 a12 a1 a5 a9 a13 a2 a6 a10 a14 a3 a7 a11 a15"

fun mat4vp :: "mat4 \<Rightarrow> vec4 \<Rightarrow> vec4" where
  "mat4vp (M4 a0 a1 a2 a3 a4 a5 a6 a7 a8 a9 a10 a11 a12 a13 a14 a15) (V4 b0 b1 b2 b3) =
     V4 (a0 * b0 + a4 * b1 + a8 * b2 + a12 * b3)
        (a1 * b0 + a5 * b1 + a9 * b2 + a13 * b3)
        (a2 * b0 + a6 * b1 + a10 * b2 + a14 * b3)
        (a3 * b0 + a7 * b1 + a11 * b2 + a15 * b3)"

fun mat4mp :: "mat4 \<Rightarrow> mat4 \<Rightarrow> mat4" where
  "mat4mp a (M4 b0 b1 b2 b3 b4 b5 b6 b7 b8 b9 b10 b11 b12 b13 b14 b15) =
     (case (mat4vp a (V4 b0 b1 b2 b3), mat4vp a (V4 b4 b5 b6 b7),
            mat4vp a (V4 b8 b9 b10 b11), mat4vp a (V4 b12 b13 b14 b15)) of
        (V4 r0 r1 r2 r3, V4 r4 r5 r6 r7, V4 r8 r9 r10 r11, V4 r12 r13 r14 r15) \<Rightarrow>
           M4 r0 r1 r2 r3 r4 r5 r6 r7 r8 r9 r10 r11 r12 r13 r14 r15)"

fun mat4vp3 :: "mat4 \<Rightarrow> vec3 \<Rightarrow> vec3" where
  "mat4vp3 (M4 a0 a1 a2 a3 a4 a5 a6 a7 a8 a9 a10 a11 a12 a13 a14 a15) (V3 b0 b1 b2) =
     V3 (a0 * b0 + a4 * b1 + a8 * b2 + a12)
        (a1 * b0 + a5 * b1 + a9 * b2 + a13)
        (a2 * b0 + a6 * b1 + a10 * b2 + a14)"

fun mat4dvp3 :: "mat4 \<Rightarrow> vec3 \<Rightarrow> vec3" where
  "mat4dvp3 (M4 a0 a1 a2 a3 a4 a5 a6 a7 a8 a9 a10 a11 a12 a13 a14 a15) (V3 b0 b1 b2) =
     V3 (a0 * b0 + a4 * b1 + a8 * b2)
        (a1 * b0 + a5 * b1 + a9 * b2)
        (a2 * b0 + a6 * b1 + a10 * b2)"

fun mat4tvp3 :: "mat4 \<Rightarrow> vec3 \<Rightarrow> vec3" where
  "mat4tvp3 (M4 a0 a1 a2 a3 a4 a5 a6 a7 a8 a9 a10 a11 a12 a13 a14 a15) (V3 b0 b1 b2) =
     V3 (a0 * b0 + a1 * b1 + a2 * b2 + a3)
        (a4 * b0 + a5 * b1 + a6 * b2 + a7)
        (a8 * b0 + a9 * b1 + a10 * b2 + a11)"

fun mat4tdvp3 :: "mat4 \<Rightarrow> vec3 \<Rightarrow> vec3" where
  "mat4tdvp3 (M4 a0 a1 a2 a3 a4 a5 a6 a7 a8 a9 a10 a11 a12 a13 a14 a15) (V3 b0 b1 b2) =
     V3 (a0 * b0 + a1 * b1 + a2 * b2)
        (a4 * b0 + a5 * b1 + a6 * b2)
        (a8 * b0 + a9 * b1 + a10 * b2)"

fun mat4translate :: "mat4 \<Rightarrow> real \<Rightarrow> real \<Rightarrow> real \<Rightarrow> mat4" where
  "mat4translate (M4 a0 a1 a2 a3 a4 a5 a6 a7 a8 a9 a10 a11 a12 a13 a14 a15) sx sy sz =
     M4 a0 a1 a2 a3 a4 a5 a6 a7 a8 a9 a10 a11
        (a12 + (a0 * sx + a4 * sy + a8 * sz))
        (a13 + (a1 * sx + a5 * sy + a9 * sz))
        (a14 + (a2 * sx + a6 * sy + a10 * sz))
        (a15 + (a3 * sx + a7 * sy + a11 * sz))"

fun mat4translate3dv :: "mat4 \<Rightarrow> vec3 \<Rightarrow> mat4" where
  "mat4translate3dv m (V3 v0 v1 v2) = mat4translate m v0 v1 v2"

fun mat4translaten3dv :: "mat4 \<Rightarrow> vec3 \<Rightarrow> mat4" where
  "mat4translaten3dv m (V3 v0 v1 v2) = mat4translate m (- v0) (- v1) (- v2)"

fun mat4rotx :: "mat4 \<Rightarrow> real \<Rightarrow> mat4" where
  "mat4rotx (M4 a0 a1 a2 a3 a4 a5 a6 a7 a8 a9 a10 a11 a12 a13 a14 a15) p =
     (let s = sin p; c = cos p
      in M4 a0 a1 a2 a3
            (a4 * c + a8 * s) (a5 * c + a9 * s) (a6 * c + a10 * s) (a7 * c + a11 * s)
            (- a4 * s + a8 * c) (- a5 * s + a9 * c) (- a6 * s + a10 * c) (- a7 * s + a11 * c)
            a12 a13 a14 a15)"

fun mat4roty :: "mat4 \<Rightarrow> real \<Rightarrow> mat4" where
  "mat4roty (M4 a0 a1 a2 a3 a4 a5 a6 a7 a8 a9 a10 a11 a12 a13 a14 a15) p =
     (let s = sin p; c = cos p
      in M4 (a0 * c + a8 * (- s)) (a1 * c + a9 * (- s)) (a2 * c + a10 * (- s)) (a3 * c + a11 * (- s))
            a4 a5 a6 a7
            (a0 * s + a8 * c) (a1 * s + a9 * c) (a2 * s + a10 * c) (a3 * s + a11 * c)
            a12 a13 a14 a15)"

fun mat4rotz :: "mat4 \<Rightarrow> real \<Rightarrow> mat4" where
  "mat4rotz (M4 a0 a1 a2 a3 a4 a5 a6 a7 a8 a9 a10 a11 a12 a13 a14 a15) p =
     (let s = sin p; c = cos p
      in M4 (a0 * c + a4 * s) (a1 * c + a5 * s) (a2 * c + a6 * s) (a3 * c + a7 * s)
            (a0 * - s + a4 * c) (a1 * - s + a5 * c) (a2 * - s + a6 * c) (a3 * - s + a7 * c)
            a8 a9 a10 a11
            a12 a13 a14 a15)"

text \<open>
  \<open>mat4transposein\<close> swaps elements in place through the macro \<open>DOUBLESWAP\<close>, which takes a
  double for two objects of type \<open>unsigned long\<close>.  The matrix is the sequence of its
  \<open>unsigned long\<close> units, of which a double has \<open>u\<close>: two where \<open>unsigned long\<close> has 32 bits, one
  where it has 64.
\<close>

definition XORSWAP :: "'w::len word list \<Rightarrow> nat \<Rightarrow> nat \<Rightarrow> 'w word list" where
  "XORSWAP m i j =
     (let m = m[i := m ! i XOR m ! j]; m = m[j := m ! j XOR m ! i] in m[i := m ! i XOR m ! j])"

definition DOUBLESWAP :: "nat \<Rightarrow> 'w::len word list \<Rightarrow> nat \<Rightarrow> nat \<Rightarrow> 'w word list" where
  "DOUBLESWAP u m a b = XORSWAP (XORSWAP m (u * a) (u * b)) (u * a + 1) (u * b + 1)"

definition mat4transposein :: "nat \<Rightarrow> 'w::len word list \<Rightarrow> 'w word list" where
  "mat4transposein u mr =
     (let mr = DOUBLESWAP u mr 1 4; mr = DOUBLESWAP u mr 2 8; mr = DOUBLESWAP u mr 6 9;
          mr = DOUBLESWAP u mr 3 12; mr = DOUBLESWAP u mr 7 13
      in DOUBLESWAP u mr 11 14)"

section \<open>Quaternions\<close>

datatype quat = Q real real real real

definition quatidentity :: quat where "quatidentity = Q 0 0 0 1"

fun VECTOQUAT :: "vec3 \<Rightarrow> quat" where
  "VECTOQUAT (V3 v0 v1 v2) = Q v0 v1 v2 0"

text \<open>\<open>VECCPY\<close> from a quaternion to a vector copies the first three elements.\<close>

fun QUATTOVEC :: "quat \<Rightarrow> vec3" where
  "QUATTOVEC (Q a0 a1 a2 a3) = V3 a0 a1 a2"

fun QUATADD :: "quat \<Rightarrow> quat \<Rightarrow> quat" where
  "QUATADD (Q a0 a1 a2 a3) (Q b0 b1 b2 b3) = Q (a0 + b0) (a1 + b1) (a2 + b2) (a3 + b3)"

fun QUATCNJ :: "quat \<Rightarrow> quat" where
  "QUATCNJ (Q a0 a1 a2 a3) = Q (- a0) (- a1) (- a2) a3"

fun QUATSCALE :: "quat \<Rightarrow> real \<Rightarrow> quat" where
  "QUATSCALE (Q a0 a1 a2 a3) s = Q (a0 * s) (a1 * s) (a2 * s) (a3 * s)"

fun QUATSLEN :: "quat \<Rightarrow> real" where
  "QUATSLEN (Q a0 a1 a2 a3) = a0 * a0 + a1 * a1 + a2 * a2 + a3 * a3"

definition QUATLEN :: "quat \<Rightarrow> real" where
  "QUATLEN a = sqrt (QUATSLEN a)"

definition QUATNORM :: "quat \<Rightarrow> quat" where
  "QUATNORM a = (let s = QUATLEN a in case a of Q a0 a1 a2 a3 \<Rightarrow> Q (a0 / s) (a1 / s) (a2 / s) (a3 / s))"

fun quatmul :: "quat \<Rightarrow> quat \<Rightarrow> quat" where
  "quatmul (Q a0 a1 a2 a3) (Q b0 b1 b2 b3) =
     Q (a1 * b2 - a2 * b1 + a0 * b3 + a3 * b0)
       (a2 * b0 - a0 * b2 + a1 * b3 + a3 * b1)
       (a0 * b1 - a1 * b0 + a2 * b3 + a3 * b2)
       (- a0 * b0 - a1 * b1 - a2 * b2 + a3 * b3)"

fun quatimul :: "quat \<Rightarrow> quat \<Rightarrow> quat" where
  "quatimul (Q a0 a1 a2 a3) (Q b0 b1 b2 b3) =
     Q (a1 * - b2 - a2 * - b1 + a0 * b3 + a3 * - b0)
       (a2 * - b0 - a0 * - b2 + a1 * b3 + a3 * - b1)
       (a0 * - b1 - a1 * - b0 + a2 * b3 + a3 * - b2)
       (- a0 * - b0 - a1 * - b1 - a2 * - b2 + a3 * b3)"

fun quat_dot :: "quat \<Rightarrow> quat \<Rightarrow> real" where
  "quat_dot (Q q0 q1 q2 q3) (Q r0 r1 r2 r3) = q0 * r0 + q1 * r1 + q2 * r2 + q3 * r3"

definition quatslerp :: "quat \<Rightarrow> quat \<Rightarrow> real \<Rightarrow> quat" where
  "quatslerp q r t =
     (let qr = quat_dot q r; ss = 1 - qr * qr
      in if ss = 0 then q
         else if q = r then q
         else
           let sp = sqrt ss; ph = arccos qr; pt = ph * t; t1 = sin pt / sp; t0 = sin (ph - pt) / sp
           in QUATADD (QUATSCALE q t0) (QUATSCALE r t1))"

section \<open>Rotations\<close>

definition quatrotation :: "real \<Rightarrow> real \<Rightarrow> real \<Rightarrow> real \<Rightarrow> quat" where
  "quatrotation p sx sy sz = (let len = sin (p / 2) in Q (len * sx) (len * sy) (len * sz) (cos (p / 2)))"

fun quatrotationv :: "real \<Rightarrow> vec3 \<Rightarrow> quat" where
  "quatrotationv p (V3 x y z) = quatrotation p x y z"

definition quatrotate :: "quat \<Rightarrow> real \<Rightarrow> real \<Rightarrow> real \<Rightarrow> real \<Rightarrow> quat" where
  "quatrotate qa p sx sy sz = quatmul qa (quatrotation p sx sy sz)"

fun quatrotatev :: "quat \<Rightarrow> real \<Rightarrow> vec3 \<Rightarrow> quat" where
  "quatrotatev qa p (V3 x y z) = quatrotate qa p x y z"

fun quat2mat :: "quat \<Rightarrow> mat4" where
  "quat2mat (Q x y z w) =
     M4 (1 - (2 * y * y + 2 * z * z)) (2 * x * y + 2 * z * w) (2 * x * z - 2 * y * w) 0
        (2 * x * y - 2 * z * w) (1 - (2 * x * x + 2 * z * z)) (2 * y * z + 2 * x * w) 0
        (2 * x * z + 2 * y * w) (2 * y * z - 2 * x * w) (1 - (2 * x * x + 2 * y * y)) 0
        0 0 0 1"

definition quat2imat :: "quat \<Rightarrow> mat4" where
  "quat2imat pq = quat2mat (QUATCNJ pq)"

definition quatrot :: "quat \<Rightarrow> vec3 \<Rightarrow> vec3" where
  "quatrot q src = QUATTOVEC (quatmul (quatmul q (VECTOQUAT src)) (QUATCNJ q))"

text \<open>\<open>quatirot\<close> computes its result and then overwrites it with \<open>quatrot\<close> of the conjugate.\<close>

definition quatirot :: "quat \<Rightarrow> vec3 \<Rightarrow> vec3" where
  "quatirot q src = quatrot (QUATCNJ q) src"

definition quatrotquat :: "vec3 \<Rightarrow> quat \<Rightarrow> quat" where
  "quatrotquat v src = QUATNORM (QUATADD (quatmul (VECTOQUAT v) src) src)"

fun vec_z :: "vec3 \<Rightarrow> real" where "vec_z (V3 a0 a1 a2) = a2"

definition quatdirection :: "vec3 \<Rightarrow> quat" where
  "quatdirection dir =
     (let dr = VECNORM dir; w = sqrt ((vec_z dr + 1) / 2)
      in if w = 1 then Q 0 0 0 w
         else if w = 0 then (case avec3_010 of V3 a b c \<Rightarrow> Q a b c w)
         else let v = VECVP avec3_001 dr; p = sqrt (1 - w * w) / VECLEN v
              in (case VECSCALE v p of V3 a b c \<Rightarrow> Q a b c w))"

fun mat2quat :: "mat4 \<Rightarrow> quat" where
  "mat2quat (M4 m0 m1 m2 m3 m4 m5 m6 m7 m8 m9 m10 m11 m12 m13 m14 m15) =
     (let tr = m0 + m5 + m10 + 1
      in if 1 \<le> tr then
           let s = 1 / 2 / sqrt tr in Q ((m9 - m6) * s) ((m2 - m8) * s) ((m4 - m1) * s) (1 / 4 / s)
         else
           let mx = (if m10 < m5 then m5 else m10)
           in if mx < m0 then
                let s = sqrt (m0 - (m5 + m10) + 1); x = s * (1 / 2); s = 1 / 2 / s
                in Q x ((m4 - m1) * s) ((m2 - m8) * s) ((m9 - m6) * s)
              else if mx = m5 then
                let s = sqrt (m5 - (m10 + m0) + 1); y = s * (1 / 2); s = 1 / 2 / s
                in Q ((m4 - m1) * s) y ((m9 + m6) * s) ((m2 + m8) * s)
              else
                let s = sqrt (m10 - (m0 + m5) + 1); z = s * (1 / 2); s = 1 / 2 / s
                in Q ((m2 + m8) * s) ((m9 + m6) * s) z ((m4 + m1) * s))"

definition imat2quat :: "mat4 \<Rightarrow> quat" where
  "imat2quat m = QUATCNJ (mat2quat m)"

section \<open>Clamping and approaching\<close>

definition rangein :: "real \<Rightarrow> real \<Rightarrow> real \<Rightarrow> real" where
  "rangein src mn mx = (if src < mn then mn else if mx < src then mx else src)"

definition approach :: "real \<Rightarrow> real \<Rightarrow> real \<Rightarrow> real \<Rightarrow> real" where
  "approach src dst delta wrap =
     (if src < dst then
        if dst - src < delta then dst
        else if wrap \<noteq> 0 \<and> wrap / 2 < dst - src then
          let ret = src - delta - of_int \<lfloor>(src - delta) / wrap\<rfloor> * wrap
          in if src < ret \<and> ret < dst then dst else ret
        else src + delta
      else
        if src - dst < delta then dst
        else if wrap \<noteq> 0 \<and> wrap / 2 < src - dst then
          let ret = src + delta - of_int \<lfloor>(src + delta) / wrap\<rfloor> * wrap
          in if ret < src \<and> dst < ret then dst else ret
        else src - delta)"

end
