(* ===== verification/Vecmath_Correct.thy ===== *)
theory Vecmath_Correct
  imports Vecmath
begin

text \<open>
  What the vector, matrix and quaternion routines compute: a unit quaternion acts as a rotation
  and its matrix acts as it does, the conversions between the two, the aim rotation, the
  spherical interpolation, the inverse matrix, and the in-place transposition.
\<close>

section \<open>Quaternion algebra\<close>

definition quat_unit :: "quat \<Rightarrow> bool" where
  "quat_unit q \<longleftrightarrow> QUATSLEN q = 1"

lemma quatmul_assoc: "quatmul (quatmul a b) c = quatmul a (quatmul b c)"
  by (cases a; cases b; cases c) (simp add: algebra_simps)

lemma QUATCNJ_mul: "QUATCNJ (quatmul a b) = quatmul (QUATCNJ b) (QUATCNJ a)"
  by (cases a; cases b) (simp add: algebra_simps)

lemma QUATCNJ_invol [simp]: "QUATCNJ (QUATCNJ q) = q"
  by (cases q) simp

lemma quat_unit_cnj [simp]: "quat_unit (QUATCNJ q) = quat_unit q"
  by (cases q) (simp add: quat_unit_def)

lemma quatmul_cnj: "quatmul (QUATCNJ q) q = Q 0 0 0 (QUATSLEN q)"
  by (cases q) (simp add: algebra_simps)

lemma quatimul_cnj: "quatimul a b = quatmul a (QUATCNJ b)"
  by (cases a; cases b) simp

lemma QUATSLEN_mul: "QUATSLEN (quatmul a b) = QUATSLEN a * QUATSLEN b"
  by (cases a; cases b) (simp add: algebra_simps)

lemma quat_real: "quatmul (Q 0 0 0 s) a = QUATSCALE a s" "quatmul a (Q 0 0 0 s) = QUATSCALE a s"
  by (cases a; simp add: algebra_simps)+

lemma QUATSCALE_1 [simp]: "QUATSCALE q 1 = q"
  by (cases q) simp

lemma quat_pure:
  "VECTOQUAT (quatrot q v) = quatmul (quatmul q (VECTOQUAT v)) (QUATCNJ q)"
  by (cases q; cases v) (simp add: quatrot_def algebra_simps)

lemma QUATTOVEC_VECTOQUAT [simp]: "QUATTOVEC (VECTOQUAT v) = v"
  by (cases v) simp

lemma quatrot_mul: "quatrot (quatmul a b) v = quatrot a (quatrot b v)"
proof -
  have "quatrot a (quatrot b v) = QUATTOVEC (quatmul (quatmul a (VECTOQUAT (quatrot b v))) (QUATCNJ a))"
    by (simp add: quatrot_def)
  then show ?thesis unfolding quat_pure by (simp add: quatrot_def QUATCNJ_mul quatmul_assoc)
qed

lemma quatrot_1: "quatrot (Q 0 0 0 1) v = v"
  by (cases v) (simp add: quatrot_def)

lemma quatirot_quatrot: "quat_unit q \<Longrightarrow> quatirot q (quatrot q v) = v"
  by (simp add: quatirot_def quatrot_1 quatmul_cnj quat_unit_def flip: quatrot_mul)

lemma VECSLEN_quat: "VECSLEN v = QUATSLEN (VECTOQUAT v)"
  by (cases v) simp

lemma QUATSLEN_cnj [simp]: "QUATSLEN (QUATCNJ q) = QUATSLEN q"
  by (cases q) simp

lemma quatrot_VECSLEN: "quat_unit q \<Longrightarrow> VECSLEN (quatrot q v) = VECSLEN v"
  by (simp add: VECSLEN_quat quat_pure QUATSLEN_mul quat_unit_def)

lemma quatrot_add: "quatrot q (VECADD v w) = VECADD (quatrot q v) (quatrot q w)"
  by (cases q; cases v; cases w) (simp add: quatrot_def algebra_simps)

lemma VECSP_polar: "2 * VECSP v w = VECSLEN (VECADD v w) - VECSLEN v - VECSLEN w"
  by (cases v; cases w) (simp add: algebra_simps)

lemma quatrot_VECSP: "quat_unit q \<Longrightarrow> VECSP (quatrot q v) (quatrot q w) = VECSP v w"
  using VECSP_polar [of v w] VECSP_polar [of "quatrot q v" "quatrot q w"]
  by (simp add: quatrot_VECSLEN flip: quatrot_add)

lemma quat2mat_rot:
  assumes "quat_unit q"
  shows "mat4dvp3 (quat2mat q) v = quatrot q v"
proof -
  obtain x y z w where q: "q = Q x y z w" by (cases q)
  obtain a b c where v: "v = V3 a b c" by (cases v)
  have u: "1 = x * x + y * y + z * z + w * w"
    using assms by (simp add: q quat_unit_def)
  have "mat4dvp3 (quat2mat q) v = V3
     ((x * x + y * y + z * z + w * w - (2 * y * y + 2 * z * z)) * a + (2 * x * y - 2 * z * w) * b + (2 * x * z + 2 * y * w) * c)
     ((2 * x * y + 2 * z * w) * a + (x * x + y * y + z * z + w * w - (2 * x * x + 2 * z * z)) * b + (2 * y * z - 2 * x * w) * c)
     ((2 * x * z - 2 * y * w) * a + (2 * y * z + 2 * x * w) * b + (x * x + y * y + z * z + w * w - (2 * x * x + 2 * y * y)) * c)"
    unfolding u [symmetric] by (simp add: q v)
  also have "\<dots> = quatrot q v" by (simp add: q v quatrot_def algebra_simps)
  finally show ?thesis .
qed

lemma mat4tdvp3_transpose: "mat4tdvp3 m v = mat4dvp3 (mat4transpose m) v"
  by (cases m; cases v) simp

lemma quat2mat_cnj: "quat2mat (QUATCNJ q) = mat4transpose (quat2mat q)"
  by (cases q) simp

section \<open>Properties\<close>

text \<open>C19: rotating by a unit quaternion.  The product \<open>q v q*\<close> of \<open>quatrot\<close>, the matrix of
  \<open>quat2mat\<close> and composition by \<open>quatmul\<close> agree; \<open>quatirot\<close>, the transposed product with the
  same matrix and the matrix of \<open>quat2imat\<close> undo the rotation; and a rotation keeps scalar
  products, hence lengths and angles.\<close>

theorem quatrot_rotation:
  assumes "quat_unit q" "quat_unit p"
  shows "mat4dvp3 (quat2mat q) v = quatrot q v \<and> quatrot (quatmul q p) v = quatrot q (quatrot p v)
    \<and> quatirot q (quatrot q v) = v \<and> mat4tdvp3 (quat2mat q) (quatrot q v) = v
    \<and> mat4dvp3 (quat2imat q) (quatrot q v) = v
    \<and> VECSP (quatrot q v) (quatrot q w) = VECSP v w"
proof -
  have "mat4dvp3 (quat2imat q) (quatrot q v) = v"
    using assms quat2mat_rot [of "QUATCNJ q"] quatirot_quatrot [of q v]
    by (simp add: quat2imat_def quatirot_def)
  then show ?thesis
    using assms by (simp add: quat2mat_rot quatrot_mul quatirot_quatrot quatrot_VECSP
        mat4tdvp3_transpose quat2imat_def quat2mat_cnj)
qed

lemma quatrot_rotation_witness:
  "quatirot (Q (3/5) 0 0 (4/5)) (quatrot (Q (3/5) 0 0 (4/5)) (V3 1 2 3)) = V3 1 2 3"
proof -
  have "quat_unit (Q (3/5) 0 0 (4/5))" "quat_unit (Q 0 0 0 1)" by (simp_all add: quat_unit_def)
  from quatrot_rotation [OF this] show ?thesis by blast
qed

text \<open>A matrix back to a quaternion.  For a unit quaternion with a real part of at least one
  half, \<open>imat2quat\<close> of its matrix is the quaternion and \<open>mat2quat\<close> is its conjugate.\<close>

theorem imat2quat_quat2mat:
  assumes "quat_unit (Q x y z w)" "1 / 2 \<le> w"
  shows "imat2quat (quat2mat (Q x y z w)) = Q x y z w \<and> mat2quat (quat2mat (Q x y z w)) = QUATCNJ (Q x y z w)"
proof -
  have u: "x * x + y * y + z * z = 1 - w * w" using assms(1) by (simp add: quat_unit_def)
  have tr: "(1 - (2 * y * y + 2 * z * z)) + (1 - (2 * x * x + 2 * z * z)) + (1 - (2 * x * x + 2 * y * y)) + 1 = (2 * w) * (2 * w)"
    using u by (simp add: algebra_simps)
  have w: "1 \<le> (2 * w) * (2 * w)" using mult_mono [of 1 "2 * w" 1 "2 * w"] assms(2) by simp
  have "mat2quat (quat2mat (Q x y z w)) = QUATCNJ (Q x y z w)"
    using w assms(2) unfolding quat2mat.simps mat2quat.simps tr
    by (simp add: Let_def real_sqrt_mult field_simps)
  then show ?thesis by (simp add: imat2quat_def)
qed

lemma imat2quat_quat2mat_witness: "imat2quat (quat2mat (Q (3/5) 0 0 (4/5))) = Q (3/5) 0 0 (4/5)"
  using imat2quat_quat2mat [of "3/5" 0 0 "4/5"] by (simp add: quat_unit_def)

text \<open>The other branches of \<open>mat2quat\<close> are wrong.  For the half turn about the axis
  (4/5, 3/5, 0) the result is not a unit quaternion: the second component is lost.\<close>

theorem mat2quat_half_turn:
  "quat_unit (Q (4/5) (3/5) 0 0) \<and> mat2quat (quat2mat (Q (4/5) (3/5) 0 0)) = Q (4/5) 0 0 0
   \<and> \<not> quat_unit (mat2quat (quat2mat (Q (4/5) (3/5) 0 0)))"
proof -
  have "sqrt (64 / 25) = 8 / 5" by (rule real_sqrt_unique) (simp_all add: power2_eq_square)
  then show ?thesis by (simp add: quat_unit_def Let_def)
qed

lemma MATINV_entries:
  "MATDET (M3 a0 a1 a2 a3 a4 a5 a6 a7 a8) = d \<Longrightarrow> MATINV (M3 a0 a1 a2 a3 a4 a5 a6 a7 a8) =
     M3 ((a4 * a8 - a5 * a7) / d) ((a5 * a6 - a3 * a8) / d) ((a3 * a7 - a4 * a6) / d)
        ((a7 * a2 - a8 * a1) / d) ((a8 * a0 - a6 * a2) / d) ((a6 * a1 - a7 * a0) / d)
        ((a1 * a5 - a2 * a4) / d) ((a2 * a3 - a0 * a5) / d) ((a0 * a4 - a1 * a3) / d)"
  by (simp add: MATINV_def MATINV_at_def Let_def mod_Suc del: MATDET.simps)

lemma MATINV_transpose:
  assumes "MATDET a \<noteq> 0"
  shows "MATMP a (MATTRANSPOSE (MATINV a)) = mat3identity"
proof (cases a)
  case (M3 a0 a1 a2 a3 a4 a5 a6 a7 a8)
  define d where "d = MATDET a"
  have d: "d \<noteq> 0" using assms by (simp add: d_def)
  have div: "x / d = 1 \<longleftrightarrow> x = d" "x / d = 0 \<longleftrightarrow> x = 0" for x using d by auto
  have sum: "p / d + q / d + r / d = (p + q + r) / d" for p q r
    by (simp add: add_divide_distrib)
  have dd: "d = a0 * a4 * a8 + a1 * a5 * a6 + a2 * a3 * a7 - a0 * a5 * a7 - a1 * a3 * a8 - a2 * a4 * a6"
    by (simp add: d_def M3)
  have "MATDET (M3 a0 a1 a2 a3 a4 a5 a6 a7 a8) = d" by (simp add: d_def M3)
  from MATINV_entries [OF this] show ?thesis
    unfolding M3 by (simp add: mat3identity_def sum div) (use d in \<open>simp add: dd algebra_simps\<close>)
qed

lemma MATMP_assoc: "MATMP (MATMP a b) c = MATMP a (MATMP b c)"
  by (cases a; cases b; cases c) (simp add: algebra_simps)

lemma MATMP_1: "MATMP mat3identity a = a" "MATMP a mat3identity = a"
  by (cases a; simp add: mat3identity_def)+

lemma MATTRANSPOSE_mul: "MATTRANSPOSE (MATMP a b) = MATMP (MATTRANSPOSE b) (MATTRANSPOSE a)"
  by (cases a; cases b) (simp add: algebra_simps)

lemma MATDET_transpose: "MATDET (MATTRANSPOSE a) = MATDET a"
  by (cases a) simp

lemma MATTRANSPOSE_invol [simp]: "MATTRANSPOSE (MATTRANSPOSE a) = a"
  by (cases a) simp

lemma mat3_inverse_unique:
  assumes "MATDET a \<noteq> 0" "MATMP a b = mat3identity" "MATMP a c = mat3identity"
  shows "b = c"
proof -
  let ?l = "MATINV (MATTRANSPOSE a)"
  have "MATMP (MATTRANSPOSE a) (MATTRANSPOSE ?l) = mat3identity"
    using assms(1) by (intro MATINV_transpose) (simp add: MATDET_transpose)
  then have "MATTRANSPOSE (MATMP ?l a) = MATTRANSPOSE mat3identity"
    by (simp add: MATTRANSPOSE_mul mat3identity_def)
  then have "MATMP ?l a = mat3identity" by (metis MATTRANSPOSE_invol)
  then show ?thesis using assms(2,3) by (metis MATMP_1 MATMP_assoc)
qed

text \<open>\<open>matinv\<close> yields the transposed inverse.  For every regular matrix the product with
  the transposed result is the identity, and the result itself is the inverse exactly if it is
  symmetric.\<close>

theorem matinv_transposed:
  assumes "MATDET a \<noteq> 0"
  shows "MATMP a (MATTRANSPOSE (matinv r a)) = mat3identity
    \<and> (MATMP a (matinv r a) = mat3identity \<longleftrightarrow> MATTRANSPOSE (matinv r a) = matinv r a)"
proof -
  have "matinv r a = MATINV a" using assms by (simp add: matinv_def)
  with MATINV_transpose [OF assms] mat3_inverse_unique [OF assms] show ?thesis by metis
qed

lemma matinv_transposed_witness:
  "MATMP (M3 1 0 0 2 1 0 0 0 1) (matinv mat3identity (M3 1 0 0 2 1 0 0 0 1)) \<noteq> mat3identity"
proof -
  have d: "MATDET (M3 1 0 0 2 1 0 0 0 1) = 1" by simp
  then have "MATDET (M3 1 0 0 2 1 0 0 0 1) \<noteq> 0" by simp
  moreover have "matinv mat3identity (M3 1 0 0 2 1 0 0 0 1) = M3 1 (- 2) 0 0 1 0 0 0 1"
    unfolding matinv_def MATINV_entries [OF d] by simp
  ultimately show ?thesis
    using matinv_transposed [of "M3 1 0 0 2 1 0 0 0 1" mat3identity] by (simp del: MATMP.simps)
qed

lemma VECNORM_unit: "d \<noteq> V3 0 0 0 \<Longrightarrow> VECSLEN (VECNORM d) = 1"
proof (cases d)
  case (V3 a b c)
  assume "d \<noteq> V3 0 0 0"
  then have "a \<noteq> 0 \<or> b \<noteq> 0 \<or> c \<noteq> 0" using V3 by auto
  moreover have "0 \<le> a * a" "0 \<le> b * b" "0 \<le> c * c" by simp_all
  moreover have "x \<noteq> 0 \<Longrightarrow> 0 < x * x" for x :: real by (auto simp: zero_less_mult_iff linorder_neq_iff)
  ultimately have n: "0 < a * a + b * b + c * c" by (metis add_nonneg_pos add_pos_nonneg add_nonneg_nonneg)
  define s where "s = sqrt (a * a + b * b + c * c)"
  have s: "s * s = a * a + b * b + c * c" "s \<noteq> 0" using n by (simp_all add: s_def)
  have "VECSLEN (VECNORM d) = (a * a + b * b + c * c) / (s * s)"
    by (simp add: V3 VECNORM_def Let_def add_divide_distrib flip: s_def)
  then show ?thesis using n by (simp add: s)
qed

text \<open>Aiming.  For every direction other than the null vector, \<open>quatdirection\<close> is a unit
  quaternion that rotates the z axis into that direction.\<close>

theorem quatdirection_aims:
  assumes "d \<noteq> V3 0 0 0"
  shows "quat_unit (quatdirection d) \<and> quatrot (quatdirection d) avec3_001 = VECNORM d"
proof -
  obtain a b c where n: "VECNORM d = V3 a b c" by (cases "VECNORM d")
  have u: "a * a + b * b = 1 - c * c" using VECNORM_unit [OF assms] by (simp add: n)
  have ab: "0 \<le> a * a" "0 \<le> b * b" by simp_all
  have c: "- 1 \<le> c" "c \<le> 1"
  proof -
    have "c * c \<le> 1" using u ab by linarith
    then have "\<bar>c\<bar> \<le> 1" using abs_square_le_1 [of c] by (simp add: power2_eq_square)
    then show "- 1 \<le> c" "c \<le> 1" by (simp_all add: abs_le_iff)
  qed
  define w where "w = sqrt ((c + 1) / 2)"
  have w0: "0 \<le> w" using c by (simp add: w_def)
  have ww: "w * w = (c + 1) / 2" using c by (simp add: w_def)
  consider "w = 1" | "w = 0" | "0 < w" "w < 1"
  proof -
    have "w \<le> 1" using c by (simp add: w_def)
    with w0 that show thesis by (cases "w = 1"; cases "w = 0") auto
  qed
  then show ?thesis
  proof cases
    case 1
    then have "c = 1" using ww by simp
    then have "a = 0" "b = 0" using u by (simp_all add: add_nonneg_eq_0_iff)
    then show ?thesis using 1 n \<open>c = 1\<close>
      by (simp add: quatdirection_def Let_def w_def quat_unit_def quatrot_def avec3_001_def)
  next
    case 2
    then have "c = - 1" using ww by simp
    then have "a = 0" "b = 0" using u by (simp_all add: add_nonneg_eq_0_iff)
    then show ?thesis using 2 n \<open>c = - 1\<close>
      by (simp add: quatdirection_def Let_def w_def quat_unit_def quatrot_def avec3_001_def avec3_010_def)
  next
    case 3
    define l where "l = sqrt (b * b + a * a)"
    define sq where "sq = sqrt (1 - w * w)"
    define p where "p = sq / l"
    have "w * w < 1 * 1" "0 < w * w"
      using 3 mult_strict_mono [of w 1 w 1] by simp_all
    then have c1: "- 1 < c" "c < 1" using ww by simp_all
    have cc: "c * c < 1" using abs_square_less_1 [of c] c1 by (simp add: power2_eq_square abs_less_iff)
    have l: "l * l = 1 - c * c" "0 < l" using u cc by (simp_all add: l_def add.commute)
    have s: "sq * sq = 1 - w * w" "0 \<le> sq" using \<open>w * w < 1 * 1\<close> by (simp_all add: sq_def)
    have pp: "p * p * (a * a + b * b) = 1 - w * w"
      using l u by (simp add: p_def s flip: l(1))
    have "(2 * (p * w)) * (2 * (p * w)) = 4 * (1 - w * w) * (w * w) / (l * l)"
      by (simp add: p_def flip: s(1))
    also have "\<dots> = 1" unfolding l(1) ww using cc by (simp add: field_simps)
    finally have "2 * (p * w) = 1 \<or> 2 * (p * w) = - 1" using square_eq_1_iff by blast
    moreover have "0 \<le> p" using l(2) s(2) by (simp add: p_def)
    then have "0 \<le> p * w" using w0 by simp
    ultimately have pw: "2 * (p * w) = 1" by auto
    have q: "quatdirection d = Q (- b * p) (a * p) 0 w"
      using 3 n c1 by (simp add: quatdirection_def Let_def avec3_001_def flip: w_def) (simp add: p_def l_def sq_def)
    have "quat_unit (quatdirection d)" using pp by (simp add: q quat_unit_def algebra_simps)
    moreover have "mat4dvp3 (quat2mat (quatdirection d)) avec3_001 = V3 a b c"
    proof -
      have "mat4dvp3 (quat2mat (quatdirection d)) avec3_001
          = V3 (2 * (p * w) * a) (2 * (p * w) * b) (1 - 2 * (p * p * (a * a + b * b)))"
        by (simp add: q avec3_001_def algebra_simps)
      then show ?thesis unfolding pp pw ww by (simp add: field_simps)
    qed
    ultimately show ?thesis using n quat2mat_rot by simp
  qed
qed

lemma quat_dot_self: "quat_dot q q = QUATSLEN q"
  by (cases q) simp

lemma quat_dot_add:
  "quat_dot (QUATADD (QUATSCALE a s) (QUATSCALE b t)) c = s * quat_dot a c + t * quat_dot b c"
  by (cases a; cases b; cases c) (simp add: algebra_simps)

lemma quat_dot_add_right:
  "quat_dot c (QUATADD (QUATSCALE a s) (QUATSCALE b t)) = s * quat_dot c a + t * quat_dot c b"
  by (cases a; cases b; cases c) (simp add: algebra_simps)

lemma quat_ends: "QUATADD (QUATSCALE a 1) (QUATSCALE b 0) = a" "QUATADD (QUATSCALE a 0) (QUATSCALE b 1) = b"
  by (cases a; cases b; simp)+

lemma quat_dot_commute: "quat_dot a b = quat_dot b a"
  by (cases a; cases b) simp

text \<open>Spherical interpolation.  Between unit quaternions that are neither equal nor opposite
  every interpolated value is a unit quaternion, at the fraction \<open>t\<close> of the angle between the
  two measured from the first; it is the first for 0 and the second for 1.\<close>

theorem quatslerp_arc:
  assumes "quat_unit q" "quat_unit r" "\<bar>quat_dot q r\<bar> < 1"
  shows "quat_unit (quatslerp q r t) \<and> quat_dot q (quatslerp q r t) = cos (t * arccos (quat_dot q r))
    \<and> quatslerp q r 0 = q \<and> quatslerp q r 1 = r"
proof -
  define d where "d = quat_dot q r"
  define ph where "ph = arccos d"
  have d: "- 1 < d" "d < 1" using assms(3) by (simp_all add: d_def abs_less_iff)
  have cos: "cos ph = d" using d by (simp add: ph_def)
  have sin: "sin ph = sqrt (1 - d * d)" using d by (simp add: ph_def sin_arccos power2_eq_square)
  have "d * d < 1" using abs_square_less_1 [of d] d by (simp add: power2_eq_square abs_less_iff)
  then have ss: "1 - d * d \<noteq> 0" and s0: "sin ph \<noteq> 0" by (simp_all add: sin)
  have qq: "quat_dot q q = 1" "quat_dot r r = 1" using assms(1,2) by (simp_all add: quat_dot_self quat_unit_def)
  then have ne: "q \<noteq> r" using d by (auto simp: d_def)
  have p: "quatslerp q r u = QUATADD (QUATSCALE q (sin (ph - ph * u) / sin ph)) (QUATSCALE r (sin (ph * u) / sin ph))" for u
    using ss ne by (simp add: quatslerp_def Let_def sin flip: d_def ph_def)
  define a b where "a = sin (ph - ph * t) / sin ph" and "b = sin (ph * t) / sin ph"
  have pt: "quatslerp q r t = QUATADD (QUATSCALE q a) (QUATSCALE r b)" by (simp add: p a_def b_def)
  have ab: "a * sin ph = sin ph * cos (ph * t) - d * sin (ph * t)" "b * sin ph = sin (ph * t)"
    using s0 by (simp_all add: a_def b_def sin_diff cos)
  have sc: "sin ph * sin ph = 1 - d * d"
    using sin_cos_squared_add [of ph] by (simp add: cos power2_eq_square algebra_simps)
  have tt: "cos (ph * t) * cos (ph * t) = 1 - sin (ph * t) * sin (ph * t)"
    using sin_cos_squared_add [of "ph * t"] by (simp add: power2_eq_square algebra_simps)
  have "quat_dot q (quatslerp q r t) * sin ph = cos (ph * t) * sin ph"
  proof -
    have "quat_dot q (quatslerp q r t) * sin ph = a * sin ph + d * (b * sin ph)"
      unfolding pt quat_dot_add_right by (simp add: qq d_def [symmetric] algebra_simps)
    then show ?thesis unfolding ab by simp
  qed
  then have dot: "quat_dot q (quatslerp q r t) = cos (t * ph)" using s0 by (simp add: mult.commute)
  have "QUATSLEN (quatslerp q r t) = a * a + 2 * a * b * d + b * b"
    unfolding pt quat_dot_self [symmetric] quat_dot_add
    by (simp add: quat_dot_add_right qq d_def [symmetric] quat_dot_commute [of r q] algebra_simps)
  then have "QUATSLEN (quatslerp q r t) * (sin ph * sin ph)
      = (a * sin ph) * (a * sin ph) + 2 * (a * sin ph) * (b * sin ph) * d + (b * sin ph) * (b * sin ph)"
    by (simp add: algebra_simps)
  also have "\<dots> = sin ph * sin ph * (cos (ph * t) * cos (ph * t)) + (1 - d * d) * (sin (ph * t) * sin (ph * t))"
    unfolding ab by (simp add: algebra_simps)
  also have "\<dots> = sin ph * sin ph" unfolding sc tt by (simp add: algebra_simps)
  finally have "QUATSLEN (quatslerp q r t) = 1" using s0 by simp
  moreover have "quatslerp q r 0 = q" "quatslerp q r 1 = r"
    using s0 quat_ends by (simp_all only: p) simp_all
  ultimately show ?thesis using dot by (simp add: quat_unit_def ph_def d_def)
qed

lemma quatslerp_arc_witness: "quat_unit (quatslerp (Q 0 0 0 1) (Q 1 0 0 0) (1/3))"
  using quatslerp_arc [of "Q 0 0 0 1" "Q 1 0 0 0" "1/3"] by (simp add: quat_unit_def)

lemma quatdirection_aims_witness: "quatrot (quatdirection (V3 0 2 0)) avec3_001 = VECNORM (V3 0 2 0)"
  using quatdirection_aims [of "V3 0 2 0"] by simp

section \<open>Transposing in place\<close>

lemma XORSWAP_swap:
  assumes "i < length m" "j < length m" "i \<noteq> j"
  shows "XORSWAP m i j = m[i := m ! j, j := m ! i]"
proof (rule nth_equalityI)
  show "length (XORSWAP m i j) = length (m[i := m ! j, j := m ! i])" by (simp add: XORSWAP_def Let_def)
  have x: "a XOR (a XOR b) = b" "(a XOR b) XOR a = b" "b XOR (a XOR b) = a" "(a XOR b) XOR b = a" for a b :: "'a word"
    by (rule bit_word_eqI, auto simp: bit_xor_iff)+
  fix k assume "k < length (XORSWAP m i j)"
  then show "XORSWAP m i j ! k = m[i := m ! j, j := m ! i] ! k"
    using assms by (auto simp: XORSWAP_def Let_def nth_list_update x)
qed

lemma length_XORSWAP [simp]: "length (XORSWAP m i j) = length m"
  by (simp add: XORSWAP_def Let_def)

lemma length_DOUBLESWAP [simp]: "length (DOUBLESWAP u m a b) = length m"
  by (simp add: DOUBLESWAP_def)

definition swap_index :: "nat \<Rightarrow> nat \<Rightarrow> nat \<Rightarrow> nat" where
  "swap_index i j k = (if k = i then j else if k = j then i else k)"

fun swap_path :: "nat \<Rightarrow> (nat \<times> nat) list \<Rightarrow> nat \<Rightarrow> nat" where
  "swap_path u [] k = k"
| "swap_path u ((a, b) # ps) k =
     swap_path u ps (swap_index (u * a) (u * b) (swap_index (u * a + 1) (u * b + 1) k))"

lemma DOUBLESWAP_nth:
  assumes "u * a + 1 < length m" "u * b + 1 < length m" "a \<noteq> b" "0 < u" "k < length m"
  shows "DOUBLESWAP u m a b ! k = m ! swap_index (u * a) (u * b) (swap_index (u * a + 1) (u * b + 1) k)"
proof -
  have one: "XORSWAP m i j ! k = m ! swap_index i j k"
    if "i < length m" "j < length m" "i \<noteq> j" "k < length m" for m :: "'a word list" and i j k
    using that by (auto simp: XORSWAP_swap nth_list_update swap_index_def)
  have "swap_index (u * a + 1) (u * b + 1) k < length m" using assms by (simp add: swap_index_def)
  then show ?thesis using assms by (simp add: DOUBLESWAP_def one)
qed

lemma mat4transposein_nth:
  assumes "u * 14 + 1 < length m" "0 < u" "k < length m"
  shows "mat4transposein u m ! k = m ! swap_path u [(11, 14), (7, 13), (3, 12), (6, 9), (2, 8), (1, 4)] k"
proof -
  have lt: "u * a + 1 < length m" if "a \<le> 14" for a
    using assms(1) that by (meson add_le_mono1 le_less_trans mult_le_mono2)
  have s: "swap_index (u * a) (u * b) (swap_index (u * a + 1) (u * b + 1) j) < length m"
    if "a \<le> 14" "b \<le> 14" "j < length m" for a b j
    using lt [OF that(1)] lt [OF that(2)] that(3) by (auto simp: swap_index_def)
  have step: "DOUBLESWAP u m' a b ! j = m' ! swap_index (u * a) (u * b) (swap_index (u * a + 1) (u * b + 1) j)"
    if "length m' = length m" "a \<le> 14" "b \<le> 14" "a \<noteq> b" "j < length m" for m' :: "'a word list" and a b j
    using that lt assms(2) by (intro DOUBLESWAP_nth) simp_all
  show ?thesis using assms(3) by (simp add: mat4transposein_def Let_def step s del: One_nat_def)
qed

text \<open>Transposing in place depends on the size of \<open>unsigned long\<close>.  With 32 bits, where a
  double is two of them, \<open>mat4transposein\<close> transposes the matrix; with 64 bits each macro also
  swaps the neighbouring doubles, and the element (1, 0) ends up as the old (3, 1).\<close>

theorem mat4transposein_units:
  "(length m = 32 \<longrightarrow> (\<forall>k < 16. \<forall>h < 2. mat4transposein 2 m ! (2 * k + h) = m ! (2 * (4 * (k mod 4) + k div 4) + h)))
   \<and> (length n = 16 \<longrightarrow> mat4transposein 1 n ! 4 = n ! 13)"
proof (intro conjI impI allI)
  fix k h :: nat assume a: "length m = 32" "k < 16" "h < 2"
  have "map (swap_path 2 [(11, 14), (7, 13), (3, 12), (6, 9), (2, 8), (1, 4)]) [0..<32]
    = map (\<lambda>j. 2 * (4 * (j div 2 mod 4) + j div 2 div 4) + j mod 2) [0..<32]"
    by (simp add: upt_rec swap_index_def)
  then have "swap_path 2 [(11, 14), (7, 13), (3, 12), (6, 9), (2, 8), (1, 4)] j
      = 2 * (4 * (j div 2 mod 4) + j div 2 div 4) + j mod 2" if "j < 32" for j
    using that by (simp only: map_eq_conv set_upt atLeastLessThan_iff) simp
  from this [of "2 * k + h"] show "mat4transposein 2 m ! (2 * k + h) = m ! (2 * (4 * (k mod 4) + k div 4) + h)"
    using a by (subst mat4transposein_nth) (simp_all del: swap_path.simps)
next
  assume "length n = 16"
  then show "mat4transposein 1 n ! 4 = n ! 13"
    by (subst mat4transposein_nth) (simp_all add: swap_index_def)
qed

lemma mat4transposein_units_witness:
  "mat4transposein 1 (map word_of_nat [0..<16] :: 64 word list) ! 4 = 13"
proof -
  have "mat4transposein 1 (map word_of_nat [0..<16] :: 64 word list) ! 4 = (map word_of_nat [0..<16] :: 64 word list) ! 13"
    using mat4transposein_units [of "[] :: 8 word list" "map word_of_nat [0..<16] :: 64 word list"]
    by (simp del: upt_conv_Cons)
  then show ?thesis by simp
qed

section \<open>Approaching a value\<close>



end
