(* ===== verification/Wavemixer.thy ===== *)
theory Wavemixer
  imports Vecmath "HOL-Library.Signed_Division"
begin

text \<open>
  The sound mixer \<open>clib/src/sound/wavemixer.c\<close> (with \<open>clib/include/clib/sound/wavesum.h\<close>), a
  Win32 source: \<open>int\<close>, \<open>long\<close> and \<open>size_t\<close> have 32 bits.  Two static arrays hold the playing
  sounds: \<open>sounders\<close> (flat sounds with volume and pan) and \<open>msounders\<close> (sounds at a place).
  The sound driver asks for one buffer of 2048 stereo samples at a time and the program sums
  the sounds into it and advances them.

  Unsigned fields are words; an arithmetic overflow of a signed \<open>long\<close>, a failed \<open>assert\<close>, a
  division by zero and a read outside of a sample buffer are \<open>None\<close>.  A pointer into samples is
  the buffer with an offset.  Doubles are reals.
\<close>

section \<open>Data\<close>

definition SAMPLERATE :: int where "SAMPLERATE = 22050"
definition MAXMIX :: nat where "MAXMIX = 32"
definition SHRT_MAX :: int where "SHRT_MAX = 32767"
definition SHRT_MIN :: int where "SHRT_MIN = - 32768"

text \<open>Samples per buffer, \<open>numof(soundbuf[0])\<close>.\<close>

definition SOUNDBUF :: nat where "SOUNDBUF = 2048"

record sounder8 =
  sn_src :: "byte list"
  sn_cur :: nat
  sn_left :: uint32
  sn_size :: uint32
  sn_delay :: uint32
  sn_vol :: "16 word"
  sn_pitch :: "16 word"
  sn_loops :: "16 word"
  sn_pan :: "8 word"
  sn_priority :: "8 word"

record movablesounder8 =
  ms_src :: "byte list"
  ms_cur :: nat
  ms_left :: uint32
  ms_delay :: uint32
  ms_serial :: "16 word"
  ms_pitch :: "16 word"
  ms_pos :: vec3
  ms_vol :: real
  ms_attn :: real

definition sounder_null :: sounder8 where
  "sounder_null = \<lparr>sn_src = [], sn_cur = 0, sn_left = 0, sn_size = 0, sn_delay = 0, sn_vol = 0,
     sn_pitch = 0, sn_loops = 0, sn_pan = 0, sn_priority = 0\<rparr>"

definition msounder_null :: movablesounder8 where
  "msounder_null = \<lparr>ms_src = [], ms_cur = 0, ms_left = 0, ms_delay = 0, ms_serial = 0, ms_pitch = 0,
     ms_pos = V3 0 0 0, ms_vol = 0, ms_attn = 0\<rparr>"

record mixer =
  sounders :: "sounder8 list"
  isounder :: nat
  msounders :: "movablesounder8 list"
  imsounder :: nat
  wave_volume :: int
  wave_current_volume :: int
  listener_inwater :: bool
  listener_pos :: vec3
  listener_xhat :: vec3
  soundbuf :: "16 word list list"
  wo_k :: nat

definition mixer_start :: mixer where
  "mixer_start = \<lparr>sounders = replicate 32 sounder_null, isounder = 0,
     msounders = replicate 128 msounder_null, imsounder = 0,
     wave_volume = 255, wave_current_volume = 255, listener_inwater = False,
     listener_pos = V3 0 0 0, listener_xhat = V3 1 0 0,
     soundbuf = replicate 2 (replicate (2 * SOUNDBUF) 0), wo_k = 0\<rparr>"

text \<open>A value of type \<open>long\<close>: overflow is undefined.\<close>

definition lng :: "int \<Rightarrow> int option" where
  "lng x = (if - (2 ^ 31) \<le> x \<and> x < 2 ^ 31 then Some x else None)"

text \<open>The conversion of a \<open>double\<close> to \<open>long\<close> truncates.\<close>

definition to_long :: "real \<Rightarrow> int option" where
  "to_long x = lng (if 0 \<le> x then \<lfloor>x\<rfloor> else \<lceil>x\<rceil>)"

section \<open>Adding and stopping sounds\<close>

text \<open>The scan of \<open>addsound\<close> for a slot; the result is \<open>None\<close> inside when there is no slot.\<close>

fun addsound_slot :: "sounder8 list \<Rightarrow> uint32 \<Rightarrow> 16 word \<Rightarrow> 8 word \<Rightarrow> nat \<Rightarrow> nat option option" where
  "addsound_slot [] delay vol priority i = Some None"
| "addsound_slot (s # ss) delay vol priority i =
     (if sn_left s = 0 \<or> sint (sn_priority s) < sint priority then Some (Some i)
      else if sn_priority s = priority then
        if sn_vol s = 0 then None
        else do {
          a \<leftarrow> lng (sint delay - SAMPLERATE sdiv sint vol);
          b \<leftarrow> lng (sint (sn_delay s) - SAMPLERATE sdiv uint (sn_vol s));
          if a < b then Some (Some i) else addsound_slot ss delay vol priority (i + 1) }
      else addsound_slot ss delay vol priority (i + 1))"

definition addsound ::
    "mixer \<Rightarrow> byte list \<Rightarrow> uint32 \<Rightarrow> uint32 \<Rightarrow> 16 word \<Rightarrow> 16 word \<Rightarrow> 8 word \<Rightarrow> 16 word \<Rightarrow> 8 word
     \<Rightarrow> (int \<times> mixer) option" where
  "addsound mx src sz delay vol pitch pan loops priority =
     (if sint vol < 16 \<or> sz = 0 then Some (- 1, mx)
      else if \<not> - 32 < sint pitch then None
      else do {
        slot \<leftarrow> addsound_slot (sounders mx) delay vol priority 0;
        case slot of
          None \<Rightarrow> Some (- 1, mx)
        | Some i \<Rightarrow> do {
            ss \<leftarrow> awrite (sounders mx) i
              \<lparr>sn_src = src, sn_cur = 0, sn_left = sz, sn_size = sz, sn_delay = delay, sn_vol = vol,
                sn_pitch = pitch, sn_loops = loops, sn_pan = pan, sn_priority = priority\<rparr>;
            let next = (i + 1) mod 32;
            Some (int next, mx\<lparr>sounders := ss, isounder := next\<rparr>) } })"

definition stopsound :: "mixer \<Rightarrow> 8 word \<Rightarrow> mixer" where
  "stopsound mx priority =
     mx\<lparr>sounders := map (\<lambda>ps. if sn_priority ps = priority then ps\<lparr>sn_left := 0, sn_loops := 0\<rparr> else ps) (sounders mx)\<rparr>"

definition maddsound ::
    "mixer \<Rightarrow> byte list \<Rightarrow> uint32 \<Rightarrow> uint32 \<Rightarrow> vec3 \<Rightarrow> real \<Rightarrow> real \<Rightarrow> (uint32 \<times> mixer) option" where
  "maddsound mx src sz delay pos vol attn = do {
     s \<leftarrow> aread (msounders mx) (imsounder mx);
     let s = s\<lparr>ms_src := src, ms_cur := 0, ms_left := sz, ms_delay := delay, ms_serial := ms_serial s + 1,
               ms_pos := pos, ms_vol := vol, ms_attn := attn\<rparr>;
     ss \<leftarrow> awrite (msounders mx) (imsounder mx) s;
     let k = (imsounder mx + 1) mod 128;
     Some (word_of_nat k AND push_bit 16 (scast (ms_serial s)), mx\<lparr>msounders := ss, imsounder := k\<rparr>) }"

text \<open>\<open>initsound\<close> clears a buffer.\<close>

definition initsound :: "16 word list" where
  "initsound = replicate (2 * SOUNDBUF) 0"

text \<open>\<open>stopsound3d\<close> takes the serial of a placed sound for an index into \<open>sounders\<close>.\<close>

definition stopsound3d :: "mixer \<Rightarrow> movablesounder8 \<Rightarrow> int \<times> movablesounder8 \<times> mixer" where
  "stopsound3d mx src =
     (if (scast (ms_serial src) :: uint32) < 32 then
        let k = unat (ms_serial src)
        in (1, src\<lparr>ms_serial := 32\<rparr>,
            mx\<lparr>sounders := (sounders mx)[k := (sounders mx ! k)\<lparr>sn_left := 0, sn_loops := 0\<rparr>]\<rparr>)
      else (0, src, mx))"

definition addsound3d ::
    "mixer \<Rightarrow> byte list \<Rightarrow> uint32 \<Rightarrow> uint32 \<Rightarrow> real \<Rightarrow> real \<Rightarrow> vec3 \<Rightarrow> 16 word \<Rightarrow> uint32
     \<Rightarrow> (uint32 \<times> mixer) option" where
  "addsound3d mx src sz delay vol attn pos pitch srcpitch = do {
     let k = (imsounder mx + 1) mod 128;
     added \<leftarrow> aread (msounders mx) k;
     let (r, added, mx) = stopsound3d mx added;
     let (left, dly) =
       (if 0 \<le> sint delay then (sz, delay)
        else if sz < - delay then (sz + delay, 0)
        else (0, ms_delay added));
     if \<not> 0 \<le> sint left then None
     else do {
       let added = added\<lparr>ms_src := src, ms_cur := 0, ms_left := left, ms_delay := dly, ms_pos := pos,
           ms_vol := vol, ms_attn := attn, ms_serial := ms_serial added + 1,
           ms_pitch := ucast ((ucast pitch * srcpitch) div 22050 :: uint32)\<rparr>;
       ss \<leftarrow> awrite (msounders mx) k added;
       Some (push_bit 16 (scast (ms_serial added)) OR word_of_nat k,
             mx\<lparr>msounders := ss, imsounder := k\<rparr>) } }"

definition movesound3d :: "mixer \<Rightarrow> uint32 \<Rightarrow> vec3 \<Rightarrow> (uint32 \<times> mixer) option" where
  "movesound3d mx sid pos =
     (let i = unat (sid AND 0xffff); serial = (ucast (drop_bit 16 sid) :: 16 word)
      in if 128 \<le> i then Some (- 1, mx)
         else do {
           ms \<leftarrow> aread (msounders mx) i;
           if \<not> 0 \<le> sint (ms_left ms) then None
           else if ms_serial ms \<noteq> serial then Some (sid, mx)
           else Some (sid, mx\<lparr>msounders := (msounders mx)[i := ms\<lparr>ms_pos := pos\<rparr>]\<rparr>) })"

section \<open>Summing flat sounds\<close>

text \<open>The body of the inner loop of \<open>wavesum8s\<close> for one sound.\<close>

definition sounder_sample :: "sounder8 \<Rightarrow> nat \<Rightarrow> int option option" where
  "sounder_sample s t =
     (let p = sint (sn_pitch s); d = (word_of_int (p + 32) :: uint32)
      in if p \<noteq> 0 \<and> d = 0 then None
         else
           let left = (if p = 0 then sn_left s else sn_left s * 32 div d)
           in if sn_delay s < word_of_nat t \<and> word_of_nat t < left + sn_delay s then
                let idx = (if p = 0 then word_of_nat t - sn_delay s
                           else word_of_int ((int t * (p + 32)) sdiv 32) - sn_delay s)
                in do {
                  c \<leftarrow> aread (sn_src s) (sn_cur s + unat idx);
                  value \<leftarrow> lng (uint (sn_vol s) * (uint c - 128));
                  Some (Some value) }
              else Some None)"

fun wavesum8s_mix :: "sounder8 list \<Rightarrow> nat \<Rightarrow> int \<Rightarrow> int \<Rightarrow> (int \<times> int) option" where
  "wavesum8s_mix [] t tt0 tt1 = Some (tt0, tt1)"
| "wavesum8s_mix (s # ss) t tt0 tt1 = do {
     v \<leftarrow> sounder_sample s t;
     case v of
       None \<Rightarrow> wavesum8s_mix ss t tt0 tt1
     | Some value \<Rightarrow> do {
         a \<leftarrow> lng (value * (128 + sint (sn_pan s)));
         b \<leftarrow> lng (value * (127 - sint (sn_pan s)));
         tt0 \<leftarrow> lng (tt0 + a);
         tt1 \<leftarrow> lng (tt1 + b);
         wavesum8s_mix ss t tt0 tt1 } }"

definition clamp16 :: "int \<Rightarrow> 16 word" where
  "clamp16 tt = word_of_int (if tt > SHRT_MAX then SHRT_MAX else if tt < SHRT_MIN then SHRT_MIN else tt)"

fun wavesum8s_loop :: "int \<Rightarrow> sounder8 list \<Rightarrow> nat list \<Rightarrow> 16 word list \<Rightarrow> 16 word list option" where
  "wavesum8s_loop cv src [] dst = Some dst"
| "wavesum8s_loop cv src (t # ts) dst = do {
     (tt0, tt1) \<leftarrow> wavesum8s_mix src t 0 0;
     tt0 \<leftarrow> lng (tt0 * cv);
     tt1 \<leftarrow> lng (tt1 * cv);
     dst \<leftarrow> awrite dst (t * 2) (clamp16 (tt0 sdiv 256 sdiv 256));
     dst \<leftarrow> awrite dst (t * 2 + 1) (clamp16 (tt1 sdiv 256 sdiv 256));
     wavesum8s_loop cv src ts dst }"

definition wavesum8s :: "int \<Rightarrow> 16 word list \<Rightarrow> sounder8 list \<Rightarrow> nat \<Rightarrow> 16 word list option" where
  "wavesum8s cv dst src maxt = wavesum8s_loop cv src [0..<maxt] dst"

section \<open>Summing placed sounds\<close>

text \<open>The voices chosen so far are pairs of an index into \<open>msounders\<close> and a volume: the
  parallel arrays \<open>pms\<close> and \<open>vol\<close> up to \<open>m\<close>.\<close>

definition voice_insert :: "(nat \<times> int) list \<Rightarrow> nat \<Rightarrow> int \<Rightarrow> (nat \<times> int) list" where
  "voice_insert vs i v =
     (let j = length (takeWhile (\<lambda>(_, u). \<not> u < v) vs) in take j vs @ [(i, v)] @ drop j vs)"

fun voice_replace_at :: "(nat \<times> int) list \<Rightarrow> int \<Rightarrow> nat \<Rightarrow> nat option" where
  "voice_replace_at vs v 0 = None"
| "voice_replace_at vs v (Suc j) =
     (if Suc j = 0 \<or> v \<le> snd (vs ! j) then Some (Suc j) else voice_replace_at vs v j)"

definition voice_replace :: "(nat \<times> int) list \<Rightarrow> nat \<Rightarrow> int \<Rightarrow> (nat \<times> int) list" where
  "voice_replace vs i v =
     (case voice_replace_at vs v (length vs - 1) of
        None \<Rightarrow> vs
      | Some j \<Rightarrow> take j vs @ [(i, v)] @ take (length vs - j - 1) (drop j vs))"

text \<open>The volume of a placed sound for the listener: the quotient \<open>sdist / attn\<close> by zero is
  infinite, which gives the volume 0, or no number, whose conversion to \<open>long\<close> is undefined.\<close>

definition voice_volume :: "vec3 \<Rightarrow> movablesounder8 \<Rightarrow> int option" where
  "voice_volume view ms =
     (let sdist = VECSDIST (ms_pos ms) view
      in if ms_attn ms = 0 then (if sdist = 0 then None else Some 0)
         else let d = 1 + sdist / ms_attn ms in if d = 0 then None else to_long (256 * ms_vol ms / d))"

fun select_voices ::
    "vec3 \<Rightarrow> movablesounder8 list \<Rightarrow> nat \<Rightarrow> (nat \<times> int) list \<Rightarrow> (nat \<times> int) list option" where
  "select_voices view [] i vs = Some vs"
| "select_voices view (s # ss) i vs =
     (if ms_left s \<noteq> 0 \<and> ms_delay s < word_of_nat SOUNDBUF then do {
        v \<leftarrow> voice_volume view s;
        if v \<le> 2 then select_voices view ss (i + 1) vs
        else if length vs < MAXMIX then select_voices view ss (i + 1) (voice_insert vs i v)
        else if snd (vs ! (MAXMIX - 1)) < v then select_voices view ss (i + 1) (voice_replace vs i v)
        else select_voices view ss (i + 1) vs }
      else select_voices view ss (i + 1) vs)"

text \<open>The pan of a voice; a sound at the place of the listener gives \<open>0. / 0.\<close>, whose
  conversion to \<open>long\<close> is undefined.\<close>

definition voice_pan :: "vec3 \<Rightarrow> vec3 \<Rightarrow> movablesounder8 \<Rightarrow> int option" where
  "voice_pan view xh ms =
     (let dist = sqrt (VECSDIST (ms_pos ms) view)
      in if dist = 0 then None else to_long (128 * VECSP xh (VECSUB (ms_pos ms) view) / dist))"

fun voice_pans :: "vec3 \<Rightarrow> vec3 \<Rightarrow> movablesounder8 list \<Rightarrow> (nat \<times> int) list \<Rightarrow> (nat \<times> int \<times> int) list option" where
  "voice_pans view xh src [] = Some []"
| "voice_pans view xh src ((i, v) # vs) = do {
     ms \<leftarrow> aread src i;
     p \<leftarrow> voice_pan view xh ms;
     r \<leftarrow> voice_pans view xh src vs;
     Some ((i, v, p) # r) }"

fun wavesumm8s_mix ::
    "movablesounder8 list \<Rightarrow> (nat \<times> int \<times> int) list \<Rightarrow> nat \<Rightarrow> int \<Rightarrow> int \<Rightarrow> (int \<times> int) option" where
  "wavesumm8s_mix src [] t tt0 tt1 = Some (tt0, tt1)"
| "wavesumm8s_mix src ((i, v, p) # vs) t tt0 tt1 = do {
     ms \<leftarrow> aread src i;
     let srct = (word_of_nat t - ms_delay ms) * ucast (ms_pitch ms) div 256;
     if 0 \<le> sint srct \<and> srct < ms_left ms then do {
       c \<leftarrow> aread (ms_src ms) (ms_cur ms + unat srct);
       a \<leftarrow> lng ((uint c - 128) * v);
       l \<leftarrow> lng (128 - p);
       r \<leftarrow> lng (p + 128);
       l \<leftarrow> lng (a * l);
       r \<leftarrow> lng (a * r);
       tt0 \<leftarrow> lng (tt0 + l sdiv 256);
       tt1 \<leftarrow> lng (tt1 + r sdiv 256);
       wavesumm8s_mix src vs t tt0 tt1 }
     else wavesumm8s_mix src vs t tt0 tt1 }"

fun wavesumm8s_loop ::
    "int \<Rightarrow> movablesounder8 list \<Rightarrow> (nat \<times> int \<times> int) list \<Rightarrow> nat list \<Rightarrow> 16 word list \<Rightarrow> 16 word list option" where
  "wavesumm8s_loop cv src vs [] dst = Some dst"
| "wavesumm8s_loop cv src vs (t # ts) dst = do {
     (tt0, tt1) \<leftarrow> wavesumm8s_mix src vs t 0 0;
     tt0 \<leftarrow> lng (tt0 * cv);
     tt1 \<leftarrow> lng (tt1 * cv);
     d0 \<leftarrow> aread dst (t * 2);
     d1 \<leftarrow> aread dst (t * 2 + 1);
     tt0 \<leftarrow> lng (tt0 sdiv 256 + sint d0);
     tt1 \<leftarrow> lng (tt1 sdiv 256 + sint d1);
     dst \<leftarrow> awrite dst (t * 2) (clamp16 tt0);
     dst \<leftarrow> awrite dst (t * 2 + 1) (clamp16 tt1);
     wavesumm8s_loop cv src vs ts dst }"

definition wavesumm8s ::
    "int \<Rightarrow> 16 word list \<Rightarrow> movablesounder8 list \<Rightarrow> nat \<Rightarrow> vec3 \<Rightarrow> vec3 \<Rightarrow> 16 word list option" where
  "wavesumm8s cv dst src maxt view xh = do {
     vs \<leftarrow> select_voices view src 0 [];
     vps \<leftarrow> voice_pans view xh src vs;
     wavesumm8s_loop cv src vps [0..<maxt] dst }"

definition loudness :: "movablesounder8 \<Rightarrow> vec3 \<Rightarrow> real" where
  "loudness ms listener =
     (if ms_left ms \<noteq> 0 then ms_vol ms / (1 + ms_attn ms * VECSDIST (ms_pos ms) listener) else 0)"

definition louder :: "vec3 \<Rightarrow> movablesounder8 \<Rightarrow> movablesounder8 \<Rightarrow> int" where
  "louder listener a b =
     (let la = loudness a listener; lb = loudness b listener
      in if la < lb then 1 else if lb < la then - 1 else 0)"

section \<open>Advancing the sounds\<close>

definition sounder_step :: "sounder8 \<Rightarrow> uint32" where
  "sounder_step s = word_of_nat SOUNDBUF * word_of_int (sint (sn_pitch s) + 32) div 32"

definition sounder_advance :: "sounder8 \<Rightarrow> sounder8" where
  "sounder_advance s =
     (if sn_left s = 0 then s
      else
        let tt2 = sounder_step s;
            (s, tt2) = (if sn_delay s < tt2 then (s\<lparr>sn_delay := 0\<rparr>, tt2 - sn_delay s)
                        else (s\<lparr>sn_delay := sn_delay s - tt2\<rparr>, 0))
        in if sn_left s < tt2 then
             if sn_loops s = 0 then s\<lparr>sn_left := 0\<rparr>
             else s\<lparr>sn_left := sn_size s, sn_cur := 0, sn_loops := sn_loops s - 1\<rparr>
           else if tt2 \<noteq> 0 then s\<lparr>sn_left := sn_left s - tt2, sn_cur := sn_cur s + unat tt2\<rparr>
           else s)"

definition msounder_advance :: "movablesounder8 \<Rightarrow> movablesounder8 option" where
  "msounder_advance s =
     (if ms_left s = 0 then Some s
      else if \<not> 0 \<le> sint (ms_left s) then None
      else
        let tt2 = word_of_nat SOUNDBUF * ucast (ms_pitch s) div 256;
            (s, tt2) = (if ms_delay s < tt2 then (s\<lparr>ms_delay := 0\<rparr>, tt2 - ms_delay s)
                        else (s\<lparr>ms_delay := ms_delay s - tt2\<rparr>, 0))
        in Some (if ms_left s < tt2 then s\<lparr>ms_left := 0\<rparr>
                 else if tt2 \<noteq> 0 then s\<lparr>ms_left := ms_left s - tt2, ms_cur := ms_cur s + unat tt2\<rparr>
                 else s))"

fun msounders_advance :: "movablesounder8 list \<Rightarrow> movablesounder8 list option" where
  "msounders_advance [] = Some []"
| "msounders_advance (s # ss) = do { s \<leftarrow> msounder_advance s; ss \<leftarrow> msounders_advance ss; Some (s # ss) }"

text \<open>The smoothing under water: \<open>int\<close> arithmetic on \<open>short\<close> samples.\<close>

fun inwater_loop :: "nat list \<Rightarrow> 16 word list \<Rightarrow> 16 word list option" where
  "inwater_loop [] buf = Some buf"
| "inwater_loop (i # is) buf = do {
     a \<leftarrow> aread buf (2 * i);
     p \<leftarrow> aread buf (2 * (i - 1));
     buf \<leftarrow> awrite buf (2 * i) (word_of_int ((sint a + sint p) sdiv 2));
     a \<leftarrow> aread buf (2 * i + 1);
     p \<leftarrow> aread buf (2 * (i - 1) + 1);
     buf \<leftarrow> awrite buf (2 * i + 1) (word_of_int ((sint a + sint p) sdiv 2));
     inwater_loop is buf }"

text \<open>The flat sounds of one buffer: sum and advance them, or clear the buffer when none is
  left.\<close>

definition mix_flat :: "mixer \<Rightarrow> 16 word list \<Rightarrow> (16 word list \<times> mixer) option" where
  "mix_flat mx buf =
     (if \<forall>s \<in> set (sounders mx). sn_left s = 0 then Some (initsound, mx)
      else do {
        buf \<leftarrow> wavesum8s (wave_current_volume mx) buf (sounders mx) SOUNDBUF;
        Some (buf, mx\<lparr>sounders := map sounder_advance (sounders mx)\<rparr>) })"

text \<open>The part inside the critical section: the placed sounds, and the smoothing.\<close>

definition mix_placed :: "mixer \<Rightarrow> 16 word list \<Rightarrow> (16 word list \<times> mixer) option" where
  "mix_placed mx buf = do {
     buf \<leftarrow> wavesumm8s (wave_current_volume mx) buf (msounders mx) SOUNDBUF (listener_pos mx) (listener_xhat mx);
     mss \<leftarrow> msounders_advance (msounders mx);
     buf \<leftarrow> (if listener_inwater mx then inwater_loop [1..<SOUNDBUF] buf else Some buf);
     Some (buf, mx\<lparr>msounders := mss\<rparr>) }"

text \<open>\<open>WaveOutProc\<close> on the message \<open>WOM_DONE\<close>: refill the buffer that was played.\<close>

definition WaveOutProc_done :: "mixer \<Rightarrow> mixer option" where
  "WaveOutProc_done mx = do {
     buf \<leftarrow> aread (soundbuf mx) (wo_k mx);
     (buf, mx') \<leftarrow> mix_flat (mx\<lparr>wo_k := (wo_k mx + 1) mod 2, wave_current_volume := wave_volume mx\<rparr>) buf;
     (buf, mx') \<leftarrow> mix_placed mx' buf;
     Some (mx'\<lparr>soundbuf := (soundbuf mx')[wo_k mx := buf]\<rparr>) }"

end
