(* ===== verification/Wavemixer_Placed.thy ===== *)
theory Wavemixer_Placed
  imports Wavemixer_Correct "HOL-Library.Multiset"
begin

text \<open>
  The sounds at a place: the choice of the voices that are mixed, as insertions into a list
  sorted by volume, and the handles that \<open>addsound3d\<close> returns and \<open>movesound3d\<close> takes.
\<close>


section \<open>The voices\<close>

definition louder_first :: "(nat \<times> int) list \<Rightarrow> bool" where
  "louder_first vs = sorted_wrt (\<lambda>a b. snd b \<le> snd a) vs"

definition audible :: "vec3 \<Rightarrow> movablesounder8 \<Rightarrow> bool" where
  "audible view s \<longleftrightarrow> ms_left s \<noteq> 0 \<and> ms_delay s < word_of_nat SOUNDBUF \<and>
     (case voice_volume view s of None \<Rightarrow> False | Some v \<Rightarrow> 2 < v)"

definition voices_ok :: "vec3 \<Rightarrow> movablesounder8 list \<Rightarrow> nat \<Rightarrow> (nat \<times> int) list \<Rightarrow> bool" where
  "voices_ok view src n vs \<longleftrightarrow> louder_first vs \<and> length vs \<le> MAXMIX \<and> distinct (map fst vs)
     \<and> (\<forall>(i, v) \<in> set vs. i < n \<and> audible view (src ! i) \<and> voice_volume view (src ! i) = Some v)
     \<and> (card {i. i < n \<and> audible view (src ! i)} \<le> MAXMIX \<longrightarrow> fst ` set vs = {i. i < n \<and> audible view (src ! i)})"

lemma voice_insert_mset: "mset (voice_insert vs i v) = mset vs + {#(i, v)#}"
proof -
  define j where "j = length (takeWhile (\<lambda>(_, u). \<not> u < v) vs)"
  have "mset (take j vs) + mset (drop j vs) = mset vs"
    by (metis append_take_drop_id mset_append)
  then show ?thesis by (simp add: voice_insert_def Let_def flip: j_def)
qed

lemma voice_insert_sorted:
  assumes "louder_first vs"
  shows "louder_first (voice_insert vs i v)"
proof -
  let ?P = "\<lambda>(_, u). \<not> u < v"
  have split: "voice_insert vs i v = takeWhile ?P vs @ [(i, v)] @ dropWhile ?P vs"
    by (simp add: voice_insert_def takeWhile_eq_take [symmetric] dropWhile_eq_drop [symmetric])
  have s: "louder_first (takeWhile ?P vs @ dropWhile ?P vs)" using assms by simp
  then have d: "louder_first (dropWhile ?P vs)" by (simp add: louder_first_def sorted_wrt_append)
  have lo: "\<forall>b \<in> set (dropWhile ?P vs). snd b \<le> v"
  proof (cases "dropWhile ?P vs")
    case (Cons a as)
    then have "\<not> ?P a" by (metis hd_dropWhile list.distinct(1) list.sel(1))
    then show ?thesis using d Cons by (auto simp: louder_first_def)
  next
    case Nil
    then show ?thesis by (simp only: list.set ball_empty)
  qed
  have hi: "\<forall>a \<in> set (takeWhile ?P vs). v \<le> snd a" by (auto dest: set_takeWhileD)
  from s lo hi show ?thesis unfolding split
    by (auto simp: louder_first_def sorted_wrt_append intro: order_trans)
qed

lemma voice_replace_at_spec:
  "voice_replace_at vs v j = Some k \<Longrightarrow> 0 < k \<and> k \<le> j \<and> v \<le> snd (vs ! (k - 1)) \<and> (\<forall>i. k \<le> i \<and> i < j \<longrightarrow> snd (vs ! i) < v)"
proof (induction vs v j rule: voice_replace_at.induct)
  case (2 vs v j)
  then show ?case by (auto split: if_splits simp: less_Suc_eq)
qed simp

lemma voice_replace_sorted:
  assumes "louder_first vs" "vs \<noteq> []" "snd (last vs) < v"
  shows "louder_first (voice_replace vs i v) \<and> length (voice_replace vs i v) = length vs
    \<and> mset (voice_replace vs i v) \<subseteq># mset vs + {#(i, v)#}"
proof (cases "voice_replace_at vs v (length vs - 1)")
  case None
  then show ?thesis using assms(1) by (simp add: voice_replace_def)
next
  case (Some k)
  note k = voice_replace_at_spec [OF Some]
  have kl: "k < length vs" using k assms(2) by (cases vs) auto
  define d where "d = take (length vs - k - 1) (drop k vs)"
  have r: "voice_replace vs i v = take k vs @ [(i, v)] @ d" by (simp only: voice_replace_def Some option.case d_def)
  have dsub: "set d \<subseteq> set (drop k vs)" by (auto simp: d_def dest: in_set_takeD)
  have low: "snd b < v" if b: "b \<in> set d" for b
  proof -
    obtain m where m: "m < length d" "b = d ! m" using b by (metis in_set_conv_nth)
    then have "k + m < length vs - 1" "b = vs ! (k + m)" by (auto simp: d_def)
    then show ?thesis using k by simp
  qed
  have high: "v \<le> snd a" if a: "a \<in> set (take k vs)" for a
  proof -
    obtain m where m: "m < k" "a = vs ! m" using a kl by (auto simp: in_set_conv_nth)
    have "snd (vs ! (k - 1)) \<le> snd (vs ! m)"
    proof (cases "m = k - 1")
      case False
      then have "m < k - 1" using m(1) by simp
      then show ?thesis using sorted_wrt_nth_less [of "\<lambda>a b. snd b \<le> snd a" vs m "k - 1"] assms(1) m kl
        by (simp add: louder_first_def)
    qed simp
    then show ?thesis using m k by simp
  qed
  have "sorted_wrt (\<lambda>a b. snd b \<le> snd a) (take k vs)" "sorted_wrt (\<lambda>a b. snd b \<le> snd a) d"
    using assms(1) by (auto simp: louder_first_def d_def intro!: sorted_wrt_take sorted_wrt_drop)
  then have "louder_first (voice_replace vs i v)"
    unfolding r louder_first_def sorted_wrt_append using low high by (force intro: order_trans less_imp_le)
  moreover have "length (voice_replace vs i v) = length vs" using kl unfolding r by (simp add: d_def)
  moreover have "mset d \<subseteq># mset (drop k vs)"
    unfolding d_def by (metis append_take_drop_id mset_append mset_subset_eq_add_left)
  then have "mset (take k vs) + mset d \<subseteq># mset (take k vs) + mset (drop k vs)" by simp
  then have "mset (take k vs) + mset d \<subseteq># mset vs" by (metis append_take_drop_id mset_append)
  ultimately show ?thesis unfolding r by simp
qed

lemma voices_step:
  assumes "voices_ok view src n vs" "\<not> audible view (src ! n)"
  shows "voices_ok view src (Suc n) vs"
proof -
  have "{i. i < Suc n \<and> audible view (src ! i)} = {i. i < n \<and> audible view (src ! i)}"
    using assms(2) by (auto simp: less_Suc_eq)
  with assms(1) show ?thesis by (force simp: voices_ok_def)
qed

lemma audible_Suc:
  "audible view (src ! n) \<Longrightarrow> {i. i < Suc n \<and> audible view (src ! i)} = insert n {i. i < n \<and> audible view (src ! i)}"
  by (auto simp: less_Suc_eq)

lemma voices_insert:
  assumes "voices_ok view src n vs" "audible view (src ! n)" "voice_volume view (src ! n) = Some v" "length vs < MAXMIX"
  shows "voices_ok view src (Suc n) (voice_insert vs n v)"
proof -
  note mset = voice_insert_mset [of vs n v]
  have set: "set (voice_insert vs n v) = insert (n, v) (set vs)"
    using arg_cong [OF mset, of set_mset] by simp
  have len: "length (voice_insert vs n v) = Suc (length vs)"
    using arg_cong [OF mset, of size] by simp
  have "mset (map fst (voice_insert vs n v)) = mset (map fst vs) + {#n#}"
    by (simp add: mset)
  then have "distinct (map fst (voice_insert vs n v)) = distinct (map fst vs @ [n])"
    by (metis mset_append mset_eq_imp_distinct_iff mset_single_iff_right mset.simps)
  then have dist: "distinct (map fst (voice_insert vs n v))"
    using assms(1) by (auto simp: voices_ok_def)
  have "finite {i. i < n \<and> audible view (src ! i)}" by simp
  then show ?thesis
    using assms voice_insert_sorted [of vs n v] len set dist audible_Suc [OF assms(2)]
    by (auto simp: voices_ok_def)
qed

lemma voices_full:
  assumes "voices_ok view src n vs" "audible view (src ! n)" "length vs = MAXMIX"
    "louder_first ws" "length ws = length vs" "mset ws \<subseteq># mset vs + {#(n, v)#}" "voice_volume view (src ! n) = Some v"
  shows "voices_ok view src (Suc n) ws"
proof -
  let ?A = "{i. i < n \<and> audible view (src ! i)}"
  have sub: "fst ` set vs \<subseteq> ?A" using assms(1) by (auto simp: voices_ok_def)
  have "card (fst ` set vs) = MAXMIX"
    using assms(1,3) by (metis card_image distinct_card distinct_map length_map list.set_map voices_ok_def)
  then have "MAXMIX \<le> card ?A" using card_mono [OF _ sub] by simp
  then have big: "\<not> card {i. i < Suc n \<and> audible view (src ! i)} \<le> MAXMIX"
    unfolding audible_Suc [OF assms(2)] by simp
  have set: "set ws \<subseteq> insert (n, v) (set vs)"
    using set_mset_mono [OF assms(6)] by simp
  have "mset (map fst ws) \<subseteq># mset (map fst vs @ [n])"
    using image_mset_subseteq_mono [OF assms(6), of fst] by simp
  moreover have "distinct (map fst vs @ [n])" using assms(1) by (auto simp: voices_ok_def)
  ultimately have "distinct (map fst ws)"
    using mset_eq_imp_distinct_iff by (metis distinct_append mset_append subset_mset.add_diff_inverse ex_mset)
  moreover have "i < Suc n \<and> audible view (src ! i) \<and> voice_volume view (src ! i) = Some u"
    if "(i, u) \<in> set ws" for i u
  proof -
    have "(i, u) = (n, v) \<or> (i, u) \<in> set vs" using that set by auto
    then show ?thesis using assms(1,2,7) by (auto simp: voices_ok_def)
  qed
  ultimately show ?thesis
    using assms(3-5) big by (auto simp: voices_ok_def)
qed

lemma select_voices_ok:
  assumes "select_voices view ss n vs = Some r" "voices_ok view src n vs" "src = pre @ ss" "n = length pre"
  shows "voices_ok view src (length src) r"
  using assms
proof (induction ss arbitrary: pre n vs)
  case Nil
  then show ?case by simp
next
  case (Cons s ss)
  have n: "src ! n = s" using Cons.prems(3,4) by simp
  have src: "src = (pre @ [s]) @ ss" "Suc n = length (pre @ [s])" using Cons.prems(3,4) by simp_all
  note step = Cons.IH [OF _ _ src]
  show ?case
  proof (cases "ms_left s \<noteq> 0 \<and> ms_delay s < word_of_nat SOUNDBUF")
    case False
    then have "\<not> audible view (src ! n)" by (auto simp: audible_def n)
    with Cons.prems(2) have "voices_ok view src (Suc n) vs" by (rule voices_step)
    with step False Cons.prems(1) show ?thesis by (simp split: if_splits)
  next
    case True
    then obtain v where v: "voice_volume view s = Some v"
      using Cons.prems(1) by (auto simp: bind_eq_Some_conv)
    show ?thesis
    proof (cases "v \<le> 2")
      case True2: True
      then have "\<not> audible view (src ! n)" using v by (simp add: audible_def n)
      with Cons.prems(2) have "voices_ok view src (Suc n) vs" by (rule voices_step)
      with step True True2 v Cons.prems(1) show ?thesis by simp
    next
      case False
      then have aud: "audible view (src ! n)" using True v by (simp add: audible_def n)
      have vn: "voice_volume view (src ! n) = Some v" by (simp add: n v)
      show ?thesis
      proof (cases "length vs < MAXMIX")
        case True3: True
        from voices_insert [OF Cons.prems(2) aud vn this] step True v False Cons.prems(1) True3
        show ?thesis by simp
      next
        case False2: False
        have len: "length vs = MAXMIX" using False2 Cons.prems(2) by (simp add: voices_ok_def)
        then have ne: "vs \<noteq> []" by (auto simp: MAXMIX_def)
        have last: "snd (vs ! (MAXMIX - 1)) = snd (last vs)" using ne len by (simp add: last_conv_nth)
        have so: "louder_first vs" using Cons.prems(2) by (simp add: voices_ok_def)
        have keep: "voices_ok view src (Suc n) vs"
          using voices_full [OF Cons.prems(2) aud len so refl _ vn] by simp
        show ?thesis
        proof (cases "snd (vs ! (MAXMIX - 1)) < v")
          case True4: True
          have "snd (last vs) < v" using True4 last by simp
          from voice_replace_sorted [OF so ne this, of n]
          have "voices_ok view src (Suc n) (voice_replace vs n v)"
            using voices_full [OF Cons.prems(2) aud len _ _ _ vn] by blast
          then show ?thesis using step True v False False2 True4 Cons.prems(1) by simp
        next
          case False4: False
          then show ?thesis using keep step True v False False2 Cons.prems(1) by simp
        qed
      qed
    qed
  qed
qed

text \<open>The choice of the voices.  When \<open>wavesumm8s\<close> has scanned the placed sounds, the voices
  it mixes are at most 32 different audible sounds, each with its own volume, from the loudest
  to the faintest; and when at most 32 sounds are audible, they are all of them.\<close>

theorem select_voices_spec:
  assumes "select_voices view src 0 [] = Some vs"
  shows "sorted_wrt (\<lambda>a b. snd b \<le> snd a) vs \<and> length vs \<le> 32 \<and> distinct (map fst vs)
    \<and> (\<forall>(i, v) \<in> set vs. i < length src \<and> audible view (src ! i) \<and> voice_volume view (src ! i) = Some v)
    \<and> (card {i. i < length src \<and> audible view (src ! i)} \<le> 32 \<longrightarrow>
         fst ` set vs = {i. i < length src \<and> audible view (src ! i)})"
proof -
  have "voices_ok view src 0 []" by (simp add: voices_ok_def louder_first_def)
  from select_voices_ok [OF assms this, of "[]"] show ?thesis
    by (simp add: voices_ok_def louder_first_def MAXMIX_def)
qed

lemma select_voices_spec_witness:
  "select_voices (V3 0 0 0) [msounder_null\<lparr>ms_left := 5, ms_vol := 1, ms_attn := 1\<rparr>] 0 [] = Some [(0, 256)]
   \<and> sorted_wrt (\<lambda>a b. snd b \<le> snd a) [(0 :: nat, 256 :: int)]"
proof -
  have s: "select_voices (V3 0 0 0) [msounder_null\<lparr>ms_left := 5, ms_vol := 1, ms_attn := 1\<rparr>] 0 [] = Some [(0, 256)]"
    by (simp add: msounder_null_def voice_volume_def Let_def to_long_def lng_def SOUNDBUF_def MAXMIX_def voice_insert_def word_less_nat_alt)
  from select_voices_spec [OF s] s show ?thesis by blast
qed

text \<open>The loudest sound can be left out.  When 32 voices are taken and a sound louder than
  all of them follows, the scan for its place ends at the first voice without storing it.\<close>

theorem voice_replace_drops_loudest:
  assumes "length vs = 32" "\<forall>u \<in> set vs. snd u < v"
  shows "voice_replace vs i v = vs"
proof -
  have "voice_replace_at vs v j = None" if "j < length vs" for j
    using that assms(2) by (induction j) (auto simp: not_le)
  then have "voice_replace_at vs v (length vs - 1) = None" using assms(1) by simp
  then show ?thesis by (simp add: voice_replace_def)
qed

lemma voice_replace_drops_loudest_witness:
  "voice_replace (replicate 32 (0, 5)) 7 9 = replicate 32 (0, 5)"
  using voice_replace_drops_loudest [of "replicate 32 (0, 5)" 9 7] by simp

section \<open>Handles\<close>

lemma sid_decode:
  assumes "k < 128"
  shows "unat ((push_bit 16 (scast (s :: 16 word)) OR word_of_nat k :: uint32) AND 0xffff) = k"
    and "(ucast (drop_bit 16 (push_bit 16 (scast s) OR word_of_nat k :: uint32)) :: 16 word) = s"
proof -
  have kb: "\<not> bit k j" if "7 \<le> j" for j
  proof -
    have "take_bit 7 k = k" using assms by (simp add: take_bit_nat_eq_self)
    then have "bit k j = bit (take_bit 7 k) j" by simp
    then show ?thesis using that by (simp add: bit_take_bit_iff)
  qed
  have "(push_bit 16 (scast s) OR word_of_nat k :: uint32) AND mask 16 = word_of_nat k"
  proof (rule bit_word_eqI)
    fix n assume "n < LENGTH(32)"
    have "bit k n \<Longrightarrow> n < 16" using kb [of n] by (cases "n < 16") auto
    then show "bit ((push_bit 16 (scast s) OR word_of_nat k :: uint32) AND mask 16) n = bit (word_of_nat k :: uint32) n"
      by (auto simp: bit_and_iff bit_or_iff bit_push_bit_iff bit_mask_iff bit_of_nat_iff)
  qed
  moreover have "(mask 16 :: uint32) = 0xffff" by (simp add: mask_eq_exp_minus_1)
  ultimately show "unat ((push_bit 16 (scast s) OR word_of_nat k :: uint32) AND 0xffff) = k"
    using assms by (simp add: unsigned_of_nat take_bit_nat_eq_self)
  show "(ucast (drop_bit 16 (push_bit 16 (scast s) OR word_of_nat k :: uint32)) :: 16 word) = s"
    by (rule bit_word_eqI)
      (auto simp: bit_unsigned_iff bit_drop_bit_eq bit_or_iff bit_push_bit_iff bit_of_nat_iff bit_signed_iff kb)
qed

text \<open>A handle finds its sound.  After \<open>addsound3d\<close> has returned a handle,
  \<open>movesound3d\<close> with it moves exactly the sound just added and returns the handle.\<close>

theorem addsound3d_movesound3d:
  assumes "mixer_ok mx" "addsound3d mx src sz delay vol attn pos pitch srcpitch = Some (sid, mx1)" "unat sz \<le> length src"
  shows "movesound3d mx1 sid p =
     Some (sid, mx1\<lparr>msounders := (msounders mx1)[imsounder mx1 := (msounders mx1 ! imsounder mx1)\<lparr>ms_pos := p\<rparr>]\<rparr>)
   \<and> ms_src (msounders mx1 ! imsounder mx1) = src \<and> ms_pos (msounders mx1 ! imsounder mx1) = pos
   \<and> imsounder mx1 = (imsounder mx + 1) mod 128"
proof -
  define k where "k = (imsounder mx + 1) mod 128"
  have k: "k < 128" by (simp add: k_def)
  have ok1: "mixer_ok mx1" by (rule addsound3d_ok [OF assms])
  obtain q added mx0 where st: "stopsound3d mx (msounders mx ! k) = (q, added, mx0)"
    by (cases "stopsound3d mx (msounders mx ! k)")
  from stopsound3d_ok [OF assms(1) st] have ok0: "mixer_ok mx0" by simp
  have ar: "aread (msounders mx) k = Some (msounders mx ! k)" using k assms(1) by (simp add: mem_simps mixer_ok_def)
  obtain left dly where ld: "(if 0 \<le> sint delay then (sz, delay)
      else if sz < - delay then (sz + delay, 0) else (0, ms_delay added)) = (left, dly)"
    by (metis surj_pair)
  define new where "new = added\<lparr>ms_src := src, ms_cur := 0, ms_left := left, ms_delay := dly, ms_pos := pos,
       ms_vol := vol, ms_attn := attn, ms_serial := ms_serial added + 1,
       ms_pitch := ucast ((ucast pitch * srcpitch) div 22050 :: uint32)\<rparr>"
  have "sid = push_bit 16 (scast (ms_serial new)) OR word_of_nat k
      \<and> mx1 = mx0\<lparr>msounders := (msounders mx0)[k := new], imsounder := k\<rparr>"
    using assms(2) ar st ld k ok0
    by (auto simp: addsound3d_def Let_def k_def mem_simps mixer_ok_def new_def split: if_splits)
  then have new: "ms_src new = src" "ms_pos new = pos"
      "sid = push_bit 16 (scast (ms_serial new)) OR word_of_nat k"
      "mx1 = mx0\<lparr>msounders := (msounders mx0)[k := new], imsounder := k\<rparr>"
    by (simp_all add: new_def)
  have nth: "msounders mx1 ! k = new" using new(4) ok0 k by (simp add: mixer_ok_def)
  have "0 \<le> sint (ms_left new)"
    using ok1 nth k by (metis mixer_ok_def msounder_ok_def nth_mem)
  then show ?thesis
    using nth new k ok1 sid_decode [OF k, of "ms_serial new"]
    by (simp add: movesound3d_def Let_def mem_simps mixer_ok_def k_def)
qed

text \<open>A stale handle is not reported.  When the serial number in a handle is no longer that
  of its slot, \<open>movesound3d\<close> changes nothing and yet returns the handle, not the -1 it has put
  into \<open>ret\<close>; and the first sound placed in a fresh mixer silences the flat sound 0, whose
  index equals the serial number of the unused slot.\<close>

theorem placed_sound_confusions:
  assumes "mixer_ok mx" "unat (sid AND 0xffff) < 128"
    "ms_serial (msounders mx ! unat (sid AND 0xffff)) \<noteq> ucast (drop_bit 16 sid)"
    and "mixer_ok my" "ms_serial (msounders my ! ((imsounder my + 1) mod 128)) = 0" "0 \<le> sint sz"
  shows "movesound3d mx sid p = Some (sid, mx)
    \<and> (\<exists>r my'. addsound3d my src sz 0 vol attn pos pitch srcpitch = Some (r, my')
          \<and> sn_left (sounders my' ! 0) = 0)"
proof
  let ?i = "unat (sid AND 0xffff)" and ?k = "(imsounder my + 1) mod 128"
  have i: "?i < length (msounders mx)" using assms(1,2) by (simp add: mixer_ok_def)
  then have "msounder_ok (msounders mx ! ?i)" using assms(1) by (simp add: mixer_ok_def)
  then show "movesound3d mx sid p = Some (sid, mx)"
    using i assms(2,3) by (simp add: movesound3d_def Let_def mem_simps msounder_ok_def)
  have k: "?k < length (msounders my)" using assms(4) by (simp add: mixer_ok_def)
  have "0 < length (sounders my)" using assms(4) by (simp add: mixer_ok_def)
  then show "\<exists>r my'. addsound3d my src sz 0 vol attn pos pitch srcpitch = Some (r, my') \<and> sn_left (sounders my' ! 0) = 0"
    using k assms(5,6) by (simp add: addsound3d_def Let_def mem_simps stopsound3d_def)
qed

lemma placed_sound_confusions_witness:
  "movesound3d mixer_start 0x10000 (V3 1 2 3) = Some (0x10000, mixer_start)"
  using placed_sound_confusions [of mixer_start "0x10000" mixer_start 1 "V3 1 2 3"] mixer_start_ok
  by (simp add: mixer_start_def msounder_null_def)

lemma addsound3d_movesound3d_witness:
  "\<exists>sid mx1. addsound3d mixer_start [1, 2] 2 0 1 1 (V3 0 0 1) 256 22050 = Some (sid, mx1)
     \<and> (\<exists>mx2. movesound3d mx1 sid (V3 1 1 1) = Some (sid, mx2))"
proof -
  obtain sid mx1 where a: "addsound3d mixer_start [1, 2] 2 0 1 1 (V3 0 0 1) 256 22050 = Some (sid, mx1)"
    by (simp add: addsound3d_def Let_def mixer_start_def stopsound3d_def msounder_null_def mem_simps)
  show ?thesis using addsound3d_movesound3d [OF mixer_start_ok a] a by auto
qed

end
