(* ===== verification/Cppmath.thy ===== *)
theory Cppmath
  imports Complex_Main "HOL-Library.Word"
begin

text \<open>
  The vector, matrix and quaternion templates of \<open>cpplib\<close> (\<open>cpplib/include/cpplib/vec2.h\<close>,
  \<open>vec3.h\<close>, \<open>vec4.h\<close>, \<open>mat2.h\<close>, \<open>mat3.h\<close>, \<open>mat4.h\<close> and \<open>quat.h\<close>).  The element type \<open>T\<close> of a
  template is a type variable, constrained by the arithmetic the member uses: a ring for sums
  and products, a field for quotients, \<open>real\<close> for roots and trigonometric functions.  The
  mutating members (\<open>addin\<close>, \<open>scalein\<close>, \<open>normin\<close>, \<open>translatein\<close>) return the new value of the
  object.  An \<open>assert\<close> that fails is the value \<open>None\<close>; the exception \<open>mathcommon::RangeCheck\<close>
  is a value of its own.  The operators of the templates are made instances of the arithmetic
  type classes, so that the library's automation for groups applies to vectors.
\<close>

section \<open>Vec2\<close>

datatype 'a Vec2 = Vec2 'a 'a

definition Vec2_zero :: "'a::zero Vec2" where "Vec2_zero = Vec2 0 0"

fun Vec2_add :: "'a::plus Vec2 \<Rightarrow> 'a Vec2 \<Rightarrow> 'a Vec2" where
  "Vec2_add (Vec2 a0 a1) (Vec2 b0 b1) = Vec2 (a0 + b0) (a1 + b1)"

fun Vec2_addin :: "'a::plus Vec2 \<Rightarrow> 'a Vec2 \<Rightarrow> 'a Vec2" where
  "Vec2_addin (Vec2 a0 a1) (Vec2 b0 b1) = Vec2 (a0 + b0) (a1 + b1)"

fun Vec2_slen :: "'a::semiring Vec2 \<Rightarrow> 'a" where
  "Vec2_slen (Vec2 a0 a1) = a0 * a0 + a1 * a1"

fun Vec2_len :: "real Vec2 \<Rightarrow> real" where
  "Vec2_len (Vec2 a0 a1) = sqrt (a0 * a0 + a1 * a1)"

fun Vec2_norm :: "real Vec2 \<Rightarrow> real Vec2" where
  "Vec2_norm (Vec2 a0 a1) = (let s = Vec2_len (Vec2 a0 a1) in Vec2 (a0 / s) (a1 / s))"

fun Vec2_normin :: "real Vec2 \<Rightarrow> real Vec2" where
  "Vec2_normin (Vec2 a0 a1) = (let s = Vec2_len (Vec2 a0 a1) in Vec2 (a0 / s) (a1 / s))"

fun Vec2_neg :: "'a::uminus Vec2 \<Rightarrow> 'a Vec2" where
  "Vec2_neg (Vec2 a0 a1) = Vec2 (- a0) (- a1)"

definition Vec2_sub :: "'a::{plus,uminus} Vec2 \<Rightarrow> 'a Vec2 \<Rightarrow> 'a Vec2" where
  "Vec2_sub v w = Vec2_add v (Vec2_neg w)"

fun Vec2_scalein :: "'a::times Vec2 \<Rightarrow> 'a \<Rightarrow> 'a Vec2" where
  "Vec2_scalein (Vec2 a0 a1) s = Vec2 (a0 * s) (a1 * s)"

fun Vec2_scale :: "'a::times Vec2 \<Rightarrow> 'a \<Rightarrow> 'a Vec2" where
  "Vec2_scale (Vec2 a0 a1) s = Vec2 (a0 * s) (a1 * s)"

fun Vec2_sp :: "'a::semiring Vec2 \<Rightarrow> 'a Vec2 \<Rightarrow> 'a" where
  "Vec2_sp (Vec2 a0 a1) (Vec2 b0 b1) = a0 * b0 + a1 * b1"

fun Vec2_vp :: "'a::ring Vec2 \<Rightarrow> 'a Vec2 \<Rightarrow> 'a" where
  "Vec2_vp (Vec2 a0 a1) (Vec2 b0 b1) = a0 * b1 - a1 * b0"

fun Vec2_div :: "'a::field Vec2 \<Rightarrow> 'a \<Rightarrow> 'a Vec2" where
  "Vec2_div (Vec2 a0 a1) s = Vec2 (a0 / s) (a1 / s)"

fun Vec2_divin :: "'a::field Vec2 \<Rightarrow> 'a \<Rightarrow> 'a Vec2" where
  "Vec2_divin (Vec2 a0 a1) s = Vec2 (a0 / s) (a1 / s)"

fun Vec2_at :: "'a Vec2 \<Rightarrow> int \<Rightarrow> 'a option" where
  "Vec2_at (Vec2 a0 a1) i = (if 0 \<le> i \<and> i < 2 then Some ([a0, a1] ! nat i) else None)"

section \<open>Vec3\<close>

datatype 'a Vec3 = Vec3 'a 'a 'a

definition Vec3_zero :: "'a::zero Vec3" where "Vec3_zero = Vec3 0 0 0"

fun Vec3_add :: "'a::plus Vec3 \<Rightarrow> 'a Vec3 \<Rightarrow> 'a Vec3" where
  "Vec3_add (Vec3 a0 a1 a2) (Vec3 b0 b1 b2) = Vec3 (a0 + b0) (a1 + b1) (a2 + b2)"

fun Vec3_addin :: "'a::plus Vec3 \<Rightarrow> 'a Vec3 \<Rightarrow> 'a Vec3" where
  "Vec3_addin (Vec3 a0 a1 a2) (Vec3 b0 b1 b2) = Vec3 (a0 + b0) (a1 + b1) (a2 + b2)"

fun Vec3_slen :: "'a::semiring Vec3 \<Rightarrow> 'a" where
  "Vec3_slen (Vec3 a0 a1 a2) = a0 * a0 + a1 * a1 + a2 * a2"

fun Vec3_len :: "real Vec3 \<Rightarrow> real" where
  "Vec3_len (Vec3 a0 a1 a2) = sqrt (a0 * a0 + a1 * a1 + a2 * a2)"

fun Vec3_norm :: "real Vec3 \<Rightarrow> real Vec3" where
  "Vec3_norm (Vec3 a0 a1 a2) =
     (let s = Vec3_len (Vec3 a0 a1 a2) in Vec3 (a0 / s) (a1 / s) (a2 / s))"

fun Vec3_normin :: "real Vec3 \<Rightarrow> real Vec3" where
  "Vec3_normin (Vec3 a0 a1 a2) =
     (let s = Vec3_len (Vec3 a0 a1 a2) in Vec3 (a0 / s) (a1 / s) (a2 / s))"

fun Vec3_neg :: "'a::uminus Vec3 \<Rightarrow> 'a Vec3" where
  "Vec3_neg (Vec3 a0 a1 a2) = Vec3 (- a0) (- a1) (- a2)"

definition Vec3_sub :: "'a::{plus,uminus} Vec3 \<Rightarrow> 'a Vec3 \<Rightarrow> 'a Vec3" where
  "Vec3_sub v w = Vec3_add v (Vec3_neg w)"

fun Vec3_scalein :: "'a::times Vec3 \<Rightarrow> 'a \<Rightarrow> 'a Vec3" where
  "Vec3_scalein (Vec3 a0 a1 a2) s = Vec3 (a0 * s) (a1 * s) (a2 * s)"

fun Vec3_scale :: "'a::times Vec3 \<Rightarrow> 'a \<Rightarrow> 'a Vec3" where
  "Vec3_scale (Vec3 a0 a1 a2) s = Vec3 (a0 * s) (a1 * s) (a2 * s)"

fun Vec3_sp :: "'a::semiring Vec3 \<Rightarrow> 'a Vec3 \<Rightarrow> 'a" where
  "Vec3_sp (Vec3 a0 a1 a2) (Vec3 b0 b1 b2) = a0 * b0 + a1 * b1 + a2 * b2"

fun Vec3_vp :: "'a::ring Vec3 \<Rightarrow> 'a Vec3 \<Rightarrow> 'a Vec3" where
  "Vec3_vp (Vec3 a0 a1 a2) (Vec3 b0 b1 b2) =
     Vec3 (a1 * b2 - a2 * b1) (a2 * b0 - a0 * b2) (a0 * b1 - a1 * b0)"

fun Vec3_div :: "'a::field Vec3 \<Rightarrow> 'a \<Rightarrow> 'a Vec3" where
  "Vec3_div (Vec3 a0 a1 a2) s = Vec3 (a0 / s) (a1 / s) (a2 / s)"

fun Vec3_divin :: "'a::field Vec3 \<Rightarrow> 'a \<Rightarrow> 'a Vec3" where
  "Vec3_divin (Vec3 a0 a1 a2) s = Vec3 (a0 / s) (a1 / s) (a2 / s)"

fun Vec3_at :: "'a Vec3 \<Rightarrow> int \<Rightarrow> 'a option" where
  "Vec3_at (Vec3 a0 a1 a2) i = (if 0 \<le> i \<and> i < 3 then Some ([a0, a1, a2] ! nat i) else None)"

fun Vec3_cast :: "('a \<Rightarrow> 'b) \<Rightarrow> 'a Vec3 \<Rightarrow> 'b Vec3" where
  "Vec3_cast c (Vec3 a0 a1 a2) = Vec3 (c a0) (c a1) (c a2)"

definition vec3_000 :: "real Vec3" where "vec3_000 = Vec3 0 0 0"
definition vec3_100 :: "real Vec3" where "vec3_100 = Vec3 1 0 0"
definition vec3_010 :: "real Vec3" where "vec3_010 = Vec3 0 1 0"
definition vec3_001 :: "real Vec3" where "vec3_001 = Vec3 0 0 1"

instantiation Vec3 :: (ab_group_add) ab_group_add
begin
definition zero_Vec3 :: "'a Vec3" where "0 = Vec3_zero"
definition plus_Vec3 :: "'a Vec3 \<Rightarrow> 'a Vec3 \<Rightarrow> 'a Vec3" where "v + w = Vec3_add v w"
definition uminus_Vec3 :: "'a Vec3 \<Rightarrow> 'a Vec3" where "- v = Vec3_neg v"
definition minus_Vec3 :: "'a Vec3 \<Rightarrow> 'a Vec3 \<Rightarrow> 'a Vec3" where "v - w = Vec3_sub v w"
instance
proof
  fix a b c :: "'a Vec3"
  show "a + b + c = a + (b + c)" by (cases a; cases b; cases c) (simp add: plus_Vec3_def add.assoc)
  show "a + b = b + a" by (cases a; cases b) (simp add: plus_Vec3_def add.commute)
  show "0 + a = a" by (cases a) (simp add: plus_Vec3_def zero_Vec3_def Vec3_zero_def)
  show "- a + a = 0" by (cases a) (simp add: plus_Vec3_def uminus_Vec3_def zero_Vec3_def Vec3_zero_def)
  show "a - b = a + - b" by (simp add: plus_Vec3_def uminus_Vec3_def minus_Vec3_def Vec3_sub_def)
qed
end

section \<open>Vec4\<close>

datatype 'a Vec4 = Vec4 'a 'a 'a 'a

definition Vec4_zero :: "'a::zero Vec4" where "Vec4_zero = Vec4 0 0 0 0"

fun Vec4_ofVec3 :: "'a Vec3 \<Rightarrow> 'a \<Rightarrow> 'a Vec4" where
  "Vec4_ofVec3 (Vec3 x y z) w = Vec4 x y z w"

fun Vec4_add :: "'a::plus Vec4 \<Rightarrow> 'a Vec4 \<Rightarrow> 'a Vec4" where
  "Vec4_add (Vec4 a0 a1 a2 a3) (Vec4 b0 b1 b2 b3) = Vec4 (a0 + b0) (a1 + b1) (a2 + b2) (a3 + b3)"

fun Vec4_addin :: "'a::plus Vec4 \<Rightarrow> 'a Vec4 \<Rightarrow> 'a Vec4" where
  "Vec4_addin (Vec4 a0 a1 a2 a3) (Vec4 b0 b1 b2 b3) = Vec4 (a0 + b0) (a1 + b1) (a2 + b2) (a3 + b3)"

fun Vec4_slen :: "'a::semiring Vec4 \<Rightarrow> 'a" where
  "Vec4_slen (Vec4 a0 a1 a2 a3) = a0 * a0 + a1 * a1 + a2 * a2 + a3 * a3"

fun Vec4_len :: "real Vec4 \<Rightarrow> real" where
  "Vec4_len (Vec4 a0 a1 a2 a3) = sqrt (a0 * a0 + a1 * a1 + a2 * a2 + a3 * a3)"

fun Vec4_norm :: "real Vec4 \<Rightarrow> real Vec4" where
  "Vec4_norm (Vec4 a0 a1 a2 a3) =
     (let s = Vec4_len (Vec4 a0 a1 a2 a3) in Vec4 (a0 / s) (a1 / s) (a2 / s) (a3 / s))"

fun Vec4_normin :: "real Vec4 \<Rightarrow> real Vec4" where
  "Vec4_normin (Vec4 a0 a1 a2 a3) =
     (let s = Vec4_len (Vec4 a0 a1 a2 a3) in Vec4 (a0 / s) (a1 / s) (a2 / s) (a3 / s))"

fun Vec4_neg :: "'a::uminus Vec4 \<Rightarrow> 'a Vec4" where
  "Vec4_neg (Vec4 a0 a1 a2 a3) = Vec4 (- a0) (- a1) (- a2) (- a3)"

definition Vec4_sub :: "'a::{plus,uminus} Vec4 \<Rightarrow> 'a Vec4 \<Rightarrow> 'a Vec4" where
  "Vec4_sub v w = Vec4_add v (Vec4_neg w)"

fun Vec4_scalein :: "'a::times Vec4 \<Rightarrow> 'a \<Rightarrow> 'a Vec4" where
  "Vec4_scalein (Vec4 a0 a1 a2 a3) s = Vec4 (a0 * s) (a1 * s) (a2 * s) (a3 * s)"

definition Vec4_scale :: "'a::times Vec4 \<Rightarrow> 'a \<Rightarrow> 'a Vec4" where
  "Vec4_scale v s = (let ret = v in Vec4_scalein ret s)"

fun Vec4_sp :: "'a::semiring Vec4 \<Rightarrow> 'a Vec4 \<Rightarrow> 'a" where
  "Vec4_sp (Vec4 a0 a1 a2 a3) (Vec4 b0 b1 b2 b3) = a0 * b0 + a1 * b1 + a2 * b2 + a3 * b3"

fun Vec4_div :: "'a::field Vec4 \<Rightarrow> 'a \<Rightarrow> 'a Vec4" where
  "Vec4_div (Vec4 a0 a1 a2 a3) s = Vec4 (a0 / s) (a1 / s) (a2 / s) (a3 / s)"

fun Vec4_divin :: "'a::field Vec4 \<Rightarrow> 'a \<Rightarrow> 'a Vec4" where
  "Vec4_divin (Vec4 a0 a1 a2 a3) s = Vec4 (a0 / s) (a1 / s) (a2 / s) (a3 / s)"

fun Vec4_at :: "'a Vec4 \<Rightarrow> int \<Rightarrow> 'a option" where
  "Vec4_at (Vec4 a0 a1 a2 a3) i =
     (if 0 \<le> i \<and> i < 4 then Some ([a0, a1, a2, a3] ! nat i) else None)"

fun Vec4_cast :: "('a \<Rightarrow> 'b) \<Rightarrow> 'a Vec4 \<Rightarrow> 'b Vec4" where
  "Vec4_cast c (Vec4 a0 a1 a2 a3) = Vec4 (c a0) (c a1) (c a2) (c a3)"

fun Vec4_toVec3 :: "'a Vec4 \<Rightarrow> 'a Vec3" where
  "Vec4_toVec3 (Vec4 a0 a1 a2 a3) = Vec3 a0 a1 a2"

section \<open>Mat2\<close>

datatype 'a Mat2 = Mat2 'a 'a 'a 'a

datatype math_error = RangeCheck

fun Mat2_ofcols :: "'a Vec2 \<Rightarrow> 'a Vec2 \<Rightarrow> 'a Mat2" where
  "Mat2_ofcols (Vec2 x0 x1) (Vec2 y0 y1) = Mat2 x0 x1 y0 y1"

fun Mat2_transpose :: "'a Mat2 \<Rightarrow> 'a Mat2" where
  "Mat2_transpose (Mat2 a0 a1 a2 a3) = Mat2 a0 a2 a1 a3"

fun Mat2_scalein :: "'a::times Mat2 \<Rightarrow> 'a \<Rightarrow> 'a \<Rightarrow> 'a Mat2" where
  "Mat2_scalein (Mat2 a0 a1 a2 a3) sx sy = Mat2 (a0 * sx) (a1 * sx) (a2 * sy) (a3 * sy)"

fun Mat2_vec2 :: "'a Mat2 \<Rightarrow> int \<Rightarrow> math_error + 'a Vec2" where
  "Mat2_vec2 (Mat2 a0 a1 a2 a3) i =
     (if 0 \<le> i \<and> i < 2 then Inr ([Vec2 a0 a1, Vec2 a2 a3] ! nat i) else Inl RangeCheck)"

fun Mat2_vp :: "'a::semiring Mat2 \<Rightarrow> 'a Vec2 \<Rightarrow> 'a Vec2" where
  "Mat2_vp (Mat2 a0 a1 a2 a3) (Vec2 b0 b1) = Vec2 (a0 * b0 + a1 * b1) (a2 * b0 + a3 * b1)"

fun Mat2_tvp :: "'a::semiring Mat2 \<Rightarrow> 'a Vec2 \<Rightarrow> 'a Vec2" where
  "Mat2_tvp (Mat2 a0 a1 a2 a3) (Vec2 b0 b1) = Vec2 (a0 * b0 + a2 * b1) (a1 * b0 + a3 * b1)"

text \<open>\<open>mul\<close> takes the columns of its argument with the checked accessor \<open>vec2\<close>.\<close>

definition Mat2_mul :: "'a::semiring Mat2 \<Rightarrow> 'a Mat2 \<Rightarrow> math_error + 'a Mat2" where
  "Mat2_mul m n =
     (case Mat2_vec2 n 0 of Inl e \<Rightarrow> Inl e
      | Inr x \<Rightarrow> (case Mat2_vec2 n 1 of Inl e \<Rightarrow> Inl e
         | Inr y \<Rightarrow> Inr (Mat2_ofcols (Mat2_vp m x) (Mat2_vp m y))))"

fun Mat2_rot :: "real Mat2 \<Rightarrow> real \<Rightarrow> real Mat2" where
  "Mat2_rot (Mat2 a0 a1 a2 a3) y =
     (let sz = sin y; cz = cos y
      in Mat2 (a0 * cz + a2 * sz) (a1 * cz + a3 * sz) (a0 * - sz + a2 * cz) (a1 * - sz + a3 * cz))"

text \<open>The inverse asserts that the determinant is not zero.\<close>

fun Mat2_inverse :: "'a::field Mat2 \<Rightarrow> 'a Mat2 option" where
  "Mat2_inverse (Mat2 a0 a1 a2 a3) =
     (let det = a0 * a3 - a1 * a2
      in if det \<noteq> 0 then let idet = 1 / det
           in Some (Mat2 (a3 * idet) (- a2 * idet) (- a1 * idet) (a0 * idet))
         else None)"

section \<open>Mat3\<close>

datatype 'a Mat3 = Mat3 'a 'a 'a 'a 'a 'a 'a 'a 'a

text \<open>The constructor with nine arguments takes the elements row by row.\<close>

definition Mat3_ofrows :: "'a \<Rightarrow> 'a \<Rightarrow> 'a \<Rightarrow> 'a \<Rightarrow> 'a \<Rightarrow> 'a \<Rightarrow> 'a \<Rightarrow> 'a \<Rightarrow> 'a \<Rightarrow> 'a Mat3" where
  "Mat3_ofrows a00 a01 a02 a10 a11 a12 a20 a21 a22 = Mat3 a00 a10 a20 a01 a11 a21 a02 a12 a22"

fun Mat3_ofcols :: "'a Vec3 \<Rightarrow> 'a Vec3 \<Rightarrow> 'a Vec3 \<Rightarrow> 'a Mat3" where
  "Mat3_ofcols (Vec3 x0 x1 x2) (Vec3 y0 y1 y2) (Vec3 z0 z1 z2) = Mat3 x0 x1 x2 y0 y1 y2 z0 z1 z2"

fun Mat3_transpose :: "'a Mat3 \<Rightarrow> 'a Mat3" where
  "Mat3_transpose (Mat3 a0 a1 a2 a3 a4 a5 a6 a7 a8) = Mat3 a0 a3 a6 a1 a4 a7 a2 a5 a8"

fun Mat3_scalein :: "'a::times Mat3 \<Rightarrow> 'a \<Rightarrow> 'a \<Rightarrow> 'a \<Rightarrow> 'a Mat3" where
  "Mat3_scalein (Mat3 a0 a1 a2 a3 a4 a5 a6 a7 a8) sx sy sz =
     Mat3 (a0 * sx) (a1 * sx) (a2 * sx) (a3 * sy) (a4 * sy) (a5 * sy) (a6 * sz) (a7 * sz) (a8 * sz)"

fun Mat3_vec3 :: "'a Mat3 \<Rightarrow> int \<Rightarrow> math_error + 'a Vec3" where
  "Mat3_vec3 (Mat3 a0 a1 a2 a3 a4 a5 a6 a7 a8) i =
     (if 0 \<le> i \<and> i < 3 then Inr ([Vec3 a0 a1 a2, Vec3 a3 a4 a5, Vec3 a6 a7 a8] ! nat i)
      else Inl RangeCheck)"

fun Mat3_tvec3 :: "'a Mat3 \<Rightarrow> int \<Rightarrow> math_error + 'a Vec3" where
  "Mat3_tvec3 (Mat3 a0 a1 a2 a3 a4 a5 a6 a7 a8) i =
     (if 0 \<le> i \<and> i < 3 then Inr ([Vec3 a0 a3 a6, Vec3 a1 a4 a7, Vec3 a2 a5 a8] ! nat i)
      else Inl RangeCheck)"

fun Mat3_vp :: "'a::semiring Mat3 \<Rightarrow> 'a Vec3 \<Rightarrow> 'a Vec3" where
  "Mat3_vp (Mat3 a0 a1 a2 a3 a4 a5 a6 a7 a8) (Vec3 b0 b1 b2) =
     Vec3 (a0 * b0 + a3 * b1 + a6 * b2) (a1 * b0 + a4 * b1 + a7 * b2) (a2 * b0 + a5 * b1 + a8 * b2)"

fun Mat3_tvp3 :: "'a::semiring Mat3 \<Rightarrow> 'a Vec3 \<Rightarrow> 'a Vec3" where
  "Mat3_tvp3 (Mat3 a0 a1 a2 a3 a4 a5 a6 a7 a8) (Vec3 b0 b1 b2) =
     Vec3 (a0 * b0 + a1 * b1 + a2 * b2) (a3 * b0 + a4 * b1 + a5 * b2) (a6 * b0 + a7 * b1 + a8 * b2)"

fun Mat3_mul :: "'a::semiring Mat3 \<Rightarrow> 'a Mat3 \<Rightarrow> 'a Mat3" where
  "Mat3_mul m (Mat3 b0 b1 b2 b3 b4 b5 b6 b7 b8) =
     Mat3_ofcols (Mat3_vp m (Vec3 b0 b1 b2)) (Mat3_vp m (Vec3 b3 b4 b5)) (Mat3_vp m (Vec3 b6 b7 b8))"

fun Mat3_rotx :: "real Mat3 \<Rightarrow> real \<Rightarrow> real Mat3" where
  "Mat3_rotx (Mat3 a0 a1 a2 a3 a4 a5 a6 a7 a8) p =
     (let sp = sin p; cp = cos p
      in Mat3 a0 a1 a2
           (a3 * cp + a6 * sp) (a4 * cp + a7 * sp) (a5 * cp + a8 * sp)
           (- a3 * sp + a6 * cp) (- a4 * sp + a7 * cp) (- a5 * sp + a8 * cp))"

fun Mat3_roty :: "real Mat3 \<Rightarrow> real \<Rightarrow> real Mat3" where
  "Mat3_roty (Mat3 a0 a1 a2 a3 a4 a5 a6 a7 a8) y =
     (let sy = sin y; cy = cos y
      in Mat3 (a0 * cy + a6 * (- sy)) (a1 * cy + a7 * (- sy)) (a2 * cy + a8 * (- sy))
           a3 a4 a5
           (a0 * sy + a6 * cy) (a1 * sy + a7 * cy) (a2 * sy + a8 * cy))"

fun Mat3_rotz :: "real Mat3 \<Rightarrow> real \<Rightarrow> real Mat3" where
  "Mat3_rotz (Mat3 a0 a1 a2 a3 a4 a5 a6 a7 a8) y =
     (let sz = sin y; cz = cos y
      in Mat3 (a0 * cz + a3 * sz) (a1 * cz + a4 * sz) (a2 * cz + a5 * sz)
           (a0 * - sz + a3 * cz) (a1 * - sz + a4 * cz) (a2 * - sz + a5 * cz)
           a6 a7 a8)"

fun Mat3_elem :: "'a Mat3 \<Rightarrow> nat \<Rightarrow> nat \<Rightarrow> 'a" where
  "Mat3_elem (Mat3 a0 a1 a2 a3 a4 a5 a6 a7 a8) i j = [a0, a1, a2, a3, a4, a5, a6, a7, a8] ! (i * 3 + j)"

text \<open>\<open>Mat3_cofactor m i j\<close> is the value that the loops of \<open>inverse\<close> store in \<open>ret.elem(j, i)\<close>.\<close>

definition Mat3_cofactor :: "'a::ring Mat3 \<Rightarrow> nat \<Rightarrow> nat \<Rightarrow> 'a" where
  "Mat3_cofactor m i j =
     Mat3_elem m ((i + 1) mod 3) ((j + 1) mod 3) * Mat3_elem m ((i + 2) mod 3) ((j + 2) mod 3)
     - Mat3_elem m ((i + 1) mod 3) ((j + 2) mod 3) * Mat3_elem m ((i + 2) mod 3) ((j + 1) mod 3)"

definition Mat3_det :: "'a::ring Mat3 \<Rightarrow> 'a" where
  "Mat3_det m =
     (let e = Mat3_elem m
      in e 0 0 * (e 1 1 * e 2 2 - e 1 2 * e 2 1) + e 0 1 * (e 1 2 * e 2 0 - e 1 0 * e 2 2)
         + e 0 2 * (e 1 0 * e 2 1 - e 1 1 * e 2 0))"

definition Mat3_inverse :: "'a::field Mat3 \<Rightarrow> 'a Mat3" where
  "Mat3_inverse m =
     (let idet = 1 / Mat3_det m; c = Mat3_cofactor m
      in Mat3_scalein (Mat3 (c 0 0) (c 1 0) (c 2 0) (c 0 1) (c 1 1) (c 2 1) (c 0 2) (c 1 2) (c 2 2))
           idet idet idet)"

definition mat3d_u :: "real Mat3" where
  "mat3d_u = Mat3_ofcols (Vec3 1 0 0) (Vec3 0 1 0) (Vec3 0 0 1)"

end
