(* ===== verification/Cppquat.thy ===== *)
theory Cppquat
  imports Cppmath
begin

text \<open>
  The 4x4 matrix and quaternion templates of \<open>cpplib\<close> (\<open>cpplib/include/cpplib/mat4.h\<close>,
  \<open>quat.h\<close>), which are written on top of
  the vectors of \<open>Cppmath\<close>.
\<close>

section \<open>Mat4\<close>

datatype 'a Mat4 = Mat4 'a 'a 'a 'a 'a 'a 'a 'a 'a 'a 'a 'a 'a 'a 'a 'a

fun Mat4_ofVec3 :: "'a::{zero,one} Vec3 \<Rightarrow> 'a Vec3 \<Rightarrow> 'a Vec3 \<Rightarrow> 'a Vec3 \<Rightarrow> 'a Mat4" where
  "Mat4_ofVec3 (Vec3 x0 x1 x2) (Vec3 y0 y1 y2) (Vec3 z0 z1 z2) (Vec3 w0 w1 w2) =
     Mat4 x0 x1 x2 0 y0 y1 y2 0 z0 z1 z2 0 w0 w1 w2 1"

fun Mat4_ofVec4 :: "'a Vec4 \<Rightarrow> 'a Vec4 \<Rightarrow> 'a Vec4 \<Rightarrow> 'a Vec4 \<Rightarrow> 'a Mat4" where
  "Mat4_ofVec4 (Vec4 x0 x1 x2 x3) (Vec4 y0 y1 y2 y3) (Vec4 z0 z1 z2 z3) (Vec4 w0 w1 w2 w3) =
     Mat4 x0 x1 x2 x3 y0 y1 y2 y3 z0 z1 z2 z3 w0 w1 w2 w3"

text \<open>The conversion from \<open>Mat3\<close> reads column 0 of its argument for all three columns.\<close>

definition Mat4_ofMat3 :: "'a::{zero,one} Mat3 \<Rightarrow> math_error + 'a Mat4" where
  "Mat4_ofMat3 m =
     (case Mat3_vec3 m 0 of Inl e \<Rightarrow> Inl e
      | Inr x \<Rightarrow> Inr (Mat4_ofVec3 x x x (Vec3 0 0 0)))"

fun Mat4_transpose :: "'a Mat4 \<Rightarrow> 'a Mat4" where
  "Mat4_transpose (Mat4 a0 a1 a2 a3 a4 a5 a6 a7 a8 a9 a10 a11 a12 a13 a14 a15) =
     Mat4 a0 a4 a8 a12 a1 a5 a9 a13 a2 a6 a10 a14 a3 a7 a11 a15"

fun Mat4_scalein :: "'a::times Mat4 \<Rightarrow> 'a \<Rightarrow> 'a \<Rightarrow> 'a \<Rightarrow> 'a Mat4" where
  "Mat4_scalein (Mat4 a0 a1 a2 a3 a4 a5 a6 a7 a8 a9 a10 a11 a12 a13 a14 a15) sx sy sz =
     Mat4 (a0 * sx) (a1 * sx) (a2 * sx) (a3 * sx) (a4 * sy) (a5 * sy) (a6 * sy) (a7 * sy)
          (a8 * sz) (a9 * sz) (a10 * sz) (a11 * sz) a12 a13 a14 a15"

fun Mat4_translatein :: "'a::semiring Mat4 \<Rightarrow> 'a \<Rightarrow> 'a \<Rightarrow> 'a \<Rightarrow> 'a Mat4" where
  "Mat4_translatein (Mat4 a0 a1 a2 a3 a4 a5 a6 a7 a8 a9 a10 a11 a12 a13 a14 a15) sx sy sz =
     Mat4 a0 a1 a2 a3 a4 a5 a6 a7 a8 a9 a10 a11
       (a12 + (a0 * sx + a4 * sy + a8 * sz)) (a13 + (a1 * sx + a5 * sy + a9 * sz))
       (a14 + (a2 * sx + a6 * sy + a10 * sz)) (a15 + (a3 * sx + a7 * sy + a11 * sz))"

fun Mat4_translateinv :: "'a::semiring Mat4 \<Rightarrow> 'a Vec3 \<Rightarrow> 'a Mat4" where
  "Mat4_translateinv m (Vec3 v0 v1 v2) = Mat4_translatein m v0 v1 v2"

definition Mat4_translate :: "'a::semiring Mat4 \<Rightarrow> 'a \<Rightarrow> 'a \<Rightarrow> 'a \<Rightarrow> 'a Mat4" where
  "Mat4_translate m sx sy sz = (let ret = m in Mat4_translatein ret sx sy sz)"

definition Mat4_translatev :: "'a::semiring Mat4 \<Rightarrow> 'a Vec3 \<Rightarrow> 'a Mat4" where
  "Mat4_translatev m sv = (let ret = m in Mat4_translateinv ret sv)"

fun Mat4_vp3 :: "'a::semiring Mat4 \<Rightarrow> 'a Vec3 \<Rightarrow> 'a Vec3" where
  "Mat4_vp3 (Mat4 a0 a1 a2 a3 a4 a5 a6 a7 a8 a9 a10 a11 a12 a13 a14 a15) (Vec3 b0 b1 b2) =
     Vec3 (a0 * b0 + a4 * b1 + a8 * b2 + a12)
          (a1 * b0 + a5 * b1 + a9 * b2 + a13)
          (a2 * b0 + a6 * b1 + a10 * b2 + a14)"

fun Mat4_dvp3 :: "'a::semiring Mat4 \<Rightarrow> 'a Vec3 \<Rightarrow> 'a Vec3" where
  "Mat4_dvp3 (Mat4 a0 a1 a2 a3 a4 a5 a6 a7 a8 a9 a10 a11 a12 a13 a14 a15) (Vec3 b0 b1 b2) =
     Vec3 (a0 * b0 + a4 * b1 + a8 * b2)
          (a1 * b0 + a5 * b1 + a9 * b2)
          (a2 * b0 + a6 * b1 + a10 * b2)"

fun Mat4_tvp3 :: "'a::semiring Mat4 \<Rightarrow> 'a Vec3 \<Rightarrow> 'a Vec3" where
  "Mat4_tvp3 (Mat4 a0 a1 a2 a3 a4 a5 a6 a7 a8 a9 a10 a11 a12 a13 a14 a15) (Vec3 b0 b1 b2) =
     Vec3 (a0 * b0 + a1 * b1 + a2 * b2 + a3)
          (a4 * b0 + a5 * b1 + a6 * b2 + a7)
          (a8 * b0 + a9 * b1 + a10 * b2 + a11)"

fun Mat4_tdvp3 :: "'a::semiring Mat4 \<Rightarrow> 'a Vec3 \<Rightarrow> 'a Vec3" where
  "Mat4_tdvp3 (Mat4 a0 a1 a2 a3 a4 a5 a6 a7 a8 a9 a10 a11 a12 a13 a14 a15) (Vec3 b0 b1 b2) =
     Vec3 (a0 * b0 + a1 * b1 + a2 * b2)
          (a4 * b0 + a5 * b1 + a6 * b2)
          (a8 * b0 + a9 * b1 + a10 * b2)"

fun Mat4_vp :: "'a::semiring Mat4 \<Rightarrow> 'a Vec4 \<Rightarrow> 'a Vec4" where
  "Mat4_vp (Mat4 a0 a1 a2 a3 a4 a5 a6 a7 a8 a9 a10 a11 a12 a13 a14 a15) (Vec4 b0 b1 b2 b3) =
     Vec4 (a0 * b0 + a4 * b1 + a8 * b2 + a12 * b3)
          (a1 * b0 + a5 * b1 + a9 * b2 + a13 * b3)
          (a2 * b0 + a6 * b1 + a10 * b2 + a14 * b3)
          (a3 * b0 + a7 * b1 + a11 * b2 + a15 * b3)"

fun Mat4_mul :: "'a::semiring Mat4 \<Rightarrow> 'a Mat4 \<Rightarrow> 'a Mat4" where
  "Mat4_mul m (Mat4 b0 b1 b2 b3 b4 b5 b6 b7 b8 b9 b10 b11 b12 b13 b14 b15) =
     Mat4_ofVec4 (Mat4_vp m (Vec4 b0 b1 b2 b3)) (Mat4_vp m (Vec4 b4 b5 b6 b7))
       (Mat4_vp m (Vec4 b8 b9 b10 b11)) (Mat4_vp m (Vec4 b12 b13 b14 b15))"

fun Mat4_vec3 :: "'a Mat4 \<Rightarrow> int \<Rightarrow> math_error + 'a Vec3" where
  "Mat4_vec3 (Mat4 a0 a1 a2 a3 a4 a5 a6 a7 a8 a9 a10 a11 a12 a13 a14 a15) i =
     (if 0 \<le> i \<and> i < 4 then
        Inr ([Vec3 a0 a1 a2, Vec3 a4 a5 a6, Vec3 a8 a9 a10, Vec3 a12 a13 a14] ! nat i)
      else Inl RangeCheck)"

fun Mat4_vec4 :: "'a Mat4 \<Rightarrow> int \<Rightarrow> math_error + 'a Vec4" where
  "Mat4_vec4 (Mat4 a0 a1 a2 a3 a4 a5 a6 a7 a8 a9 a10 a11 a12 a13 a14 a15) i =
     (if 0 \<le> i \<and> i < 4 then
        Inr ([Vec4 a0 a1 a2 a3, Vec4 a4 a5 a6 a7, Vec4 a8 a9 a10 a11, Vec4 a12 a13 a14 a15] ! nat i)
      else Inl RangeCheck)"

fun Mat4_tvec3 :: "'a Mat4 \<Rightarrow> int \<Rightarrow> math_error + 'a Vec3" where
  "Mat4_tvec3 (Mat4 a0 a1 a2 a3 a4 a5 a6 a7 a8 a9 a10 a11 a12 a13 a14 a15) i =
     (if 0 \<le> i \<and> i < 4 then
        Inr ([Vec3 a0 a4 a8, Vec3 a1 a5 a9, Vec3 a2 a6 a10, Vec3 a3 a7 a11] ! nat i)
      else Inl RangeCheck)"

fun Mat4_tvec4 :: "'a Mat4 \<Rightarrow> int \<Rightarrow> math_error + 'a Vec4" where
  "Mat4_tvec4 (Mat4 a0 a1 a2 a3 a4 a5 a6 a7 a8 a9 a10 a11 a12 a13 a14 a15) i =
     (if 0 \<le> i \<and> i < 4 then
        Inr ([Vec4 a0 a4 a8 a12, Vec4 a1 a5 a9 a13, Vec4 a2 a6 a10 a14, Vec4 a3 a7 a11 a15] ! nat i)
      else Inl RangeCheck)"

fun Mat4_rotx :: "real Mat4 \<Rightarrow> real \<Rightarrow> real Mat4" where
  "Mat4_rotx (Mat4 a0 a1 a2 a3 a4 a5 a6 a7 a8 a9 a10 a11 a12 a13 a14 a15) p =
     (let sp = sin p; cp = cos p
      in Mat4 a0 a1 a2 a3
           (a4 * cp + a8 * sp) (a5 * cp + a9 * sp) (a6 * cp + a10 * sp) (a7 * cp + a11 * sp)
           (- a4 * sp + a8 * cp) (- a5 * sp + a9 * cp) (- a6 * sp + a10 * cp) (- a7 * sp + a11 * cp)
           a12 a13 a14 a15)"

fun Mat4_roty :: "real Mat4 \<Rightarrow> real \<Rightarrow> real Mat4" where
  "Mat4_roty (Mat4 a0 a1 a2 a3 a4 a5 a6 a7 a8 a9 a10 a11 a12 a13 a14 a15) y =
     (let sy = sin y; cy = cos y
      in Mat4 (a0 * cy + a8 * (- sy)) (a1 * cy + a9 * (- sy)) (a2 * cy + a10 * (- sy)) (a3 * cy + a11 * (- sy))
           a4 a5 a6 a7
           (a0 * sy + a8 * cy) (a1 * sy + a9 * cy) (a2 * sy + a10 * cy) (a3 * sy + a11 * cy)
           a12 a13 a14 a15)"

fun Mat4_rotz :: "real Mat4 \<Rightarrow> real \<Rightarrow> real Mat4" where
  "Mat4_rotz (Mat4 a0 a1 a2 a3 a4 a5 a6 a7 a8 a9 a10 a11 a12 a13 a14 a15) y =
     (let sz = sin y; cz = cos y
      in Mat4 (a0 * cz + a4 * sz) (a1 * cz + a5 * sz) (a2 * cz + a6 * sz) (a3 * cz + a7 * sz)
           (a0 * - sz + a4 * cz) (a1 * - sz + a5 * cz) (a2 * - sz + a6 * cz) (a3 * - sz + a7 * cz)
           a8 a9 a10 a11 a12 a13 a14 a15)"

definition Mat4_tomat3 :: "'a Mat4 \<Rightarrow> math_error + 'a Mat3" where
  "Mat4_tomat3 m =
     (case (Mat4_vec3 m 0, Mat4_vec3 m 1, Mat4_vec3 m 2) of
        (Inr x, Inr y, Inr z) \<Rightarrow> Inr (Mat3_ofcols x y z)
      | _ \<Rightarrow> Inl RangeCheck)"

definition mat4_u :: "real Mat4" where
  "mat4_u = Mat4_ofVec3 (Vec3 1 0 0) (Vec3 0 1 0) (Vec3 0 0 1) (Vec3 0 0 0)"

section \<open>Quat\<close>

datatype 'a Quat = Quat 'a 'a 'a 'a

fun Quat_ofVec3 :: "'a::zero Vec3 \<Rightarrow> 'a Quat" where
  "Quat_ofVec3 (Vec3 x y z) = Quat x y z 0"

fun Quat_toVec3 :: "'a Quat \<Rightarrow> 'a Vec3" where
  "Quat_toVec3 (Quat x y z w) = Vec3 x y z"

definition quat_0 :: "real Quat" where "quat_0 = Quat 0 0 0 0"
definition quat_u :: "real Quat" where "quat_u = Quat 0 0 0 1"

fun Quat_re :: "'a Quat \<Rightarrow> 'a" where "Quat_re (Quat a0 a1 a2 a3) = a3"

fun Quat_scale :: "'a::times Quat \<Rightarrow> 'a \<Rightarrow> 'a Quat" where
  "Quat_scale (Quat a0 a1 a2 a3) s = Quat (a0 * s) (a1 * s) (a2 * s) (a3 * s)"

fun Quat_scalein :: "'a::times Quat \<Rightarrow> 'a \<Rightarrow> 'a Quat" where
  "Quat_scalein (Quat a0 a1 a2 a3) s = Quat (a0 * s) (a1 * s) (a2 * s) (a3 * s)"

fun Quat_slen :: "'a::semiring Quat \<Rightarrow> 'a" where
  "Quat_slen (Quat a0 a1 a2 a3) = a0 * a0 + a1 * a1 + a2 * a2 + a3 * a3"

fun Quat_len :: "real Quat \<Rightarrow> real" where
  "Quat_len (Quat a0 a1 a2 a3) = sqrt (a0 * a0 + a1 * a1 + a2 * a2 + a3 * a3)"

fun Quat_norm :: "real Quat \<Rightarrow> real Quat" where
  "Quat_norm (Quat a0 a1 a2 a3) =
     (let s = Quat_len (Quat a0 a1 a2 a3) in Quat (a0 / s) (a1 / s) (a2 / s) (a3 / s))"

fun Quat_normin :: "real Quat \<Rightarrow> real Quat" where
  "Quat_normin (Quat a0 a1 a2 a3) =
     (let s = Quat_len (Quat a0 a1 a2 a3) in Quat (a0 / s) (a1 / s) (a2 / s) (a3 / s))"

fun Quat_mul :: "'a::ring Quat \<Rightarrow> 'a Quat \<Rightarrow> 'a Quat" where
  "Quat_mul (Quat a0 a1 a2 a3) (Quat b0 b1 b2 b3) =
     Quat (a1 * b2 - a2 * b1 + a0 * b3 + a3 * b0)
          (a2 * b0 - a0 * b2 + a1 * b3 + a3 * b1)
          (a0 * b1 - a1 * b0 + a2 * b3 + a3 * b2)
          (- a0 * b0 - a1 * b1 - a2 * b2 + a3 * b3)"

fun Quat_cnj :: "'a::uminus Quat \<Rightarrow> 'a Quat" where
  "Quat_cnj (Quat a0 a1 a2 a3) = Quat (- a0) (- a1) (- a2) a3"

definition Quat_imul :: "'a::ring Quat \<Rightarrow> 'a Quat \<Rightarrow> 'a Quat" where
  "Quat_imul p q = Quat_mul p (Quat_cnj q)"

fun Quat_sp :: "'a::semiring Quat \<Rightarrow> 'a Quat \<Rightarrow> 'a" where
  "Quat_sp (Quat a0 a1 a2 a3) (Quat b0 b1 b2 b3) = a0 * b0 + a1 * b1 + a2 * b2 + a3 * b3"

fun Quat_addin :: "'a::plus Quat \<Rightarrow> 'a Quat \<Rightarrow> 'a Quat" where
  "Quat_addin (Quat a0 a1 a2 a3) (Quat b0 b1 b2 b3) = Quat (a0 + b0) (a1 + b1) (a2 + b2) (a3 + b3)"

fun Quat_add :: "'a::plus Quat \<Rightarrow> 'a Quat \<Rightarrow> 'a Quat" where
  "Quat_add (Quat a0 a1 a2 a3) (Quat b0 b1 b2 b3) = Quat (a0 + b0) (a1 + b1) (a2 + b2) (a3 + b3)"

definition Quat_trans :: "'a::ring Quat \<Rightarrow> 'a Vec3 \<Rightarrow> 'a Vec3" where
  "Quat_trans q src =
     (let qc = Quat_cnj q; r = Quat_ofVec3 src; qr = Quat_mul q r; qret = Quat_mul qr qc
      in Quat_toVec3 qret)"

definition Quat_itrans :: "'a::ring Quat \<Rightarrow> 'a Vec3 \<Rightarrow> 'a Vec3" where
  "Quat_itrans q src = Quat_trans (Quat_cnj q) src"

definition Quat_quatrotquat :: "real Quat \<Rightarrow> real Vec3 \<Rightarrow> real Quat" where
  "Quat_quatrotquat p v =
     (let q = Quat_ofVec3 v; qr = Quat_mul q p; qr = Quat_addin qr p in Quat_norm qr)"

definition Quat_rotation :: "real \<Rightarrow> real \<Rightarrow> real \<Rightarrow> real \<Rightarrow> real Quat" where
  "Quat_rotation p sx sy sz =
     (let len = sin (p / 2) in Quat (len * sx) (len * sy) (len * sz) (cos (p / 2)))"

fun Quat_rotationv :: "real \<Rightarrow> real Vec3 \<Rightarrow> real Quat" where
  "Quat_rotationv p (Vec3 x y z) = Quat_rotation p x y z"

definition Quat_rotate :: "real Quat \<Rightarrow> real \<Rightarrow> real \<Rightarrow> real \<Rightarrow> real \<Rightarrow> real Quat" where
  "Quat_rotate q p sx sy sz = Quat_mul q (Quat_rotation p sx sy sz)"

fun Quat_rotatev :: "real Quat \<Rightarrow> real \<Rightarrow> real Vec3 \<Rightarrow> real Quat" where
  "Quat_rotatev q p (Vec3 x y z) = Quat_rotate q p x y z"

definition Quat_tomat4 :: "'a::ring_1 Quat \<Rightarrow> 'a Mat4" where
  "Quat_tomat4 q =
     Mat4_ofVec3 (Quat_trans q (Vec3 1 0 0)) (Quat_trans q (Vec3 0 1 0)) (Quat_trans q (Vec3 0 0 1))
       (Vec3 0 0 0)"

text \<open>\<open>eps\<close> is the constant \<open>sqrtepsilon()\<close> of the element type.\<close>

definition Quat_direction :: "real \<Rightarrow> real Vec3 \<Rightarrow> real Quat" where
  "Quat_direction eps dir =
     (case Vec3_norm dir of Vec3 d0 d1 d2 \<Rightarrow>
        let w = sqrt ((d2 + 1) / 2)
        in if 1 - eps < w then Quat 0 0 0 w
           else if w < eps then Quat 0 1 0 w
           else
             let v = Vec3_vp vec3_001 (Vec3 d0 d1 d2); p = sqrt (1 - w * w) / Vec3_len v
             in (case v of Vec3 v0 v1 v2 \<Rightarrow> Quat (v0 * p) (v1 * p) (v2 * p) w))"

definition Quat_slerp :: "real \<Rightarrow> real Quat \<Rightarrow> real Quat \<Rightarrow> real \<Rightarrow> real Quat" where
  "Quat_slerp eps q r t =
     (let qr = Quat_sp q r; ss = 1 - qr * qr
      in if ss \<le> eps then q
         else if q = r then q
         else
           let sp = sqrt ss; ph = arccos qr; pt = ph * t; t1 = sin pt / sp; t0 = sin (ph - pt) / sp;
               t1 = (if qr < 0 then t1 * - 1 else t1)
           in (case (q, r) of (Quat q0 q1 q2 q3, Quat r0 r1 r2 r3) \<Rightarrow>
                 Quat (q0 * t0 + r0 * t1) (q1 * t0 + r1 * t1) (q2 * t0 + r2 * t1) (q3 * t0 + r3 * t1)))"

lemma Quat_tomat4_trans: "Mat4_vp3 (Quat_tomat4 q) v = Quat_trans q v"
  for q :: "'a::comm_ring_1 Quat"
  by (cases q; cases v) (simp add: Quat_tomat4_def Quat_trans_def algebra_simps)

end
