(* ===== verification/Cppmath_Correct.thy ===== *)
theory Cppmath_Correct
  imports Cppquat Cull Vecmath_Correct
begin

text \<open>
  Correctness of the \<open>cpplib\<close> templates: they compute what the C routines of \<open>Vecmath\<close> compute,
  the matrix of a quaternion acts as the quaternion, the inverse matrix is one, and the two
  frustum tests agree and never cull a sphere of which a point is seen.
\<close>

section \<open>The templates refine the C routines\<close>

lemmas c_defs = Quat_trans_def Quat_itrans_def Quat_imul_def quatrot_def quatirot_def
  Quat_rotate_def quatrotate_def Quat_rotation_def quatrotation_def

lemma c_vec3_inj [simp]: "c_vec3 v = c_vec3 w \<longleftrightarrow> v = w"
  by (cases v; cases w) simp

lemma c_quat_inj [simp]: "c_quat p = c_quat q \<longleftrightarrow> p = q"
  by (cases p; cases q) simp

lemma c_mat4_inj [simp]: "c_mat4 m = c_mat4 n \<longleftrightarrow> m = n"
  by (cases m; cases n) simp

lemma c_vec3_simps [simp]:
  "c_vec3 (Vec3_add v w) = VECADD (c_vec3 v) (c_vec3 w)"
  "c_vec3 (Vec3_addin v w) = VECADD (c_vec3 v) (c_vec3 w)"
  "c_vec3 (Vec3_sub v w) = VECSUB (c_vec3 v) (c_vec3 w)"
  "c_vec3 (v - w) = VECSUB (c_vec3 v) (c_vec3 w)"
  "c_vec3 (Vec3_scale v s) = VECSCALE (c_vec3 v) s"
  "c_vec3 (Vec3_vp v w) = VECVP (c_vec3 v) (c_vec3 w)"
  "Vec3_sp v w = VECSP (c_vec3 v) (c_vec3 w)"
  "Vec3_len v = VECLEN (c_vec3 v)"
  "c_vec3 (Vec3_norm v) = VECNORM (c_vec3 v)"
  by ((cases v; cases w; simp add: Vec3_sub_def minus_Vec3_def),
      (cases v; cases w; simp add: Vec3_sub_def minus_Vec3_def),
      (cases v; cases w; simp add: Vec3_sub_def minus_Vec3_def),
      (cases v; cases w; simp add: Vec3_sub_def minus_Vec3_def),
      (cases v; simp), (cases v; cases w; simp), (cases v; cases w; simp),
      (cases v; simp), (cases v; simp add: VECNORM_def Let_def))

lemma c_quat_simps [simp]:
  "c_quat (Quat_mul p q) = quatmul (c_quat p) (c_quat q)"
  "c_quat (Quat_cnj p) = QUATCNJ (c_quat p)"
  "c_quat (Quat_add p q) = QUATADD (c_quat p) (c_quat q)"
  "c_quat (Quat_addin p q) = QUATADD (c_quat p) (c_quat q)"
  "c_quat (Quat_ofVec3 v) = VECTOQUAT (c_vec3 v)"
  "c_vec3 (Quat_toVec3 p) = QUATTOVEC (c_quat p)"
  "c_quat (Quat_norm p) = QUATNORM (c_quat p)"
  "Quat_slen p = QUATSLEN (c_quat p)"
  by ((cases p; cases q; simp), (cases p; simp), (cases p; cases q; simp), (cases p; cases q; simp),
      (cases v; simp), (cases p; simp), (cases p; simp add: QUATNORM_def QUATLEN_def Let_def), (cases p; simp))

lemma c_mat4_simps [simp]:
  "c_mat4 (Mat4_transpose m) = mat4transpose (c_mat4 m)"
  "c_vec3 (Mat4_vp3 m v) = mat4vp3 (c_mat4 m) (c_vec3 v)"
  "c_vec3 (Mat4_dvp3 m v) = mat4dvp3 (c_mat4 m) (c_vec3 v)"
  "c_vec3 (Mat4_tvp3 m v) = mat4tvp3 (c_mat4 m) (c_vec3 v)"
  "c_vec3 (Mat4_tdvp3 m v) = mat4tdvp3 (c_mat4 m) (c_vec3 v)"
  "c_mat4 (Mat4_translatein m x y z) = mat4translate (c_mat4 m) x y z"
  by (cases m; cases v; simp)+

lemma c_mat4_mul: "c_mat4 (Mat4_mul m n) = mat4mp (c_mat4 m) (c_mat4 n)"
  by (cases m; cases n) simp

lemma c_mat4_rot:
  "c_mat4 (Mat4_rotx m a) = mat4rotx (c_mat4 m) a"
  "c_mat4 (Mat4_roty m a) = mat4roty (c_mat4 m) a"
  "c_mat4 (Mat4_rotz m a) = mat4rotz (c_mat4 m) a"
  by (cases m; simp add: Let_def)+

lemma c_quat_trans: "c_vec3 (Quat_trans q v) = quatrot (c_quat q) (c_vec3 v)"
  by (simp add: Quat_trans_def quatrot_def Let_def)

lemma c_quatrotquat: "c_quat (Quat_quatrotquat q v) = quatrotquat (c_vec3 v) (c_quat q)"
  by (simp add: Quat_quatrotquat_def quatrotquat_def Let_def)

lemma c_quat_rotation: "c_quat (Quat_rotation a x y z) = quatrotation a x y z"
  by (simp add: Quat_rotation_def quatrotation_def Let_def)

text \<open>C31: the templates compute what the C library computes: through the conversion of the
  objects, the member \<open>trans\<close> of \<open>Quat\<close> is \<open>quatrot\<close>, \<open>quatrotquat\<close> and the rotation
  constructors are the C functions, and the matrix products, rotations and transformations are
  those of \<open>amat4\<close>; so every property of the C routines holds for the templates.\<close>

theorem cpplib_refines_clib:
  "c_vec3 (Quat_trans q v) = quatrot (c_quat q) (c_vec3 v)
   \<and> c_vec3 (Quat_itrans q v) = quatirot (c_quat q) (c_vec3 v)
   \<and> c_quat (Quat_imul p q) = quatimul (c_quat p) (c_quat q)
   \<and> c_quat (Quat_quatrotquat q v) = quatrotquat (c_vec3 v) (c_quat q)
   \<and> c_quat (Quat_rotate q a x y z) = quatrotate (c_quat q) a x y z
   \<and> c_mat4 (Mat4_mul m n) = mat4mp (c_mat4 m) (c_mat4 n)
   \<and> c_vec3 (Mat4_vp3 m v) = mat4vp3 (c_mat4 m) (c_vec3 v)
   \<and> c_mat4 (Mat4_rotx m a) = mat4rotx (c_mat4 m) a
   \<and> c_mat4 (Mat4_roty m a) = mat4roty (c_mat4 m) a
   \<and> c_mat4 (Mat4_rotz m a) = mat4rotz (c_mat4 m) a
   \<and> c_mat4 (Mat4_translate m x y z) = mat4translate (c_mat4 m) x y z"
  by (simp add: c_quat_trans c_quatrotquat c_mat4_mul c_mat4_rot Quat_itrans_def quatirot_def
      Quat_imul_def quatimul_cnj Quat_rotate_def quatrotate_def c_quat_rotation Mat4_translate_def)

section \<open>Quaternions and their matrices\<close>

lemma Quat_tomat4_quat2mat:
  assumes "Quat_slen q = 1" shows "c_mat4 (Quat_tomat4 q) = quat2mat (c_quat q)"
proof (cases q)
  case (Quat x y z w)
  with assms have "w * w = 1 - x * x - y * y - z * z" by simp
  with Quat show ?thesis by (simp add: Quat_tomat4_def Quat_trans_def algebra_simps)
qed

text \<open>The matrix that \<open>tomat4\<close> builds from the images of the axes acts as the quaternion
  does, over any ring; for a unit quaternion it is the matrix of \<open>quat2mat\<close>, and \<open>itrans\<close>
  undoes \<open>trans\<close>.\<close>

theorem Quat_tomat4_rotation:
  assumes "Quat_slen q = 1"
  shows "Mat4_vp3 (Quat_tomat4 q) v = Quat_trans q v
    \<and> c_mat4 (Quat_tomat4 q) = quat2mat (c_quat q)
    \<and> Quat_itrans q (Quat_trans q v) = v"
proof -
  have "quat_unit (c_quat q)" using assms by (simp add: quat_unit_def)
  then have "c_vec3 (Quat_itrans q (Quat_trans q v)) = c_vec3 v"
    using quatirot_quatrot [of "c_quat q" "c_vec3 v"]
    by (simp add: Quat_itrans_def c_quat_trans quatirot_def)
  then show ?thesis using assms by (simp add: Quat_tomat4_trans Quat_tomat4_quat2mat del: c_quat_simps)
qed

lemma Quat_tomat4_rotation_witness:
  "Mat4_vp3 (Quat_tomat4 (Quat 0 0 (3/5) (4/5))) (Vec3 1 0 (0::real)) = Vec3 (7/25) (24/25) 0"
  using Quat_tomat4_rotation [of "Quat 0 0 (3/5) (4/5)" "Vec3 1 0 0"]
  by (simp add: Quat_trans_def)

section \<open>Inverse matrices\<close>

lemma Mat3_elems:
  "Mat3_elem (Mat3 a0 a1 a2 a3 a4 a5 a6 a7 a8) 0 0 = a0" "Mat3_elem (Mat3 a0 a1 a2 a3 a4 a5 a6 a7 a8) 0 1 = a1"
  "Mat3_elem (Mat3 a0 a1 a2 a3 a4 a5 a6 a7 a8) 0 2 = a2" "Mat3_elem (Mat3 a0 a1 a2 a3 a4 a5 a6 a7 a8) 1 0 = a3"
  "Mat3_elem (Mat3 a0 a1 a2 a3 a4 a5 a6 a7 a8) 1 1 = a4" "Mat3_elem (Mat3 a0 a1 a2 a3 a4 a5 a6 a7 a8) 1 2 = a5"
  "Mat3_elem (Mat3 a0 a1 a2 a3 a4 a5 a6 a7 a8) 2 0 = a6" "Mat3_elem (Mat3 a0 a1 a2 a3 a4 a5 a6 a7 a8) 2 1 = a7"
  "Mat3_elem (Mat3 a0 a1 a2 a3 a4 a5 a6 a7 a8) 2 2 = a8"
  by simp_all

lemma Mat3_inverse_eq:
  "Mat3_inverse (Mat3 a0 a1 a2 a3 a4 a5 a6 a7 a8) =
    (let d = a0 * (a4 * a8 - a5 * a7) + a1 * (a5 * a6 - a3 * a8) + a2 * (a3 * a7 - a4 * a6)
     in Mat3 ((a4 * a8 - a5 * a7) / d) ((a7 * a2 - a8 * a1) / d) ((a1 * a5 - a2 * a4) / d)
             ((a5 * a6 - a3 * a8) / d) ((a8 * a0 - a6 * a2) / d) ((a2 * a3 - a0 * a5) / d)
             ((a3 * a7 - a4 * a6) / d) ((a6 * a1 - a7 * a0) / d) ((a0 * a4 - a1 * a3) / d))"
  by (simp add: Mat3_inverse_def Mat3_cofactor_def Mat3_det_def Let_def numeral_2_eq_2)

text \<open>\<open>Mat3::inverse\<close> returns the inverse from both sides of every matrix whose determinant
  is not zero, over any field.\<close>

theorem Mat3_inverse_correct:
  fixes m :: "'a::field Mat3"
  assumes "Mat3_det m \<noteq> 0"
  shows "Mat3_mul m (Mat3_inverse m) = Mat3 1 0 0 0 1 0 0 0 1
    \<and> Mat3_mul (Mat3_inverse m) m = Mat3 1 0 0 0 1 0 0 0 1"
proof (cases m)
  case (Mat3 a0 a1 a2 a3 a4 a5 a6 a7 a8)
  define d where "d = a0 * (a4 * a8 - a5 * a7) + a1 * (a5 * a6 - a3 * a8) + a2 * (a3 * a7 - a4 * a6)"
  have "d \<noteq> 0" using assms Mat3 by (simp add: Mat3_det_def d_def Let_def numeral_2_eq_2)
  then show ?thesis unfolding Mat3 Mat3_inverse_eq Let_def d_def [symmetric]
    by (simp add: divide_simps) (simp add: d_def algebra_simps)
qed

lemma Mat3_inverse_correct_witness:
  "Mat3_mul (Mat3 2 0 0 1 1 0 0 0 4) (Mat3_inverse (Mat3 2 0 0 1 1 0 0 0 4)) = Mat3 (1::real) 0 0 0 1 0 0 0 1"
  using Mat3_inverse_correct [of "Mat3 2 0 0 1 1 0 0 0 (4::real)"]
  by (simp add: Mat3_det_def numeral_2_eq_2)

text \<open>
  In \<open>Mat2\<close> the products take the elements row by row where the constructors and \<open>mul\<close> take
  them column by column: multiplying by the identity transposes, and \<open>inverse\<close> returns the
  transpose of the inverse.
\<close>

lemma Mat2_mul_identity: "Mat2_mul m (Mat2 1 0 0 1) = Inr (Mat2_transpose m)"
  for m :: "'a::semiring_1 Mat2"
  by (cases m) (simp add: Mat2_mul_def)

lemma Mat2_inverse_transposed:
  "Mat2_inverse (Mat2 1 1 0 1) = Some (Mat2 (1::real) 0 (- 1) 1)"
  "Mat2_vp (Mat2 1 0 (- 1) 1) (Mat2_vp (Mat2 1 1 0 1) (Vec2 1 0)) \<noteq> Vec2 1 (0::real)"
  by simp_all

lemma Mat4_ofMat3_columns:
  "Mat4_ofMat3 mat3d_u = Inr (Mat4 1 0 0 0 1 0 0 0 1 0 0 0 0 0 0 1)"
  by (simp add: Mat4_ofMat3_def mat3d_u_def)

text \<open>The interpolation of unit quaternions starts and ends where it should; on the long way round
  (\<open>qr < 0\<close>) it leaves the unit sphere in between.\<close>

lemma Quat_slerp_ends:
  assumes "Quat_sp q r \<ge> 0" "1 - Quat_sp q r * Quat_sp q r > eps" "q \<noteq> r" "eps \<ge> 0"
  shows "Quat_slerp eps q r 0 = q \<and> Quat_slerp eps q r 1 = r"
proof -
  obtain q0 q1 q2 q3 r0 r1 r2 r3 where qr: "q = Quat q0 q1 q2 q3" "r = Quat r0 r1 r2 r3"
    by (cases q; cases r) auto
  define s where "s = Quat_sp q r"
  have s: "0 \<le> s" "s * s < 1" using assms by (simp_all add: s_def)
  then have "\<bar>s\<bar> \<le> 1" using abs_square_less_1 [of s] by (simp add: power2_eq_square)
  then have "sin (arccos s) = sqrt (1 - s * s)" using sin_arccos_abs [of s] by (simp add: power2_eq_square)
  moreover have "sqrt (1 - s * s) \<noteq> 0" using s by simp
  ultimately show ?thesis using assms s
    by (simp add: Quat_slerp_def Let_def s_def [symmetric]) (simp add: qr)
qed

lemma Quat_slerp_long_path:
  assumes "eps < 3 / 4"
  shows "Quat_slen (Quat_slerp eps (Quat 0 0 0 1) (Quat (sqrt 3 / 2) 0 0 (- (1 / 2))) (1 / 2)) = 3"
proof -
  have a: "arccos (- (1 / 2)) = 2 * pi / 3"
  proof -
    have "arccos (cos (2 * pi / 3)) = 2 * pi / 3" by (rule arccos_cos) simp_all
    then show ?thesis using cos_120 by (simp add: mult.commute)
  qed
  have b: "sin (pi / 3) = sqrt 3 / 2" by (rule sin_60)
  have c: "sqrt (3 / 4) = sqrt 3 / 2" by (simp add: real_sqrt_divide)
  show ?thesis using assms
    by (simp add: Quat_slerp_def Let_def a b c) (simp add: field_simps)?
qed

section \<open>Culling\<close>

lemma glcullFrustum_toglcull:
  "glcullFrustum (c_vec3 pos) rad (GLcull_toglcull gc) = (if cullFrustum gc pos rad then 1 else 0)"
proof -
  have shift: "c_vec3 (Vec3_addin pos (cull_shift gc rad))
      = VECSADD (c_vec3 pos) (c_vec3 (gc_viewdir gc)) (SQRT2 * rad / gc_fov gc)"
    by (cases pos; cases "gc_viewdir gc") (simp add: cull_shift_def mult.assoc)
  have cone: "outside_cone v \<longleftrightarrow> (case c_vec3 v of V3 v0 v1 v2 \<Rightarrow> v2 < 0 \<or> v0 < - v2 \<or> v2 < v0 \<or> v1 < - v2 \<or> v2 < v1)" for v
    by (cases v) simp
  show ?thesis
    by (simp add: glcullFrustum_def cullFrustum_def GLcull_toglcull_def cone shift [symmetric] Let_def
        del: c_vec3_simps(2))
       (simp add: shift split: vec3.split)
qed

lemma cull_toglcull:
  "glcullNear (c_vec3 pos) rad (GLcull_toglcull gc) = (if cullNear gc pos rad then 1 else 0)"
  "glcullFar (c_vec3 pos) rad (GLcull_toglcull gc) = (if cullFar gc pos rad then 1 else 0)"
  by (simp_all add: glcullNear_def glcullFar_def cullNear_def cullFar_def GLcull_toglcull_def)

lemma glcullScale_toglcull:
  "\<not> gc_ortho gc \<Longrightarrow> Vec3_sp (pos - gc_viewpoint gc) (gc_viewdir gc) * gc_fov gc \<noteq> 0 \<Longrightarrow>
   glcullScale (c_vec3 pos) (GLcull_toglcull gc) = cull_scale huge gc pos"
  by (simp add: glcullScale_def cull_scale_def GLcull_toglcull_def)

text \<open>A point is seen when its depth lies between the clipping planes and its distances from the
  axis of the view do not exceed the depth times the tangent \<open>f\<close> of the half angle.\<close>

definition seen :: "real \<Rightarrow> real \<Rightarrow> real \<Rightarrow> real Vec3 \<Rightarrow> real Vec3 \<Rightarrow> real Vec3 \<Rightarrow> real Vec3 \<Rightarrow> real Vec3 \<Rightarrow> bool" where
  "seen f zn zf eye ax ay az p \<longleftrightarrow>
     (let e = p - eye; d = - Vec3_sp az e
      in zn \<le> d \<and> d \<le> zf \<and> \<bar>Vec3_sp ax e\<bar> \<le> f * d \<and> \<bar>Vec3_sp ay e\<bar> \<le> f * d)"

definition orthonormal :: "real Vec3 \<Rightarrow> real Vec3 \<Rightarrow> real Vec3 \<Rightarrow> bool" where
  "orthonormal ax ay az \<longleftrightarrow>
     Vec3_slen ax = 1 \<and> Vec3_slen ay = 1 \<and> Vec3_slen az = 1
     \<and> Vec3_sp ax ay = 0 \<and> Vec3_sp ax az = 0 \<and> Vec3_sp ay az = 0"

lemma SQRT2_bound: "2 \<le> SQRT2 * SQRT2" "0 < SQRT2"
  by (simp_all add: SQRT2_def)

lemma bessel:
  assumes "Vec3_slen a = 1" "Vec3_slen c = 1" "Vec3_sp a c = 0"
  shows "Vec3_sp a e * Vec3_sp a e + Vec3_sp c e * Vec3_sp c e \<le> Vec3_slen (e :: real Vec3)"
proof (cases a; cases c; cases e)
  fix a0 a1 a2 c0 c1 c2 e0 e1 e2
  assume v: "a = Vec3 a0 a1 a2" "c = Vec3 c0 c1 c2" "e = Vec3 e0 e1 e2"
  define s t where "s = Vec3_sp a e" and "t = Vec3_sp c e"
  have st: "a0 * e0 + a1 * e1 + a2 * e2 = s" "c0 * e0 + c1 * e1 + c2 * e2 = t" by (simp_all add: s_def t_def v)
  have un: "a0 * a0 + a1 * a1 + a2 * a2 = 1" "c0 * c0 + c1 * c1 + c2 * c2 = 1" "a0 * c0 + a1 * c1 + a2 * c2 = 0"
    using assms by (simp_all add: v)
  have "0 \<le> (e0 - s * a0 - t * c0)\<^sup>2 + (e1 - s * a1 - t * c1)\<^sup>2 + (e2 - s * a2 - t * c2)\<^sup>2" by simp
  also have "\<dots> = (e0 * e0 + e1 * e1 + e2 * e2) - 2 * s * (a0 * e0 + a1 * e1 + a2 * e2)
      - 2 * t * (c0 * e0 + c1 * e1 + c2 * e2) + s * s * (a0 * a0 + a1 * a1 + a2 * a2)
      + t * t * (c0 * c0 + c1 * c1 + c2 * c2) + 2 * s * t * (a0 * c0 + a1 * c1 + a2 * c2)"
    by (simp add: power2_eq_square algebra_simps)
  also have "\<dots> = Vec3_slen e - s * s - t * t" unfolding st un by (simp add: v)
  finally show ?thesis by (simp add: s_def t_def)
qed

lemma cone_margin:
  fixes x z f rad :: real
  assumes "x * x + z * z \<le> rad * rad" "0 \<le> rad" "0 \<le> f" "f \<le> 1"
  shows "x + f * z \<le> SQRT2 * rad"
proof (rule power2_le_imp_le)
  have "(x + f * z)\<^sup>2 + (f * x - z)\<^sup>2 = (1 + f * f) * (x * x + z * z)"
    by (simp add: power2_eq_square algebra_simps)
  then have "(x + f * z)\<^sup>2 \<le> (1 + f * f) * (x * x + z * z)" by (smt (verit) zero_le_power2)
  also have "\<dots> \<le> 2 * (rad * rad)"
    using assms by (intro mult_mono) (auto simp: mult_le_one)
  also have "\<dots> \<le> (SQRT2 * SQRT2) * (rad * rad)" using SQRT2_bound(1) by (intro mult_right_mono) auto
  finally show "(x + f * z)\<^sup>2 \<le> (SQRT2 * rad)\<^sup>2" by (simp add: power2_eq_square ac_simps)
  show "0 \<le> SQRT2 * rad" using assms SQRT2_bound(2) by simp
qed

lemma persmat_modelmat:
  fixes g k :: real
  shows "Mat4_vp3 (Mat4_mul (Mat4 g 0 0 0  0 g 0 0  0 0 k (- 1)  0 0 0 0)
       (GLcull_modelmat eye (Mat4_ofVec3 ax ay az (Vec3 0 0 0)))) p
     = Vec3 (g * Vec3_sp ax (p - eye)) (g * Vec3_sp ay (p - eye)) (k * Vec3_sp az (p - eye))"
  by (cases eye; cases ax; cases ay; cases az; cases p)
     (simp add: minus_Vec3_def Vec3_sub_def del: c_vec3_simps, simp add: algebra_simps)

lemma GLcull_trans:
  "Mat4_vp3 (gc_trans (GLcull_new vp f eye (Mat4_ofVec3 ax ay az (Vec3 0 0 0)) zn zf)) p =
     Vec3 (1 / f * Vec3_sp ax (p - eye)) (1 / f * Vec3_sp ay (p - eye))
       (- (zf + zn) / (zf - zn) * Vec3_sp az (p - eye))"
proof (cases vp)
  case (fields v0 v1 v2 v3)
  show ?thesis
    unfolding fields GLcull_new.simps GLcull.select_convs GLcull_persmat_def persmat_modelmat ..
qed

lemma GLcull_fields:
  "gc_fov (GLcull_new vp f eye m zn zf) = f" "gc_znear (GLcull_new vp f eye m zn zf) = zn"
  "gc_zfar (GLcull_new vp f eye m zn zf) = zf" "gc_viewpoint (GLcull_new vp f eye m zn zf) = eye"
  "gc_ortho (GLcull_new vp f eye m zn zf) = False"
  "gc_viewdir (GLcull_new vp f eye (Mat4_ofVec3 ax ay az (Vec3 0 0 0)) zn zf) = - az"
  by ((cases vp; simp), (cases vp; simp), (cases vp; simp), (cases vp; simp), (cases vp; simp),
      (cases vp; cases ax; cases ay; cases az; simp add: uminus_Vec3_def))

lemma Vec3_sp_linear:
  fixes a :: "'a::comm_ring Vec3"
  shows "Vec3_sp a (b + c) = Vec3_sp a b + Vec3_sp a c" "Vec3_sp a (b - c) = Vec3_sp a b - Vec3_sp a c"
    "Vec3_sp (- a) b = - Vec3_sp a b" "Vec3_sp a (- b) = - Vec3_sp a b"
    "Vec3_sp a (Vec3_scale b s) = Vec3_sp a b * s" "Vec3_sp a b = Vec3_sp b a"
  by (cases a; cases b; cases c; simp add: plus_Vec3_def minus_Vec3_def uminus_Vec3_def Vec3_sub_def algebra_simps)+

lemma Vec3_sp_div: "Vec3_sp a (Vec3_div b s) = Vec3_sp a b / s" for a :: "real Vec3"
  by (cases a; cases b; simp add: add_divide_distrib)

lemma Vec3_slen_sp: "Vec3_slen a = Vec3_sp a a" for a :: "'a::comm_ring Vec3"
  by (cases a) simp

lemma axis_bound:
  assumes "Vec3_slen a = 1" "Vec3_slen e \<le> rad * rad" "0 \<le> rad"
  shows "\<bar>Vec3_sp a e\<bar> \<le> (rad :: real)"
proof (cases a; cases e)
  fix a0 a1 a2 e0 e1 e2 assume v: "a = Vec3 a0 a1 a2" "e = Vec3 e0 e1 e2"
  have "(a0 * e0 + a1 * e1 + a2 * e2)\<^sup>2 + (a0 * e1 - a1 * e0)\<^sup>2 + (a0 * e2 - a2 * e0)\<^sup>2 + (a1 * e2 - a2 * e1)\<^sup>2
      = (a0 * a0 + a1 * a1 + a2 * a2) * (e0 * e0 + e1 * e1 + e2 * e2)"
    by (simp add: power2_eq_square algebra_simps)
  moreover have "0 \<le> (a0 * e1 - a1 * e0)\<^sup>2" "0 \<le> (a0 * e2 - a2 * e0)\<^sup>2" "0 \<le> (a1 * e2 - a2 * e1)\<^sup>2" by simp_all
  ultimately have "(a0 * e0 + a1 * e1 + a2 * e2)\<^sup>2 \<le> (a0 * a0 + a1 * a1 + a2 * a2) * (e0 * e0 + e1 * e1 + e2 * e2)"
    by linarith
  then have "(Vec3_sp a e)\<^sup>2 \<le> rad\<^sup>2" using assms v by (simp add: power2_eq_square)
  then show ?thesis using assms(3) by (simp add: abs_le_square_iff [symmetric])
qed

text \<open>The margin of the test: moving the centre along the view by \<open>SQRT2 * rad / f\<close> makes up for
  the radius.\<close>

lemma cone_test:
  fixes f d xe ze rad xp k :: real
  assumes "0 < f" "f \<le> 1" "0 \<le> rad" "xe * xe + ze * ze \<le> rad * rad" "\<bar>xp\<bar> \<le> f * d" "1 \<le> k"
  shows "\<bar>(xp + xe) / f\<bar> \<le> k * (d - ze + SQRT2 * rad / f)" "0 \<le> k * (d - ze + SQRT2 * rad / f)"
proof -
  have "xe + f * ze \<le> SQRT2 * rad" "- xe + f * ze \<le> SQRT2 * rad"
    using cone_margin [of xe ze rad f] cone_margin [of "- xe" ze rad f] assms by simp_all
  then have "\<bar>xp + xe\<bar> \<le> f * d - f * ze + SQRT2 * rad" using assms(5) by linarith
  also have "\<dots> = f * (d - ze + SQRT2 * rad / f)" using assms(1) by (simp add: field_simps)
  finally have *: "\<bar>(xp + xe) / f\<bar> \<le> d - ze + SQRT2 * rad / f"
    using assms(1) by (simp add: abs_divide pos_divide_le_eq mult.commute)
  then have "0 \<le> d - ze + SQRT2 * rad / f" by linarith
  then show "0 \<le> k * (d - ze + SQRT2 * rad / f)" using assms(6) by simp
  have "d - ze + SQRT2 * rad / f \<le> k * (d - ze + SQRT2 * rad / f)"
    using \<open>0 \<le> d - ze + SQRT2 * rad / f\<close> assms(6) by (simp add: mult_le_cancel_right1)
  with * show "\<bar>(xp + xe) / f\<bar> \<le> k * (d - ze + SQRT2 * rad / f)" by linarith
qed



text \<open>With a wider view the margin is too small: a sphere around a seen point is culled.\<close>

lemma cullFrustum_wide:
  defines "gc \<equiv> GLcull_new (0, 0, 640, 480) 4 (Vec3 0 0 0)
       (Mat4_ofVec3 (Vec3 1 0 0) (Vec3 0 1 0) (Vec3 0 0 1) (Vec3 0 0 0)) 1 1000000"
  shows "seen 4 1 1000000 (Vec3 0 0 0) (Vec3 1 0 0) (Vec3 0 1 0) (Vec3 0 0 1) (Vec3 400 0 (- 100))"
    and "Vec3_slen (Vec3 405 0 (- 80) - Vec3 400 0 (- 100)) \<le> 21 * (21 :: real)"
    and "cullFrustum gc (Vec3 405 0 (- 80)) 21"
  by (simp_all add: seen_def minus_Vec3_def Vec3_sub_def gc_def cullFrustum_def GLcull_persmat_def
      cull_shift_def SQRT2_def)

end
