(* ===== verification/Pool.thy ===== *)
theory Pool
  imports Complex_Main Prelude
begin

text \<open>
  Lists of nodes inside of arrays, as the temporary entities keep them
  (\<open>src/teline3d.cpp\<close>, \<open>src/tefpol3d.cpp\<close>): every node has a \<open>next\<close> pointer, a pool is the
  list of its free nodes and the list of its active nodes, and an object lives in each active
  node.  A node is its number in the order of allocation; \<open>None\<close> is the null pointer.  The
  \<open>next\<close> pointers are a list, read and written through the checked accesses of \<open>Prelude\<close>.  The
  theory has the pool, the steps that both kinds of entities take on it, the heap predicate for
  linked lists, and the interface \<open>entity_pool\<close> that the two kinds provide.
\<close>

type_synonym ptr = "nat option"

section \<open>Linked lists\<close>

text \<open>\<open>path h p xs q\<close>: following \<open>next\<close> from \<open>p\<close> visits the nodes \<open>xs\<close> and arrives at \<open>q\<close>.\<close>

fun path :: "ptr list \<Rightarrow> ptr \<Rightarrow> nat list \<Rightarrow> ptr \<Rightarrow> bool" where
  "path h p [] q \<longleftrightarrow> p = q"
| "path h p (x # xs) q \<longleftrightarrow> p = Some x \<and> x < length h \<and> path h (h ! x) xs q"

abbreviation chain :: "ptr list \<Rightarrow> ptr \<Rightarrow> nat list \<Rightarrow> bool" where
  "chain h p xs \<equiv> path h p xs None"

named_theorems chain_simps "facts on linked lists"

lemma path_append [chain_simps]:
  "path h p (xs @ ys) q \<longleftrightarrow> (\<exists>r. path h p xs r \<and> path h r ys q)"
  by (induction xs arbitrary: p) auto

lemma path_snoc [chain_simps]: "path h p (xs @ [x]) q \<longleftrightarrow> path h p xs (Some x) \<and> x < length h \<and> h ! x = q"
  by (auto simp: path_append)

lemma path_update [chain_simps]: "x \<notin> set xs \<Longrightarrow> path (h[x := r]) p xs q = path h p xs q"
  by (induction xs arbitrary: p) auto

lemma path_grow: "path h p xs q \<Longrightarrow> path (h @ h') p xs q"
  by (induction xs arbitrary: p) (auto simp: nth_append)

lemma chain_None [chain_simps]: "chain h None xs \<longleftrightarrow> xs = []"
  by (cases xs) auto

lemma chain_Some [chain_simps]: "chain h (Some x) xs \<longleftrightarrow> (\<exists>ys. xs = x # ys \<and> x < length h \<and> chain h (h ! x) ys)"
  by (cases xs) auto

lemma chain_inside: "path h p xs q \<Longrightarrow> set xs \<subseteq> {..<length h}"
  by (induction xs arbitrary: p) auto

lemma chain_unique: "chain h p xs \<Longrightarrow> chain h p ys \<Longrightarrow> xs = ys"
  by (induction xs arbitrary: p ys) (auto simp: chain_simps)

lemma chain_Nil_iff: "chain h p xs \<Longrightarrow> xs = [] \<longleftrightarrow> p = None"
  by (cases xs) auto

lemma path_last: "path h p xs q \<Longrightarrow> xs \<noteq> [] \<Longrightarrow> h ! last xs = q"
  by (induction xs arbitrary: p) (auto split: if_splits)

text \<open>Redirecting the last node of a list joins it to another.\<close>

lemma path_redirect:
  "path h p xs q \<Longrightarrow> xs \<noteq> [] \<Longrightarrow> distinct xs \<Longrightarrow> path (h[last xs := r]) p xs r"
proof (induction xs arbitrary: p)
  case (Cons x xs)
  show ?case
  proof (cases xs)
    case Nil with Cons.prems show ?thesis by auto
  next
    case (Cons y ys)
    then have "last xs \<noteq> x" using Cons.prems(3) last_in_set [of xs] by auto
    with Cons Cons.prems Cons.IH [of "h ! x"] show ?thesis by auto
  qed
qed simp

text \<open>A block of nodes linked one after the other.\<close>

lemma path_block:
  "(\<And>i. a \<le> i \<Longrightarrow> i < b \<Longrightarrow> h ! i = (if Suc i < b then Some (Suc i) else None)) \<Longrightarrow>
   b \<le> length h \<Longrightarrow> a < b \<Longrightarrow> chain h (Some a) [a..<b]"
proof (induction "b - a" arbitrary: a)
  case (Suc n)
  show ?case
  proof (cases "Suc a < b")
    case True
    with Suc.prems have "chain h (Some (Suc a)) [Suc a..<b]" by (intro Suc.hyps(1)) (use Suc.hyps(2) in auto)
    with True Suc.prems Suc.prems(1) [of a] show ?thesis by (simp add: upt_conv_Cons)
  next
    case False
    with Suc.prems have "b = Suc a" by simp
    with Suc.prems Suc.prems(1) [of a] show ?thesis by simp
  qed
qed simp

section \<open>The pool\<close>

record 'obj pool =
  pl_next :: "ptr list"
  pl_buf :: "'obj option list"
  pl_lfree :: ptr
  pl_lactv :: ptr
  pl_last :: ptr

text \<open>The lists of a pool: its nodes are the free ones and the active ones, each once; the active
  ones hold an object, and \<open>last\<close> is the last of them.\<close>

definition pool_lists :: "('obj, 'm) pool_scheme \<Rightarrow> nat list \<Rightarrow> nat list \<Rightarrow> bool" where
  "pool_lists s ac fr \<longleftrightarrow>
     chain (pl_next s) (pl_lactv s) ac \<and> chain (pl_next s) (pl_lfree s) fr
     \<and> distinct (ac @ fr) \<and> set (ac @ fr) = {..<length (pl_next s)}
     \<and> length (pl_buf s) = length (pl_next s)
     \<and> (ac \<noteq> [] \<longrightarrow> pl_last s = Some (last ac))
     \<and> (\<forall>x \<in> set ac. pl_buf s ! x \<noteq> None)"

text \<open>A field a link is stored in: the head of the active list, or the \<open>next\<close> of a node.\<close>

datatype link = Head | Next nat

fun link_get :: "('obj, 'm) pool_scheme \<Rightarrow> link \<Rightarrow> ptr option" where
  "link_get s Head = Some (pl_lactv s)"
| "link_get s (Next x) = aread (pl_next s) x"

fun link_set :: "('obj, 'm) pool_scheme \<Rightarrow> link \<Rightarrow> ptr \<Rightarrow> ('obj, 'm) pool_scheme option" where
  "link_set s Head p = Some (s\<lparr>pl_lactv := p\<rparr>)"
| "link_set s (Next x) p = do { h \<leftarrow> awrite (pl_next s) x p; Some (s\<lparr>pl_next := h\<rparr>) }"

text \<open>Taking a node from the free list to the head of the active list.\<close>

definition pool_pop :: "('obj, 'm) pool_scheme \<Rightarrow> nat \<Rightarrow> ('obj, 'm) pool_scheme option" where
  "pool_pop s pl = do {
     nx \<leftarrow> aread (pl_next s) pl;
     h \<leftarrow> awrite (pl_next s) pl (pl_lactv s);
     Some (s\<lparr>pl_lfree := nx, pl_next := h, pl_lactv := Some pl,
             pl_last := (if pl_lactv s = None then Some pl else pl_last s)\<rparr>) }"

text \<open>Appending a new block of \<open>n\<close> linked nodes, which becomes the free list.\<close>

definition pool_extend :: "('obj, 'm) pool_scheme \<Rightarrow> nat \<Rightarrow> ('obj, 'm) pool_scheme" where
  "pool_extend s n =
     (let k = length (pl_next s)
      in s\<lparr>pl_next := pl_next s @ map (\<lambda>i. Some (k + i + 1)) [0..<n - 1] @ [None],
           pl_buf := pl_buf s @ replicate n None, pl_lfree := Some k\<rparr>)"

text \<open>
  Taking the node \<open>pl\<close>, to which the field \<open>ppl\<close> points, out of the active list: it becomes
  the head of the free list, and \<open>last\<close> steps back when it was the last.
\<close>

definition pool_unlink :: "('obj, 'm) pool_scheme \<Rightarrow> nat \<Rightarrow> link \<Rightarrow> (ptr \<times> ('obj, 'm) pool_scheme) option" where
  "pool_unlink s pl ppl = do {
     here \<leftarrow> link_get s ppl;
     let s = (if pl_last s = Some pl \<and> here \<noteq> pl_lactv s
              then (case ppl of Head \<Rightarrow> s | Next x \<Rightarrow> s\<lparr>pl_last := Some x\<rparr>) else s);
     pl2 \<leftarrow> aread (pl_next s) pl;
     s \<leftarrow> link_set s ppl pl2;
     h \<leftarrow> awrite (pl_next s) pl (pl_lfree s);
     Some (pl2, s\<lparr>pl_next := h, pl_lfree := Some pl\<rparr>) }"

text \<open>The same for a node whose object is destroyed first.\<close>

definition pool_remove :: "('obj, 'm) pool_scheme \<Rightarrow> nat \<Rightarrow> link \<Rightarrow> (ptr \<times> ('obj, 'm) pool_scheme) option" where
  "pool_remove s pl ppl = do {
     b \<leftarrow> awrite (pl_buf s) pl None;
     pool_unlink (s\<lparr>pl_buf := b\<rparr>) pl ppl }"

text \<open>Moving the node \<open>pl\<close>, to which the field \<open>ppl\<close> points, to the end of the active list.\<close>

definition pool_to_end :: "('obj, 'm) pool_scheme \<Rightarrow> nat \<Rightarrow> link \<Rightarrow> ('obj, 'm) pool_scheme option" where
  "pool_to_end s pl ppl = do {
     l \<leftarrow> pl_last s;
     h \<leftarrow> awrite (pl_next s) l (Some pl);
     let s = s\<lparr>pl_next := h, pl_last := Some pl\<rparr>;
     nx \<leftarrow> aread (pl_next s) pl;
     s \<leftarrow> link_set s ppl nx;
     h \<leftarrow> awrite (pl_next s) pl None;
     Some (s\<lparr>pl_next := h\<rparr>) }"

definition pool_put :: "('obj, 'm) pool_scheme \<Rightarrow> nat \<Rightarrow> 'obj \<Rightarrow> ('obj, 'm) pool_scheme option" where
  "pool_put s pl x = do { b \<leftarrow> awrite (pl_buf s) pl (Some x); Some (s\<lparr>pl_buf := b\<rparr>) }"

definition pool_object :: "('obj, 'm) pool_scheme \<Rightarrow> nat \<Rightarrow> 'obj option" where
  "pool_object s pl = do { x \<leftarrow> aread (pl_buf s) pl; x }"

section \<open>What the steps do to the lists\<close>

lemma pool_lists_unique:
  "pool_lists s ac fr \<Longrightarrow> pool_lists s ac' fr' \<Longrightarrow> ac' = ac \<and> fr' = fr"
  by (auto simp: pool_lists_def dest: chain_unique)

lemma pool_lists_length: "pool_lists s ac fr \<Longrightarrow> length ac + length fr = length (pl_next s)"
  unfolding pool_lists_def by (metis card_lessThan distinct_card length_append)

lemma pool_put_free:
  assumes "pool_lists s ac (x # fr)"
  shows "\<exists>s'. pool_put s x ob = Some s' \<and> pool_lists s' ac (x # fr)
     \<and> pl_buf s' = (pl_buf s)[x := Some ob] \<and> s' = s\<lparr>pl_buf := pl_buf s'\<rparr>"
  using assms by (auto simp: pool_lists_def pool_put_def mem_simps nth_list_update)

lemma pool_put_active:
  assumes "pool_lists s ac fr" "x \<in> set ac"
  shows "\<exists>s'. pool_put s x ob = Some s' \<and> pool_lists s' ac fr
     \<and> pl_buf s' = (pl_buf s)[x := Some ob] \<and> s' = s\<lparr>pl_buf := pl_buf s'\<rparr>"
proof -
  have "x < length (pl_buf s)" using assms chain_inside by (force simp: pool_lists_def)
  with assms show ?thesis by (auto simp: pool_lists_def pool_put_def mem_simps nth_list_update)
qed

text \<open>After a pop the node is active, and its object is still to be constructed.\<close>

lemma pool_pop_put:
  assumes "pool_lists s ac (x # fr)"
  shows "\<exists>s' s''. pool_pop s x = Some s' \<and> pool_put s' x ob = Some s'' \<and> pool_lists s'' (x # ac) fr
     \<and> pl_buf s'' = (pl_buf s)[x := Some ob] \<and> pl_buf s' = pl_buf s"
proof -
  have x: "x < length (pl_next s)" "x \<notin> set ac" "x \<notin> set fr" and len: "length (pl_buf s) = length (pl_next s)"
    using assms by (auto simp: pool_lists_def)
  then show ?thesis using assms
    by (auto simp: pool_lists_def pool_pop_def pool_put_def mem_simps chain_simps nth_list_update
        simp flip: chain_Nil_iff)
qed

lemma pool_extend_lists:
  assumes "pool_lists s ac []" "0 < n"
  shows "pool_lists (pool_extend s n) ac [length (pl_next s)..<length (pl_next s) + n]"
proof -
  define k h where "k = length (pl_next s)" and "h = pl_next s @ map (\<lambda>i. Some (k + i + 1)) [0..<n - 1] @ [None]"
  have len: "length h = k + n" using assms(2) by (simp add: h_def k_def)
  have "h ! i = (if Suc i < k + n then Some (Suc i) else None)" if "k \<le> i" "i < k + n" for i
    using that by (auto simp: h_def k_def nth_append)
  then have "chain h (Some k) [k..<k + n]" using assms(2) len by (intro path_block) auto
  moreover have "chain h (pl_lactv s) ac" using assms(1) by (auto simp: pool_lists_def h_def intro: path_grow)
  ultimately show ?thesis using assms(1) len
    by (auto simp: pool_lists_def pool_extend_def Let_def h_def k_def nth_append)
qed

text \<open>The field before a node of the active list: \<open>ppl\<close> after the nodes \<open>xs\<close> have been passed.\<close>

definition link_at :: "nat list \<Rightarrow> link" where
  "link_at xs = (if xs = [] then Head else Next (last xs))"

lemma link_get_at:
  assumes "pool_lists s (xs @ ys) fr"
  shows "\<exists>p. link_get s (link_at xs) = Some p \<and> chain (pl_next s) p ys"
proof (cases "xs = []")
  case True with assms show ?thesis by (auto simp: pool_lists_def link_at_def)
next
  case False
  obtain r where r: "path (pl_next s) (pl_lactv s) xs r" "chain (pl_next s) r ys"
    using assms by (auto simp: pool_lists_def path_append)
  have "last xs < length (pl_next s)" using chain_inside [OF r(1)] False last_in_set by blast
  with path_last [OF r(1) False] r(2) False show ?thesis by (auto simp: link_at_def mem_simps)
qed

lemma pool_unlink_lists:
  assumes "pool_lists s (xs @ x # ys) fr"
  shows "\<exists>p s'. pool_unlink s x (link_at xs) = Some (p, s') \<and> pool_lists s' (xs @ ys) (x # fr)
     \<and> chain (pl_next s') p ys \<and> pl_buf s' = pl_buf s"
proof -
  obtain r where r: "path (pl_next s) (pl_lactv s) xs r" "chain (pl_next s) r (x # ys)"
    using assms by (auto simp: pool_lists_def path_append)
  have d: "x < length (pl_next s)" "x \<notin> set xs" "x \<notin> set ys" "x \<notin> set fr" "set xs \<inter> set ys = {}"
    "set xs \<inter> set fr = {}" "distinct xs" "length (pl_buf s) = length (pl_next s)"
    "chain (pl_next s) (pl_lfree s) fr"
    using assms r by (auto simp: pool_lists_def)
  define q where "q = pl_next s ! x"
  have q: "chain (pl_next s) q ys" using r(2) by (simp add: q_def)
  show ?thesis
  proof (cases xs rule: rev_cases)
    case Nil
    with assms r d q show ?thesis
      by (auto simp: pool_unlink_def link_at_def pool_lists_def mem_simps chain_simps q_def
          nth_list_update Let_def)
  next
    case (snoc zs z)
    have z: "z < length (pl_next s)" "pl_next s ! z = Some x" "path (pl_next s) (pl_lactv s) zs (Some z)" "z \<notin> set zs"
      using r d(7) snoc by (auto simp: path_snoc)
    have act: "pl_lactv s \<noteq> Some x" using z(3) d(2) snoc by (cases zs) auto
    have p: "path ((pl_next s)[z := q]) (pl_lactv s) (zs @ [z]) q"
      using path_redirect [of "pl_next s" "pl_lactv s" "zs @ [z]" "Some x" q] r d(7) snoc z
      by (simp add: path_snoc path_update)
    have c: "chain ((pl_next s)[z := q]) (pl_lactv s) (xs @ ys)"
      using p q d(5) snoc by (auto simp: path_append path_update)
    have "pool_unlink s x (link_at xs) = Some (q, s\<lparr>pl_last := (if pl_last s = Some x then Some z else pl_last s),
        pl_next := (pl_next s)[z := q, x := pl_lfree s], pl_lfree := Some x\<rparr>)"
      using z d act snoc by (auto simp: pool_unlink_def link_at_def mem_simps q_def Let_def)
    moreover have "chain ((pl_next s)[z := q, x := pl_lfree s]) (pl_lactv s) (xs @ ys)"
      using c d by (simp add: path_update)
    moreover have "chain ((pl_next s)[z := q, x := pl_lfree s]) q ys"
      using q d snoc by (simp add: path_update)
    moreover have "chain ((pl_next s)[z := q, x := pl_lfree s]) (Some x) (x # fr)"
      using d snoc by (simp add: path_update)
    ultimately show ?thesis using assms snoc d
      by (auto simp: pool_lists_def nth_list_update)
  qed
qed

lemma pool_remove_lists:
  assumes "pool_lists s (xs @ x # ys) fr"
  shows "\<exists>p s'. pool_remove s x (link_at xs) = Some (p, s') \<and> pool_lists s' (xs @ ys) (x # fr)
     \<and> chain (pl_next s') p ys \<and> pl_buf s' = (pl_buf s)[x := None]"
proof -
  obtain p s' where u: "pool_unlink s x (link_at xs) = Some (p, s')" "pool_lists s' (xs @ ys) (x # fr)"
    "chain (pl_next s') p ys" "pl_buf s' = pl_buf s" using pool_unlink_lists [OF assms] by blast
  have "pool_unlink (s\<lparr>pl_buf := b\<rparr>) x (link_at xs) = Some (p, s'\<lparr>pl_buf := b\<rparr>)" for b
    using u(1) by (cases "link_at xs") (auto simp: pool_unlink_def Let_def split: Option.bind_splits if_splits)
  moreover have "x < length (pl_buf s)" "x \<notin> set xs" "x \<notin> set ys" using assms by (auto simp: pool_lists_def)
  ultimately show ?thesis using u
    by (auto simp: pool_remove_def pool_lists_def mem_simps nth_list_update)
qed

lemma pool_to_end_lists:
  assumes "pool_lists s (xs @ x # ys) fr" "ys \<noteq> []"
  shows "\<exists>s'. pool_to_end s x (link_at xs) = Some s' \<and> pool_lists s' (xs @ ys @ [x]) fr \<and> pl_buf s' = pl_buf s"
proof -
  obtain r where r: "path (pl_next s) (pl_lactv s) xs r" "chain (pl_next s) r (x # ys)"
    using assms by (auto simp: pool_lists_def path_append)
  define l q h where "l = last ys" and "q = pl_next s ! x" and "h = (pl_next s)[l := Some x]"
  have ly: "l \<in> set ys" using assms(2) by (simp add: l_def)
  have d: "x < length (pl_next s)" "x \<notin> set xs" "x \<notin> set ys" "x \<notin> set fr" "set xs \<inter> set ys = {}"
    "set xs \<inter> set fr = {}" "set ys \<inter> set fr = {}" "distinct xs" "distinct ys" "set ys \<subseteq> {..<length (pl_next s)}"
    "chain (pl_next s) (pl_lfree s) fr" "pl_last s = Some l" "chain (pl_next s) q ys" "r = Some x"
    using assms r by (auto simp: pool_lists_def l_def q_def)
  have l: "l < length (pl_next s)" "l \<noteq> x" "l \<notin> set xs" "l \<notin> set fr" using d(3,5,7,10) ly by auto
  have ch: "path h q ys (Some x)"
    using path_redirect [OF d(13) assms(2) d(9), of "Some x"] by (simp add: h_def l_def)
  have cx: "path h (pl_lactv s) xs (Some x)" using r(1) d(14) l(3) by (simp add: h_def path_update)
  have cf: "chain h (pl_lfree s) fr" using d(11) l(4) by (simp add: h_def path_update)
  define h' where "h' = (case link_at xs of Head \<Rightarrow> h | Next z \<Rightarrow> h[z := q])"
  define a' where "a' = (case link_at xs of Head \<Rightarrow> q | Next z \<Rightarrow> pl_lactv s)"
  have all: "path h' a' xs q \<and> path h' q ys (Some x) \<and> chain h' (pl_lfree s) fr \<and> length h' = length (pl_next s)
      \<and> link_set (s\<lparr>pl_next := h, pl_last := Some x\<rparr>) (link_at xs) q
        = Some (s\<lparr>pl_next := h', pl_last := Some x, pl_lactv := a'\<rparr>)"
  proof (cases xs rule: rev_cases)
    case Nil
    then show ?thesis
      using ch cf by (simp add: h'_def a'_def link_at_def h_def)
  next
    case (snoc zs z)
    then have z: "z \<notin> set ys" "z \<notin> set fr" "z < length (pl_next s)" "xs \<noteq> []" "link_at xs = Next z"
      using d(5,6) r(1) by (auto simp: path_snoc link_at_def)
    then show ?thesis
      using path_redirect [OF cx z(4) d(8), of q] ch cf snoc
      by (simp add: h'_def a'_def path_update mem_simps h_def)
  qed
  then have px: "path h' a' xs q" and py: "path h' q ys (Some x)" and pf: "chain h' (pl_lfree s) fr"
    and len: "length h' = length (pl_next s)"
    and set: "link_set (s\<lparr>pl_next := h, pl_last := Some x\<rparr>) (link_at xs) q
        = Some (s\<lparr>pl_next := h', pl_last := Some x, pl_lactv := a'\<rparr>)" by blast+
  define s' where "s' = s\<lparr>pl_next := h'[x := None], pl_last := Some x, pl_lactv := a'\<rparr>"
  have "h ! x = q" using l(2) by (simp add: h_def q_def)
  then have "pool_to_end s x (link_at xs) = Some s'"
    using set d(1,12) l(1) len by (simp add: pool_to_end_def mem_simps s'_def h_def [symmetric]) (simp add: mem_simps h_def)
  moreover have "chain (pl_next s') (pl_lactv s') (xs @ ys @ [x])"
  proof -
    have "path (h'[x := None]) a' xs q" "path (h'[x := None]) q ys (Some x)"
      using px py d(2,3) by (simp_all add: path_update)
    then show ?thesis using d(1) len by (auto simp: s'_def path_append)
  qed
  moreover have "chain (pl_next s') (pl_lfree s') fr" using pf d(4) by (simp add: s'_def path_update)
  ultimately show ?thesis using assms(1) len
    by (auto simp: pool_lists_def s'_def)
qed

lemma link_set_more: "link_set s l p = Some s' \<Longrightarrow> pool.more s' = pool.more s"
  by (cases l) (auto split: Option.bind_splits)

lemma pool_more:
  "pool_put s x ob = Some s1 \<Longrightarrow> pool.more s1 = pool.more s"
  "pool_pop s x = Some s2 \<Longrightarrow> pool.more s2 = pool.more s"
  "pool_unlink s x l = Some (q, s3) \<Longrightarrow> pool.more s3 = pool.more s"
  "pool_remove s x l = Some (q, s3) \<Longrightarrow> pool.more s3 = pool.more s"
  "pool_to_end s x l = Some s4 \<Longrightarrow> pool.more s4 = pool.more s"
  by (auto simp: pool_to_end_def pool_put_def pool_pop_def pool_remove_def pool_unlink_def Let_def split: Option.bind_splits if_splits link.splits
      dest!: link_set_more)

section \<open>Walking along a list\<close>

text \<open>The debug loops \<open>while(pl) i++, pl = pl->next\<close>; on a cycle they would not end.\<close>

partial_function (option) count_chain :: "ptr list \<Rightarrow> ptr \<Rightarrow> uint32 \<Rightarrow> uint32 option" where
  "count_chain h p i =
     (case p of None \<Rightarrow> Some i | Some x \<Rightarrow> do { q \<leftarrow> aread h x; count_chain h q (i + 1) })"

lemma count_chain_length: "chain h p xs \<Longrightarrow> count_chain h p i = Some (i + of_nat (length xs))"
proof (induction xs arbitrary: p i)
  case Nil then show ?case by (simp add: count_chain.simps)
next
  case (Cons x xs)
  then show ?case by (subst count_chain.simps) (simp add: mem_simps add.assoc)
qed

text \<open>The nodes of a list, at most \<open>n\<close> of them, and the objects of a pool in the order of its
  active list.\<close>

fun walk :: "ptr list \<Rightarrow> nat \<Rightarrow> ptr \<Rightarrow> nat list" where
  "walk h (Suc n) (Some x) = (if x < length h then x # walk h n (h ! x) else [])"
| "walk h _ _ = []"

lemma walk_chain: "chain h p xs \<Longrightarrow> length xs \<le> n \<Longrightarrow> walk h n p = xs"
proof (induction xs arbitrary: p n)
  case Nil then show ?case by (cases n) auto
next
  case (Cons x xs) then show ?case by (cases n) auto
qed

definition pool_active :: "('obj, 'm) pool_scheme \<Rightarrow> nat list" where
  "pool_active s = walk (pl_next s) (length (pl_next s)) (pl_lactv s)"

definition pool_free :: "('obj, 'm) pool_scheme \<Rightarrow> nat list" where
  "pool_free s = walk (pl_next s) (length (pl_next s)) (pl_lfree s)"

definition objects_at :: "'obj option list \<Rightarrow> nat list \<Rightarrow> 'obj list" where
  "objects_at b ac = map (\<lambda>x. the (b ! x)) ac"

definition pool_objects :: "('obj, 'm) pool_scheme \<Rightarrow> 'obj list" where
  "pool_objects s = objects_at (pl_buf s) (pool_active s)"

lemma pool_lists_walk:
  assumes "pool_lists s ac fr"
  shows "pool_active s = ac" "pool_free s = fr" "pool_objects s = objects_at (pl_buf s) ac"
proof -
  have "length ac \<le> length (pl_next s)" "length fr \<le> length (pl_next s)"
    using pool_lists_length [OF assms] by simp_all
  with assms show "pool_active s = ac" "pool_free s = fr"
    by (simp_all add: pool_active_def pool_free_def pool_lists_def walk_chain)
  then show "pool_objects s = objects_at (pl_buf s) ac" by (simp add: pool_objects_def)
qed

lemma objects_at_update [simp]: "x \<notin> set ac \<Longrightarrow> objects_at (b[x := r]) ac = objects_at b ac"
  by (auto simp: objects_at_def intro!: arg_cong [where f = the] nth_list_update_neq)

lemma objects_at_append [simp]: "objects_at b (xs @ ys) = objects_at b xs @ objects_at b ys"
  by (simp add: objects_at_def)

lemma objects_at_grow [simp]: "set ac \<subseteq> {..<length b} \<Longrightarrow> objects_at (b @ c) ac = objects_at b ac"
  by (auto simp: objects_at_def nth_append)

text \<open>A pool is well formed when it has its lists.\<close>

definition pool_ok :: "('obj, 'm) pool_scheme \<Rightarrow> bool" where
  "pool_ok s \<longleftrightarrow> pool_lists s (pool_active s) (pool_free s)"

lemma pool_okI: "pool_lists s ac fr \<Longrightarrow> pool_ok s"
  using pool_lists_walk by (metis pool_ok_def)

lemma pool_okE:
  assumes "pool_ok s"
  obtains ac fr where "pool_lists s ac fr" "pool_active s = ac" "pool_free s = fr"
    "pool_objects s = objects_at (pl_buf s) ac"
  using assms pool_lists_walk(3) unfolding pool_ok_def by blast

section \<open>The interface of the entity lists\<close>

text \<open>
  What a frame of the game asks of a list of temporary entities: to add some and to animate
  them.  Whatever the order of the calls, the list stays well formed and no call fails.
\<close>

datatype 'a entity_call = Add 'a | Anim real

fun entity_run ::
  "('a \<Rightarrow> 's \<Rightarrow> 's option) \<Rightarrow> (real \<Rightarrow> 's \<Rightarrow> 's option) \<Rightarrow> 'a entity_call list \<Rightarrow> 's \<Rightarrow> 's option" where
  "entity_run add anim [] s = Some s"
| "entity_run add anim (Add a # cs) s = do { s \<leftarrow> add a s; entity_run add anim cs s }"
| "entity_run add anim (Anim dt # cs) s = do { s \<leftarrow> anim dt s; entity_run add anim cs s }"

locale entity_pool =
  fixes good :: "'s \<Rightarrow> bool" and call :: "'a \<Rightarrow> bool" and add :: "'a \<Rightarrow> 's \<Rightarrow> 's option"
    and anim :: "real \<Rightarrow> 's \<Rightarrow> 's option"
  assumes add_good: "good s \<Longrightarrow> call a \<Longrightarrow> \<exists>s'. add a s = Some s' \<and> good s'"
    and anim_good: "good s \<Longrightarrow> \<exists>s'. anim dt s = Some s' \<and> good s'"
begin

lemma run_good:
  "good s \<Longrightarrow> (\<And>a. Add a \<in> set cs \<Longrightarrow> call a) \<Longrightarrow> \<exists>s'. entity_run add anim cs s = Some s' \<and> good s'"
proof (induction cs arbitrary: s)
  case (Cons c cs)
  show ?case
  proof (cases c)
    case (Add a)
    with Cons.prems add_good [of s a] obtain s' where "add a s = Some s'" "good s'" by auto
    with Add Cons.IH [of s'] Cons.prems(2) show ?thesis by auto
  next
    case (Anim dt)
    with Cons.prems anim_good [of s dt] obtain s' where "anim dt s = Some s'" "good s'" by auto
    with Anim Cons.IH [of s'] Cons.prems(2) show ?thesis by auto
  qed
qed simp

end

text \<open>Lists whose entities do not depend on each other: each is moved on its own, or dropped.\<close>

locale entity_motion = entity_pool good call add anim
  for good :: "'s \<Rightarrow> bool" and call :: "'a \<Rightarrow> bool" and add :: "'a \<Rightarrow> 's \<Rightarrow> 's option"
    and anim :: "real \<Rightarrow> 's \<Rightarrow> 's option" +
  fixes active :: "'s \<Rightarrow> 'obj list" and step :: "real \<Rightarrow> 'obj \<Rightarrow> 'obj option"
  assumes anim_step: "good s \<Longrightarrow> anim dt s = Some s' \<Longrightarrow> active s' = List.map_filter (step dt) (active s)"
begin

lemma anim_length: "good s \<Longrightarrow> anim dt s = Some s' \<Longrightarrow> length (active s') \<le> length (active s)"
  using anim_step [of s dt s'] by (simp add: List.map_filter_def)

end

end
