(* ===== verification/Colseq.thy ===== *)
theory Colseq
  imports Complex_Main Prelude
begin

text \<open>
  Colours and colour sequences (\<open>clib/colseq/color.h\<close>, \<open>cs.h\<close>, \<open>clib/src/colseq/cs.c\<close>): the colour of
  an effect as a function of its age, given by nodes that each last for a time.  A
  \<open>COLOR32\<close> has 32 bits, a byte for each of red, green, blue and alpha.  Times and factors are
  reals, and a conversion to an integer truncates.
\<close>

section \<open>Colours\<close>

definition COLOR32R :: "uint32 \<Rightarrow> byte" where "COLOR32R c = ucast (c AND 255)"
definition COLOR32G :: "uint32 \<Rightarrow> byte" where "COLOR32G c = ucast (drop_bit 8 c AND 255)"
definition COLOR32B :: "uint32 \<Rightarrow> byte" where "COLOR32B c = ucast (drop_bit 16 c AND 255)"
definition COLOR32A :: "uint32 \<Rightarrow> byte" where "COLOR32A c = ucast (drop_bit 24 c AND 255)"

definition COLOR32RGBA :: "uint32 \<Rightarrow> uint32 \<Rightarrow> uint32 \<Rightarrow> uint32 \<Rightarrow> uint32" where
  "COLOR32RGBA r g b a =
     (r AND 255) OR push_bit 8 (g AND 255) OR push_bit 16 (b AND 255) OR push_bit 24 (a AND 255)"

text \<open>The conversion of a \<open>double\<close> to \<open>COLOR32\<close>.\<close>

definition c_trunc :: "real \<Rightarrow> int" where "c_trunc x = (if x < 0 then \<lceil>x\<rceil> else \<lfloor>x\<rfloor>)"

definition color_of :: "real \<Rightarrow> uint32" where "color_of x = word_of_int (c_trunc x)"

abbreviation chan :: "byte \<Rightarrow> real" where "chan b \<equiv> real (unat b)"

definition COLOR32MIX :: "uint32 \<Rightarrow> uint32 \<Rightarrow> real \<Rightarrow> uint32" where
  "COLOR32MIX c1 c2 f =
     COLOR32RGBA (color_of (chan (COLOR32R c2) * f + chan (COLOR32R c1) * (1 - f)))
       (color_of (chan (COLOR32G c2) * f + chan (COLOR32G c1) * (1 - f)))
       (color_of (chan (COLOR32B c2) * f + chan (COLOR32B c1) * (1 - f)))
       (color_of (chan (COLOR32A c2) * f + chan (COLOR32A c1) * (1 - f)))"

section \<open>Colour sequences\<close>

record color_node =
  cn_t :: real
  cn_col :: uint32

text \<open>The count \<open>c\<close> of the nodes is the length of \<open>cs_p\<close>.\<close>

record color_sequence =
  cs_dc :: uint32
  cs_p :: "color_node list"
  cs_colrand :: uint32
  cs_t :: real
  cs_flags :: uint32

definition COLSEQ_RANDOM :: uint32 where "COLSEQ_RANDOM = 2"

text \<open>The loop \<open>for(j = 0; j < cs->c && time >= 0; j++) time -= cs->p[j].t\<close>.\<close>

fun cs_scan :: "color_node list \<Rightarrow> nat \<Rightarrow> real \<Rightarrow> nat \<times> real" where
  "cs_scan [] j time = (j, time)"
| "cs_scan (p # ps) j time = (if time \<ge> 0 then cs_scan ps (j + 1) (time - cn_t p) else (j, time))"

text \<open>The four bytes of the colour at the start of a node; \<open>rnd\<close> are the low bytes of the numbers that
  \<open>rand\<close> returns.\<close>

definition cs_source :: "color_sequence \<Rightarrow> nat \<Rightarrow> byte \<times> byte \<times> byte \<Rightarrow> byte list" where
  "cs_source cs j rnd =
     (let col = cn_col (cs_p cs ! j)
      in if cs_flags cs AND COLSEQ_RANDOM \<noteq> 0 \<and> col = cs_colrand cs
         then (case rnd of (r0, r1, r2) \<Rightarrow> [r0, r1, r2, 255])
         else [COLOR32R col, COLOR32G col, COLOR32B col, COLOR32A col])"

definition ColorSequence :: "byte \<times> byte \<times> byte \<Rightarrow> color_sequence \<Rightarrow> real \<Rightarrow> uint32 option" where
  "ColorSequence rnd cs time =
     (if cs_p cs = [] then None
      else if time < 0 \<or> cs_t cs < time then Some (cs_dc cs)
      else
        let (j, time) = cs_scan (cs_p cs) 0 time;
            j = j - 1;
            dstc = (if j = length (cs_p cs) - 1 then cs_dc cs else cn_col (cs_p cs ! (j + 1)));
            pt = cn_t (cs_p cs ! j);
            time = (if pt \<noteq> 0 then (time + pt) / pt else 0.5);
            time = (if time > 1 then 1 else time);
            srcc = cs_source cs j rnd
        in Some (COLOR32RGBA (color_of (chan (srcc ! 0) * (1 - time) + chan (COLOR32R dstc) * time))
             (color_of (chan (srcc ! 1) * (1 - time) + chan (COLOR32G dstc) * time))
             (color_of (chan (srcc ! 2) * (1 - time) + chan (COLOR32B dstc) * time))
             (color_of (chan (srcc ! 3) * (1 - time) + chan (COLOR32A dstc) * time))))"

end
