(* ===== verification/Teline.thy ===== *)
theory Teline
  imports Pool Cppquat Colseq
begin

text \<open>
  The temporary entities of \<open>src/teline3d.cpp\<close>: line shaped effects in a pool of nodes of fixed
  size.  The classes derived from \<open>Teline3\<close> are a datatype; \<open>unsigned long\<close> and \<open>COLOR32\<close> have
  32 bits.  The drawing members, which call OpenGL, are not modelled.
\<close>

section \<open>The objects\<close>

record teline_info =
  ti_pos :: "real Vec3"
  ti_velo :: "real Vec3"
  ti_len :: real
  ti_rot :: "real Quat"
  ti_omg :: "real Vec3"
  ti_life :: real
  ti_grv :: "real Vec3"
  ti_flags :: uint32

text \<open>The derived classes; those with a colour, those that keep the initial life time, and the
  callback with its function and argument.\<close>

datatype teline_class =
    LineTeline3 uint32
  | CylinderTeline3 uint32 real
  | StaticDiscTeline3 uint32 real
  | ExpanDiscTeline3 uint32 real
  | SpriteTeline3 uint32
  | GlowTeline3 uint32 real
  | ExpandGlowTeline3 uint32 real
  | ExpandTorusTeline3 uint32 real
  | CallbackTeline3 nat nat

record teline = tl_info :: teline_info tl_class :: teline_class

definition TEL3_HEADFORWARD :: uint32 where "TEL3_HEADFORWARD = 2"
definition TEL3_VELOLEN :: uint32 where "TEL3_VELOLEN = 4"
definition TEL3_SHRINK :: uint32 where "TEL3_SHRINK = 16"
definition TEL3_NOLINE :: uint32 where "TEL3_NOLINE = 256"
definition TEL3_CYLINDER :: uint32 where "TEL3_CYLINDER = push_bit 11 5"
definition TEL3_EXPANDISK :: uint32 where "TEL3_EXPANDISK = push_bit 11 7"
definition TEL3_STATICDISK :: uint32 where "TEL3_STATICDISK = push_bit 11 8"
definition TEL3_CALLBACK :: uint32 where "TEL3_CALLBACK = push_bit 11 9"
definition TEL3_GLOW :: uint32 where "TEL3_GLOW = push_bit 11 10"
definition TEL3_EXPANDGLOW :: uint32 where "TEL3_EXPANDGLOW = push_bit 11 11"
definition TEL3_SPRITE :: uint32 where "TEL3_SPRITE = push_bit 11 12"
definition TEL3_EXPANDTORUS :: uint32 where "TEL3_EXPANDTORUS = push_bit 11 13"

definition TEL3_FORMS :: uint32 where
  "TEL3_FORMS = push_bit 11 1 OR push_bit 12 1 OR push_bit 13 1 OR push_bit 14 1 OR push_bit 15 1"

definition TEL3_ROTATEX :: uint32 where "TEL3_ROTATEX = push_bit 29 1"
definition TEL3_ROTATEY :: uint32 where "TEL3_ROTATEY = push_bit 30 1"
definition TEL3_ROTATEZ :: uint32 where "TEL3_ROTATEZ = push_bit 31 1"
definition TEL3_ROTATE :: uint32 where "TEL3_ROTATE = TEL3_ROTATEX OR TEL3_ROTATEY OR TEL3_ROTATEZ"

text \<open>The constructor of the base class records the axes around which the object turns.\<close>

definition Teline3_new :: "teline_info \<Rightarrow> teline_info" where
  "Teline3_new ci =
     (if ti_omg ci \<noteq> vec3_000 then
        (case ti_omg ci of Vec3 o0 o1 o2 \<Rightarrow>
           let x = (if o0 \<noteq> 0 then TEL3_ROTATEX else 0);
               y = (if o1 \<noteq> 0 then TEL3_ROTATEY else 0);
               z = (if o2 \<noteq> 0 then TEL3_ROTATEZ else 0);
               flags = ti_flags ci AND NOT TEL3_ROTATE
           in ci\<lparr>ti_flags := flags OR (x OR y OR z)\<rparr>)
      else ci)"

text \<open>One step of the motion; \<open>False\<close> when the life time is over.\<close>

definition Teline3_update :: "real \<Rightarrow> teline \<Rightarrow> bool \<times> teline" where
  "Teline3_update dt ob =
     (let i = tl_info ob; i = i\<lparr>ti_life := ti_life i - dt\<rparr>
      in if ti_life i < 0 then (False, ob\<lparr>tl_info := i\<rparr>)
         else
           let i = i\<lparr>ti_velo := Vec3_addin (ti_velo i) (Vec3_scale (ti_grv i) dt)\<rparr>;
               i = i\<lparr>ti_pos := Vec3_addin (ti_pos i) (Vec3_scale (ti_velo i) dt)\<rparr>;
               i = (if ti_flags i AND TEL3_HEADFORWARD = 0 \<and> ti_omg i \<noteq> vec3_000
                    then i\<lparr>ti_rot := Quat_quatrotquat (ti_rot i) (Vec3_scale (ti_omg i) dt)\<rparr> else i)
           in (True, ob\<lparr>tl_info := i\<rparr>))"

fun tl_color :: "teline_class \<Rightarrow> uint32 option" where
  "tl_color (LineTeline3 r) = Some r"
| "tl_color (CylinderTeline3 r _) = Some r"
| "tl_color (StaticDiscTeline3 r _) = Some r"
| "tl_color (ExpanDiscTeline3 r _) = Some r"
| "tl_color (SpriteTeline3 r) = Some r"
| "tl_color (GlowTeline3 r _) = Some r"
| "tl_color (ExpandGlowTeline3 r _) = Some r"
| "tl_color (ExpandTorusTeline3 r _) = Some r"
| "tl_color (CallbackTeline3 _ _) = None"

definition FADE_START :: real where "FADE_START = 0.5"
definition SHRINK_START :: real where "SHRINK_START = 0.3"

text \<open>The alpha channel fades out at the end of the life time; the product is truncated to a byte.\<close>

definition getColor :: "uint32 \<Rightarrow> real \<Rightarrow> uint32" where
  "getColor r life =
     (if life < FADE_START
      then (r AND 0x00ffffff) OR
        COLOR32RGBA 0 0 0 (ucast (word_of_int \<lfloor>of_int (uint (COLOR32A r)) * life / FADE_START\<rfloor> :: byte))
      else r)"

definition getLength :: "teline_info \<Rightarrow> real" where
  "getLength i =
     (let lenb = (if ti_flags i AND TEL3_SHRINK \<noteq> 0 \<and> ti_life i < SHRINK_START
                  then ti_len i / SHRINK_START * ti_life i else ti_len i)
      in if ti_flags i AND TEL3_VELOLEN \<noteq> 0 then lenb * Vec3_len (ti_velo i) else lenb)"

text \<open>The radius a disc is drawn with: constant, or growing with the age.\<close>

definition getRadius :: "teline \<Rightarrow> real option" where
  "getRadius ob =
     (case tl_class ob of
        StaticDiscTeline3 _ _ \<Rightarrow> Some (ti_len (tl_info ob))
      | ExpanDiscTeline3 _ maxlife \<Rightarrow>
          Some ((maxlife - ti_life (tl_info ob)) / maxlife * getLength (tl_info ob))
      | _ \<Rightarrow> None)"

definition getRadiusFactor :: "teline \<Rightarrow> real option" where
  "getRadiusFactor ob =
     (case tl_class ob of
        GlowTeline3 _ _ \<Rightarrow> Some 1
      | ExpandGlowTeline3 _ maxlife \<Rightarrow> Some ((maxlife - ti_life (tl_info ob)) / maxlife)
      | _ \<Rightarrow> None)"

definition getEndColors :: "teline \<Rightarrow> (uint32 \<times> uint32) option" where
  "getEndColors ob =
     (case tl_class ob of
        StaticDiscTeline3 r _ \<Rightarrow>
          Some (getColor r (ti_life (tl_info ob)), getColor r (ti_life (tl_info ob)) AND 0x00ffffff)
      | ExpanDiscTeline3 r _ \<Rightarrow>
          Some (getColor r (ti_life (tl_info ob)) AND 0x00ffffff, getColor r (ti_life (tl_info ob)))
      | _ \<Rightarrow> None)"

section \<open>The list\<close>

record tlist = "teline pool" +
  te_m :: uint32
  te_ml :: uint32
  te_mex :: uint32
  te_bs :: uint32
  te_debug_m :: uint32
  te_debug_c :: uint32
  te_debug_s :: uint32

text \<open>
  \<open>NewTeline3D\<close>: the nodes of the new array are linked; \<open>junk\<close> is what they hold where the loop,
  whose bound is a signed \<open>int\<close>, does not reach.
\<close>

definition init_links :: "(nat \<Rightarrow> ptr) \<Rightarrow> uint32 \<Rightarrow> ptr list" where
  "init_links junk init =
     (let l = map (\<lambda>i. if int i < sint (init - 1) then Some (i + 1) else junk i) [0..<unat init]
      in if init \<noteq> 0 then l[unat (init - 1) := None] else l)"

definition NewTeline3D :: "(nat \<Rightarrow> ptr) \<Rightarrow> uint32 \<Rightarrow> uint32 \<Rightarrow> uint32 \<Rightarrow> tlist" where
  "NewTeline3D junk maxt init unit =
     \<lparr>pl_next = init_links junk init, pl_buf = replicate (unat init) None,
      pl_lfree = Some 0, pl_lactv = None, pl_last = None,
      te_m = maxt, te_ml = init, te_mex = unit, te_bs = init,
      te_debug_m = init, te_debug_c = 0, te_debug_s = 0\<rparr>"

text \<open>
  \<open>alloc_teline\<close>: a free node; else the first node of a new block, which also stays in the free
  list; else the first active node, which is moved to the end.
\<close>

definition alloc_teline :: "tlist \<Rightarrow> (ptr \<times> tlist) option" where
  "alloc_teline p =
     (if te_m p = 0 then Some (None, p)
      else
        (case pl_lfree p of
           None \<Rightarrow>
             if te_mex p \<noteq> 0 \<and> te_bs p + te_mex p \<le> te_m p then
               let p = pool_extend p (unat (te_mex p));
                   pl = pl_lfree p;
                   p = p\<lparr>te_bs := te_bs p + te_mex p\<rparr>;
                   p = p\<lparr>te_debug_m := te_bs p\<rparr>
               in Some (pl, p\<lparr>te_debug_s := te_debug_s p + 1\<rparr>)
             else
               (case pl_lactv p of
                  None \<Rightarrow> Some (None, p)
                | Some pl \<Rightarrow> do {
                    last \<leftarrow> pl_last p;
                    h \<leftarrow> awrite (pl_next p) last (Some pl);
                    let p = p\<lparr>pl_next := h, pl_last := Some pl\<rparr>;
                    nx \<leftarrow> aread (pl_next p) pl;
                    h \<leftarrow> awrite (pl_next p) pl None;
                    let p = p\<lparr>pl_lactv := nx, pl_next := h\<rparr>;
                    Some (Some pl, p\<lparr>te_debug_s := te_debug_s p + 1\<rparr>) })
         | Some pl \<Rightarrow> do {
             p \<leftarrow> pool_pop p pl;
             Some (Some pl, p\<lparr>te_debug_s := te_debug_s p + 1\<rparr>) }))"

text \<open>The object that the flags ask for.\<close>

definition make_teline :: "teline_info \<Rightarrow> uint32 \<Rightarrow> teline" where
  "make_teline ci col =
     (let form = ti_flags ci AND TEL3_FORMS; life = ti_life ci;
          c = (if form = TEL3_CYLINDER then CylinderTeline3 col life
               else if form = TEL3_STATICDISK then StaticDiscTeline3 col life
               else if form = TEL3_EXPANDISK then ExpanDiscTeline3 col life
               else if form = TEL3_GLOW then GlowTeline3 col life
               else if form = TEL3_EXPANDGLOW then ExpandGlowTeline3 col life
               else if form = TEL3_SPRITE then SpriteTeline3 col
               else if form = TEL3_EXPANDTORUS then ExpandTorusTeline3 col life
               else LineTeline3 col)
      in \<lparr>tl_info = Teline3_new ci, tl_class = c\<rparr>)"

definition AddTeline3D :: "teline_info \<Rightarrow> uint32 \<Rightarrow> tlist \<Rightarrow> tlist option" where
  "AddTeline3D ci col p = do {
     (pl, p) \<leftarrow> alloc_teline p;
     (case pl of None \<Rightarrow> Some p | Some x \<Rightarrow> pool_put p x (make_teline ci col)) }"

definition make_callback :: "teline_info \<Rightarrow> nat \<Rightarrow> nat \<Rightarrow> teline" where
  "make_callback ci f pd =
     (let flags = ti_flags ci AND NOT TEL3_FORMS; flags = flags OR (TEL3_CALLBACK OR TEL3_NOLINE)
      in \<lparr>tl_info = Teline3_new (ci\<lparr>ti_flags := flags\<rparr>), tl_class = CallbackTeline3 f pd\<rparr>)"

definition AddTelineCallback3D :: "teline_info \<Rightarrow> nat \<Rightarrow> nat \<Rightarrow> tlist \<Rightarrow> tlist option" where
  "AddTelineCallback3D ci f pd p = do {
     (pl, p) \<leftarrow> alloc_teline p;
     (case pl of None \<Rightarrow> Some p | Some x \<Rightarrow> pool_put p x (make_callback ci f pd)) }"

text \<open>The loop of \<open>AnimTeline3D\<close>, with the pointers \<open>pl\<close> and \<open>ppl\<close>.\<close>

partial_function (option) anim_loop :: "real \<Rightarrow> ptr \<Rightarrow> link \<Rightarrow> tlist \<Rightarrow> tlist option" where
  "anim_loop dt pl ppl p =
     (case pl of None \<Rightarrow> Some p
      | Some x \<Rightarrow> do {
          ob \<leftarrow> pool_object p x;
          p \<leftarrow> pool_put p x (snd (Teline3_update dt ob));
          (if \<not> fst (Teline3_update dt ob) then do {
             (pl2, p) \<leftarrow> pool_remove p x ppl;
             anim_loop dt pl2 ppl p }
           else do {
             pl2 \<leftarrow> aread (pl_next p) x;
             anim_loop dt pl2 (Next x) p }) })"

definition AnimTeline3D :: "real \<Rightarrow> tlist \<Rightarrow> tlist option" where
  "AnimTeline3D dt p = do {
     p \<leftarrow> anim_loop dt (pl_lactv p) Head p;
     (if te_ml p \<noteq> 0 then do {
        i \<leftarrow> count_chain (pl_next p) (pl_lactv p) 0;
        Some (p\<lparr>te_debug_c := i\<rparr>) }
      else Some p) }"

text \<open>The placement \<open>new\<close> of derived classes: it throws \<open>std::bad_alloc\<close> when there is no node.\<close>

datatype alloc_error = bad_alloc

definition teline_operator_new :: "tlist \<Rightarrow> (alloc_error + nat \<times> tlist) option" where
  "teline_operator_new a = do {
     (ret, a) \<leftarrow> alloc_teline a;
     Some (case ret of Some x \<Rightarrow> Inr (x, a) | None \<Rightarrow> Inl bad_alloc) }"

end
