(* ===== verification/Tefpol.thy ===== *)
theory Tefpol
  imports Teline
begin

text \<open>
  The temporary entities of \<open>src/tefpol3d.cpp\<close>: trails that follow a moving point.  A trail is
  an object in a pool of nodes, as in \<open>Teline\<close>, with a linked list of vertices; the vertices
  of all lists of trails come from one shared array \<open>svl\<close>, and those that are not used are linked in
  its free list.  The macros \<open>DRAWORDER\<close> 0 and \<open>ENABLE_THICK\<close> 1 are as the source sets them, and the
  assertions of the source are checks that fail.  The drawing members are not modelled.
\<close>

section \<open>The vertices\<close>

record tevert =
  tv_pos :: "real Vec3"
  tv_dt :: real

text \<open>\<open>svl\<close>: a vertex that has not been written to since the allocation is \<open>None\<close>; \<open>vl_l\<close> tells
  whether the array has been allocated.\<close>

record te_vertice_list =
  vl_m :: uint32
  vl_l :: bool
  vl_next :: "ptr list"
  vl_vert :: "tevert option list"
  vl_lfree :: ptr
  vl_lfst :: ptr

definition VERTEX_SIZE :: nat where "VERTEX_SIZE = 0x8000"

definition svl_start :: te_vertice_list where
  "svl_start = \<lparr>vl_m = 0, vl_l = False, vl_next = [], vl_vert = [], vl_lfree = None, vl_lfst = None\<rparr>"

definition svl_alloc :: "te_vertice_list \<Rightarrow> te_vertice_list" where
  "svl_alloc v =
     (if vl_l v then v
      else v\<lparr>vl_m := of_nat VERTEX_SIZE, vl_l := True,
             vl_next := map (\<lambda>i. if Suc i < VERTEX_SIZE then Some (Suc i) else None) [0..<VERTEX_SIZE],
             vl_vert := replicate VERTEX_SIZE None,
             vl_lfree := Some 0, vl_lfst := Some (VERTEX_SIZE - 1)\<rparr>)"

definition c_assert :: "bool \<Rightarrow> unit option" where "c_assert b = (if b then Some () else None)"

text \<open>The assertion \<open>!p || !p->next\<close>.\<close>

definition assert_end :: "ptr list \<Rightarrow> ptr \<Rightarrow> unit option" where
  "assert_end h p = (case p of None \<Rightarrow> Some () | Some x \<Rightarrow> do { q \<leftarrow> aread h x; c_assert (q = None) })"

definition assert_svl :: "te_vertice_list \<Rightarrow> unit option" where
  "assert_svl v = do {
     _ \<leftarrow> c_assert ((vl_lfree v = None) = (vl_lfst v = None));
     assert_end (vl_next v) (vl_lfst v) }"

partial_function (option) last_node :: "ptr list \<Rightarrow> nat \<Rightarrow> nat option" where
  "last_node h p = do { q \<leftarrow> aread h p; (case q of None \<Rightarrow> Some p | Some x \<Rightarrow> last_node h x) }"

text \<open>\<open>freeVertex\<close>: the vertices from \<open>*pp\<close> to \<open>plast\<close> go to the head of the free list; the new value of
  \<open>*pp\<close> is returned.\<close>

definition freeVertex :: "ptr \<Rightarrow> ptr \<Rightarrow> te_vertice_list \<Rightarrow> (ptr \<times> te_vertice_list) option" where
  "freeVertex pp plast v =
     (case pp of
        None \<Rightarrow> do { _ \<leftarrow> assert_svl v; Some (pp, v) }
      | Some pfirst \<Rightarrow> do {
          _ \<leftarrow> assert_svl v;
          _ \<leftarrow> assert_end (vl_next v) plast;
          (pp, pl, h) \<leftarrow>
            (case plast of
               Some pl \<Rightarrow> do {
                 q \<leftarrow> aread (vl_next v) pl;
                 h \<leftarrow> awrite (vl_next v) pl (vl_lfree v);
                 Some (q, pl, h) }
             | None \<Rightarrow> do {
                 p \<leftarrow> last_node (vl_next v) pfirst;
                 h \<leftarrow> awrite (vl_next v) p (vl_lfree v);
                 Some (pp, p, h) });
          let v = v\<lparr>vl_next := h, vl_lfst := (if vl_lfree v = None then Some pl else vl_lfst v),
                    vl_lfree := Some pfirst\<rparr>;
          _ \<leftarrow> assert_svl v;
          Some (pp, v) })"

definition vert_at :: "te_vertice_list \<Rightarrow> nat \<Rightarrow> tevert option" where
  "vert_at v x = do { t \<leftarrow> aread (vl_vert v) x; t }"

definition vert_put :: "nat \<Rightarrow> tevert \<Rightarrow> te_vertice_list \<Rightarrow> te_vertice_list option" where
  "vert_put x t v = do { b \<leftarrow> awrite (vl_vert v) x (Some t); Some (v\<lparr>vl_vert := b\<rparr>) }"

definition link_vertex :: "nat \<Rightarrow> ptr \<Rightarrow> te_vertice_list \<Rightarrow> te_vertice_list option" where
  "link_vertex x q v = do { h \<leftarrow> awrite (vl_next v) x q; Some (v\<lparr>vl_next := h\<rparr>) }"

section \<open>The objects\<close>

record tefpol =
  tp_pos :: "real Vec3"
  tp_velo :: "real Vec3"
  tp_life :: real
  tp_grv :: "real Vec3"
  tp_cs :: color_sequence
  tp_flags :: uint32
  tp_cnt :: uint32
  tp_texture :: uint32
  tp_head :: ptr
  tp_tail :: ptr

definition TEP3_REFLECT :: uint32 where "TEP3_REFLECT = push_bit 5 1"
definition TEP3_ROUGH :: uint32 where "TEP3_ROUGH = push_bit 6 1"
definition TEP3_THICK :: uint32 where "TEP3_THICK = push_bit 7 1"
definition TEP3_THICKER :: uint32 where "TEP3_THICKER = push_bit 7 2"
definition TEP3_FAINT :: uint32 where "TEP3_FAINT = push_bit 7 4"
definition TEP3_MOVABLE :: uint32 where "TEP3_MOVABLE = push_bit 16 1"
definition TEP3_SKIP :: uint32 where "TEP3_SKIP = push_bit 17 1"

definition TEP3_THICKNESS :: uint32 where
  "TEP3_THICKNESS = TEP3_THICK OR push_bit 1 TEP3_THICK OR push_bit 2 TEP3_THICK"

definition REFLACTION :: real where "REFLACTION = 0.7"

text \<open>\<open>Tefpol::move\<close>; the test \<open>if(velo)\<close> is on the pointer that the vector converts to, which is
  not null.\<close>

definition Tefpol_move :: "real Vec3 \<Rightarrow> real Vec3 \<Rightarrow> real \<Rightarrow> bool \<Rightarrow> tefpol \<Rightarrow> tefpol" where
  "Tefpol_move pos velo life skip pl =
     (if tp_flags pl AND TEP3_MOVABLE = 0 then pl
      else pl\<lparr>tp_pos := pos, tp_velo := velo, tp_life := life,
              tp_flags := (if skip then tp_flags pl OR TEP3_SKIP else tp_flags pl AND NOT TEP3_SKIP)\<rparr>)"

definition Tefpol_immobilize :: "tefpol \<Rightarrow> tefpol" where
  "Tefpol_immobilize pl = pl\<lparr>tp_flags := tp_flags pl AND NOT TEP3_MOVABLE\<rparr>"

definition tefpol_new :: "real Vec3 \<Rightarrow> real Vec3 \<Rightarrow> real Vec3 \<Rightarrow> color_sequence \<Rightarrow> uint32 \<Rightarrow> real \<Rightarrow> tefpol" where
  "tefpol_new pos velo grv col f life =
     \<lparr>tp_pos = pos, tp_velo = velo, tp_life = life, tp_grv = grv, tp_cs = col, tp_flags = f, tp_cnt = 0,
      tp_texture = 0, tp_head = None, tp_tail = None\<rparr>"

text \<open>The condition of deletion, and the width of a trail.\<close>

definition tefpol_dead :: "tefpol \<Rightarrow> bool" where
  "tefpol_dead pl \<longleftrightarrow> tp_flags pl AND TEP3_MOVABLE = 0 \<and> tp_life pl < - cs_t (tp_cs pl)"

definition tefpol_thickness :: "tefpol \<Rightarrow> uint32" where
  "tefpol_thickness pl = tp_flags pl AND TEP3_THICKNESS"

definition tefpol_width :: "tefpol \<Rightarrow> real" where
  "tefpol_width pl =
     (if tefpol_thickness pl = TEP3_THICK then 1 else if tefpol_thickness pl = TEP3_THICKER then 2
      else if tefpol_thickness pl = TEP3_FAINT then 0.5 else 5)"

text \<open>Whether the point is far enough from the vertices at both ends of the trail, \<open>hv\<close> and \<open>tv\<close>, for a
  new vertex.\<close>

definition tefpol_far :: "tefpol \<Rightarrow> tevert \<Rightarrow> tevert \<Rightarrow> bool" where
  "tefpol_far pl hv tv =
     (if tefpol_thickness pl \<noteq> 0
      then tefpol_width pl * tefpol_width pl < Vec3_slen (Vec3_sub (tp_pos pl) (tv_pos tv))
      else tp_pos pl \<noteq> tv_pos hv)"

text \<open>The motion of the point after the life time has been counted down.\<close>

definition tefpol_advance :: "real \<Rightarrow> tefpol \<Rightarrow> tefpol" where
  "tefpol_advance dt pl =
     (let pl = pl\<lparr>tp_velo := Vec3_addin (tp_velo pl) (Vec3_scale (tp_grv pl) dt)\<rparr>
      in pl\<lparr>tp_pos := Vec3_addin (tp_pos pl) (Vec3_scale (tp_velo pl) dt)\<rparr>)"

fun reflect_velo :: "real \<Rightarrow> real Vec3 \<Rightarrow> real Vec3 \<Rightarrow> real Vec3" where
  "reflect_velo dt (Vec3 p0 p1 p2) (Vec3 v0 v1 v2) =
     (if p1 + v1 * dt < 0 then Vec3 v0 (v1 * - REFLACTION) v2 else Vec3 v0 v1 v2)"

definition tefpol_reflect :: "real \<Rightarrow> tefpol \<Rightarrow> tefpol" where
  "tefpol_reflect dt pl =
     (if tp_flags pl AND TEP3_REFLECT \<noteq> 0 then pl\<lparr>tp_velo := reflect_velo dt (tp_pos pl) (tp_velo pl)\<rparr> else pl)"

section \<open>One object in one frame\<close>

text \<open>The sum of the times of the vertices, and the removal of those that are too old.\<close>

partial_function (option) sum_dt :: "te_vertice_list \<Rightarrow> ptr \<Rightarrow> real \<Rightarrow> real option" where
  "sum_dt v p t =
     (case p of None \<Rightarrow> Some t
      | Some x \<Rightarrow> do {
          tv \<leftarrow> vert_at v x;
          q \<leftarrow> aread (vl_next v) x;
          sum_dt v q (t + \<bar>tv_dt tv\<bar>) })"

text \<open>A vertex of the head goes to the head of the free list.\<close>

definition drop_head :: "tefpol \<Rightarrow> te_vertice_list \<Rightarrow> (tefpol \<times> te_vertice_list \<times> real) option" where
  "drop_head pl v = do {
     pv \<leftarrow> tp_head pl;
     nx \<leftarrow> aread (vl_next v) pv;
     let pl = pl\<lparr>tp_head := nx\<rparr>;
     v \<leftarrow> link_vertex pv (vl_lfree v) v;
     let v = v\<lparr>vl_lfree := Some pv\<rparr>;
     let pl = (if tp_head pl = None then pl\<lparr>tp_tail := None\<rparr> else pl);
     q \<leftarrow> aread (vl_next v) pv;
     let v = (if q = None then v\<lparr>vl_lfst := Some pv\<rparr> else v);
     tv \<leftarrow> vert_at v pv;
     Some (pl, v, \<bar>tv_dt tv\<bar>) }"

partial_function (option) drop_outdated :: "real \<Rightarrow> tefpol \<Rightarrow> te_vertice_list \<Rightarrow> (tefpol \<times> te_vertice_list) option" where
  "drop_outdated t pl v =
     (if cs_t (tp_cs pl) < t then do {
        (pl, v, d) \<leftarrow> drop_head pl v;
        drop_outdated (t - d) pl v }
      else Some (pl, v))"

definition free_outdated :: "tefpol \<Rightarrow> te_vertice_list \<Rightarrow> (tefpol \<times> te_vertice_list) option" where
  "free_outdated pl v = do { t \<leftarrow> sum_dt v (tp_head pl) 0; drop_outdated t pl v }"

text \<open>Changing the vertex at the tail, if there is one.\<close>

definition tail_update :: "(tevert \<Rightarrow> tevert) \<Rightarrow> tefpol \<Rightarrow> te_vertice_list \<Rightarrow> te_vertice_list option" where
  "tail_update f pl v =
     (case tp_tail pl of None \<Rightarrow> Some v
      | Some x \<Rightarrow> do { tv \<leftarrow> vert_at v x; vert_put x (f tv) v })"

text \<open>Getting a vertex for the tail: one from the free list, or, when it is empty, the oldest of the
  trail itself.\<close>

definition take_vertex :: "tefpol \<Rightarrow> te_vertice_list \<Rightarrow> (ptr \<times> tefpol \<times> te_vertice_list) option" where
  "take_vertex pl v =
     (case vl_lfree v of
        None \<Rightarrow>
          (case tp_head pl of None \<Rightarrow> Some (None, pl, v)
           | Some pv \<Rightarrow> do {
               pt \<leftarrow> tp_tail pl;
               v \<leftarrow> link_vertex pt (tp_head pl) v;
               let pl = pl\<lparr>tp_tail := tp_head pl\<rparr>;
               nx \<leftarrow> aread (vl_next v) pv;
               let pl = pl\<lparr>tp_head := nx\<rparr>;
               v \<leftarrow> link_vertex pv None v;
               Some (Some pv, pl, v) })
      | Some pv \<Rightarrow> do {
          nx \<leftarrow> aread (vl_next v) pv;
          let v = v\<lparr>vl_lfree := nx, vl_lfst := (if nx = None then None else vl_lfst v)\<rparr>;
          v \<leftarrow> link_vertex pv None v;
          (pl, v) \<leftarrow> (case tp_tail pl of
             Some pt \<Rightarrow> do { v \<leftarrow> link_vertex pt (Some pv) v; Some (pl, v) }
           | None \<Rightarrow> Some (pl\<lparr>tp_head := Some pv\<rparr>, v));
          Some (Some pv, pl\<lparr>tp_tail := Some pv\<rparr>, v) })"

text \<open>Whether a vertex is to be generated; the vertices at the ends are read only where the code does.\<close>

definition tefpol_genvert :: "tefpol \<Rightarrow> te_vertice_list \<Rightarrow> bool option" where
  "tefpol_genvert pl v =
     (if tp_life pl > 0 then
        (case (tp_head pl, tp_tail pl) of
           (Some ph, Some pt) \<Rightarrow> do {
             tv \<leftarrow> vert_at v pt;
             hv \<leftarrow> vert_at v ph;
             Some (tefpol_far pl hv tv) }
         | _ \<Rightarrow> Some True)
      else Some False)"

text \<open>The vertex of this frame; the flag says whether one was added.\<close>

definition add_vertex :: "real \<Rightarrow> tefpol \<Rightarrow> te_vertice_list \<Rightarrow> (tefpol \<times> te_vertice_list \<times> bool) option" where
  "add_vertex dt pl v =
     (if tp_flags pl AND TEP3_SKIP \<noteq> 0 then do {
        v \<leftarrow> tail_update (\<lambda>tv. tv\<lparr>tv_pos := tp_pos pl, tv_dt := - \<bar>tv_dt tv\<bar> - dt\<rparr>) pl v;
        Some (pl, v, False) }
      else do {
        genvert \<leftarrow> tefpol_genvert pl v;
        (if genvert then
           (let pl = pl\<lparr>tp_cnt := tp_cnt pl + 1\<rparr>
            in if tp_flags pl AND TEP3_ROUGH = 0 \<or> tp_cnt pl mod 2 \<noteq> 0 then do {
                 (pv, pl, v) \<leftarrow> take_vertex pl v;
                 (case pv of None \<Rightarrow> Some (pl, v, False)
                  | Some x \<Rightarrow> do {
                      v \<leftarrow> vert_put x \<lparr>tv_pos = tp_pos pl, tv_dt = dt\<rparr> v;
                      Some (pl, v, True) }) }
               else do {
                 v \<leftarrow> tail_update (\<lambda>tv. tv\<lparr>tv_pos := tp_pos pl\<rparr>) pl v;
                 Some (pl, v, False) })
         else do {
           v \<leftarrow> tail_update (\<lambda>tv. tv\<lparr>tv_dt := tv_dt tv + dt\<rparr>) pl v;
           Some (pl, v, False) }) })"

definition tefpol_motion :: "real \<Rightarrow> tefpol \<Rightarrow> te_vertice_list \<Rightarrow> (tefpol \<times> te_vertice_list) option" where
  "tefpol_motion dt pl v =
     (let pl = pl\<lparr>tp_life := tp_life pl - dt\<rparr>
      in if tp_life pl > 0 then Some (tefpol_reflect dt (tefpol_advance dt pl), v)
         else do {
           v \<leftarrow> tail_update (\<lambda>tv. tv\<lparr>tv_dt := tv_dt tv + dt\<rparr>) pl v;
           Some (tefpol_reflect dt pl, v) })"

definition tefpol_frame :: "real \<Rightarrow> tefpol \<Rightarrow> te_vertice_list \<Rightarrow> (tefpol \<times> te_vertice_list \<times> bool) option" where
  "tefpol_frame dt pl v = do {
     (pl, v) \<leftarrow> free_outdated pl v;
     (pl, v, added) \<leftarrow> add_vertex dt pl v;
     (pl, v) \<leftarrow> tefpol_motion dt pl v;
     Some (pl, v, added) }"

section \<open>The list\<close>

record tepl = "tefpol pool" +
  tp_m :: uint32
  tp_ml :: uint32
  tp_mex :: uint32
  tp_bs :: uint32
  tp_debug_m :: uint32
  tp_debug_c :: uint32
  tp_debug_s :: uint32
  tp_debug_vc :: uint32
  tp_debug_vs :: uint32

definition TefpolList_new :: "(nat \<Rightarrow> ptr) \<Rightarrow> uint32 \<Rightarrow> uint32 \<Rightarrow> uint32 \<Rightarrow> tepl" where
  "TefpolList_new junk maxt init unit =
     \<lparr>pl_next = init_links junk init, pl_buf = replicate (unat init) None,
      pl_lfree = Some 0, pl_lactv = None, pl_last = None,
      tp_m = maxt, tp_ml = init, tp_mex = unit, tp_bs = init,
      tp_debug_m = init, tp_debug_c = 0, tp_debug_s = 0, tp_debug_vc = 0, tp_debug_vs = 0\<rparr>"

text \<open>The first active node that is not movable, with the field that points to it.\<close>

partial_function (option) find_immovable :: "tepl \<Rightarrow> link \<Rightarrow> (link \<times> ptr) option" where
  "find_immovable p ppl = do {
     q \<leftarrow> link_get p ppl;
     (case q of None \<Rightarrow> Some (ppl, None)
      | Some x \<Rightarrow> do {
          ob \<leftarrow> pool_object p x;
          (if tp_flags ob AND TEP3_MOVABLE \<noteq> 0 then find_immovable p (Next x) else Some (ppl, Some x)) }) }"

text \<open>Reusing it: its vertices are freed, and it moves to the end of the active list.\<close>

definition reuse_node :: "nat \<Rightarrow> link \<Rightarrow> tepl \<Rightarrow> te_vertice_list \<Rightarrow> (tepl \<times> te_vertice_list) option" where
  "reuse_node pl ppl p v = do {
     ob \<leftarrow> pool_object p pl;
     _ \<leftarrow> assert_end (vl_next v) (tp_tail ob);
     (ph, v) \<leftarrow> freeVertex (tp_head ob) (tp_tail ob) v;
     p \<leftarrow> pool_put p pl (ob\<lparr>tp_head := ph\<rparr>);
     p \<leftarrow> pool_to_end p pl ppl;
     Some (p, v) }"

definition tefpol_node :: "tepl \<Rightarrow> te_vertice_list \<Rightarrow> (ptr \<times> tepl \<times> te_vertice_list) option" where
  "tefpol_node p v =
     (if tp_m p = 0 then Some (None, p, v)
      else
        (case pl_lfree p of
           None \<Rightarrow>
             if tp_mex p \<noteq> 0 \<and> tp_bs p + tp_mex p \<le> tp_m p then
               let p = pool_extend p (unat (tp_mex p));
                   p = p\<lparr>tp_bs := tp_bs p + tp_mex p\<rparr>
               in Some (pl_lfree p, p\<lparr>tp_debug_m := tp_bs p\<rparr>, v)
             else do {
               (ppl, q) \<leftarrow> find_immovable p Head;
               (case q of None \<Rightarrow> Some (None, p, v)
                | Some pl \<Rightarrow>
                    if pl_last p = Some pl then Some (None, p, v)
                    else do { (p, v) \<leftarrow> reuse_node pl ppl p v; Some (Some pl, p, v) }) }
         | Some pl \<Rightarrow> do { p \<leftarrow> pool_pop p pl; Some (Some pl, p, v) }))"

definition allocTefpol3D :: "tefpol \<Rightarrow> tepl \<times> te_vertice_list \<Rightarrow> (ptr \<times> tepl \<times> te_vertice_list) option" where
  "allocTefpol3D ob s = do {
     (pl, p, v) \<leftarrow> tefpol_node (fst s) (snd s);
     (case pl of None \<Rightarrow> Some (None, p, v)
      | Some x \<Rightarrow> do {
          p \<leftarrow> pool_put p x ob;
          Some (Some x, p\<lparr>tp_debug_s := tp_debug_s p + 1\<rparr>, v) }) }"

definition addTefpol :: "real Vec3 \<Rightarrow> real Vec3 \<Rightarrow> real Vec3 \<Rightarrow> color_sequence \<Rightarrow> uint32 \<Rightarrow> real
    \<Rightarrow> tepl \<times> te_vertice_list \<Rightarrow> (tepl \<times> te_vertice_list) option" where
  "addTefpol pos velo grv col f life s = do {
     (_, s) \<leftarrow> allocTefpol3D (tefpol_new pos velo grv col (f AND NOT (TEP3_MOVABLE OR TEP3_SKIP)) life) s;
     Some s }"

definition addTefpolMovable :: "real Vec3 \<Rightarrow> real Vec3 \<Rightarrow> real Vec3 \<Rightarrow> color_sequence \<Rightarrow> uint32 \<Rightarrow> real
    \<Rightarrow> tepl \<times> te_vertice_list \<Rightarrow> (ptr \<times> tepl \<times> te_vertice_list) option" where
  "addTefpolMovable pos velo grv col f life s =
     allocTefpol3D (tefpol_new pos velo grv col (f OR TEP3_MOVABLE) life) s"

text \<open>The members called through a pointer to an object.\<close>

definition on_tefpol :: "(tefpol \<Rightarrow> tefpol) \<Rightarrow> nat \<Rightarrow> tepl \<Rightarrow> tepl option" where
  "on_tefpol f x p = do { ob \<leftarrow> pool_object p x; pool_put p x (f ob) }"

partial_function (option) tefpol_loop ::
  "real \<Rightarrow> ptr \<Rightarrow> link \<Rightarrow> tepl \<Rightarrow> te_vertice_list \<Rightarrow> (tepl \<times> te_vertice_list) option" where
  "tefpol_loop dt pl ppl p v =
     (case pl of None \<Rightarrow> Some (p, v)
      | Some x \<Rightarrow> do {
          ob \<leftarrow> pool_object p x;
          (if tefpol_dead ob then do {
             (ph, v) \<leftarrow> freeVertex (tp_head ob) (tp_tail ob) v;
             p \<leftarrow> pool_put p x (ob\<lparr>tp_head := ph, tp_tail := None\<rparr>);
             (pl2, p) \<leftarrow> pool_unlink p x ppl;
             tefpol_loop dt pl2 ppl p v }
           else do {
             pl2 \<leftarrow> aread (pl_next p) x;
             (ob, v, added) \<leftarrow> tefpol_frame dt ob (svl_alloc v);
             p \<leftarrow> pool_put p x ob;
             tefpol_loop dt pl2 (Next x)
               (p\<lparr>tp_debug_vs := tp_debug_vs p + (if added then 1 else 0)\<rparr>) v }) })"

definition TefpolList_anim :: "real \<Rightarrow> tepl \<times> te_vertice_list \<Rightarrow> (tepl \<times> te_vertice_list) option" where
  "TefpolList_anim dt s = do {
     (p, v) \<leftarrow> tefpol_loop dt (pl_lactv (fst s)) Head (fst s) (snd s);
     p \<leftarrow> (if tp_ml p \<noteq> 0 then do {
         i \<leftarrow> count_chain (pl_next p) (pl_lactv p) 0;
         Some (p\<lparr>tp_debug_c := i\<rparr>) } else Some p);
     p \<leftarrow> (if vl_m v \<noteq> 0 then do {
         i \<leftarrow> count_chain (vl_next v) (vl_lfree v) 0;
         Some (p\<lparr>tp_debug_vc := vl_m v - i\<rparr>) } else Some p);
     Some (p, v) }"

text \<open>The destructor gives the vertices of its objects back.\<close>

partial_function (option) free_trails :: "tepl \<Rightarrow> ptr \<Rightarrow> te_vertice_list \<Rightarrow> te_vertice_list option" where
  "free_trails p pl v =
     (case pl of None \<Rightarrow> Some v
      | Some x \<Rightarrow> do {
          ob \<leftarrow> pool_object p x;
          (_, v) \<leftarrow> freeVertex (tp_head ob) (tp_tail ob) v;
          nx \<leftarrow> aread (pl_next p) x;
          free_trails p nx v })"

definition TefpolList_delete :: "tepl \<times> te_vertice_list \<Rightarrow> te_vertice_list option" where
  "TefpolList_delete s = free_trails (fst s) (pl_lactv (fst s)) (snd s)"

end
