(* ===== verification/Teline_Correct.thy ===== *)
theory Teline_Correct
  imports Teline
begin

text \<open>
  The list of telines is well formed after any sequence of calls, and animating it is mapping
  the motion over its objects and dropping those whose life is over.
\<close>

definition teline_step :: "real \<Rightarrow> teline \<Rightarrow> teline option" where
  "teline_step dt ob = (case Teline3_update dt ob of (alive, ob') \<Rightarrow> if alive then Some ob' else None)"

lemma te_more:
  "pool.more p = pool.more q \<Longrightarrow> te_m p = te_m q \<and> te_ml p = te_ml q \<and> te_mex p = te_mex q
     \<and> te_bs p = te_bs q" for p q :: tlist
  by (cases p; cases q) simp

lemma map_filter_simps [simp]:
  "List.map_filter f [] = []"
  "List.map_filter f (x # xs) = (case f x of None \<Rightarrow> List.map_filter f xs | Some y \<Rightarrow> y # List.map_filter f xs)"
  by (simp_all add: List.map_filter_def split: option.split)

lemma objects_at_simps [simp]:
  "objects_at b [] = []" "objects_at b (x # xs) = the (b ! x) # objects_at b xs"
  by (simp_all add: objects_at_def)

lemma anim_loop_spec:
  assumes "pool_lists p (xs @ ys) fr" "chain (pl_next p) q ys"
  shows "\<exists>p' zs fr'. anim_loop dt q (link_at xs) p = Some p' \<and> pool_lists p' (xs @ zs) fr'
     \<and> objects_at (pl_buf p') (xs @ zs) = objects_at (pl_buf p) xs
         @ List.map_filter (teline_step dt) (objects_at (pl_buf p) ys)
     \<and> length (pl_next p') = length (pl_next p) \<and> pool.more p' = pool.more p"
  using assms
proof (induction ys arbitrary: xs p q fr)
  case Nil
  then show ?case
    by (intro exI [of _ p] exI [of _ "[]"] exI [of _ fr], subst anim_loop.simps) auto
next
  case (Cons x ys)
  from Cons.prems have q: "q = Some x" "x < length (pl_next p)" and d: "x \<notin> set xs" "x \<notin> set ys"
    and b: "pl_buf p ! x \<noteq> None" "length (pl_buf p) = length (pl_next p)"
    by (auto simp: pool_lists_def)
  define ob where "ob = the (pl_buf p ! x)"
  have ob: "pool_object p x = Some ob" using b q by (auto simp: pool_object_def mem_simps ob_def)
  obtain p1 where p1: "pool_put p x (snd (Teline3_update dt ob)) = Some p1"
    "pool_lists p1 (xs @ x # ys) fr" "pl_buf p1 = (pl_buf p)[x := Some (snd (Teline3_update dt ob))]"
    "p1 = p\<lparr>pl_buf := pl_buf p1\<rparr>"
    using pool_put_active [OF Cons.prems(1), of x "snd (Teline3_update dt ob)"] by auto
  have n1: "pl_next p1 = pl_next p" by (subst p1(4)) simp
  have m1: "pool.more p1 = pool.more p" by (rule pool_more(1) [OF p1(1)])
  show ?case
  proof (cases "fst (Teline3_update dt ob)")
    case True
    define q' where "q' = pl_next p ! x"
    have "chain (pl_next p1) q' ys" using Cons.prems(2) q by (simp add: n1 q'_def)
    moreover have "pool_lists p1 ((xs @ [x]) @ ys) fr" using p1(2) by simp
    ultimately obtain p' zs fr' where *: "anim_loop dt q' (link_at (xs @ [x])) p1 = Some p'"
      "pool_lists p' ((xs @ [x]) @ zs) fr'"
      "objects_at (pl_buf p') ((xs @ [x]) @ zs) = objects_at (pl_buf p1) (xs @ [x])
         @ List.map_filter (teline_step dt) (objects_at (pl_buf p1) ys)"
      "length (pl_next p') = length (pl_next p1)" "pool.more p' = pool.more p1"
      using Cons.IH by blast
    have "anim_loop dt q (link_at xs) p = Some p'"
      using *(1) True q ob p1(1) n1 by (subst anim_loop.simps) (simp add: mem_simps link_at_def q'_def)
    moreover have "teline_step dt ob = Some (snd (Teline3_update dt ob))"
      using True by (simp add: teline_step_def split_beta)
    ultimately show ?thesis using *(2-5) m1 n1 d b q
      by (intro exI [of _ p'] exI [of _ "x # zs"] exI [of _ fr']) (simp add: p1(3) flip: ob_def)
  next
    case False
    obtain q' p2 where p2: "pool_remove p1 x (link_at xs) = Some (q', p2)" "pool_lists p2 (xs @ ys) (x # fr)"
      "chain (pl_next p2) q' ys" "pl_buf p2 = (pl_buf p1)[x := None]"
      using pool_remove_lists [OF p1(2)] by auto
    obtain p' zs fr' where *: "anim_loop dt q' (link_at xs) p2 = Some p'" "pool_lists p' (xs @ zs) fr'"
      "objects_at (pl_buf p') (xs @ zs) = objects_at (pl_buf p2) xs
         @ List.map_filter (teline_step dt) (objects_at (pl_buf p2) ys)"
      "length (pl_next p') = length (pl_next p2)" "pool.more p' = pool.more p2"
      using Cons.IH [OF p2(2,3)] by blast
    have len: "length (pl_next p2) = length (pl_next p)"
      using p2(2) p2(4) p1(3) b by (simp add: pool_lists_def)
    have "anim_loop dt q (link_at xs) p = Some p'"
      using *(1) False q ob p1(1) p2(1) by (subst anim_loop.simps) simp
    moreover have "teline_step dt ob = None" using False by (simp add: teline_step_def split_beta)
    ultimately show ?thesis using *(2-5) m1 pool_more(4) [OF p2(1)] d len
      by (intro exI [of _ p'] exI [of _ zs] exI [of _ fr']) (simp add: p2(4) p1(3) flip: ob_def)
  qed
qed

text \<open>The invariant of the list: its pool is well formed and \<open>bs\<close> counts the nodes.\<close>

definition tlist_ok :: "tlist \<Rightarrow> bool" where
  "tlist_ok p \<longleftrightarrow> pool_ok p \<and> te_bs p = of_nat (length (pl_next p))"

lemma tlist_okI: "pool_lists p ac fr \<Longrightarrow> te_bs p = of_nat (length (pl_next p)) \<Longrightarrow> tlist_ok p"
  by (auto simp: tlist_ok_def intro: pool_okI)

lemma pool_lists_fields:
  "pl_next p = pl_next q \<Longrightarrow> pl_buf p = pl_buf q \<Longrightarrow> pl_lfree p = pl_lfree q \<Longrightarrow> pl_lactv p = pl_lactv q
   \<Longrightarrow> pl_last p = pl_last q \<Longrightarrow> pool_lists p ac fr = pool_lists q ac fr"
  by (simp add: pool_lists_def)

lemma pool_objects_fields:
  "pl_next p = pl_next q \<Longrightarrow> pl_buf p = pl_buf q \<Longrightarrow> pl_lactv p = pl_lactv q \<Longrightarrow> pool_objects p = pool_objects q"
  by (simp add: pool_objects_def pool_active_def)

lemma AnimTeline3D_ok:
  assumes "tlist_ok p"
  shows "\<exists>p'. AnimTeline3D dt p = Some p' \<and> tlist_ok p'
     \<and> pool_objects p' = List.map_filter (teline_step dt) (pool_objects p)"
proof -
  obtain ac fr where l: "pool_lists p ac fr" "pool_objects p = objects_at (pl_buf p) ac"
    using assms by (auto simp: tlist_ok_def elim: pool_okE)
  then have "pool_lists p ([] @ ac) fr" "chain (pl_next p) (pl_lactv p) ac" by (auto simp: pool_lists_def)
  from anim_loop_spec [OF this, of dt] obtain p' zs fr' where
    *: "anim_loop dt (pl_lactv p) Head p = Some p'" "pool_lists p' zs fr'"
    "objects_at (pl_buf p') zs = List.map_filter (teline_step dt) (objects_at (pl_buf p) ac)"
    "length (pl_next p') = length (pl_next p)" "pool.more p' = pool.more p"
    by (auto simp: link_at_def)
  have c: "count_chain (pl_next p') (pl_lactv p') 0 = Some (of_nat (length zs))"
    using *(2) count_chain_length [of "pl_next p'" "pl_lactv p'" zs 0] by (simp add: pool_lists_def)
  define p'' where "p'' = (if te_ml p' \<noteq> 0 then p'\<lparr>te_debug_c := of_nat (length zs)\<rparr> else p')"
  have f: "pl_next p'' = pl_next p'" "pl_buf p'' = pl_buf p'" "pl_lfree p'' = pl_lfree p'"
    "pl_lactv p'' = pl_lactv p'" "pl_last p'' = pl_last p'" "te_bs p'' = te_bs p'"
    by (simp_all add: p''_def)
  have "pool_lists p'' zs fr'" using *(2) pool_lists_fields [OF f(1-5)] by simp
  moreover have "AnimTeline3D dt p = Some p''" using *(1) c by (simp add: AnimTeline3D_def p''_def)
  moreover have "te_bs p'' = of_nat (length (pl_next p''))"
    using te_more [OF *(5)] *(4) f assms by (simp add: tlist_ok_def)
  ultimately show ?thesis using *(3) l(2) pool_lists_walk(3) [of p'' zs fr'] f(2)
    by (intro exI [of _ p'']) (auto intro: tlist_okI)
qed

section \<open>Adding\<close>

text \<open>Where a new object goes: the objects of the list after an addition.\<close>

definition alloc_spec :: "tlist \<Rightarrow> teline \<Rightarrow> teline list" where
  "alloc_spec p ob =
     (if te_m p = 0 then pool_objects p
      else if pl_lfree p \<noteq> None then ob # pool_objects p
      else if te_mex p \<noteq> 0 \<and> te_bs p + te_mex p \<le> te_m p then pool_objects p
      else (case pool_objects p of [] \<Rightarrow> [] | _ # obs \<Rightarrow> obs @ [ob]))"

definition add_object :: "teline \<Rightarrow> tlist \<Rightarrow> tlist option" where
  "add_object ob p = do {
     (pl, p) \<leftarrow> alloc_teline p;
     (case pl of None \<Rightarrow> Some p | Some x \<Rightarrow> pool_put p x ob) }"

lemma Add_add_object:
  "AddTeline3D ci col = add_object (make_teline ci col)"
  "AddTelineCallback3D ci f pd = add_object (make_callback ci f pd)"
  by (simp_all add: fun_eq_iff AddTeline3D_def AddTelineCallback3D_def add_object_def)

text \<open>Moving the first active node to the end.\<close>

lemma pool_roll:
  fixes p :: tlist
  assumes "pool_lists p (x # ac) fr"
  defines "h \<equiv> (pl_next p)[last (x # ac) := Some x]"
  shows "pool_lists (p\<lparr>pl_next := h[x := None], pl_last := Some x, pl_lactv := h ! x\<rparr>) (ac @ [x]) fr"
proof -
  have d: "x \<notin> set ac" "distinct ac" "x < length (pl_next p)" "x \<notin> set fr" "set ac \<inter> set fr = {}"
    "chain (pl_next p) (pl_lfree p) fr" "chain (pl_next p) (pl_next p ! x) ac"
    "insert x (set ac) \<union> set fr = {..<length (pl_next p)}" "length (pl_buf p) = length (pl_next p)"
    "\<forall>y \<in> insert x (set ac). pl_buf p ! y \<noteq> None" "distinct fr"
    using assms by (auto simp: pool_lists_def)
  have "path (h[x := None]) (h ! x) ac (Some x)"
  proof (cases "ac = []")
    case True then show ?thesis using d by (simp add: h_def)
  next
    case False
    then have "last ac \<noteq> x" using d(1) last_in_set by metis
    with path_redirect [OF d(7) False d(2), of "Some x"] False d(1) show ?thesis
      by (simp add: h_def path_update nth_list_update)
  qed
  moreover have "chain (h[x := None]) (pl_lfree p) fr"
  proof -
    have "last (x # ac) \<notin> set fr" using d(4,5) last_in_set [of "x # ac"] by auto
    with d show ?thesis by (simp add: h_def path_update)
  qed
  ultimately show ?thesis using d
    by (auto simp: pool_lists_def path_append h_def)
qed

lemma add_object_free:
  assumes l: "pool_lists p ac (x # fr)" and bs: "te_bs p = of_nat (length (pl_next p))" and m: "te_m p \<noteq> 0"
  shows "\<exists>p'. add_object ob p = Some p' \<and> tlist_ok p' \<and> pool_objects p' = ob # objects_at (pl_buf p) ac"
proof -
  have f: "pl_lfree p = Some x" using l by (auto simp: pool_lists_def)
  from pool_pop_put [OF l, of ob] obtain p1 p2 where
    p12: "pool_pop p x = Some p1" "pool_put p1 x ob = Some p2" "pool_lists p2 (x # ac) fr"
    "pl_buf p2 = (pl_buf p)[x := Some ob]" "pl_buf p1 = pl_buf p" by auto
  define p3 where "p3 = p2\<lparr>te_debug_s := te_debug_s p1 + 1\<rparr>"
  have "pool_put (p1\<lparr>te_debug_s := te_debug_s p1 + 1\<rparr>) x ob = Some p3"
    using p12(2) by (auto simp: pool_put_def p3_def split: Option.bind_splits)
  then have add: "add_object ob p = Some p3" using m f p12(1) by (simp add: add_object_def alloc_teline_def)
  have p3: "pool_lists p3 (x # ac) fr" using p12(3) by (simp add: p3_def pool_lists_def)
  have "te_bs p3 = te_bs p"
    using te_more [of p1 p] te_more [of p2 p1] pool_more(1) [OF p12(2)] pool_more(2) [OF p12(1)]
    by (simp add: p3_def)
  moreover have "length (pl_next p3) = length (pl_next p)"
    using l p12(3,4) by (simp add: p3_def pool_lists_def)
  ultimately have ok: "tlist_ok p3" using bs tlist_okI [OF p3] by simp
  have "x < length (pl_buf p)" "x \<notin> set ac" using l by (auto simp: pool_lists_def)
  then have "pool_objects p3 = ob # objects_at (pl_buf p) ac"
    using pool_lists_walk(3) [OF p3] p12(4) by (simp add: p3_def)
  with add ok show ?thesis by blast
qed

lemma add_object_extend:
  assumes l: "pool_lists p ac []" and bs: "te_bs p = of_nat (length (pl_next p))" and m: "te_m p \<noteq> 0"
    and e: "te_mex p \<noteq> 0 \<and> te_bs p + te_mex p \<le> te_m p"
  shows "\<exists>p'. add_object ob p = Some p' \<and> tlist_ok p' \<and> pool_objects p' = objects_at (pl_buf p) ac"
proof -
  have f: "pl_lfree p = None" using l by (auto simp: pool_lists_def)
  define n k where "n = unat (te_mex p)" and "k = length (pl_next p)"
  define p1 where "p1 = (pool_extend p n)\<lparr>te_bs := te_bs p + te_mex p, te_debug_m := te_bs p + te_mex p,
       te_debug_s := te_debug_s p + 1\<rparr>"
  have n: "0 < n" using e by (simp add: n_def unat_gt_0)
  have "pool_lists (pool_extend p n) ac [k..<k + n]" using pool_extend_lists [OF l n] by (simp add: k_def)
  then have p1: "pool_lists p1 ac (k # [Suc k..<k + n])"
    using n by (simp add: p1_def pool_lists_def upt_conv_Cons)
  from pool_put_free [OF p1, of ob] obtain p2 where p2: "pool_put p1 k ob = Some p2"
    "pool_lists p2 ac (k # [Suc k..<k + n])" "pl_buf p2 = (pl_buf p1)[k := Some ob]" by blast
  have add: "add_object ob p = Some p2" using m f e p2(1)
    by (simp add: add_object_def alloc_teline_def Let_def n_def p1_def pool_extend_def k_def)
  have "length (pl_next p2) = length (pl_next p1)" using p1 p2(2,3) by (simp add: pool_lists_def)
  moreover have "length (pl_next p1) = length (pl_next p) + n"
    using n by (simp add: p1_def pool_extend_def Let_def)
  moreover have "te_bs p2 = te_bs p1" using te_more [of p2 p1] pool_more(1) [OF p2(1)] by simp
  ultimately have ok: "tlist_ok p2" using bs tlist_okI [OF p2(2)] by (simp add: p1_def n_def)
  have "k \<notin> set ac" "set ac \<subseteq> {..<length (pl_buf p)}" using l by (auto simp: pool_lists_def k_def)
  then have "pool_objects p2 = objects_at (pl_buf p) ac"
    using pool_lists_walk(3) [OF p2(2)] by (simp add: p2(3) p1_def pool_extend_def Let_def)
  with add ok show ?thesis by blast
qed

lemma add_object_roll:
  assumes l: "pool_lists p (x # as) []" and bs: "te_bs p = of_nat (length (pl_next p))" and m: "te_m p \<noteq> 0"
    and full: "\<not> (te_mex p \<noteq> 0 \<and> te_bs p + te_mex p \<le> te_m p)"
  shows "\<exists>p'. add_object ob p = Some p' \<and> tlist_ok p' \<and> pool_objects p' = objects_at (pl_buf p) as @ [ob]"
proof -
  define h where "h = (pl_next p)[last (x # as) := Some x]"
  define p2 where "p2 = p\<lparr>pl_next := h[x := None], pl_last := Some x, pl_lactv := h ! x,
      te_debug_s := te_debug_s p + 1\<rparr>"
  have x: "pl_lactv p = Some x" "pl_last p = Some (last (x # as))" "x < length (pl_next p)" "pl_lfree p = None"
    "x \<notin> set as" "length (pl_buf p) = length (pl_next p)"
    using l unfolding pool_lists_def by simp_all
  have "set (x # as) \<subseteq> {..<length (pl_next p)}" using l by (simp add: pool_lists_def)
  then have y: "last (x # as) < length (pl_next p)" using last_in_set [of "x # as"] by blast
  have w: "awrite (pl_next p) (last (x # as)) (Some x) = Some h"
    using y unfolding h_def by (rule awrite_inside)
  have "aread h x = Some (h ! x)" "awrite h x None = Some (h[x := None])"
    using x(3) by (simp_all add: mem_simps h_def)
  then have alloc: "alloc_teline p = Some (Some x, p2)"
    unfolding alloc_teline_def x(1,2,4) if_not_P [OF m] if_not_P [OF full] option.case w Let_def p2_def
      Option.bind.bind_lunit by simp
  have "pool_lists p2 (as @ [x]) []"
    using pool_roll [OF l] unfolding h_def [symmetric]
    by (rule iffD1 [OF pool_lists_fields, rotated 5]) (simp_all add: p2_def)
  from pool_put_active [OF this, of x ob] obtain p3 where p3: "pool_put p2 x ob = Some p3"
    "pool_lists p3 (as @ [x]) []" "pl_buf p3 = (pl_buf p2)[x := Some ob]" "p3 = p2\<lparr>pl_buf := pl_buf p3\<rparr>"
    by auto
  have add: "add_object ob p = Some p3" using alloc p3(1) by (simp add: add_object_def)
  have "te_bs p3 = te_bs p2" "pl_next p3 = pl_next p2" by (subst p3(4), simp)+
  then have ok: "tlist_ok p3" using bs tlist_okI [OF p3(2)] by (simp add: p2_def h_def)
  have "pool_objects p3 = objects_at (pl_buf p) as @ [ob]"
    using pool_lists_walk(3) [OF p3(2)] x by (simp add: p3(3)) (simp add: p2_def)
  with add ok show ?thesis by blast
qed

lemma add_object_ok:
  assumes "tlist_ok p"
  shows "\<exists>p'. add_object ob p = Some p' \<and> tlist_ok p' \<and> pool_objects p' = alloc_spec p ob"
proof -
  obtain ac fr where l: "pool_lists p ac fr" "pool_objects p = objects_at (pl_buf p) ac"
    and bs: "te_bs p = of_nat (length (pl_next p))"
    using assms by (auto simp: tlist_ok_def elim: pool_okE)
  have e: "fr = [] \<longleftrightarrow> pl_lfree p = None" "ac = [] \<longleftrightarrow> pl_lactv p = None"
    using l(1) chain_Nil_iff unfolding pool_lists_def by blast+
  consider "te_m p = 0" | "te_m p \<noteq> 0" "fr \<noteq> []"
    | "te_m p \<noteq> 0" "fr = []" "te_mex p \<noteq> 0 \<and> te_bs p + te_mex p \<le> te_m p"
    | "te_m p \<noteq> 0" "fr = []" "\<not> (te_mex p \<noteq> 0 \<and> te_bs p + te_mex p \<le> te_m p)" "ac = []"
    | "te_m p \<noteq> 0" "fr = []" "\<not> (te_mex p \<noteq> 0 \<and> te_bs p + te_mex p \<le> te_m p)" "ac \<noteq> []"
    by blast
  then show ?thesis
  proof cases
    case 1 then show ?thesis using assms by (auto simp: add_object_def alloc_teline_def alloc_spec_def)
  next
    case 2
    then obtain x fr' where "fr = x # fr'" by (cases fr) auto
    then show ?thesis using add_object_free [of p ac x fr' ob] 2 l bs e(1) by (simp add: alloc_spec_def)
  next
    case 3
    then show ?thesis using add_object_extend [of p ac ob] l bs e(1) by (simp add: alloc_spec_def)
  next
    case 4
    then show ?thesis using assms e l(2) by (auto simp: add_object_def alloc_teline_def alloc_spec_def)
  next
    case 5
    then obtain x as where "ac = x # as" by (cases ac) auto
    with 5 l(2) e(1) have "alloc_spec p ob = objects_at (pl_buf p) as @ [ob]"
      unfolding alloc_spec_def by (simp only: if_False not_True_eq_False simp_thms) simp
    then show ?thesis using add_object_roll [of p x as ob] 5 l bs \<open>ac = x # as\<close> by simp
  qed
qed

text \<open>The list as a component: what the game adds to it, and how it is animated.\<close>

datatype teline_call = AddTeline teline_info uint32 | AddCallback teline_info nat nat

fun teline_add :: "teline_call \<Rightarrow> tlist \<Rightarrow> tlist option" where
  "teline_add (AddTeline ci col) p = AddTeline3D ci col p"
| "teline_add (AddCallback ci f pd) p = AddTelineCallback3D ci f pd p"

interpretation teline: entity_motion tlist_ok "\<lambda>_. True" teline_add AnimTeline3D pool_objects teline_step
proof
  fix s :: tlist and a assume "tlist_ok s"
  then show "\<exists>s'. teline_add a s = Some s' \<and> tlist_ok s'"
    by (cases a) (use add_object_ok in \<open>force simp: Add_add_object\<close>)+
next
  fix s :: tlist and dt assume "tlist_ok s"
  then show "\<exists>s'. AnimTeline3D dt s = Some s' \<and> tlist_ok s'" using AnimTeline3D_ok by blast
next
  fix s s' :: tlist and dt assume "tlist_ok s" "AnimTeline3D dt s = Some s'"
  then show "pool_objects s' = List.map_filter (teline_step dt) (pool_objects s)"
    using AnimTeline3D_ok [of s dt] by auto
qed

lemma init_links_chain:
  assumes "init \<noteq> 0" "uint init < 2 ^ 31"
  shows "chain (init_links junk init) (Some 0) [0..<unat init] \<and> length (init_links junk init) = unat init"
proof -
  define n where "n = unat init"
  have "uint init < 2147483648" using assms(2) by simp
  then have n: "n < 2147483648" unfolding n_def using uint_nat [of init] by linarith
  have n': "0 < n" "unat (init - 1) = n - 1"
    unfolding n_def using assms(1) by (simp add: unat_gt_0, rule unat_minus_one)
  have "uint (init - 1) = int (n - 1)" using n'(2) uint_nat [of "init - 1"] by linarith
  then have s: "sint (init - 1) = int (n - 1)" using n n'(1) by (simp add: sint_uint32)
  let ?h = "init_links junk init"
  have eq: "?h = (map (\<lambda>i. if int i < int (n - 1) then Some (i + 1) else junk i) [0..<n])[n - 1 := None]"
    using assms(1) by (simp only: init_links_def Let_def s n'(2) if_True flip: n_def) simp
  have h: "length ?h = n" by (simp add: eq)
  have h_at: "?h ! i = (if Suc i < n then Some (Suc i) else None)" if "i < n" for i
    unfolding eq using that by (cases "i = n - 1") auto
  have "chain ?h (Some 0) [0..<n]" using h h_at n'(1) by (intro path_block) auto
  with h show ?thesis by (simp add: n_def)
qed

lemma NewTeline3D_ok:
  assumes "init \<noteq> 0" "uint init < 2 ^ 31"
  shows "tlist_ok (NewTeline3D junk maxt init unit) \<and> pool_objects (NewTeline3D junk maxt init unit) = []"
proof -
  note h = init_links_chain [OF assms, of junk]
  have l: "pool_lists (NewTeline3D junk maxt init unit) [] [0..<unat init]"
    using h by (simp add: pool_lists_def NewTeline3D_def lessThan_atLeast0)
  have "te_bs (NewTeline3D junk maxt init unit) = of_nat (length (pl_next (NewTeline3D junk maxt init unit)))"
    using h by (simp add: NewTeline3D_def)
  then show ?thesis using tlist_okI [OF l] pool_lists_walk(3) [OF l] by simp
qed

text \<open>C10: the list of telines is memory safe: from the constructor with a nonempty buffer, every
  sequence of additions, callbacks and animations runs without an access outside of the nodes,
  a null pointer or a dead object, and ends; and the free and active lists partition the nodes
  afterwards.\<close>

theorem teline_safe:
  assumes "init \<noteq> 0" "uint init < 2 ^ 31"
  shows "\<exists>p. entity_run teline_add AnimTeline3D cs (NewTeline3D junk maxt init unit) = Some p
    \<and> pool_lists p (pool_active p) (pool_free p)"
  using teline.run_good [of "NewTeline3D junk maxt init unit" cs] NewTeline3D_ok [OF assms]
  by (auto simp: tlist_ok_def pool_ok_def)

lemma teline_safe_witness:
  "\<exists>p. entity_run teline_add AnimTeline3D
       [Add (AddTeline \<lparr>ti_pos = vec3_000, ti_velo = vec3_100, ti_len = 1, ti_rot = quat_u, ti_omg = vec3_001,
                ti_life = 1, ti_grv = vec3_000, ti_flags = 0\<rparr> 5), Anim (1 / 2), Anim 2]
       (NewTeline3D (\<lambda>_. None) 4 2 1) = Some p \<and> pool_lists p (pool_active p) (pool_free p)"
  by (rule teline_safe) simp_all



text \<open>The node of a new block that an addition fills stays in the free list: the next addition
  takes the same node, and the first of the two objects is never seen.\<close>

lemma teline_extension_loses:
  assumes "tlist_ok p" "te_m p \<noteq> 0" "pl_lfree p = None" "te_mex p \<noteq> 0" "te_bs p + te_mex p \<le> te_m p"
  shows "\<exists>p'. AddTeline3D ci col p = Some p' \<and> pool_objects p' = pool_objects p"
  using add_object_ok [OF assms(1), of "make_teline ci col"] assms by (auto simp: alloc_spec_def Add_add_object)

text \<open>The node that is reused when the list is full is the first of the active list, that is the
  one added last and not, as the comment says, the oldest.\<close>

lemma teline_reuses_newest:
  assumes "tlist_ok p" "te_m p \<noteq> 0" "pl_lfree p = None" "te_mex p = 0" "pool_objects p = newest # obs"
  shows "\<exists>p'. AddTeline3D ci col p = Some p' \<and> pool_objects p' = obs @ [make_teline ci col]"
  using add_object_ok [OF assms(1), of "make_teline ci col"] assms by (auto simp: alloc_spec_def Add_add_object)

text \<open>A list made with an empty buffer still points to its first node.\<close>

lemma teline_empty_buffer: "maxt \<noteq> 0 \<Longrightarrow> AddTeline3D ci col (NewTeline3D junk maxt 0 unit) = None"
  by (simp add: AddTeline3D_def alloc_teline_def NewTeline3D_def pool_pop_def init_links_def mem_simps)

end
