(* ===== verification/Tefpol_Correct.thy ===== *)
theory Tefpol_Correct
  imports Tefpol Teline_Correct "HOL-Library.Multiset"
begin

text \<open>
  The vertices of the trails: at all times every vertex of the shared array is either in the free
  list or in exactly one trail, and a frame of a list refines a computation on trails that are plain
  lists of vertices, drawing on a number of free ones.  Vertices that other lists own, \<open>R\<close> in the
  statements below, are never touched.
\<close>

section \<open>The array of vertices\<close>

text \<open>The free vertices \<open>fr\<close> and the used ones \<open>us\<close> are all vertices, each once.\<close>

definition verts :: "te_vertice_list \<Rightarrow> nat list \<Rightarrow> nat list \<Rightarrow> bool" where
  "verts v fr us \<longleftrightarrow>
     chain (vl_next v) (vl_lfree v) fr \<and> distinct (fr @ us) \<and> set (fr @ us) = {..<length (vl_next v)}
     \<and> length (vl_vert v) = length (vl_next v)
     \<and> vl_lfst v = (if fr = [] then None else Some (last fr))
     \<and> (\<forall>x \<in> set us. vl_vert v ! x \<noteq> None)
     \<and> (vl_l v \<or> vl_next v = []) \<and> vl_m v = of_nat (length (vl_next v))"

definition trail :: "te_vertice_list \<Rightarrow> tefpol \<Rightarrow> nat list \<Rightarrow> bool" where
  "trail v ob u \<longleftrightarrow> chain (vl_next v) (tp_head ob) u \<and> tp_tail ob = (if u = [] then None else Some (last u))"

definition same_on :: "nat set \<Rightarrow> te_vertice_list \<Rightarrow> te_vertice_list \<Rightarrow> bool" where
  "same_on R v v' \<longleftrightarrow> length (vl_next v) \<le> length (vl_next v')
     \<and> (\<forall>x \<in> R. vl_next v' ! x = vl_next v ! x \<and> vl_vert v' ! x = vl_vert v ! x)"

lemma same_on_refl [simp]: "same_on R v v"
  by (simp add: same_on_def)

lemma same_on_trans [trans]: "same_on R v v' \<Longrightarrow> same_on R v' v'' \<Longrightarrow> same_on R v v''"
  by (auto simp: same_on_def)

lemma same_on_subset: "same_on R v v' \<Longrightarrow> R' \<subseteq> R \<Longrightarrow> same_on R' v v'"
  by (auto simp: same_on_def)

lemma path_same: "path h p xs q \<Longrightarrow> (\<forall>x \<in> set xs. h' ! x = h ! x) \<Longrightarrow> length h \<le> length h' \<Longrightarrow> path h' p xs q"
  by (induction xs arbitrary: p) auto

lemma trail_same: "trail v ob u \<Longrightarrow> same_on (set u) v v' \<Longrightarrow> trail v' ob u"
  by (auto simp: trail_def same_on_def intro: path_same)

lemma objects_same: "same_on (set u) v v' \<Longrightarrow> objects_at (vl_vert v') u = objects_at (vl_vert v) u"
  by (auto simp: objects_at_def same_on_def)

lemma verts_perm: "verts v fr us \<Longrightarrow> mset us = mset us' \<Longrightarrow> verts v fr us'"
  unfolding verts_def by (metis distinct_append mset_eq_imp_distinct_iff set_append set_mset_mset)

lemma verts_inside: "verts v fr us \<Longrightarrow> x \<in> set us \<Longrightarrow> x < length (vl_next v)"
  by (auto simp: verts_def)

lemma vert_at_used: "verts v fr us \<Longrightarrow> x \<in> set us \<Longrightarrow> vert_at v x = Some (the (vl_vert v ! x))"
  using verts_inside [of v fr us x] by (auto simp: verts_def vert_at_def mem_simps)

lemma vert_at_links [simp]:
  "vert_at (v\<lparr>vl_next := h\<rparr>) = vert_at v" "vert_at (v\<lparr>vl_lfree := p\<rparr>) = vert_at v"
  "vert_at (v\<lparr>vl_lfst := p\<rparr>) = vert_at v"
  by (simp_all add: vert_at_def fun_eq_iff)

lemma verts_assert: "verts v fr us \<Longrightarrow> assert_svl v = Some ()"
proof -
  assume v: "verts v fr us"
  then have c: "chain (vl_next v) (vl_lfree v) fr" and l: "vl_lfst v = (if fr = [] then None else Some (last fr))"
    by (auto simp: verts_def)
  show ?thesis
  proof (cases "fr = []")
    case False
    then have "last fr < length (vl_next v)" using chain_inside [OF c] last_in_set by blast
    with False c l path_last [OF c False] chain_Nil_iff [OF c] show ?thesis
      by (simp add: assert_svl_def assert_end_def c_assert_def mem_simps)
  qed (use c l in \<open>auto simp: assert_svl_def assert_end_def c_assert_def\<close>)
qed

lemma trail_tail:
  assumes "trail v ob u" "u \<noteq> []"
  shows "tp_tail ob = Some (last u) \<and> last u < length (vl_next v) \<and> vl_next v ! last u = None
     \<and> tp_head ob = Some (hd u) \<and> hd u < length (vl_next v)"
  using assms path_last [of "vl_next v" "tp_head ob" u None] chain_inside [of "vl_next v" "tp_head ob" u None]
    last_in_set [of u] by (cases u) (auto simp: trail_def)

lemma trail_assert:
  assumes "trail v ob u"
  shows "assert_end (vl_next v) (tp_tail ob) = Some ()"
proof (cases "u = []")
  case True then show ?thesis using assms by (simp add: trail_def assert_end_def)
next
  case False
  from trail_tail [OF assms False] show ?thesis by (simp add: assert_end_def c_assert_def mem_simps)
qed

text \<open>Freeing all vertices of a trail.\<close>

lemma freeVertex_spec:
  assumes v: "verts v fr (u @ R)" and t: "trail v ob u"
  shows "\<exists>v'. freeVertex (tp_head ob) (tp_tail ob) v = Some (None, v') \<and> verts v' (u @ fr) R
     \<and> same_on (set R) v v' \<and> vl_l v' = vl_l v"
proof (cases "u = []")
  case True
  then show ?thesis using assms verts_assert [OF v] by (auto simp: trail_def freeVertex_def)
next
  case False
  note e = trail_tail [OF t False]
  define v' where "v' = v\<lparr>vl_next := (vl_next v)[last u := vl_lfree v],
      vl_lfst := (if vl_lfree v = None then Some (last u) else vl_lfst v), vl_lfree := Some (hd u)\<rparr>"
  have c: "chain (vl_next v) (vl_lfree v) fr" "chain (vl_next v) (Some (hd u)) u"
    and disj: "distinct u" "set fr \<inter> set u = {}" "set u \<inter> set R = {}"
    using v t e by (auto simp: verts_def trail_def)
  have d: "last u \<notin> set fr" "last u \<notin> set R" "fr = [] \<longleftrightarrow> vl_lfree v = None"
    using disj last_in_set [OF False] chain_Nil_iff [OF c(1)] by auto
  have "path (vl_next v') (Some (hd u)) u (vl_lfree v)"
    using path_redirect [OF c(2) False disj(1)] by (simp add: v'_def)
  moreover have "chain (vl_next v') (vl_lfree v) fr" using c(1) d(1) by (simp add: v'_def path_update)
  ultimately have "chain (vl_next v') (vl_lfree v') (u @ fr)" by (auto simp: path_append v'_def)
  then have v': "verts v' (u @ fr) R" using v False d(3) by (auto simp: verts_def v'_def)
  have "freeVertex (tp_head ob) (tp_tail ob) v = Some (None, v')"
    using e verts_assert [OF v] trail_assert [OF t] verts_assert [OF v']
    by (simp add: freeVertex_def mem_simps Let_def flip: v'_def)
  moreover have "same_on (set R) v v'" using d(2) e by (auto simp: same_on_def v'_def nth_list_update)
  ultimately show ?thesis using v' by (simp add: v'_def)
qed

section \<open>Steps on a trail\<close>

text \<open>What a step leaves: the free vertices, the trail, and the vertices of others.\<close>

definition vpost :: "nat list \<Rightarrow> te_vertice_list \<Rightarrow> te_vertice_list \<Rightarrow> tefpol \<Rightarrow> nat list \<Rightarrow> nat list \<Rightarrow> bool" where
  "vpost R v v' ob fr u \<longleftrightarrow> verts v' fr (u @ R) \<and> trail v' ob u \<and> same_on (set R) v v' \<and> vl_l v' = vl_l v"

lemma vpostD: "vpost R v v' ob fr u \<Longrightarrow> verts v' fr (u @ R)" "vpost R v v' ob fr u \<Longrightarrow> trail v' ob u"
  by (simp_all add: vpost_def)

lemma vpost_trans: "vpost R v v' ob fr u \<Longrightarrow> vpost R v' v'' ob' fr' u' \<Longrightarrow> vpost R v v'' ob' fr' u'"
  by (auto simp: vpost_def intro: same_on_trans)

text \<open>An object without its pointers.\<close>

definition strip :: "tefpol \<Rightarrow> tefpol" where "strip ob = ob\<lparr>tp_head := None, tp_tail := None\<rparr>"

lemma strip_sel [simp]:
  "tp_pos (strip ob) = tp_pos ob" "tp_velo (strip ob) = tp_velo ob" "tp_life (strip ob) = tp_life ob"
  "tp_grv (strip ob) = tp_grv ob" "tp_cs (strip ob) = tp_cs ob" "tp_flags (strip ob) = tp_flags ob"
  "tp_cnt (strip ob) = tp_cnt ob" "tefpol_far (strip ob) = tefpol_far ob" "tefpol_dead (strip ob) = tefpol_dead ob"
  by (simp_all add: strip_def tefpol_far_def tefpol_thickness_def tefpol_width_def tefpol_dead_def fun_eq_iff)

lemma strip_upd [simp]:
  "strip (ob\<lparr>tp_head := p\<rparr>) = strip ob" "strip (ob\<lparr>tp_tail := p\<rparr>) = strip ob"
  "strip (ob\<lparr>tp_cnt := c\<rparr>) = (strip ob)\<lparr>tp_cnt := c\<rparr>" "strip (ob\<lparr>tp_life := l\<rparr>) = (strip ob)\<lparr>tp_life := l\<rparr>"
  "strip (tefpol_advance dt ob) = tefpol_advance dt (strip ob)"
  "strip (tefpol_reflect dt ob) = tefpol_reflect dt (strip ob)" "strip (strip ob) = strip ob"
  by (simp_all add: strip_def tefpol_advance_def tefpol_reflect_def)

lemma trail_fields [simp]:
  "trail v (ob\<lparr>tp_cnt := c\<rparr>) u = trail v ob u" "trail v (ob\<lparr>tp_life := l\<rparr>) u = trail v ob u"
  "trail v (tefpol_advance dt ob) u = trail v ob u" "trail v (tefpol_reflect dt ob) u = trail v ob u"
  by (simp_all add: trail_def tefpol_advance_def tefpol_reflect_def)

abbreviation tverts :: "te_vertice_list \<Rightarrow> nat list \<Rightarrow> tevert list" where
  "tverts v u \<equiv> objects_at (vl_vert v) u"

lemma drop_head_spec:
  assumes v: "verts v fr ((x # u) @ R)" and t: "trail v ob (x # u)"
  shows "\<exists>ob' v'. drop_head ob v = Some (ob', v', \<bar>tv_dt (the (vl_vert v ! x))\<bar>) \<and> vpost R v v' ob' (x # fr) u
     \<and> tverts v' u = tverts v u \<and> strip ob' = strip ob"
proof -
  define ob' where "ob' = ob\<lparr>tp_head := vl_next v ! x, tp_tail := (if vl_next v ! x = None then None else tp_tail ob)\<rparr>"
  define v' where "v' = v\<lparr>vl_next := (vl_next v)[x := vl_lfree v], vl_lfree := Some x,
      vl_lfst := (if vl_lfree v = None then Some x else vl_lfst v)\<rparr>"
  have x: "x < length (vl_next v)" "tp_head ob = Some x" "chain (vl_next v) (vl_next v ! x) u"
    "x \<notin> set u" "x \<notin> set R" "x \<notin> set fr" "u = [] \<longleftrightarrow> vl_next v ! x = None"
    "fr = [] \<longleftrightarrow> vl_lfree v = None" "chain (vl_next v) (vl_lfree v) fr"
    using assms chain_Nil_iff by (auto simp: verts_def trail_def)
  have "drop_head ob v = Some (ob', v', \<bar>tv_dt (the (vl_vert v ! x))\<bar>)"
    using x vert_at_used [OF v, of x]
    by (auto simp: drop_head_def link_vertex_def mem_simps Let_def ob'_def v'_def)
  moreover have "verts v' (x # fr) (u @ R)"
    using v x by (auto simp: verts_def v'_def path_update)
  moreover have "trail v' ob' u" using t x by (auto simp: trail_def v'_def ob'_def path_update)
  moreover have "same_on (set R) v v'" using x(1,5) by (auto simp: same_on_def v'_def nth_list_update)
  moreover have "vl_l v' = vl_l v" "vl_vert v' = vl_vert v" "strip ob' = strip ob" by (simp_all add: v'_def ob'_def)
  ultimately show ?thesis by (simp add: vpost_def)
qed

definition total_dt :: "tevert list \<Rightarrow> real" where "total_dt vs = (\<Sum>t\<leftarrow>vs. \<bar>tv_dt t\<bar>)"

lemma total_dt_simps [simp]: "total_dt [] = 0" "total_dt (t # vs) = \<bar>tv_dt t\<bar> + total_dt vs"
  by (simp_all add: total_dt_def)

lemma sum_dt_spec:
  "chain (vl_next v) p u \<Longrightarrow> (\<And>x. x \<in> set u \<Longrightarrow> vert_at v x = Some (the (vl_vert v ! x))) \<Longrightarrow>
   sum_dt v p t = Some (t + total_dt (tverts v u))"
proof (induction u arbitrary: p t)
  case Nil then show ?case by (simp add: sum_dt.simps)
next
  case (Cons x u)
  then show ?case by (subst sum_dt.simps) (simp add: mem_simps add.assoc)
qed

text \<open>The vertices that stay are the longest end of the trail that is not older than the colours.\<close>

fun poly_trim :: "real \<Rightarrow> tevert list \<Rightarrow> tevert list" where
  "poly_trim t [] = []"
| "poly_trim t (tv # vs) = (if t < total_dt (tv # vs) then poly_trim t vs else tv # vs)"

lemma drop_outdated_spec:
  assumes "verts v fr (u @ R)" "trail v ob u" "0 \<le> cs_t (tp_cs ob)"
  shows "\<exists>ob' v' fr' u'. drop_outdated (total_dt (tverts v u)) ob v = Some (ob', v') \<and> vpost R v v' ob' fr' u'
     \<and> tverts v' u' = poly_trim (cs_t (tp_cs ob)) (tverts v u) \<and> strip ob' = strip ob
     \<and> length fr' + length u' = length fr + length u"
  using assms
proof (induction u arbitrary: v fr ob)
  case Nil
  then show ?case
    by (intro exI [of _ ob] exI [of _ v] exI [of _ fr] exI [of _ "[]"], subst drop_outdated.simps) (simp add: vpost_def)
next
  case (Cons x u)
  show ?case
  proof (cases "cs_t (tp_cs ob) < total_dt (tverts v (x # u))")
    case True
    obtain ob1 v1 where d: "drop_head ob v = Some (ob1, v1, \<bar>tv_dt (the (vl_vert v ! x))\<bar>)"
      "vpost R v v1 ob1 (x # fr) u" "tverts v1 u = tverts v u" "strip ob1 = strip ob"
      using drop_head_spec [OF Cons.prems(1,2)] by blast
    have cs: "tp_cs ob1 = tp_cs ob" using arg_cong [OF d(4), of tp_cs] by simp
    obtain ob' v' fr' u' where *: "drop_outdated (total_dt (tverts v1 u)) ob1 v1 = Some (ob', v')"
      "vpost R v1 v' ob' fr' u'" "tverts v' u' = poly_trim (cs_t (tp_cs ob)) (tverts v1 u)" "strip ob' = strip ob1"
      "length fr' + length u' = length (x # fr) + length u"
      using Cons.IH [of v1 "x # fr" ob1] d(2) Cons.prems(3) by (auto simp: vpost_def cs)
    have "drop_outdated (total_dt (tverts v (x # u))) ob v = Some (ob', v')"
      using True d *(1) by (subst drop_outdated.simps) simp
    then show ?thesis using * d True vpost_trans [OF d(2) *(2)]
      by (intro exI [of _ ob'] exI [of _ v'] exI [of _ fr'] exI [of _ u']) simp
  next
    case False
    then show ?thesis using Cons.prems
      by (intro exI [of _ ob] exI [of _ v] exI [of _ fr] exI [of _ "x # u"], subst drop_outdated.simps)
         (simp add: vpost_def)
  qed
qed

lemma free_outdated_spec:
  assumes "verts v fr (u @ R)" "trail v ob u" "0 \<le> cs_t (tp_cs ob)"
  shows "\<exists>ob' v' fr' u'. free_outdated ob v = Some (ob', v') \<and> vpost R v v' ob' fr' u'
     \<and> tverts v' u' = poly_trim (cs_t (tp_cs ob)) (tverts v u) \<and> strip ob' = strip ob
     \<and> length fr' + length u' = length fr + length u"
proof -
  have "sum_dt v (tp_head ob) 0 = Some (total_dt (tverts v u))"
    using sum_dt_spec [of v "tp_head ob" u 0] assms(2) vert_at_used [OF assms(1)] by (simp add: trail_def)
  then show ?thesis using drop_outdated_spec [OF assms] by (simp add: free_outdated_def)
qed

text \<open>Writing a vertex.\<close>

lemma vert_put_spec:
  assumes v: "verts v fr (u @ R)" and x: "x \<in> set u"
  shows "\<exists>v'. vert_put x tv v = Some v' \<and> verts v' fr (u @ R) \<and> same_on (set R) v v' \<and> vl_l v' = vl_l v
     \<and> vl_next v' = vl_next v \<and> vl_vert v' = (vl_vert v)[x := Some tv]"
proof -
  have "x < length (vl_next v)" "x \<notin> set R" "length (vl_vert v) = length (vl_next v)"
    using assms by (auto simp: verts_def)
  then show ?thesis using v
    by (auto simp: vert_put_def mem_simps verts_def same_on_def nth_list_update)
qed

definition map_last :: "('a \<Rightarrow> 'a) \<Rightarrow> 'a list \<Rightarrow> 'a list" where
  "map_last f xs = (if xs = [] then [] else butlast xs @ [f (last xs)])"

lemma tail_update_spec:
  assumes v: "verts v fr (u @ R)" and t: "trail v ob u"
  shows "\<exists>v'. tail_update f ob v = Some v' \<and> vpost R v v' ob fr u \<and> tverts v' u = map_last f (tverts v u)"
proof (cases u rule: rev_cases)
  case Nil
  then show ?thesis using assms by (simp add: tail_update_def trail_def vpost_def map_last_def)
next
  case (snoc w x)
  from vert_put_spec [OF v, of x "f (the (vl_vert v ! x))"] snoc obtain v' where
    v': "vert_put x (f (the (vl_vert v ! x))) v = Some v'" "verts v' fr (u @ R)" "same_on (set R) v v'"
    "vl_l v' = vl_l v" "vl_next v' = vl_next v" "vl_vert v' = (vl_vert v)[x := Some (f (the (vl_vert v ! x)))]" by auto
  have x: "x \<notin> set w" "x < length (vl_vert v)" using v snoc by (auto simp: verts_def)
  have "tail_update f ob v = Some v'"
    using t snoc v' vert_at_used [OF v, of x] by (simp add: tail_update_def trail_def)
  moreover have "trail v' ob u" using t v'(5) by (simp add: trail_def)
  moreover have "tverts v' u = map_last f (tverts v u)"
    using x snoc v'(6) by (simp add: map_last_def)
  ultimately show ?thesis using v' by (auto simp: vpost_def)
qed

section \<open>Getting a vertex\<close>

text \<open>A vertex that has just been linked at the end of a trail, and is then written.\<close>

lemma append_vertex:
  assumes v: "verts v fr0 us" and u: "chain (vl_next v') (tp_head ob) (w @ [x])" "tp_tail ob = Some x"
    and v': "vl_vert v' = vl_vert v" "vl_l v' = vl_l v" "vl_m v' = vl_m v"
      "length (vl_next v') = length (vl_next v)" "\<And>y. y \<in> set R \<Longrightarrow> vl_next v' ! y = vl_next v ! y"
      "chain (vl_next v') (vl_lfree v') fr" "vl_lfst v' = (if fr = [] then None else Some (last fr))"
    and m: "mset (fr0 @ us) = mset (fr @ (w @ [x]) @ R)" "set (w @ R) \<subseteq> set us"
  shows "\<exists>v''. vert_put x tv v' = Some v'' \<and> vpost R v v'' ob fr (w @ [x]) \<and> tverts v'' (w @ [x]) = tverts v w @ [tv]"
proof -
  have d: "distinct (fr @ (w @ [x]) @ R)" "set (fr @ (w @ [x]) @ R) = {..<length (vl_next v)}"
    using v mset_eq_setD [OF m(1)] mset_eq_imp_distinct_iff [OF m(1)] by (auto simp: verts_def)
  then have x: "x < length (vl_vert v)" "x \<notin> set w" "x \<notin> set R" using v by (auto simp: verts_def)
  define v'' where "v'' = v'\<lparr>vl_vert := (vl_vert v)[x := Some tv]\<rparr>"
  have "vert_put x tv v' = Some v''" using x v' by (simp add: vert_put_def mem_simps v''_def)
  moreover have "verts v'' fr ((w @ [x]) @ R)"
  proof -
    have "vl_vert v'' ! y \<noteq> None" if "y \<in> set ((w @ [x]) @ R)" for y
    proof (cases "y = x")
      case True then show ?thesis using x by (simp add: v''_def)
    next
      case False
      then have "y \<in> set us" using that m(2) by auto
      then show ?thesis using v False by (simp add: v''_def verts_def)
    qed
    moreover have n: "length (vl_next v'') = length (vl_next v)" using v'(4) by (simp add: v''_def)
    have "length (vl_vert v) = length (vl_next v)" "vl_m v = of_nat (length (vl_next v))"
      "vl_l v \<or> vl_next v = []" using v unfolding verts_def by simp_all
    then have "length (vl_vert v'') = length (vl_next v'')" "vl_m v'' = of_nat (length (vl_next v''))"
      "vl_l v'' \<or> vl_next v'' = []" using n v'(2,3) by (auto simp: v''_def)
    moreover have "chain (vl_next v'') (vl_lfree v'') fr" using v'(6) by (simp add: v''_def)
    moreover have "vl_lfst v'' = (if fr = [] then None else Some (last fr))" using v'(7) by (simp add: v''_def)
    moreover have "set (fr @ (w @ [x]) @ R) = {..<length (vl_next v'')}" unfolding n by (rule d(2))
    ultimately show ?thesis unfolding verts_def by (intro conjI ballI d(1))
  qed
  moreover have "trail v'' ob (w @ [x])" using u by (simp add: trail_def v''_def)
  moreover have "same_on (set R) v v''" using x v' by (auto simp: same_on_def v''_def nth_list_update)
  moreover have "tverts v'' (w @ [x]) = tverts v w @ [tv]" using x by (simp add: v''_def)
  ultimately show ?thesis using v' by (simp add: vpost_def v''_def)
qed

lemma take_vertex_free:
  assumes v: "verts v (x # fr) (u @ R)" and t: "trail v ob u"
  shows "\<exists>ob' v' v''. take_vertex ob v = Some (Some x, ob', v') \<and> vert_put x tv v' = Some v''
     \<and> vpost R v v'' ob' fr (u @ [x]) \<and> tverts v'' (u @ [x]) = tverts v u @ [tv] \<and> strip ob' = strip ob"
proof -
  have x: "x < length (vl_next v)" "vl_lfree v = Some x" "chain (vl_next v) (vl_next v ! x) fr" "x \<notin> set u"
    "x \<notin> set fr" "x \<notin> set R" "set u \<inter> set fr = {}" "set u \<inter> set R = {}" "distinct u"
    using v by (auto simp: verts_def)
  note n = chain_Nil_iff [OF x(3)]
  define ob' where "ob' = ob\<lparr>tp_head := (if u = [] then Some x else tp_head ob), tp_tail := Some x\<rparr>"
  define h where "h = (if u = [] then (vl_next v)[x := None] else (vl_next v)[x := None, last u := Some x])"
  define v' where "v' = v\<lparr>vl_lfree := vl_next v ! x, vl_lfst := (if fr = [] then None else vl_lfst v), vl_next := h\<rparr>"
  have take: "take_vertex ob v = Some (Some x, ob', v')"
  proof (cases "u = []")
    case True
    then show ?thesis using x t n
      by (simp add: take_vertex_def mem_simps link_vertex_def Let_def ob'_def v'_def h_def trail_def)
  next
    case False
    with x t n trail_tail [OF t False] show ?thesis
      by (simp add: take_vertex_def mem_simps link_vertex_def Let_def ob'_def v'_def h_def)
  qed
  have lst: "u \<noteq> [] \<Longrightarrow> last u \<in> set u" by simp
  have "chain h (tp_head ob') (u @ [x])"
  proof (cases "u = []")
    case True then show ?thesis using x by (simp add: h_def ob'_def)
  next
    case False
    have c: "chain (vl_next v) (tp_head ob) u" using t by (simp add: trail_def)
    then have "path ((vl_next v)[x := None]) (tp_head ob) u None" using x(4) by (simp add: path_update)
    moreover have "last u \<noteq> x" using x(4) lst [OF False] by auto
    ultimately show ?thesis using path_redirect [OF _ False x(9), of "(vl_next v)[x := None]" "tp_head ob" None "Some x"]
        False x by (auto simp: path_append h_def ob'_def)
  qed
  moreover have "chain h (vl_next v ! x) fr"
  proof (cases "u = []")
    case False
    with x(7) lst have "last u \<notin> set fr" by (meson disjoint_iff)
    then show ?thesis using False x by (simp add: h_def path_update)
  qed (use x in \<open>simp add: h_def path_update\<close>)
  moreover have "h ! y = vl_next v ! y" if y: "y \<in> set R" for y
  proof -
    have "u \<noteq> [] \<Longrightarrow> last u \<noteq> y" using x(8) lst y by (meson disjoint_iff)
    moreover have "x \<noteq> y" using x(6) y by auto
    ultimately show ?thesis by (simp add: h_def)
  qed
  moreover have "vl_lfst v = Some (last (x # fr))" "length h = length (vl_next v)"
    using v by (simp_all add: verts_def h_def)
  ultimately have "\<exists>v''. vert_put x tv v' = Some v'' \<and> vpost R v v'' ob' fr (u @ [x])
      \<and> tverts v'' (u @ [x]) = tverts v u @ [tv]"
    by (intro append_vertex [OF v]) (auto simp: v'_def ob'_def)
  with take show ?thesis by (auto simp: ob'_def)
qed

lemma take_vertex_reroll:
  assumes v: "verts v [] ((x # u) @ R)" and t: "trail v ob (x # u)"
  shows "\<exists>ob' v' v''. take_vertex ob v = Some (Some x, ob', v') \<and> vert_put x tv v' = Some v''
     \<and> vpost R v v'' ob' [] (u @ [x]) \<and> tverts v'' (u @ [x]) = tverts v u @ [tv] \<and> strip ob' = strip ob"
proof -
  define l h where "l = last (x # u)" and "h = (vl_next v)[l := Some x]"
  have lin: "l \<in> set (x # u)" unfolding l_def by (rule last_in_set) simp
  have x: "x < length (vl_next v)" "x \<notin> set u" "x \<notin> set R" "l \<notin> set R" "distinct u" "vl_lfree v = None"
    "tp_head ob = Some x" "tp_tail ob = Some l" "chain (vl_next v) (vl_next v ! x) u" "l < length (vl_next v)"
    "vl_lfst v = None"
    using v t lin by (auto simp: verts_def trail_def l_def)
  define ob' where "ob' = ob\<lparr>tp_head := h ! x, tp_tail := Some x\<rparr>"
  define v' where "v' = v\<lparr>vl_next := h[x := None]\<rparr>"
  have take: "take_vertex ob v = Some (Some x, ob', v')"
    using x by (simp add: take_vertex_def link_vertex_def mem_simps Let_def ob'_def v'_def h_def)
  have "path (h[x := None]) (h ! x) u (Some x)"
  proof (cases "u = []")
    case True then show ?thesis using x by (simp add: h_def l_def)
  next
    case False
    then have "l = last u" "l \<noteq> x" using x(2) last_in_set [OF False] by (auto simp: l_def)
    with path_redirect [OF x(9) False x(5), of "Some x"] x show ?thesis
      by (simp add: h_def path_update nth_list_update)
  qed
  then have "chain (h[x := None]) (h ! x) (u @ [x])" using x by (auto simp: path_append h_def)
  moreover have "y \<in> set R \<Longrightarrow> h[x := None] ! y = vl_next v ! y" for y
    using x by (auto simp: h_def nth_list_update)
  ultimately have "\<exists>v''. vert_put x tv v' = Some v'' \<and> vpost R v v'' ob' [] (u @ [x])
      \<and> tverts v'' (u @ [x]) = tverts v u @ [tv]"
    using x by (intro append_vertex [OF v]) (auto simp: v'_def ob'_def h_def)
  with take show ?thesis by (auto simp: ob'_def)
qed

section \<open>The frame of an object, on plain lists\<close>

definition poly_genvert :: "tefpol \<Rightarrow> tevert list \<Rightarrow> bool" where
  "poly_genvert ob vs \<longleftrightarrow> tp_life ob > 0 \<and> (vs = [] \<or> tefpol_far ob (hd vs) (last vs))"

text \<open>A new vertex comes from the \<open>k\<close> free ones, or is the oldest of the trail.\<close>

definition poly_vertex :: "real \<Rightarrow> nat \<Rightarrow> tefpol \<Rightarrow> tevert list \<Rightarrow> nat \<times> tefpol \<times> tevert list" where
  "poly_vertex dt k ob vs =
     (if tp_flags ob AND TEP3_SKIP \<noteq> 0
      then (k, ob, map_last (\<lambda>tv. tv\<lparr>tv_pos := tp_pos ob, tv_dt := - \<bar>tv_dt tv\<bar> - dt\<rparr>) vs)
      else if poly_genvert ob vs then
        (let ob = ob\<lparr>tp_cnt := tp_cnt ob + 1\<rparr>; tv = \<lparr>tv_pos = tp_pos ob, tv_dt = dt\<rparr>
         in if tp_flags ob AND TEP3_ROUGH = 0 \<or> tp_cnt ob mod 2 \<noteq> 0
            then (if k > 0 then (k - 1, ob, vs @ [tv])
                  else if vs = [] then (k, ob, vs) else (k, ob, List.tl vs @ [tv]))
            else (k, ob, map_last (\<lambda>tv. tv\<lparr>tv_pos := tp_pos ob\<rparr>) vs))
      else (k, ob, map_last (\<lambda>tv. tv\<lparr>tv_dt := tv_dt tv + dt\<rparr>) vs))"

definition poly_motion :: "real \<Rightarrow> tefpol \<Rightarrow> tevert list \<Rightarrow> tefpol \<times> tevert list" where
  "poly_motion dt ob vs =
     (let ob = ob\<lparr>tp_life := tp_life ob - dt\<rparr>
      in if tp_life ob > 0 then (tefpol_reflect dt (tefpol_advance dt ob), vs)
         else (tefpol_reflect dt ob, map_last (\<lambda>tv. tv\<lparr>tv_dt := tv_dt tv + dt\<rparr>) vs))"

definition poly_frame :: "real \<Rightarrow> nat \<Rightarrow> tefpol \<Rightarrow> tevert list \<Rightarrow> nat \<times> tefpol \<times> tevert list" where
  "poly_frame dt k ob vs =
     (let vs' = poly_trim (cs_t (tp_cs ob)) vs;
          (k, ob, vs) = poly_vertex dt (k + length vs - length vs') ob vs';
          (ob, vs) = poly_motion dt ob vs
      in (k, ob, vs))"

fun poly_anim :: "real \<Rightarrow> nat \<Rightarrow> (tefpol \<times> tevert list) list \<Rightarrow> nat \<times> (tefpol \<times> tevert list) list" where
  "poly_anim dt k [] = (k, [])"
| "poly_anim dt k ((ob, vs) # ps) =
     (if tefpol_dead ob then poly_anim dt (k + length vs) ps
      else let (k, ob, vs) = poly_frame dt k ob vs; (k, ps) = poly_anim dt k ps in (k, (ob, vs) # ps))"

section \<open>The code computes these frames\<close>

lemma vpost_refl: "verts v fr (u @ R) \<Longrightarrow> trail v ob u \<Longrightarrow> vpost R v v ob fr u"
  by (simp add: vpost_def)

lemma objects_at_nil [simp]: "objects_at b xs = [] \<longleftrightarrow> xs = []"
  by (simp add: objects_at_def)

lemma length_objects_at [simp]: "length (objects_at b xs) = length xs"
  by (simp add: objects_at_def)

lemma genvert_spec:
  assumes v: "verts v fr (u @ R)" and t: "trail v ob u"
  shows "tefpol_genvert ob v = Some (poly_genvert ob (tverts v u))"
proof (cases "u = []")
  case True
  then show ?thesis using t by (simp add: trail_def tefpol_genvert_def poly_genvert_def)
next
  case False
  note e = trail_tail [OF t False]
  have "vert_at v (last u) = Some (the (vl_vert v ! last u))" "vert_at v (hd u) = Some (the (vl_vert v ! hd u))"
    using False by (simp_all add: vert_at_used [OF v])
  moreover have "hd (tverts v u) = the (vl_vert v ! hd u)" "last (tverts v u) = the (vl_vert v ! last u)"
    using False by (simp_all add: objects_at_def hd_map last_map)
  ultimately show ?thesis using e False by (simp add: tefpol_genvert_def poly_genvert_def)
qed

text \<open>The addition of a vertex to a trail: from the free list, from the trail, or none.\<close>

lemma take_vertex_spec:
  assumes v: "verts v fr (u @ R)" and t: "trail v ob u"
  shows "(fr = [] \<and> u = [] \<and> take_vertex ob v = Some (None, ob, v))
    \<or> (\<exists>x ob' v' v'' fr' u'. take_vertex ob v = Some (Some x, ob', v') \<and> vert_put x tv v' = Some v''
        \<and> vpost R v v'' ob' fr' u' \<and> strip ob' = strip ob
        \<and> (if fr = [] then fr' = [] \<and> u \<noteq> [] \<and> tverts v'' u' = List.tl (tverts v u) @ [tv]
           else length fr' = length fr - 1 \<and> tverts v'' u' = tverts v u @ [tv]))"
proof (cases fr)
  case Nil
  show ?thesis
  proof (cases u)
    case Nil
    then show ?thesis using \<open>fr = []\<close> t v by (simp add: take_vertex_def trail_def verts_def)
  next
    case (Cons x w)
    from take_vertex_reroll [of v x w R ob tv] Nil Cons v t show ?thesis by fastforce
  qed
next
  case (Cons x fr')
  from take_vertex_free [of v x fr' u R ob tv] Cons v t show ?thesis by fastforce
qed

lemma add_vertex_spec:
  assumes v: "verts v fr (u @ R)" and t: "trail v ob u"
  shows "\<exists>ob' v' added fr' u'. add_vertex dt ob v = Some (ob', v', added) \<and> vpost R v v' ob' fr' u'
     \<and> poly_vertex dt (length fr) (strip ob) (tverts v u) = (length fr', strip ob', tverts v' u')"
proof -
  let ?c = "ob\<lparr>tp_cnt := tp_cnt ob + 1\<rparr>" and ?tv = "\<lparr>tv_pos = tp_pos ob, tv_dt = dt\<rparr>"
  have tc: "trail v ?c u" using t by simp
  consider "tp_flags ob AND TEP3_SKIP \<noteq> 0"
    | "tp_flags ob AND TEP3_SKIP = 0" "\<not> poly_genvert ob (tverts v u)"
    | "tp_flags ob AND TEP3_SKIP = 0" "poly_genvert ob (tverts v u)"
      "\<not> (tp_flags ob AND TEP3_ROUGH = 0 \<or> tp_cnt ?c mod 2 \<noteq> 0)"
    | "tp_flags ob AND TEP3_SKIP = 0" "poly_genvert ob (tverts v u)"
      "tp_flags ob AND TEP3_ROUGH = 0 \<or> tp_cnt ?c mod 2 \<noteq> 0" by blast
  then show ?thesis
  proof cases
    case 1
    with tail_update_spec [OF v t, of "\<lambda>tv. tv\<lparr>tv_pos := tp_pos ob, tv_dt := - \<bar>tv_dt tv\<bar> - dt\<rparr>"] show ?thesis
      by (fastforce simp: add_vertex_def poly_vertex_def)
  next
    case 2
    then have "\<not> poly_genvert (strip ob) (tverts v u)" by (simp add: poly_genvert_def)
    with 2 genvert_spec [OF v t] tail_update_spec [OF v t, of "\<lambda>tv. tv\<lparr>tv_dt := tv_dt tv + dt\<rparr>"] show ?thesis
      by (fastforce simp: add_vertex_def poly_vertex_def)
  next
    case 3
    then have "poly_genvert (strip ob) (tverts v u)" by (simp add: poly_genvert_def)
    moreover obtain v' where "tail_update (\<lambda>tv. tv\<lparr>tv_pos := tp_pos ob\<rparr>) ?c v = Some v'" "vpost R v v' ?c fr u"
      "tverts v' u = map_last (\<lambda>tv. tv\<lparr>tv_pos := tp_pos ob\<rparr>) (tverts v u)"
      using tail_update_spec [OF v tc, of "\<lambda>tv. tv\<lparr>tv_pos := tp_pos ob\<rparr>"] by blast
    ultimately show ?thesis using 3 genvert_spec [OF v t]
      by (intro exI [of _ ?c] exI [of _ v'] exI [of _ False] exI [of _ fr] exI [of _ u])
         (simp add: add_vertex_def poly_vertex_def Let_def)
  next
    case 4
    then have g: "poly_genvert (strip ob) (tverts v u)" by (simp add: poly_genvert_def)
    from take_vertex_spec [OF v tc, of ?tv] show ?thesis
    proof (elim disjE exE conjE)
      assume "fr = []" "u = []" "take_vertex ?c v = Some (None, ?c, v)"
      then show ?thesis using 4 g genvert_spec [OF v t] vpost_refl [OF v tc]
        by (intro exI [of _ ?c] exI [of _ v] exI [of _ False] exI [of _ fr] exI [of _ u])
           (simp add: add_vertex_def poly_vertex_def Let_def)
    next
      fix x ob' v' v'' fr' u'
      assume *: "take_vertex ?c v = Some (Some x, ob', v')" "vert_put x ?tv v' = Some v''" "vpost R v v'' ob' fr' u'"
        "strip ob' = strip ?c" "if fr = [] then fr' = [] \<and> u \<noteq> [] \<and> tverts v'' u' = List.tl (tverts v u) @ [?tv]
           else length fr' = length fr - 1 \<and> tverts v'' u' = tverts v u @ [?tv]"
      have "tp_pos ob' = tp_pos ob" using arg_cong [OF *(4), of tp_pos] by simp
      then have "add_vertex dt ob v = Some (ob', v'', True)"
        using 4 *(1,2) genvert_spec [OF v t] by (simp add: add_vertex_def Let_def)
      moreover have "poly_vertex dt (length fr) (strip ob) (tverts v u) = (length fr', strip ob', tverts v'' u')"
        using 4 g *(4,5) by (cases "fr = []") (simp_all add: poly_vertex_def Let_def)
      ultimately show ?thesis using *(3) by blast
    qed
  qed
qed

lemma motion_spec:
  assumes v: "verts v fr (u @ R)" and t: "trail v ob u"
  shows "\<exists>ob' v'. tefpol_motion dt ob v = Some (ob', v') \<and> vpost R v v' ob' fr u
     \<and> poly_motion dt (strip ob) (tverts v u) = (strip ob', tverts v' u)"
proof (cases "tp_life ob - dt > 0")
  case True
  let ?ob = "tefpol_reflect dt (tefpol_advance dt (ob\<lparr>tp_life := tp_life ob - dt\<rparr>))"
  have "trail v ?ob u" using t by simp
  with True vpost_refl [OF v this] show ?thesis
    by (intro exI [of _ ?ob] exI [of _ v]) (simp add: tefpol_motion_def poly_motion_def Let_def)
next
  case False
  let ?ob = "ob\<lparr>tp_life := tp_life ob - dt\<rparr>"
  have "trail v ?ob u" using t by simp
  from tail_update_spec [OF v this, of "\<lambda>tv. tv\<lparr>tv_dt := tv_dt tv + dt\<rparr>"] obtain v' where
    "tail_update (\<lambda>tv. tv\<lparr>tv_dt := tv_dt tv + dt\<rparr>) ?ob v = Some v'" "vpost R v v' ?ob fr u"
    "tverts v' u = map_last (\<lambda>tv. tv\<lparr>tv_dt := tv_dt tv + dt\<rparr>) (tverts v u)" by blast
  with False show ?thesis
    by (intro exI [of _ "tefpol_reflect dt ?ob"] exI [of _ v'])
       (simp add: tefpol_motion_def poly_motion_def Let_def vpost_def)
qed

lemma frame_spec:
  assumes v: "verts v fr (u @ R)" and t: "trail v ob u" and cs: "0 \<le> cs_t (tp_cs ob)"
  shows "\<exists>ob' v' added fr' u'. tefpol_frame dt ob v = Some (ob', v', added) \<and> vpost R v v' ob' fr' u'
     \<and> poly_frame dt (length fr) (strip ob) (tverts v u) = (length fr', strip ob', tverts v' u')"
proof -
  obtain ob1 v1 fr1 u1 where 1: "free_outdated ob v = Some (ob1, v1)" "vpost R v v1 ob1 fr1 u1"
    "tverts v1 u1 = poly_trim (cs_t (tp_cs ob)) (tverts v u)" "strip ob1 = strip ob"
    "length fr1 + length u1 = length fr + length u"
    using free_outdated_spec [OF assms] by blast
  obtain ob2 v2 added fr2 u2 where 2: "add_vertex dt ob1 v1 = Some (ob2, v2, added)" "vpost R v1 v2 ob2 fr2 u2"
    "poly_vertex dt (length fr1) (strip ob1) (tverts v1 u1) = (length fr2, strip ob2, tverts v2 u2)"
    using add_vertex_spec [OF vpostD [OF 1(2)]] by blast
  obtain ob3 v3 where 3: "tefpol_motion dt ob2 v2 = Some (ob3, v3)" "vpost R v2 v3 ob3 fr2 u2"
    "poly_motion dt (strip ob2) (tverts v2 u2) = (strip ob3, tverts v3 u2)"
    using motion_spec [OF vpostD [OF 2(2)]] by blast
  have "length u1 = length (poly_trim (cs_t (tp_cs ob)) (tverts v u))"
    using arg_cong [OF 1(3), of length] by simp
  then have "length fr + length u - length (poly_trim (cs_t (tp_cs ob)) (tverts v u)) = length fr1" using 1(5) by simp
  then have "poly_frame dt (length fr) (strip ob) (tverts v u) = (length fr2, strip ob3, tverts v3 u2)"
    using 1(3,4) 2(3) 3(3) by (simp add: poly_frame_def Let_def)
  moreover have "tefpol_frame dt ob v = Some (ob3, v3, added)" using 1(1) 2(1) 3(1) by (simp add: tefpol_frame_def)
  ultimately show ?thesis using vpost_trans [OF vpost_trans [OF 1(2) 2(2)] 3(2)] by blast
qed

section \<open>The frame of a list\<close>

lemma VERTEX_SIZE_pos: "0 < VERTEX_SIZE" by (simp add: VERTEX_SIZE_def)

text \<open>The number of vertices that can be taken; all of them before the allocation.\<close>

definition free_count :: "te_vertice_list \<Rightarrow> nat list \<Rightarrow> nat" where
  "free_count v fr = (if vl_l v then length fr else VERTEX_SIZE)"

lemma verts_unallocated: "verts v fr us \<Longrightarrow> \<not> vl_l v \<Longrightarrow> fr = [] \<and> us = [] \<and> vl_next v = []"
  by (auto simp: verts_def)

lemma svl_alloc_spec:
  assumes v: "verts v fr us"
  shows "\<exists>fr'. verts (svl_alloc v) fr' us \<and> length fr' = free_count v fr \<and> same_on (set us) v (svl_alloc v)
     \<and> vl_l (svl_alloc v)"
proof (cases "vl_l v")
  case True then show ?thesis using v by (auto simp: svl_alloc_def free_count_def)
next
  case False
  note u = verts_unallocated [OF v False]
  let ?h = "map (\<lambda>i. if Suc i < VERTEX_SIZE then Some (Suc i) else None) [0..<VERTEX_SIZE]"
  have "chain ?h (Some 0) [0..<VERTEX_SIZE]" using VERTEX_SIZE_pos by (intro path_block) auto
  moreover have "last [0..<VERTEX_SIZE] = VERTEX_SIZE - 1" using VERTEX_SIZE_pos by simp
  ultimately have "verts (svl_alloc v) [0..<VERTEX_SIZE] us"
    using u False VERTEX_SIZE_pos by (simp add: verts_def svl_alloc_def lessThan_atLeast0)
  then show ?thesis using u False by (auto simp: free_count_def same_on_def svl_alloc_def)
qed

abbreviation tobs :: "tepl \<Rightarrow> nat list \<Rightarrow> tefpol list" where "tobs p xs \<equiv> objects_at (pl_buf p) xs"

definition trails :: "te_vertice_list \<Rightarrow> tefpol list \<Rightarrow> nat list list \<Rightarrow> bool" where
  "trails v obs us \<longleftrightarrow> list_all2 (trail v) obs us"

lemma trails_simps [simp]:
  "trails v [] us \<longleftrightarrow> us = []"
  "trails v (ob # obs) us \<longleftrightarrow> (\<exists>u us'. us = u # us' \<and> trail v ob u \<and> trails v obs us')"
  by (auto simp: trails_def list_all2_Cons1)

lemma trails_same: "trails v obs us \<Longrightarrow> same_on (set (concat us)) v v' \<Longrightarrow> trails v' obs us"
proof (induction obs arbitrary: us)
  case (Cons ob obs)
  then obtain u us' where u: "us = u # us'" "trail v ob u" "trails v obs us'" by auto
  have "same_on (set u) v v'" "same_on (set (concat us')) v v'"
    using Cons.prems(2) u(1) by (auto intro: same_on_subset)
  with u Cons.IH show ?case by (auto intro: trail_same)
qed simp

text \<open>The trails as plain lists.\<close>

definition polys :: "te_vertice_list \<Rightarrow> tefpol list \<Rightarrow> nat list list \<Rightarrow> (tefpol \<times> tevert list) list" where
  "polys v obs us = map2 (\<lambda>ob u. (strip ob, tverts v u)) obs us"

lemma polys_simps [simp]:
  "polys v [] us = []" "polys v (ob # obs) (u # us) = (strip ob, tverts v u) # polys v obs us"
  by (simp_all add: polys_def)

lemma polys_same: "same_on (set (concat us)) v v' \<Longrightarrow> polys v' obs us = polys v obs us"
proof (induction us arbitrary: obs)
  case (Cons u us)
  then have "same_on (set u) v v'" "same_on (set (concat us)) v v'" by (auto intro: same_on_subset)
  with Cons.IH show ?case by (cases obs) (simp_all add: objects_same)
qed (simp add: polys_def)

definition tp_core :: "tepl \<Rightarrow> uint32 \<times> uint32 \<times> uint32 \<times> uint32" where
  "tp_core p = (tp_m p, tp_ml p, tp_mex p, tp_bs p)"

lemma tp_core_more: "pool.more p = pool.more q \<Longrightarrow> tp_core p = tp_core q"
  by (cases p; cases q) (simp add: tp_core_def)

lemma tepl_debug [simp]:
  "tp_core (p\<lparr>tp_debug_vs := n\<rparr>) = tp_core p" "tp_core (p\<lparr>tp_debug_s := n\<rparr>) = tp_core p"
  "tp_core (p\<lparr>tp_debug_c := n\<rparr>) = tp_core p" "tp_core (p\<lparr>tp_debug_vc := n\<rparr>) = tp_core p"
  "pool_lists (p\<lparr>tp_debug_vs := n\<rparr>) ac fr = pool_lists p ac fr" "pool_lists (p\<lparr>tp_debug_s := n\<rparr>) ac fr = pool_lists p ac fr"
  "pool_lists (p\<lparr>tp_debug_c := n\<rparr>) ac fr = pool_lists p ac fr" "pool_lists (p\<lparr>tp_debug_vc := n\<rparr>) ac fr = pool_lists p ac fr"
  by (simp_all add: tp_core_def pool_lists_def)

text \<open>What holds of a list and the vertices, its free nodes being \<open>fn\<close>, and its active nodes \<open>ac\<close>
  having the trails \<open>us\<close>.\<close>

definition tepl_lists ::
  "nat list \<Rightarrow> tepl \<Rightarrow> te_vertice_list \<Rightarrow> nat list \<Rightarrow> nat list list \<Rightarrow> nat list \<Rightarrow> nat list \<Rightarrow> bool" where
  "tepl_lists R p v ac us fn fr \<longleftrightarrow>
     pool_lists p ac fn \<and> verts v fr (concat us @ R) \<and> trails v (tobs p ac) us
     \<and> (\<forall>ob \<in> set (tobs p ac). 0 \<le> cs_t (tp_cs ob))"

lemma objects_eq_same: "(\<And>x. x \<in> set xs \<Longrightarrow> b ! x = b' ! x) \<Longrightarrow> objects_at b xs = objects_at b' xs"
  by (simp add: objects_at_def)

lemma concat_perm: "mset (concat (us @ u # ws) @ R) = mset (u @ concat (us @ ws) @ R)"
  by simp

lemma poly_frame_cs: "poly_frame dt k ob vs = (k', ob', vs') \<Longrightarrow> tp_cs ob' = tp_cs ob"
  by (auto simp: poly_frame_def poly_vertex_def poly_motion_def tefpol_reflect_def tefpol_advance_def Let_def
      split: if_splits prod.splits)

lemma trails_append: "length obs = length us \<Longrightarrow>
  trails v (obs @ obs') (us @ us') \<longleftrightarrow> trails v obs us \<and> trails v obs' us'"
  by (simp add: trails_def list_all2_append)

lemma trails_length: "trails v obs us \<Longrightarrow> length obs = length us"
  by (auto simp: trails_def dest: list_all2_lengthD)

text \<open>The loop, after the nodes \<open>xs\<close> with the trails \<open>us\<close> and before \<open>ys\<close> with \<open>ws\<close>.\<close>

lemma tefpol_loop_spec:
  assumes "tepl_lists R p v (xs @ ys) (us @ ws) fn fr" "chain (pl_next p) q ys" "length us = length xs"
  shows "\<exists>p' v' zs us' fn' fr'. tefpol_loop dt q (link_at xs) p v = Some (p', v')
     \<and> tepl_lists R p' v' (xs @ zs) (us @ us') fn' fr' \<and> length us' = length zs
     \<and> tobs p' xs = tobs p xs \<and> same_on (set (concat us @ R)) v v'
     \<and> poly_anim dt (free_count v fr) (polys v (tobs p ys) ws) = (free_count v' fr', polys v' (tobs p' zs) us')
     \<and> length (pl_next p') = length (pl_next p) \<and> tp_core p' = tp_core p"
  using assms
proof (induction ys arbitrary: xs us ws p v q fn fr)
  case Nil
  then have "ws = []" using list_all2_lengthD [of "trail v" "tobs p xs" "us @ ws"] by (simp add: tepl_lists_def trails_def)
  with Nil show ?case
    by (intro exI [of _ p] exI [of _ v] exI [of _ "[]"] exI [of _ "[]"] exI [of _ fn] exI [of _ fr],
        subst tefpol_loop.simps) auto
next
  case (Cons x ys)
  have pl: "pool_lists p (xs @ x # ys) fn" and vs: "verts v fr (concat (us @ ws) @ R)"
    and tr: "trails v (tobs p (xs @ x # ys)) (us @ ws)" and cs: "\<forall>ob \<in> set (tobs p (xs @ x # ys)). 0 \<le> cs_t (tp_cs ob)"
    using Cons.prems(1) by (auto simp: tepl_lists_def)
  from Cons.prems pl have q: "q = Some x" "x < length (pl_next p)" and d: "x \<notin> set xs" "x \<notin> set ys"
    and b: "pl_buf p ! x \<noteq> None" "length (pl_buf p) = length (pl_next p)"
    by (auto simp: pool_lists_def)
  define ob where "ob = the (pl_buf p ! x)"
  have ob: "pool_object p x = Some ob" using b q by (auto simp: pool_object_def mem_simps ob_def)
  have "list_all2 (trail v) (tobs p xs) us \<and> list_all2 (trail v) (ob # tobs p ys) ws"
    using tr Cons.prems(3) by (simp add: trails_def ob_def objects_at_def list_all2_append)
  then obtain u ws' where ws: "ws = u # ws'" "trail v ob u" "trails v (tobs p ys) ws'" "trails v (tobs p xs) us"
    by (auto simp: trails_def list_all2_Cons1)
  have v0: "verts v fr (u @ concat (us @ ws') @ R)"
    using verts_perm [OF vs] ws(1) by (metis concat_perm)
  have lx: "length (tobs p xs) = length us" using Cons.prems(3) by simp
  let ?R = "concat (us @ ws') @ R"
  have cs': "0 \<le> cs_t (tp_cs ob)" using cs by (simp add: ob_def objects_at_def)
  show ?case
  proof (cases "tefpol_dead ob")
    case True
    obtain v1 where v1: "freeVertex (tp_head ob) (tp_tail ob) v = Some (None, v1)" "verts v1 (u @ fr) ?R"
      "same_on (set ?R) v v1" "vl_l v1 = vl_l v"
      using freeVertex_spec [OF v0 ws(2)] by blast
    define ob1 where "ob1 = ob\<lparr>tp_head := None, tp_tail := None\<rparr>"
    obtain p1 where p1: "pool_put p x ob1 = Some p1" "pool_lists p1 (xs @ x # ys) fn" "pl_buf p1 = (pl_buf p)[x := Some ob1]"
      using pool_put_active [OF pl, of x ob1] by auto
    obtain q' p2 where p2: "pool_unlink p1 x (link_at xs) = Some (q', p2)" "pool_lists p2 (xs @ ys) (x # fn)"
      "chain (pl_next p2) q' ys" "pl_buf p2 = pl_buf p1"
      using pool_unlink_lists [OF p1(2)] by auto
    have t2: "tobs p2 xs = tobs p xs" "tobs p2 ys = tobs p ys" using d by (simp_all add: p2(4) p1(3))
    have sm: "same_on (set (concat us)) v v1" "same_on (set (concat ws')) v v1" "same_on (set (concat us @ R)) v v1"
      using same_on_subset [OF v1(3)] by auto
    have "tepl_lists R p2 v1 (xs @ ys) (us @ ws') (x # fn) (u @ fr)"
      using p2(2) v1(2) trails_same [OF ws(3) sm(2)] trails_same [OF ws(4) sm(1)] cs lx
      by (simp add: tepl_lists_def t2 trails_append)
    from Cons.IH [OF this p2(3) Cons.prems(3)] obtain p' v' zs us' fn' fr' where
      *: "tefpol_loop dt q' (link_at xs) p2 v1 = Some (p', v')" "tepl_lists R p' v' (xs @ zs) (us @ us') fn' fr'"
      "length us' = length zs" "tobs p' xs = tobs p2 xs" "same_on (set (concat us @ R)) v1 v'"
      "poly_anim dt (free_count v1 (u @ fr)) (polys v1 (tobs p2 ys) ws') = (free_count v' fr', polys v' (tobs p' zs) us')"
      "length (pl_next p') = length (pl_next p2)" "tp_core p' = tp_core p2" by blast
    have "free_count v1 (u @ fr) = free_count v fr + length u"
      using verts_unallocated [OF v0] v1(4) by (auto simp: free_count_def)
    then have "poly_anim dt (free_count v fr) (polys v (tobs p (x # ys)) ws) = (free_count v' fr', polys v' (tobs p' zs) us')"
      using *(6) True polys_same [OF sm(2), of "tobs p ys"] by (simp add: ws(1) t2 flip: ob_def)
    moreover have "tefpol_loop dt q (link_at xs) p v = Some (p', v')"
      using *(1) True q ob v1(1) p1(1) p2(1) by (subst tefpol_loop.simps) (simp add: ob1_def)
    moreover have "tp_core p2 = tp_core p"
      using tp_core_more pool_more(3) [OF p2(1)] pool_more(1) [OF p1(1)] by metis
    moreover have "length (pl_next p2) = length (pl_next p)"
      using p2(2) p2(4) p1(3) b by (simp add: pool_lists_def)
    ultimately show ?thesis using *(2-5,7,8) t2(1) same_on_trans [OF sm(3) *(5)] by auto
  next
    case False
    obtain fr0 where a: "verts (svl_alloc v) fr0 (u @ ?R)" "length fr0 = free_count v fr"
      "same_on (set (u @ ?R)) v (svl_alloc v)" "vl_l (svl_alloc v)"
      using svl_alloc_spec [OF v0] by blast
    have ua: "trail (svl_alloc v) ob u" "tverts (svl_alloc v) u = tverts v u"
      using trail_same [OF ws(2)] objects_same same_on_subset [OF a(3)] by auto
    obtain ob1 v1 added fr1 u1 where f: "tefpol_frame dt ob (svl_alloc v) = Some (ob1, v1, added)"
      "vpost ?R (svl_alloc v) v1 ob1 fr1 u1"
      "poly_frame dt (length fr0) (strip ob) (tverts (svl_alloc v) u) = (length fr1, strip ob1, tverts v1 u1)"
      using frame_spec [OF a(1) ua(1) cs'] by blast
    have sv: "same_on (set ?R) v v1"
      using f(2) same_on_subset [OF a(3), of "set ?R"] by (auto simp: vpost_def intro: same_on_trans)
    have l1: "vl_l v1" using f(2) a(4) by (simp add: vpost_def)
    have sm: "same_on (set (concat us)) v v1" "same_on (set (concat ws')) v v1" "same_on (set (concat us @ R)) v v1"
      using same_on_subset [OF sv] by auto
    obtain p1 where p1: "pool_put p x ob1 = Some p1" "pool_lists p1 (xs @ x # ys) fn"
      "pl_buf p1 = (pl_buf p)[x := Some ob1]" "p1 = p\<lparr>pl_buf := pl_buf p1\<rparr>"
      using pool_put_active [OF pl, of x ob1] by auto
    define p2 where "p2 = p1\<lparr>tp_debug_vs := tp_debug_vs p1 + (if added then 1 else 0)\<rparr>"
    have n2: "pl_next p2 = pl_next p" "pl_buf p2 = pl_buf p1" by (simp_all add: p2_def, subst p1(4), simp)
    have t2: "tobs p2 xs = tobs p xs" "tobs p2 ys = tobs p ys" "tobs p2 [x] = [ob1]"
      using d q b by (simp_all add: n2(2) p1(3))
    have c2: "tp_core p2 = tp_core p"
      using tp_core_more [OF pool_more(1) [OF p1(1)]] by (simp add: p2_def)
    have "verts v1 fr1 (concat ((us @ [u1]) @ ws') @ R)"
      using verts_perm [OF vpostD(1) [OF f(2)]] concat_perm by simp
    moreover have "tp_cs ob1 = tp_cs ob" using poly_frame_cs [OF f(3)] by simp
    moreover have "tobs p2 ((xs @ [x]) @ ys) = tobs p xs @ ob1 # tobs p ys" using t2 by simp
    moreover have "trails v1 (tobs p xs @ ob1 # tobs p ys) ((us @ [u1]) @ ws')"
      using trails_same [OF ws(3) sm(2)] trails_same [OF ws(4) sm(1)] vpostD(2) [OF f(2)] lx by (simp add: trails_append)
    moreover have "pool_lists p2 ((xs @ [x]) @ ys) fn" using p1(2) by (simp add: p2_def)
    ultimately have "tepl_lists R p2 v1 ((xs @ [x]) @ ys) ((us @ [u1]) @ ws') fn fr1"
      using cs cs' by (auto simp: tepl_lists_def simp del: append_assoc)
    moreover have "chain (pl_next p2) (pl_next p ! x) ys" using Cons.prems(2) q by (simp add: n2)
    moreover have "length (us @ [u1]) = length (xs @ [x])" using Cons.prems(3) by simp
    ultimately obtain p' v' zs us' fn' fr' where
      *: "tefpol_loop dt (pl_next p ! x) (link_at (xs @ [x])) p2 v1 = Some (p', v')"
      "tepl_lists R p' v' ((xs @ [x]) @ zs) ((us @ [u1]) @ us') fn' fr'"
      "length us' = length zs" "tobs p' (xs @ [x]) = tobs p2 (xs @ [x])" "same_on (set (concat (us @ [u1]) @ R)) v1 v'"
      "poly_anim dt (free_count v1 fr1) (polys v1 (tobs p2 ys) ws') = (free_count v' fr', polys v' (tobs p' zs) us')"
      "length (pl_next p') = length (pl_next p2)" "tp_core p' = tp_core p2"
      using Cons.IH by blast
    have x': "tobs p' xs = tobs p xs" "tobs p' [x] = [ob1]" using *(4) t2 by simp_all
    have u1: "tverts v' u1 = tverts v1 u1" using same_on_subset [OF *(5)] by (intro objects_same) auto
    have "poly_anim dt (free_count v fr) (polys v (tobs p (x # ys)) ws)
        = (free_count v' fr', polys v' (tobs p' (x # zs)) (u1 # us'))"
      using *(6) False f(3) a(2) ua(2) l1 x'(2) u1 polys_same [OF sm(2), of "tobs p ys"]
      by (simp add: ws(1) t2(2) free_count_def flip: ob_def)
    moreover have "tefpol_loop dt q (link_at xs) p v = Some (p', v')"
      using *(1) False q ob f(1) p1(1) by (subst tefpol_loop.simps) (simp add: mem_simps link_at_def p2_def)
    moreover have "same_on (set (concat us @ R)) v v'"
      using same_on_trans [OF sm(3)] same_on_subset [OF *(5), of "set (concat us @ R)"] by auto
    ultimately show ?thesis using *(2,3,7,8) x'(1) c2 n2(1)
      by (intro exI [of _ p'] exI [of _ v'] exI [of _ "x # zs"] exI [of _ "u1 # us'"] exI [of _ fn'] exI [of _ fr']) simp
  qed
qed

definition tepl_ok :: "nat list \<Rightarrow> tepl \<times> te_vertice_list \<Rightarrow> bool" where
  "tepl_ok R s \<longleftrightarrow> (\<exists>ac us fn fr. tepl_lists R (fst s) (snd s) ac us fn fr)
     \<and> tp_bs (fst s) = of_nat (length (pl_next (fst s)))"

text \<open>The trails of a list as the code has them, and the number of free vertices.\<close>

definition trail_nodes :: "te_vertice_list \<Rightarrow> tefpol \<Rightarrow> nat list" where
  "trail_nodes v ob = walk (vl_next v) (length (vl_next v)) (tp_head ob)"

definition tefpol_polys :: "tepl \<times> te_vertice_list \<Rightarrow> (tefpol \<times> tevert list) list" where
  "tefpol_polys s = map (\<lambda>ob. (strip ob, tverts (snd s) (trail_nodes (snd s) ob))) (pool_objects (fst s))"

definition svl_free :: "te_vertice_list \<Rightarrow> nat list" where
  "svl_free v = walk (vl_next v) (length (vl_next v)) (vl_lfree v)"

lemma length_inside: "distinct xs \<Longrightarrow> set xs \<subseteq> {..<n} \<Longrightarrow> length xs \<le> n"
  by (metis card_lessThan card_mono distinct_card finite_lessThan)

lemma verts_free: "verts v fr us \<Longrightarrow> svl_free v = fr"
  unfolding svl_free_def by (rule walk_chain) (auto simp: verts_def intro!: length_inside)

lemma trail_nodes: "verts v fr us \<Longrightarrow> trail v ob u \<Longrightarrow> distinct u \<Longrightarrow> trail_nodes v ob = u"
  unfolding trail_nodes_def
  by (rule walk_chain) (auto simp: trail_def intro!: length_inside dest: chain_inside)

lemma trails_nodes:
  "verts v fr us0 \<Longrightarrow> trails v obs us \<Longrightarrow> distinct (concat us) \<Longrightarrow> map (trail_nodes v) obs = us"
  by (induction obs arbitrary: us) (auto simp: trail_nodes)

lemma tepl_lists_abs:
  assumes "tepl_lists R p v ac us fn fr"
  shows "pool_active p = ac" "pool_free p = fn" "pool_objects p = tobs p ac" "svl_free v = fr"
    "map (trail_nodes v) (pool_objects p) = us" "tefpol_polys (p, v) = polys v (tobs p ac) us"
proof -
  have l: "pool_lists p ac fn" "verts v fr (concat us @ R)" "trails v (tobs p ac) us"
    using assms by (auto simp: tepl_lists_def)
  show p: "pool_active p = ac" "pool_free p = fn" "pool_objects p = tobs p ac" using pool_lists_walk [OF l(1)] by auto
  show "svl_free v = fr" by (rule verts_free [OF l(2)])
  have "distinct (concat us)" using l(2) by (auto simp: verts_def)
  then show m: "map (trail_nodes v) (pool_objects p) = us" using trails_nodes [OF l(2,3)] p(3) by simp
  have "map (\<lambda>ob. (strip ob, tverts v (trail_nodes v ob))) obs = polys v obs (map (trail_nodes v) obs)" for obs
    by (induction obs) simp_all
  then show "tefpol_polys (p, v) = polys v (tobs p ac) us" using m p(3) by (simp add: tefpol_polys_def)
qed

lemma tepl_okE:
  assumes "tepl_ok R s"
  obtains ac us fn fr where "tepl_lists R (fst s) (snd s) ac us fn fr" "tp_bs (fst s) = of_nat (length (pl_next (fst s)))"
  using assms by (auto simp: tepl_ok_def)

lemma tepl_okI:
  "tepl_lists R p v ac us fn fr \<Longrightarrow> tp_bs p = of_nat (length (pl_next p)) \<Longrightarrow> tepl_ok R (p, v)"
  by (auto simp: tepl_ok_def)

lemma tepl_lists_debug [simp]:
  "tepl_lists R (p\<lparr>tp_debug_s := n\<rparr>) v ac us fn fr = tepl_lists R p v ac us fn fr"
  "tepl_lists R (p\<lparr>tp_debug_c := n\<rparr>) v ac us fn fr = tepl_lists R p v ac us fn fr"
  "tepl_lists R (p\<lparr>tp_debug_vc := n\<rparr>) v ac us fn fr = tepl_lists R p v ac us fn fr"
  by (simp_all add: tepl_lists_def)

lemma TefpolList_anim_ok:
  assumes "tepl_ok R s"
  shows "\<exists>s'. TefpolList_anim dt s = Some s' \<and> tepl_ok R s' \<and> same_on (set R) (snd s) (snd s')
     \<and> poly_anim dt (free_count (snd s) (svl_free (snd s))) (tefpol_polys s)
         = (free_count (snd s') (svl_free (snd s')), tefpol_polys s')"
proof -
  obtain p v where s: "s = (p, v)" by (cases s)
  obtain ac us fn fr where l: "tepl_lists R p v ([] @ ac) ([] @ us) fn fr" and bs: "tp_bs p = of_nat (length (pl_next p))"
    using assms by (auto simp: s elim: tepl_okE)
  have c: "chain (pl_next p) (pl_lactv p) ac" using l by (simp add: tepl_lists_def pool_lists_def)
  have n: "length ([] :: nat list list) = length ([] :: nat list)" by simp
  obtain p' v' zs us' fn' fr' where
    *: "tefpol_loop dt (pl_lactv p) (link_at []) p v = Some (p', v')" "tepl_lists R p' v' ([] @ zs) ([] @ us') fn' fr'"
    "same_on (set (concat [] @ R)) v v'"
    "poly_anim dt (free_count v fr) (polys v (tobs p ac) us) = (free_count v' fr', polys v' (tobs p' zs) us')"
    "length (pl_next p') = length (pl_next p)" "tp_core p' = tp_core p"
    using tefpol_loop_spec [OF l c n, of dt] by blast
  have l': "pool_lists p' zs fn'" "verts v' fr' (concat us' @ R)" using *(2) by (auto simp: tepl_lists_def)
  have c1: "count_chain (pl_next p') (pl_lactv p') 0 = Some (of_nat (length zs))"
    using count_chain_length [of "pl_next p'" "pl_lactv p'" zs 0] l'(1) by (simp add: pool_lists_def)
  have c2: "count_chain (vl_next v') (vl_lfree v') 0 = Some (of_nat (length fr'))"
    using count_chain_length [of "vl_next v'" "vl_lfree v'" fr' 0] l'(2) by (simp add: verts_def)
  define p1 where "p1 = (if tp_ml p' \<noteq> 0 then p'\<lparr>tp_debug_c := of_nat (length zs)\<rparr> else p')"
  define p2 where "p2 = (if vl_m v' \<noteq> 0 then p1\<lparr>tp_debug_vc := vl_m v' - of_nat (length fr')\<rparr> else p1)"
  have "TefpolList_anim dt (p, v) = Some (p2, v')"
    using *(1) c1 c2 by (simp add: TefpolList_anim_def link_at_def p1_def p2_def)
  moreover have l2: "tepl_lists R p2 v' zs us' fn' fr'" using *(2) by (simp add: p1_def p2_def)
  moreover have "tp_bs p2 = of_nat (length (pl_next p2))"
    using *(5,6) bs by (simp add: tp_core_def p1_def p2_def)
  moreover have "tobs p2 zs = tobs p' zs" by (simp add: p1_def p2_def)
  ultimately show ?thesis
    using *(3,4) tepl_lists_abs(4,6) [OF l2] tepl_lists_abs(4,6) [OF l] tepl_okI [OF l2]
    by (intro exI [of _ "(p2, v')"]) (simp add: s)
qed

section \<open>Adding\<close>

abbreviation movable :: "tefpol \<Rightarrow> bool" where "movable ob \<equiv> tp_flags ob AND TEP3_MOVABLE \<noteq> 0"

lemma find_immovable_spec:
  assumes "pool_lists p (xs @ ys) fn"
  shows "\<exists>zs ws. ys = zs @ ws
     \<and> find_immovable p (link_at xs) = Some (link_at (xs @ zs), (case ws of [] \<Rightarrow> None | x # _ \<Rightarrow> Some x))
     \<and> (\<forall>ob \<in> set (tobs p zs). movable ob) \<and> (\<forall>x us. ws = x # us \<longrightarrow> \<not> movable (the (pl_buf p ! x)))"
  using assms
proof (induction ys arbitrary: xs)
  case Nil
  from link_get_at [OF Nil] show ?case by (subst find_immovable.simps) (auto simp: chain_simps)
next
  case (Cons x ys)
  from link_get_at [OF Cons.prems] have g: "link_get p (link_at xs) = Some (Some x)" by (auto simp: chain_simps)
  have b: "x < length (pl_buf p)" "pl_buf p ! x \<noteq> None" using Cons.prems by (auto simp: pool_lists_def)
  define ob where "ob = the (pl_buf p ! x)"
  have ob: "pool_object p x = Some ob" using b by (auto simp: pool_object_def mem_simps ob_def)
  show ?case
  proof (cases "movable ob")
    case False
    then show ?thesis using g ob
      by (intro exI [of _ "[]"] exI [of _ "x # ys"], subst find_immovable.simps) (simp add: ob_def)
  next
    case True
    from Cons.IH [of "xs @ [x]"] Cons.prems obtain zs ws where
      "ys = zs @ ws" "find_immovable p (link_at (xs @ [x])) = Some (link_at ((xs @ [x]) @ zs), (case ws of [] \<Rightarrow> None | x # _ \<Rightarrow> Some x))"
      "\<forall>ob \<in> set (tobs p zs). movable ob" "\<forall>x us. ws = x # us \<longrightarrow> \<not> movable (the (pl_buf p ! x))"
      by auto
    then show ?thesis using g ob True
      by (intro exI [of _ "x # zs"] exI [of _ ws], subst find_immovable.simps) (simp add: link_at_def flip: ob_def)
  qed
qed

lemma polys_append: "length obs = length us \<Longrightarrow> polys v (obs @ obs') (us @ us') = polys v obs us @ polys v obs' us'"
  by (simp add: polys_def)

lemma length_polys: "length obs = length us \<Longrightarrow> length (polys v obs us) = length us"
  by (simp add: polys_def)

lemma map_fst_polys: "length obs = length us \<Longrightarrow> map fst (polys v obs us) = map strip obs"
  by (induction obs us rule: list_induct2) simp_all

text \<open>A reused node: its vertices are free, and it is the last active node.\<close>

lemma reuse_node_spec:
  assumes l: "tepl_lists R p v (xs @ x # ys) us fn fr" and ys: "ys \<noteq> []"
  shows "\<exists>p' v' us' fr'. reuse_node x (link_at xs) p v = Some (p', v') \<and> pool_lists p' (xs @ ys @ [x]) fn
     \<and> verts v' fr' (concat us' @ R) \<and> trails v' (tobs p' (xs @ ys)) us'
     \<and> tobs p' (xs @ ys) = tobs p (xs @ ys) \<and> same_on (set R) v v'
     \<and> length (pl_next p') = length (pl_next p) \<and> tp_core p' = tp_core p
     \<and> (\<exists>P q Q. polys v (tobs p (xs @ x # ys)) us = P @ q # Q \<and> length P = length xs
          \<and> polys v' (tobs p' (xs @ ys)) us' = P @ Q)"
proof -
  have pl: "pool_lists p (xs @ x # ys) fn" and vs: "verts v fr (concat us @ R)" and tr: "trails v (tobs p (xs @ x # ys)) us"
    using l by (auto simp: tepl_lists_def)
  have d: "x \<notin> set xs" "x \<notin> set ys" "x < length (pl_buf p)" "pl_buf p ! x \<noteq> None" using pl by (auto simp: pool_lists_def)
  define ob where "ob = the (pl_buf p ! x)"
  have ob: "pool_object p x = Some ob" using d by (auto simp: pool_object_def mem_simps ob_def)
  define us1 us2 where "us1 = take (length xs) us" and "us2 = drop (Suc (length xs)) us"
  define u where "u = us ! length xs"
  have len: "length us = length xs + Suc (length ys)" using trails_length [OF tr] by simp
  then have us: "us = us1 @ u # us2" "length us1 = length xs"
    by (simp_all add: us1_def us2_def u_def id_take_nth_drop [symmetric])
  have t: "trails v (tobs p xs) us1" "trail v ob u" "trails v (tobs p ys) us2"
    using tr us by (simp_all add: trails_append ob_def objects_at_def)
  have "verts v fr (u @ concat (us1 @ us2) @ R)" using verts_perm [OF vs] us(1) by (metis concat_perm)
  from freeVertex_spec [OF this t(2)] obtain v' where
    v': "freeVertex (tp_head ob) (tp_tail ob) v = Some (None, v')" "verts v' (u @ fr) (concat (us1 @ us2) @ R)"
    "same_on (set (concat (us1 @ us2) @ R)) v v'" by blast
  let ?ob = "ob\<lparr>tp_head := None\<rparr>"
  obtain p1 where p1: "pool_put p x ?ob = Some p1" "pool_lists p1 (xs @ x # ys) fn" "pl_buf p1 = (pl_buf p)[x := Some ?ob]"
    using pool_put_active [OF pl, of x ?ob] by auto
  obtain p2 where p2: "pool_to_end p1 x (link_at xs) = Some p2" "pool_lists p2 (xs @ ys @ [x]) fn" "pl_buf p2 = pl_buf p1"
    using pool_to_end_lists [OF p1(2) ys] by blast
  have "reuse_node x (link_at xs) p v = Some (p2, v')"
    using ob v'(1) p1(1) p2(1) trail_assert [OF t(2)] by (simp add: reuse_node_def)
  moreover have to: "tobs p2 (xs @ ys) = tobs p (xs @ ys)" using d by (simp add: p2(3) p1(3))
  moreover have "trails v' (tobs p2 (xs @ ys)) (us1 @ us2)"
    unfolding to using t us(2) trails_same [OF _ same_on_subset [OF v'(3)]] by (auto simp: trails_append)
  moreover have "length (pl_next p2) = length (pl_next p)"
    using pl p2(2,3) p1(3) by (simp add: pool_lists_def)
  moreover have "tp_core p2 = tp_core p"
    using tp_core_more pool_more(5) [OF p2(1)] pool_more(1) [OF p1(1)] by metis
  moreover have "same_on (set R) v v'" using same_on_subset [OF v'(3)] by auto
  moreover have "\<exists>P q Q. polys v (tobs p (xs @ x # ys)) us = P @ q # Q \<and> length P = length xs
      \<and> polys v' (tobs p2 (xs @ ys)) (us1 @ us2) = P @ Q"
  proof -
    have "same_on (set (concat (us1 @ us2))) v v'" by (rule same_on_subset [OF v'(3)]) auto
    moreover have "length (tobs p xs) = length us1" using us(2) by simp
    ultimately show ?thesis unfolding to us(1)
      by (intro exI [of _ "polys v (tobs p xs) us1"] exI [of _ "(strip ob, tverts v u)"] exI [of _ "polys v (tobs p ys) us2"])
         (simp add: polys_append polys_same length_polys us(2) ob_def)
  qed
  ultimately show ?thesis using p2(2) v'(2) by blast
qed

text \<open>What an addition does to the trails.\<close>

definition poly_add :: "tepl \<Rightarrow> tefpol \<Rightarrow> (tefpol \<times> tevert list) list \<Rightarrow> (tefpol \<times> tevert list) list" where
  "poly_add p ob ps =
     (if tp_m p = 0 then ps
      else if pl_lfree p \<noteq> None then (ob, []) # ps
      else if tp_mex p \<noteq> 0 \<and> tp_bs p + tp_mex p \<le> tp_m p then ps
      else (case dropWhile (movable \<circ> fst) ps of
              q # r # qs \<Rightarrow> takeWhile (movable \<circ> fst) ps @ r # qs @ [(ob, [])]
            | _ \<Rightarrow> ps))"

definition fresh :: "tefpol \<Rightarrow> bool" where
  "fresh ob \<longleftrightarrow> tp_head ob = None \<and> tp_tail ob = None \<and> 0 \<le> cs_t (tp_cs ob)"

lemma fresh_trail: "fresh ob \<Longrightarrow> trail v ob [] \<and> strip ob = ob"
  by (simp add: fresh_def trail_def strip_def)

text \<open>The state after an addition, and what is known of it.\<close>

definition add_post :: "nat list \<Rightarrow> tefpol \<Rightarrow> tepl \<times> te_vertice_list \<Rightarrow> tepl \<times> te_vertice_list \<Rightarrow> bool" where
  "add_post R ob s s' \<longleftrightarrow> tepl_ok R s' \<and> same_on (set R) (snd s) (snd s')
     \<and> tefpol_polys s' = poly_add (fst s) ob (tefpol_polys s)"

lemma alloc_none:
  assumes "tepl_ok R s" "tefpol_node (fst s) (snd s) = Some (None, fst s, snd s)"
    "poly_add (fst s) ob (tefpol_polys s) = tefpol_polys s"
  shows "\<exists>pl s'. allocTefpol3D ob s = Some (pl, s') \<and> add_post R ob s s'"
  using assms by (auto simp: allocTefpol3D_def add_post_def)

text \<open>The object is put into a node that is active.\<close>

lemma alloc_put:
  assumes n: "tefpol_node (fst s) (snd s) = Some (Some x, p1, v1)" and put: "pool_put p1 x ob = Some p2"
    and l: "tepl_lists R p2 v1 ac us fn fr" and sm: "same_on (set R) (snd s) v1"
    and bs: "tp_bs p1 = of_nat (length (pl_next p2))"
    and ps: "polys v1 (tobs p2 ac) us = poly_add (fst s) ob (tefpol_polys s)"
  shows "\<exists>pl s'. allocTefpol3D ob s = Some (pl, s') \<and> add_post R ob s s'"
proof -
  let ?p = "p2\<lparr>tp_debug_s := tp_debug_s p2 + 1\<rparr>"
  have l': "tepl_lists R ?p v1 ac us fn fr" using l by simp
  have "tp_bs p2 = tp_bs p1" using tp_core_more [OF pool_more(1) [OF put]] by (simp add: tp_core_def)
  then have "tepl_ok R (?p, v1)" using tepl_okI [OF l'] bs by simp
  moreover have "tefpol_polys (?p, v1) = poly_add (fst s) ob (tefpol_polys s)"
    using tepl_lists_abs(6) [OF l'] ps by simp
  moreover have "allocTefpol3D ob s = Some (Some x, ?p, v1)" using n put by (simp add: allocTefpol3D_def)
  ultimately show ?thesis using sm by (auto simp: add_post_def)
qed

lemma alloc_free:
  assumes l: "tepl_lists R (fst s) (snd s) ac us (x # fn) fr" and bs: "tp_bs (fst s) = of_nat (length (pl_next (fst s)))"
    and ob: "fresh ob" and m: "tp_m (fst s) \<noteq> 0"
  shows "\<exists>pl s'. allocTefpol3D ob s = Some (pl, s') \<and> add_post R ob s s'"
proof -
  obtain p v where s: "s = (p, v)" by (cases s)
  have pl: "pool_lists p ac (x # fn)" using l by (simp add: s tepl_lists_def)
  then have x: "pl_lfree p = Some x" "x \<notin> set ac" "x < length (pl_buf p)" by (auto simp: pool_lists_def)
  obtain p1 p2 where *: "pool_pop p x = Some p1" "pool_put p1 x ob = Some p2" "pool_lists p2 (x # ac) fn"
    "pl_buf p2 = (pl_buf p)[x := Some ob]" using pool_pop_put [OF pl] by blast
  have t: "tobs p2 (x # ac) = ob # tobs p ac" using x by (simp add: *(4))
  have l2: "tepl_lists R p2 v (x # ac) ([] # us) fn fr"
    using l *(3) fresh_trail [OF ob] ob by (simp add: tepl_lists_def t s fresh_def del: objects_at_simps)
  have c: "tp_bs p1 = tp_bs p" using tp_core_more [OF pool_more(2) [OF *(1)]] by (simp add: tp_core_def)
  have n: "length (pl_next p2) = length (pl_next p)" using pl *(3,4) by (simp add: pool_lists_def)
  show ?thesis
  proof (rule alloc_put [OF _ *(2) l2])
    show "tefpol_node (fst s) (snd s) = Some (Some x, p1, v)" using m x *(1) by (simp add: tefpol_node_def s)
    show "tp_bs p1 = of_nat (length (pl_next p2))" using c n bs by (simp add: s)
    show "polys v (tobs p2 (x # ac)) ([] # us) = poly_add (fst s) ob (tefpol_polys s)"
      using m x fresh_trail [OF ob] tepl_lists_abs(6) [OF l] unfolding t by (simp add: s poly_add_def)
  qed (simp add: s)
qed

lemma alloc_extend:
  assumes l: "tepl_lists R (fst s) (snd s) ac us [] fr" and bs: "tp_bs (fst s) = of_nat (length (pl_next (fst s)))"
    and m: "tp_m (fst s) \<noteq> 0" and e: "tp_mex (fst s) \<noteq> 0 \<and> tp_bs (fst s) + tp_mex (fst s) \<le> tp_m (fst s)"
  shows "\<exists>pl s'. allocTefpol3D ob s = Some (pl, s') \<and> add_post R ob s s'"
proof -
  obtain p v where s: "s = (p, v)" by (cases s)
  have pl: "pool_lists p ac []" using l by (simp add: s tepl_lists_def)
  then have f: "pl_lfree p = None" and inside: "set ac \<subseteq> {..<length (pl_buf p)}" by (auto simp: pool_lists_def)
  define n k where "n = unat (tp_mex p)" and "k = length (pl_next p)"
  define p1 where "p1 = (pool_extend p n)\<lparr>tp_bs := tp_bs p + tp_mex p, tp_debug_m := tp_bs p + tp_mex p\<rparr>"
  have n: "0 < n" using e by (simp add: n_def unat_gt_0 s)
  have "pool_lists (pool_extend p n) ac [k..<k + n]" using pool_extend_lists [OF pl n] by (simp add: k_def)
  then have p1: "pool_lists p1 ac (k # [Suc k..<k + n])"
    using n by (simp add: p1_def pool_lists_def upt_conv_Cons)
  from pool_put_free [OF p1, of ob] obtain p2 where p2: "pool_put p1 k ob = Some p2"
    "pool_lists p2 ac (k # [Suc k..<k + n])" "pl_buf p2 = (pl_buf p1)[k := Some ob]" by blast
  have "k \<notin> set ac" using inside pl by (auto simp: k_def pool_lists_def)
  then have t: "tobs p2 ac = tobs p ac" using inside by (simp add: p2(3) p1_def pool_extend_def Let_def)
  have l2: "tepl_lists R p2 v ac us (k # [Suc k..<k + n]) fr" using l p2(2) by (simp add: tepl_lists_def t s)
  have "length (pl_next p2) = length (pl_next p1)" using p1 p2(2,3) by (simp add: pool_lists_def)
  moreover have "length (pl_next p1) = length (pl_next p) + n" using n by (simp add: p1_def pool_extend_def Let_def)
  ultimately have bs2: "tp_bs p1 = of_nat (length (pl_next p2))" using bs by (simp add: p1_def n_def s)
  show ?thesis
  proof (rule alloc_put [OF _ p2(1) l2 _ bs2])
    show "tefpol_node (fst s) (snd s) = Some (Some k, p1, v)" using m e f
      by (simp add: tefpol_node_def s Let_def n_def p1_def pool_extend_def k_def)
    show "polys v (tobs p2 ac) us = poly_add (fst s) ob (tefpol_polys s)"
      using m e f tepl_lists_abs(6) [OF l] by (simp add: s poly_add_def t)
  qed (simp add: s)
qed

lemma alloc_full:
  assumes l: "tepl_lists R (fst s) (snd s) ac us [] fr" and bs: "tp_bs (fst s) = of_nat (length (pl_next (fst s)))"
    and m: "tp_m (fst s) \<noteq> 0" and e: "\<not> (tp_mex (fst s) \<noteq> 0 \<and> tp_bs (fst s) + tp_mex (fst s) \<le> tp_m (fst s))"
    and ob: "fresh ob"
  shows "\<exists>pl s'. allocTefpol3D ob s = Some (pl, s') \<and> add_post R ob s s'"
proof -
  obtain p v where s: "s = (p, v)" by (cases s)
  have pl: "pool_lists p ([] @ ac) []" and tr: "trails v (tobs p ac) us" using l by (simp_all add: s tepl_lists_def)
  then have f: "pl_lfree p = None" by (auto simp: pool_lists_def)
  have ok: "tepl_ok R s" using tepl_okI l bs by (simp add: s)
  obtain zs ws where z: "ac = zs @ ws" "find_immovable p Head = Some (link_at zs, (case ws of [] \<Rightarrow> None | x # _ \<Rightarrow> Some x))"
    "\<forall>ob \<in> set (tobs p zs). movable ob" "\<forall>x us. ws = x # us \<longrightarrow> \<not> movable (the (pl_buf p ! x))"
    using find_immovable_spec [OF pl] by (auto simp: link_at_def)
  have ps: "tefpol_polys s = polys v (tobs p ac) us" using tepl_lists_abs(6) [OF l] by (simp add: s)
  have lz: "length (tobs p ac) = length us" by (rule trails_length [OF tr])
  have mf: "map fst (tefpol_polys s) = map strip (tobs p ac)" using map_fst_polys [OF lz] ps by simp
  have stay: "tefpol_node p v = Some (None, p, v) \<and> poly_add p ob (tefpol_polys s) = tefpol_polys s"
    if "ws = [] \<or> (\<exists>x. ws = [x])"
  proof
    show "tefpol_node p v = Some (None, p, v)"
      using that m e f z(1,2) pl by (auto simp: tefpol_node_def s pool_lists_def)
    have "dropWhile movable (map fst (tefpol_polys s)) = map strip (tobs p ws)"
    proof -
      have "\<And>ob. ob \<in> set (map strip (tobs p zs)) \<Longrightarrow> movable ob" using z(3) by auto
      then show ?thesis using z(4) that unfolding mf z(1) objects_at_append map_append
        by (subst dropWhile_append2) auto
    qed
    from arg_cong [OF this, of length] have "length (dropWhile (movable \<circ> fst) (tefpol_polys s)) = length ws"
      unfolding dropWhile_map by simp
    then have "length (dropWhile (movable \<circ> fst) (tefpol_polys s)) \<le> 1" using that by auto
    then show "poly_add p ob (tefpol_polys s) = tefpol_polys s"
      using m e f by (auto simp: poly_add_def s split: list.split)
  qed
  show ?thesis
  proof (cases "ws = [] \<or> (\<exists>x. ws = [x])")
    case True
    then show ?thesis using alloc_none [OF ok] stay by (simp add: s)
  next
    case False
    then obtain x ys where w: "ws = x # ys" "ys \<noteq> []" by (cases ws) auto
    then have "pl_last p \<noteq> Some x" using pl z(1) last_in_set [OF w(2)] by (auto simp: pool_lists_def)
    have l0: "tepl_lists R p v (zs @ x # ys) us [] fr" using l z(1) w by (simp add: s)
    obtain p1 v1 us1 fr1 P q Q where r: "reuse_node x (link_at zs) p v = Some (p1, v1)" "pool_lists p1 (zs @ ys @ [x]) []"
      "verts v1 fr1 (concat us1 @ R)" "trails v1 (tobs p1 (zs @ ys)) us1"
      "tobs p1 (zs @ ys) = tobs p (zs @ ys)" "same_on (set R) v v1"
      "length (pl_next p1) = length (pl_next p)" "tp_core p1 = tp_core p"
      "polys v (tobs p (zs @ x # ys)) us = P @ q # Q" "length P = length zs" "polys v1 (tobs p1 (zs @ ys)) us1 = P @ Q"
      using reuse_node_spec [OF l0 w(2)] by blast
    from pool_put_active [OF r(2), of x ob] obtain p2 where p2: "pool_put p1 x ob = Some p2"
      "pool_lists p2 (zs @ ys @ [x]) []" "pl_buf p2 = (pl_buf p1)[x := Some ob]" "p2 = p1\<lparr>pl_buf := pl_buf p2\<rparr>" by auto
    have d: "x \<notin> set zs" "x \<notin> set ys" "x < length (pl_buf p1)" using r(2) by (auto simp: pool_lists_def)
    have t: "tobs p2 (zs @ ys @ [x]) = tobs p (zs @ ys) @ [ob]" using d r(5) by (simp add: p2(3))
    have lu: "length (tobs p (zs @ ys)) = length us1" using trails_length [OF r(4)] r(5) by simp
    have tr2: "trails v1 (tobs p (zs @ ys) @ [ob]) (us1 @ [[]])"
      using r(4,5) lu fresh_trail [OF ob] by (simp only: trails_append) simp
    have "\<forall>ob \<in> set (tobs p (zs @ ys) @ [ob]). 0 \<le> cs_t (tp_cs ob)" using l0 ob by (auto simp: tepl_lists_def fresh_def)
    then have l2: "tepl_lists R p2 v1 (zs @ ys @ [x]) (us1 @ [[]]) [] fr1"
      using p2(2) r(3) tr2 unfolding tepl_lists_def t by simp
    have n2: "pl_next p2 = pl_next p1" by (subst p2(4)) simp
    have P: "map fst P = map strip (tobs p zs)" "fst q = strip (the (pl_buf p ! x))" "length Q = length ys"
    proof -
      have "map fst (P @ q # Q) = map strip (tobs p zs @ the (pl_buf p ! x) # tobs p ys)"
        using mf unfolding ps z(1) w(1) r(9) by simp
      then show "map fst P = map strip (tobs p zs)" "fst q = strip (the (pl_buf p ! x))" "length Q = length ys"
        using r(10) by (auto simp: append_eq_append_conv dest: arg_cong [where f = length])
    qed
    have "\<forall>y \<in> set P. movable (fst y)"
    proof
      fix y assume "y \<in> set P"
      then have "fst y \<in> set (map strip (tobs p zs))" using P(1) by (metis image_eqI set_map)
      then show "movable (fst y)" using z(3) by auto
    qed
    moreover have "\<not> movable (fst q)" using z(4) w P(2) by simp
    moreover obtain r Q' where Q': "Q = r # Q'" using P(3) w(2) by (cases Q) auto
    ultimately have "poly_add p ob (tefpol_polys s) = P @ Q @ [(ob, [])]"
      using m e f unfolding ps z(1) w(1) r(9) by (auto simp: poly_add_def s dropWhile_append2 takeWhile_append2)
    moreover have "polys v1 (tobs p2 (zs @ ys @ [x])) (us1 @ [[]]) = P @ Q @ [(ob, [])]"
      unfolding t using r(5,11) fresh_trail [OF ob] polys_append [OF lu] by simp
    ultimately show ?thesis
    proof (intro alloc_put [OF _ p2(1) l2])
      show "tefpol_node (fst s) (snd s) = Some (Some x, p1, v1)"
        using m e f z(2) w r(1) \<open>pl_last p \<noteq> Some x\<close> by (auto simp: tefpol_node_def s)
      show "tp_bs p1 = of_nat (length (pl_next p2))" using r(7,8) bs n2 by (simp add: tp_core_def s)
    qed (simp_all add: s r(6))
  qed
qed

lemma allocTefpol3D_ok:
  assumes "tepl_ok R s" "fresh ob"
  shows "\<exists>pl s'. allocTefpol3D ob s = Some (pl, s') \<and> add_post R ob s s'"
proof -
  obtain ac us fn fr where l: "tepl_lists R (fst s) (snd s) ac us fn fr"
    and bs: "tp_bs (fst s) = of_nat (length (pl_next (fst s)))" using assms(1) by (rule tepl_okE)
  show ?thesis
  proof (cases "tp_m (fst s) = 0")
    case True
    then show ?thesis by (intro alloc_none [OF assms(1)]) (simp_all add: tefpol_node_def poly_add_def)
  next
    case False
    show ?thesis
    proof (cases fn)
      case (Cons x fn')
      then show ?thesis using alloc_free [of R s ac us x fn' fr ob] l bs assms(2) False by simp
    next
      case Nil
      then show ?thesis using alloc_extend [of R s ac us fr ob] alloc_full [of R s ac us fr ob] l bs assms(2) False by blast
    qed
  qed
qed

section \<open>The destructor\<close>

lemma free_trails_spec:
  assumes "chain (pl_next p) q ys" "\<And>x. x \<in> set ys \<Longrightarrow> pool_object p x = Some (the (pl_buf p ! x))"
    "verts v fr (concat us @ R)" "trails v (tobs p ys) us"
  shows "\<exists>v' fr'. free_trails p q v = Some v' \<and> verts v' fr' R \<and> same_on (set R) v v'"
  using assms
proof (induction ys arbitrary: q v fr us)
  case Nil
  then show ?case by (subst free_trails.simps) auto
next
  case (Cons x ys)
  obtain u us' where u: "us = u # us'" "trail v (the (pl_buf p ! x)) u" "trails v (tobs p ys) us'"
    using Cons.prems(4) by auto
  have "verts v fr (u @ concat us' @ R)" using Cons.prems(3) u(1) by simp
  from freeVertex_spec [OF this u(2)] obtain v1 where v1:
    "freeVertex (tp_head (the (pl_buf p ! x))) (tp_tail (the (pl_buf p ! x))) v = Some (None, v1)"
    "verts v1 (u @ fr) (concat us' @ R)" "same_on (set (concat us' @ R)) v v1" by blast
  have sm: "same_on (set R) v v1" "same_on (set (concat us')) v v1" using same_on_subset [OF v1(3)] by auto
  have q: "q = Some x" "x < length (pl_next p)" "chain (pl_next p) (pl_next p ! x) ys" using Cons.prems(1) by auto
  obtain v' fr' where "free_trails p (pl_next p ! x) v1 = Some v'" "verts v' fr' R" "same_on (set R) v1 v'"
    using Cons.IH [OF q(3) _ v1(2) trails_same [OF u(3) sm(2)]] Cons.prems(2) by auto
  then show ?case using q(1,2) Cons.prems(2) [of x] v1(1) same_on_trans [OF sm(1)]
    by (intro exI [of _ v'] exI [of _ fr'], subst free_trails.simps) (simp add: mem_simps)
qed

lemma TefpolList_delete_ok:
  assumes "tepl_lists R p v ac us fn fr"
  shows "\<exists>v'. TefpolList_delete (p, v) = Some v' \<and> verts v' (svl_free v') R \<and> same_on (set R) v v'"
proof -
  have l: "pool_lists p ac fn" "verts v fr (concat us @ R)" "trails v (tobs p ac) us" using assms by (auto simp: tepl_lists_def)
  have c: "chain (pl_next p) (pl_lactv p) ac" using l(1) by (simp add: pool_lists_def)
  have o: "pool_object p x = Some (the (pl_buf p ! x))" if "x \<in> set ac" for x
    using l(1) that chain_inside [OF c] by (auto simp: pool_lists_def pool_object_def mem_simps)
  from free_trails_spec [OF c o l(2,3)] show ?thesis
    using verts_free by (auto simp: TefpolList_delete_def)
qed

section \<open>The list as a component\<close>

text \<open>What the game calls: additions, and the members of the objects that it keeps a pointer to.\<close>

datatype tefpol_call =
    AddTefpol "real Vec3" "real Vec3" "real Vec3" color_sequence uint32 real
  | AddMovable "real Vec3" "real Vec3" "real Vec3" color_sequence uint32 real
  | MoveTefpol nat "real Vec3" "real Vec3" real bool
  | Immobilize nat

text \<open>A pointer is to a node in which an object has been constructed; it may have been reused.\<close>

definition has_object :: "tepl \<Rightarrow> nat \<Rightarrow> bool" where
  "has_object p x \<longleftrightarrow> x < length (pl_buf p) \<and> pl_buf p ! x \<noteq> None"

fun tefpol_add :: "tefpol_call \<Rightarrow> tepl \<times> te_vertice_list \<Rightarrow> (tepl \<times> te_vertice_list) option" where
  "tefpol_add (AddTefpol pos velo grv col f life) s = addTefpol pos velo grv col f life s"
| "tefpol_add (AddMovable pos velo grv col f life) s = map_option snd (addTefpolMovable pos velo grv col f life s)"
| "tefpol_add (MoveTefpol x pos velo life skip) s =
     (if has_object (fst s) x
      then do { p \<leftarrow> on_tefpol (Tefpol_move pos velo life skip) x (fst s); Some (p, snd s) } else Some s)"
| "tefpol_add (Immobilize x) s =
     (if has_object (fst s) x
      then do { p \<leftarrow> on_tefpol Tefpol_immobilize x (fst s); Some (p, snd s) } else Some s)"

text \<open>The duration of a colour sequence is not negative.\<close>

fun tefpol_call_ok :: "tefpol_call \<Rightarrow> bool" where
  "tefpol_call_ok (AddTefpol pos velo grv col f life) \<longleftrightarrow> 0 \<le> cs_t col"
| "tefpol_call_ok (AddMovable pos velo grv col f life) \<longleftrightarrow> 0 \<le> cs_t col"
| "tefpol_call_ok _ \<longleftrightarrow> True"

definition keeps_trail :: "(tefpol \<Rightarrow> tefpol) \<Rightarrow> bool" where
  "keeps_trail f \<longleftrightarrow> (\<forall>ob. tp_head (f ob) = tp_head ob \<and> tp_tail (f ob) = tp_tail ob \<and> tp_cs (f ob) = tp_cs ob)"

lemma keeps_trail_members: "keeps_trail (Tefpol_move pos velo life skip)" "keeps_trail Tefpol_immobilize"
  by (simp_all add: keeps_trail_def Tefpol_move_def Tefpol_immobilize_def)

lemma objects_at_upd: "distinct ac \<Longrightarrow> set ac \<subseteq> {..<length b} \<Longrightarrow>
  objects_at (b[x := Some y]) ac = map (\<lambda>z. if z = x then y else the (b ! z)) ac"
  by (auto simp: objects_at_def nth_list_update)

lemma trails_keep:
  "keeps_trail f \<Longrightarrow> trails v (map (\<lambda>z. if z = x then f (g z) else g z) ac) us = trails v (map g ac) us"
proof -
  assume "keeps_trail f"
  then have "trail v (if z = x then f (g z) else g z) u = trail v (g z) u" for z u
    by (simp add: keeps_trail_def trail_def)
  then show ?thesis by (simp add: trails_def list_all2_map1)
qed

lemma on_tefpol_ok:
  assumes s: "tepl_ok R s" and x: "has_object (fst s) x" and f: "keeps_trail f"
  shows "\<exists>p. on_tefpol f x (fst s) = Some p \<and> tepl_ok R (p, snd s)"
proof -
  obtain ac us fn fr where l: "tepl_lists R (fst s) (snd s) ac us fn fr" and bs: "tp_bs (fst s) = of_nat (length (pl_next (fst s)))"
    using s by (rule tepl_okE)
  let ?p = "fst s" and ?v = "snd s"
  define ob where "ob = the (pl_buf ?p ! x)"
  define b where "b = (pl_buf ?p)[x := Some (f ob)]"
  have pl: "pool_lists ?p ac fn" using l by (simp add: tepl_lists_def)
  have "on_tefpol f x ?p = Some (?p\<lparr>pl_buf := b\<rparr>)"
    using x by (auto simp: on_tefpol_def pool_object_def pool_put_def mem_simps has_object_def ob_def b_def)
  moreover have "pool_lists (?p\<lparr>pl_buf := b\<rparr>) ac fn"
    using pl x by (auto simp: pool_lists_def b_def nth_list_update has_object_def)
  moreover have t: "objects_at b ac = map (\<lambda>z. if z = x then f (the (pl_buf ?p ! z)) else the (pl_buf ?p ! z)) ac"
  proof -
    have "distinct ac" "set ac \<subseteq> {..<length (pl_buf ?p)}" using pl by (auto simp: pool_lists_def)
    then show ?thesis unfolding b_def using objects_at_upd by (simp add: ob_def cong: map_cong if_cong)
  qed
  moreover have "trails ?v (objects_at b ac) us"
    using l unfolding t tepl_lists_def trails_keep [OF f] by (simp add: objects_at_def)
  moreover have "\<forall>ob \<in> set (objects_at b ac). 0 \<le> cs_t (tp_cs ob)"
    using l f unfolding t by (auto simp: tepl_lists_def objects_at_def keeps_trail_def)
  ultimately show ?thesis using l bs
    by (intro exI [of _ "?p\<lparr>pl_buf := b\<rparr>"]) (auto simp: tepl_lists_def intro!: tepl_okI)
qed

lemma fresh_new: "0 \<le> cs_t col \<Longrightarrow> fresh (tefpol_new pos velo grv col f life)"
  by (simp add: fresh_def tefpol_new_def)

lemma addTefpol_ok:
  assumes "tepl_ok R s" "0 \<le> cs_t col"
  shows "\<exists>s'. addTefpol pos velo grv col f life s = Some s'
     \<and> add_post R (tefpol_new pos velo grv col (f AND NOT (TEP3_MOVABLE OR TEP3_SKIP)) life) s s'"
  using allocTefpol3D_ok [OF assms(1) fresh_new [OF assms(2)],
      of pos velo grv "f AND NOT (TEP3_MOVABLE OR TEP3_SKIP)" life]
  by (auto simp: addTefpol_def)

lemma addTefpolMovable_ok:
  assumes "tepl_ok R s" "0 \<le> cs_t col"
  shows "\<exists>pl s'. addTefpolMovable pos velo grv col f life s = Some (pl, s')
     \<and> add_post R (tefpol_new pos velo grv col (f OR TEP3_MOVABLE) life) s s'"
  using allocTefpol3D_ok [OF assms(1) fresh_new [OF assms(2)]] by (simp add: addTefpolMovable_def)

lemma tefpol_add_ok:
  assumes "tepl_ok R s" "tefpol_call_ok a"
  shows "\<exists>s'. tefpol_add a s = Some s' \<and> tepl_ok R s' \<and> same_on (set R) (snd s) (snd s')"
proof (cases a)
  case (AddTefpol pos velo grv col f life)
  with assms addTefpol_ok [OF assms(1), of col pos velo grv f life] show ?thesis by (auto simp: add_post_def)
next
  case (AddMovable pos velo grv col f life)
  with assms addTefpolMovable_ok [OF assms(1), of col pos velo grv f life] show ?thesis
    by (auto simp: add_post_def)
next
  case (MoveTefpol x pos velo life skip)
  then show ?thesis using assms(1) on_tefpol_ok [OF assms(1) _ keeps_trail_members(1), of x pos velo life skip]
    by (cases "has_object (fst s) x") auto
next
  case (Immobilize x)
  then show ?thesis using assms(1) on_tefpol_ok [OF assms(1) _ keeps_trail_members(2), of x]
    by (cases "has_object (fst s) x") auto
qed

definition tefpol_good :: "nat list \<Rightarrow> te_vertice_list \<Rightarrow> tepl \<times> te_vertice_list \<Rightarrow> bool" where
  "tefpol_good R v0 s \<longleftrightarrow> tepl_ok R s \<and> same_on (set R) v0 (snd s)"

interpretation tefpol: entity_pool "tefpol_good R v0" tefpol_call_ok tefpol_add TefpolList_anim for R v0
proof
  fix s a assume "tefpol_good R v0 s" "tefpol_call_ok a"
  then show "\<exists>s'. tefpol_add a s = Some s' \<and> tefpol_good R v0 s'"
    using tefpol_add_ok [of R s a] same_on_trans by (fastforce simp: tefpol_good_def)
next
  fix s dt assume "tefpol_good R v0 s"
  then show "\<exists>s'. TefpolList_anim dt s = Some s' \<and> tefpol_good R v0 s'"
    using TefpolList_anim_ok [of R s dt] same_on_trans by (fastforce simp: tefpol_good_def)
qed

lemma TefpolList_new_ok:
  assumes "init \<noteq> 0" "uint init < 2 ^ 31" "verts v fr R"
  shows "tefpol_good R v (TefpolList_new junk maxt init unit, v)"
proof -
  let ?p = "TefpolList_new junk maxt init unit"
  note h = init_links_chain [OF assms(1,2), of junk]
  have "pool_lists ?p [] [0..<unat init]"
    using h by (simp add: pool_lists_def TefpolList_new_def lessThan_atLeast0)
  then have "tepl_lists R ?p v [] [] [0..<unat init] fr" using assms(3) by (simp add: tepl_lists_def)
  moreover have "tp_bs ?p = of_nat (length (pl_next ?p))" using h by (simp add: TefpolList_new_def)
  ultimately show ?thesis by (simp add: tefpol_good_def tepl_okI)
qed

lemma verts_start: "verts svl_start [] []"
  by (simp add: verts_def svl_start_def)

text \<open>C9: the trails are memory safe, whatever the order of the calls: from the constructor with a
  nonempty buffer, with vertices \<open>R\<close> in use by other lists, every sequence of additions, motions,
  immobilisations and frames runs without a stray access or a failed assertion, and ends.
  Afterwards the free and the active nodes partition the nodes; every vertex is in exactly one of the
  free list, the trails of the active objects and \<open>R\<close>, the vertices of the other lists are as
  they were, and the destructor gives all vertices but those of the other lists back.\<close>

theorem tefpol_safe:
  assumes "init \<noteq> 0" "uint init < 2 ^ 31" "verts v0 fr0 R" "\<And>a. Add a \<in> set cs \<Longrightarrow> tefpol_call_ok a"
  shows "\<exists>p v. entity_run tefpol_add TefpolList_anim cs (TefpolList_new junk maxt init unit, v0) = Some (p, v)
    \<and> pool_lists p (pool_active p) (pool_free p)
    \<and> verts v (svl_free v) (concat (map (trail_nodes v) (pool_objects p)) @ R) \<and> same_on (set R) v0 v
    \<and> (\<exists>v'. TefpolList_delete (p, v) = Some v' \<and> verts v' (svl_free v') R)"
proof -
  obtain s where s: "entity_run tefpol_add TefpolList_anim cs (TefpolList_new junk maxt init unit, v0) = Some s"
    "tefpol_good R v0 s"
    using tefpol.run_good [OF TefpolList_new_ok [OF assms(1-3)] assms(4)] by blast
  obtain ac us fn fr where l: "tepl_lists R (fst s) (snd s) ac us fn fr" using s(2) by (auto simp: tefpol_good_def elim: tepl_okE)
  have "pool_lists (fst s) ac fn" "verts (snd s) fr (concat us @ R)" using l by (simp_all add: tepl_lists_def)
  then show ?thesis using s tepl_lists_abs(1,2,4,5) [OF l] TefpolList_delete_ok [OF l]
    by (intro exI [of _ "fst s"] exI [of _ "snd s"]) (auto simp: tefpol_good_def)
qed

lemma tefpol_safe_witness:
  "\<exists>p v. entity_run tefpol_add TefpolList_anim
       [Add (AddMovable vec3_000 vec3_100 vec3_000
          \<lparr>cs_dc = 0, cs_p = [\<lparr>cn_t = 1, cn_col = 5\<rparr>], cs_colrand = 0, cs_t = 1, cs_flags = 0\<rparr> 0 3),
        Anim (1 / 2), Add (MoveTefpol 0 vec3_010 vec3_100 2 False), Anim (1 / 2), Add (Immobilize 0), Anim 9, Anim 1]
       (TefpolList_new (\<lambda>_. None) 4 2 1, svl_start) = Some (p, v)
    \<and> pool_lists p (pool_active p) (pool_free p)
    \<and> verts v (svl_free v) (concat (map (trail_nodes v) (pool_objects p)) @ []) \<and> same_on (set []) svl_start v
    \<and> (\<exists>v'. TefpolList_delete (p, v) = Some v' \<and> verts v' (svl_free v') [])"
  by (rule tefpol_safe [OF _ _ verts_start]) (auto)



text \<open>The node of a new block that an addition fills stays in the free list, as for the telines: the
  object is never animated or drawn.\<close>

lemma tefpol_extension_loses:
  assumes "tepl_ok R s" "0 \<le> cs_t col" "tp_m (fst s) \<noteq> 0" "pl_lfree (fst s) = None" "tp_mex (fst s) \<noteq> 0"
    "tp_bs (fst s) + tp_mex (fst s) \<le> tp_m (fst s)"
  shows "\<exists>pl s'. addTefpolMovable pos velo grv col f life s = Some (pl, s') \<and> tefpol_polys s' = tefpol_polys s"
  using addTefpolMovable_ok [OF assms(1,2), of pos velo grv f life] assms by (auto simp: add_post_def poly_add_def)

text \<open>Once the life is over the last vertex ages twice in each frame, by the branch for trails that add no
  vertex and by the one for lives that are over.\<close>

lemma poly_trim_keep: "total_dt vs \<le> t \<Longrightarrow> poly_trim t vs = vs"
  by (cases vs) simp_all

lemma tefpol_ages_twice:
  assumes "tp_flags ob AND TEP3_SKIP = 0" "tp_life ob \<le> 0" "0 \<le> dt" "total_dt vs \<le> cs_t (tp_cs ob)"
  shows "snd (snd (poly_frame dt k ob vs)) = map_last (\<lambda>tv. tv\<lparr>tv_dt := tv_dt tv + 2 * dt\<rparr>) vs"
  using assms poly_trim_keep [OF assms(4)]
  by (simp add: poly_frame_def poly_vertex_def poly_genvert_def poly_motion_def map_last_def Let_def)

end
