(* ===== verification/Serial.thy ===== *)
theory Serial
  imports CString "HOL-Library.AList"
begin

text \<open>
  Serialization (\<open>src/serial_util.cpp\<close>, \<open>src/serial.cpp\<close>): the binary stream that saved games
  and the network messages are made of, its reader, and the packing of objects into it.  A
  \<open>float\<close> or a \<open>double\<close> is its bit pattern; integers are stored as the machine has them, the
  lowest byte first; \<open>long\<close> has 32 bits, as the comment on the reader asks for.  The reader
  works on a block of memory with a position and a count of the bytes that are left; reading
  outside of the block is the error \<open>OutOfBounds\<close>, which the program does not detect.
\<close>

section \<open>The representation of machine values\<close>

definition mem_bytes :: "'a::len word \<Rightarrow> byte list" where
  "mem_bytes a = map (\<lambda>i. ucast (drop_bit (8 * i) a)) [0..<LENGTH('a) div 8]"

fun of_mem_bytes :: "byte list \<Rightarrow> 'a::len word" where
  "of_mem_bytes [] = 0"
| "of_mem_bytes (b # bs) = ucast b OR push_bit 8 (of_mem_bytes bs)"

section \<open>BinSerializeStream\<close>

record bin_out =
  bo_buf :: "byte list"
  bo_size :: nat

definition bin_out_new :: bin_out where
  "bin_out_new = \<lparr>bo_buf = [], bo_size = 0\<rparr>"

text \<open>All members grow the block by \<open>realloc\<close> and copy to its end; \<open>junk\<close> is what new memory holds.\<close>

definition bin_append :: "(nat \<Rightarrow> byte) \<Rightarrow> byte list \<Rightarrow> bin_out \<Rightarrow> bin_out option" where
  "bin_append junk bs s =
     (let sz = bo_size s + length bs; buf = c_realloc junk (bo_buf s) sz
      in do { buf \<leftarrow> write_at buf (sz - length bs) bs; Some \<lparr>bo_buf = buf, bo_size = sz\<rparr> })"

definition bin_write :: "(nat \<Rightarrow> byte) \<Rightarrow> 'a::len word \<Rightarrow> bin_out \<Rightarrow> bin_out option" where
  "bin_write junk a s = bin_append junk (mem_bytes a) s"

text \<open>A C string \<open>a\<close> is copied with its NUL.\<close>

definition bin_write_cstr :: "(nat \<Rightarrow> byte) \<Rightarrow> byte list \<Rightarrow> bin_out \<Rightarrow> bin_out option" where
  "bin_write_cstr junk a s = do {
     n \<leftarrow> c_strlen a;
     bin_append junk (take (n + 1) a) s }"

text \<open>A \<open>std::string\<close> is copied with the NUL that \<open>c_str\<close> adds.\<close>

definition bin_write_string :: "(nat \<Rightarrow> byte) \<Rightarrow> byte list \<Rightarrow> bin_out \<Rightarrow> bin_out option" where
  "bin_write_string junk a s = bin_append junk (a @ [0]) s"

text \<open>The values that the operators write: each constructor is an overload of \<open>operator<<\<close>.\<close>

datatype sval =
    SChar byte | SUChar byte | SShort "16 word" | SUShort "16 word" | SInt uint32 | SUInt uint32
  | SLong uint32 | SULong uint32 | SBool bool | SFloat uint32 | SDouble "64 word"
  | SString "byte list"
  | SObject "uint32 option"
  | SVec3 "64 word" "64 word" "64 word"
  | SQuat "64 word" "64 word" "64 word" "64 word"
  | SRandom "byte list"

text \<open>A pointer to an object is written as the object's id, the null pointer as 0.\<close>

fun bin_bytes_loop :: "(nat \<Rightarrow> byte) \<Rightarrow> byte list \<Rightarrow> bin_out \<Rightarrow> bin_out option" where
  "bin_bytes_loop junk [] s = Some s"
| "bin_bytes_loop junk (b # bs) s = do { s \<leftarrow> bin_write junk b s; bin_bytes_loop junk bs s }"

fun bin_put :: "(nat \<Rightarrow> byte) \<Rightarrow> sval \<Rightarrow> bin_out \<Rightarrow> bin_out option" where
  "bin_put junk (SChar a) s = bin_write junk a s"
| "bin_put junk (SUChar a) s = bin_write junk a s"
| "bin_put junk (SShort a) s = bin_write junk a s"
| "bin_put junk (SUShort a) s = bin_write junk a s"
| "bin_put junk (SInt a) s = bin_write junk a s"
| "bin_put junk (SUInt a) s = bin_write junk a s"
| "bin_put junk (SLong a) s = bin_write junk a s"
| "bin_put junk (SULong a) s = bin_write junk a s"
| "bin_put junk (SBool a) s = bin_write junk (if a then 1 else 0 :: byte) s"
| "bin_put junk (SFloat a) s = bin_write junk a s"
| "bin_put junk (SDouble a) s = bin_write junk a s"
| "bin_put junk (SString a) s = bin_write_cstr junk (a @ [0]) s"
| "bin_put junk (SObject p) s = bin_write junk (case p of Some i \<Rightarrow> i | None \<Rightarrow> 0) s"
| "bin_put junk (SVec3 x y z) s = do {
     s \<leftarrow> bin_write junk x s; s \<leftarrow> bin_write junk y s; bin_write junk z s }"
| "bin_put junk (SQuat x y z w) s = do {
     s \<leftarrow> bin_write junk x s; s \<leftarrow> bin_write junk y s; s \<leftarrow> bin_write junk z s; bin_write junk w s }"
| "bin_put junk (SRandom bs) s = bin_bytes_loop junk bs s"

fun bin_put_all :: "(nat \<Rightarrow> byte) \<Rightarrow> sval list \<Rightarrow> bin_out \<Rightarrow> bin_out option" where
  "bin_put_all junk [] s = Some s"
| "bin_put_all junk (v # vs) s = do { s \<leftarrow> bin_put junk v s; bin_put_all junk vs s }"

text \<open>\<open>join\<close> writes the size of the other stream, an \<open>unsigned\<close>, and its contents.\<close>

definition bin_join :: "(nat \<Rightarrow> byte) \<Rightarrow> bin_out \<Rightarrow> bin_out \<Rightarrow> bin_out option" where
  "bin_join junk other s = do {
     s \<leftarrow> bin_write junk (word_of_nat (bo_size other) :: uint32) s;
     bin_append junk (take (bo_size other) (bo_buf other)) s }"

section \<open>BinUnserializeStream\<close>

datatype stream_error = InputShortage | FormatError | OutOfBounds

record bin_in =
  bi_mem :: "byte list"
  bi_pos :: nat
  bi_size :: uint32

definition bin_in_new :: "byte list \<Rightarrow> uint32 \<Rightarrow> bin_in" where
  "bin_in_new src sz = \<lparr>bi_mem = src, bi_pos = 0, bi_size = sz\<rparr>"

text \<open>Sequencing of steps that may throw.\<close>

definition and_then :: "'e + 'a \<Rightarrow> ('a \<Rightarrow> 'e + 'b) \<Rightarrow> 'e + 'b" where
  "and_then m f = (case m of Inl e \<Rightarrow> Inl e | Inr a \<Rightarrow> f a)"

definition bin_fetch :: "nat \<Rightarrow> bin_in \<Rightarrow> stream_error + (byte list \<times> bin_in)" where
  "bin_fetch n s =
     (if unat (bi_size s) < n then Inl InputShortage
      else if length (bi_mem s) < bi_pos s + n then Inl OutOfBounds
      else Inr (take n (drop (bi_pos s) (bi_mem s)),
                s\<lparr>bi_pos := bi_pos s + n, bi_size := bi_size s - word_of_nat n\<rparr>))"

definition bin_read :: "bin_in \<Rightarrow> stream_error + ('a::len word \<times> bin_in)" where
  "bin_read s = and_then (bin_fetch (LENGTH('a) div 8) s) (\<lambda>(bs, s). Inr (of_mem_bytes bs, s))"

text \<open>\<open>read(char *s, std::streamsize ssize)\<close>.\<close>

definition bin_read_block :: "nat \<Rightarrow> bin_in \<Rightarrow> stream_error + (byte list \<times> bin_in)" where
  "bin_read_block ssize s = bin_fetch ssize s"

definition bin_eof :: "bin_in \<Rightarrow> bool" where "bin_eof s \<longleftrightarrow> bi_size s = 0"
definition bin_fail :: "bin_in \<Rightarrow> bool" where "bin_fail s \<longleftrightarrow> bi_size s = 0"

text \<open>\<open>get\<close>: the next byte as a \<open>char\<close>; at the end \<open>-1\<close>, which is also what the byte 255 reads as.\<close>

definition bin_get :: "bin_in \<Rightarrow> stream_error + (byte \<times> bin_in)" where
  "bin_get s =
     (if bi_size s = 0 then Inr (- 1, s)
      else (case aread (bi_mem s) (bi_pos s) of
          None \<Rightarrow> Inl OutOfBounds
        | Some c \<Rightarrow> Inr (c, s\<lparr>bi_pos := bi_pos s + 1, bi_size := bi_size s - 1\<rparr>)))"

text \<open>Reading a string: until the NUL, throwing at \<open>-1\<close>.  The count of bytes bounds the loop.\<close>

function bin_read_string :: "byte list \<Rightarrow> bin_in \<Rightarrow> stream_error + (byte list \<times> bin_in)" where
  "bin_read_string a s =
     (case bin_get s of Inl e \<Rightarrow> Inl e
      | Inr (c, s') \<Rightarrow>
          if c = 0 then Inr (a, s')
          else if c = - 1 then Inl InputShortage
          else bin_read_string (a @ [c]) s')"
  by pat_completeness auto
termination
proof (relation "measure (\<lambda>(a, s). unat (bi_size s))", goal_cases)
  case (2 a s p c s')
  then have "bi_size s \<noteq> 0" "bi_size s' = bi_size s - 1"
    by (auto simp: bin_get_def split: if_splits option.splits)
  then show ?case by (simp add: unat_minus_one unat_gt_0)
qed simp

declare bin_read_string.simps [simp del]

text \<open>\<open>operator>>(const char *)\<close> expects the string \<open>a\<close> and its NUL; \<open>strncmp\<close> compares them.\<close>

definition bin_expect :: "byte list \<Rightarrow> bin_in \<Rightarrow> stream_error + bin_in" where
  "bin_expect a s =
     (let len = length a + 1
      in if unat (bi_size s) < len then Inl InputShortage
         else if length (bi_mem s) < bi_pos s + len then Inl OutOfBounds
         else if take len (drop (bi_pos s) (bi_mem s)) \<noteq> a @ [0] then Inl FormatError
         else Inr (s\<lparr>bi_pos := bi_pos s + len, bi_size := bi_size s - word_of_nat len\<rparr>))"

text \<open>\<open>substream\<close> skips \<open>size\<close> bytes without comparing it to what is left; the new reader starts
  where this one was.\<close>

definition bin_substream :: "uint32 \<Rightarrow> bin_in \<Rightarrow> bin_in \<times> bin_in" where
  "bin_substream sz s =
     (\<lparr>bi_mem = bi_mem s, bi_pos = bi_pos s, bi_size = sz\<rparr>,
      s\<lparr>bi_pos := bi_pos s + unat sz, bi_size := bi_size s - sz\<rparr>)"

text \<open>The types that \<open>operator>>\<close> is overloaded on, and its members.\<close>

datatype stype =
    TChar | TUChar | TShort | TUShort | TInt | TUInt | TLong | TULong | TBool | TFloat | TDouble
  | TString | TObject | TVec3 | TQuat | TRandom nat

fun sval_type :: "sval \<Rightarrow> stype" where
  "sval_type (SChar _) = TChar" | "sval_type (SUChar _) = TUChar"
| "sval_type (SShort _) = TShort" | "sval_type (SUShort _) = TUShort"
| "sval_type (SInt _) = TInt" | "sval_type (SUInt _) = TUInt"
| "sval_type (SLong _) = TLong" | "sval_type (SULong _) = TULong"
| "sval_type (SBool _) = TBool" | "sval_type (SFloat _) = TFloat" | "sval_type (SDouble _) = TDouble"
| "sval_type (SString _) = TString" | "sval_type (SObject _) = TObject"
| "sval_type (SVec3 _ _ _) = TVec3" | "sval_type (SQuat _ _ _ _) = TQuat"
| "sval_type (SRandom bs) = TRandom (length bs)"

fun bin_read_bytes :: "nat \<Rightarrow> bin_in \<Rightarrow> stream_error + (byte list \<times> bin_in)" where
  "bin_read_bytes 0 s = Inr ([], s)"
| "bin_read_bytes (Suc n) s =
     and_then (bin_read s) (\<lambda>(b, s). and_then (bin_read_bytes n s) (\<lambda>(bs, s). Inr (b # bs, s)))"

definition read_as :: "('a::len word \<Rightarrow> sval) \<Rightarrow> bin_in \<Rightarrow> stream_error + (sval \<times> bin_in)" where
  "read_as f s = and_then (bin_read s) (\<lambda>(a, s). Inr (f a, s))"

fun bin_take :: "stype \<Rightarrow> bin_in \<Rightarrow> stream_error + (sval \<times> bin_in)" where
  "bin_take TChar s = read_as SChar s"
| "bin_take TUChar s = read_as SUChar s"
| "bin_take TShort s = read_as SShort s"
| "bin_take TUShort s = read_as SUShort s"
| "bin_take TInt s = read_as SInt s"
| "bin_take TUInt s = read_as SUInt s"
| "bin_take TLong s = read_as SLong s"
| "bin_take TULong s = read_as SULong s"
| "bin_take TBool s = read_as (\<lambda>b :: byte. SBool (b \<noteq> 0)) s"
| "bin_take TFloat s = read_as SFloat s"
| "bin_take TDouble s = read_as SDouble s"
| "bin_take TString s = and_then (bin_read_string [] s) (\<lambda>(a, s). Inr (SString a, s))"
| "bin_take TObject s = read_as (\<lambda>i. SObject (if i = 0 then None else Some i)) s"
| "bin_take TVec3 s =
     and_then (bin_read s) (\<lambda>(x, s). and_then (bin_read s) (\<lambda>(y, s). and_then (bin_read s) (\<lambda>(z, s).
       Inr (SVec3 x y z, s))))"
| "bin_take TQuat s =
     and_then (bin_read s) (\<lambda>(x, s). and_then (bin_read s) (\<lambda>(y, s). and_then (bin_read s) (\<lambda>(z, s).
       and_then (bin_read s) (\<lambda>(w, s). Inr (SQuat x y z w, s)))))"
| "bin_take (TRandom n) s = and_then (bin_read_bytes n s) (\<lambda>(bs, s). Inr (SRandom bs, s))"

text \<open>A member \<open>unserialize\<close> reads its fields one after the other.\<close>

fun read_list :: "('t \<Rightarrow> 's \<Rightarrow> 'e + ('v \<times> 's)) \<Rightarrow> 't list \<Rightarrow> 's \<Rightarrow> 'e + ('v list \<times> 's)" where
  "read_list dec [] s = Inr ([], s)"
| "read_list dec (t # ts) s =
     and_then (dec t s) (\<lambda>(v, s). and_then (read_list dec ts s) (\<lambda>(vs, s). Inr (v # vs, s)))"

definition bin_take_all :: "stype list \<Rightarrow> bin_in \<Rightarrow> stream_error + (sval list \<times> bin_in)" where
  "bin_take_all = read_list bin_take"

section \<open>Packing objects\<close>

text \<open>
  An object has an id, the name of its class and the fields that its \<open>serialize\<close> writes.
  \<open>packSerialize\<close> writes the name and the fields to a substream and joins it.
\<close>

record sobject =
  so_class :: "byte list"
  so_fields :: "sval list"

definition pack_object :: "(nat \<Rightarrow> byte) \<Rightarrow> sobject \<Rightarrow> bin_out \<Rightarrow> bin_out option" where
  "pack_object junk ob s = do {
     ss \<leftarrow> bin_write_cstr junk (so_class ob @ [0]) bin_out_new;
     ss \<leftarrow> bin_put_all junk (so_fields ob) ss;
     bin_join junk ss s }"

text \<open>\<open>packUnserialize\<close> on an object of class \<open>name\<close> whose \<open>unserialize\<close> reads fields of the types \<open>ts\<close>.\<close>

definition unpack_object :: "byte list \<Rightarrow> stype list \<Rightarrow> bin_in \<Rightarrow> stream_error + (sval list \<times> bin_in)" where
  "unpack_object name ts s =
     and_then (bin_read s) (\<lambda>(sz, s).
       let (us, s) = bin_substream sz s
       in and_then (bin_expect name us) (\<lambda>us. and_then (bin_take_all ts us) (\<lambda>(vs, us). Inr (vs, s))))"

text \<open>\<open>idPackUnserialize\<close> reads an id after the name.\<close>

definition id_unpack_object ::
  "byte list \<Rightarrow> stype list \<Rightarrow> bin_in \<Rightarrow> stream_error + (uint32 \<times> sval list \<times> bin_in)" where
  "id_unpack_object name ts s =
     and_then (bin_read s) (\<lambda>(sz, s).
       let (us, s) = bin_substream sz s
       in and_then (bin_expect name us) (\<lambda>us. and_then (bin_read us) (\<lambda>(thisid, us).
            and_then (bin_take_all ts us) (\<lambda>(vs, us). Inr (thisid, vs, s)))))"

text \<open>
  The visit list: the objects that have been serialized are linked by their member \<open>visit_list\<close>,
  and \<open>sc_list\<close> is the last one.  An object is taken for visited when its link is not null.
\<close>

record visits =
  vl_link :: "nat \<Rightarrow> nat option"
  vl_list :: "nat option"
  vl_out :: bin_out

fun pack_visit :: "(nat \<Rightarrow> byte) \<Rightarrow> (nat \<Rightarrow> sobject) \<Rightarrow> nat \<Rightarrow> visits \<Rightarrow> visits option" where
  "pack_visit junk obj i v =
     (if vl_link v i \<noteq> None then Some v
      else let v = v\<lparr>vl_link := (vl_link v)(i := vl_list v), vl_list := Some i\<rparr>
        in do { out \<leftarrow> pack_object junk (obj i) (vl_out v); Some (v\<lparr>vl_out := out\<rparr>) })"

fun pack_all :: "(nat \<Rightarrow> byte) \<Rightarrow> (nat \<Rightarrow> sobject) \<Rightarrow> nat list \<Rightarrow> visits \<Rightarrow> visits option" where
  "pack_all junk obj [] v = Some v"
| "pack_all junk obj (i # is) v = do { v \<leftarrow> pack_visit junk obj i v; pack_all junk obj is v }"

text \<open>\<open>idPackSerialize\<close> also enters the object into the game's map of ids; \<open>oid\<close> is the member \<open>id\<close>, and
  the assertion on it is an error here.\<close>

definition id_pack_visit ::
  "(nat \<Rightarrow> byte) \<Rightarrow> (nat \<Rightarrow> sobject) \<Rightarrow> (nat \<Rightarrow> uint32) \<Rightarrow> nat \<Rightarrow> visits \<times> (uint32 \<Rightarrow> nat option)
     \<Rightarrow> (visits \<times> (uint32 \<Rightarrow> nat option)) option" where
  "id_pack_visit junk obj oid i = (\<lambda>(v, idmap).
     if vl_link v i \<noteq> None then Some (v, idmap)
     else let v = v\<lparr>vl_link := (vl_link v)(i := vl_list v), vl_list := Some i\<rparr>
       in if oid i = 0 then None
          else let idmap = idmap(oid i \<mapsto> i)
            in do { out \<leftarrow> pack_object junk (obj i) (vl_out v); Some (v\<lparr>vl_out := out\<rparr>, idmap) })"

partial_function (option) clearVisitList :: "nat option \<Rightarrow> (nat \<Rightarrow> nat option) \<Rightarrow> (nat \<Rightarrow> nat option) option" where
  "clearVisitList p link =
     (case p of None \<Rightarrow> Some link | Some i \<Rightarrow> clearVisitList (link i) (link(i := None)))"

section \<open>Copies of strings\<close>

definition strnewdup :: "(nat \<Rightarrow> byte) \<Rightarrow> byte list \<Rightarrow> nat \<Rightarrow> byte list option" where
  "strnewdup junk src len = do {
     ret \<leftarrow> c_strncpy (c_malloc junk (len + 1)) src (len + 1);
     awrite ret len 0 }"

definition strmdup :: "(nat \<Rightarrow> byte) \<Rightarrow> byte list \<Rightarrow> nat \<Rightarrow> byte list option" where
  "strmdup junk src len = do {
     ret \<leftarrow> c_strncpy (c_malloc junk (len + 1)) src (len + 1);
     awrite ret len 0 }"

section \<open>The map of constructors\<close>

text \<open>The map from class names to constructors, as a list of entries; registering a name again warns
  and replaces the constructor, and the number of entries is returned.\<close>

definition registerClass ::
  "byte list \<Rightarrow> 'c \<Rightarrow> (byte list \<times> 'c) list \<Rightarrow> bool \<times> nat \<times> (byte list \<times> 'c) list" where
  "registerClass name constructor cm =
     (let warn = map_of cm name \<noteq> None; cm = AList.update name constructor cm in (warn, length cm, cm))"

definition unregisterClass :: "byte list \<Rightarrow> (byte list \<times> 'c) list \<Rightarrow> (byte list \<times> 'c) list" where
  "unregisterClass name cm = AList.delete name cm"

end
