(* ===== verification/Serial_Correct.thy ===== *)
theory Serial_Correct
  imports Serial
begin

text \<open>
  What is written to the binary stream is read back: the bytes of a machine value, of a value of
  any type, of a sequence of values and of a packed object.  The reader throws on input that is
  too short and never leaves its block; reading a packed object whose size field is too large
  does.  The visit list keeps objects from being written twice, apart from the first one.
\<close>

section \<open>Machine values\<close>

lemma bit_of_mem_bytes:
  "bit (of_mem_bytes bs :: 'a::len word) n \<longleftrightarrow>
     n < LENGTH('a) \<and> n < 8 * length bs \<and> bit (bs ! (n div 8)) (n mod 8)"
proof (induction bs arbitrary: n)
  case (Cons b bs)
  have "bit (ucast b :: 'a word) n \<longleftrightarrow> n < LENGTH('a) \<and> n < 8 \<and> bit b n" for n
    by (auto simp: bit_ucast_iff dest: bit_imp_le_length)
  moreover have "8 \<le> n \<Longrightarrow> (b # bs) ! (n div 8) = bs ! ((n - 8) div 8)" for n
    by (simp add: nth_Cons' le_div_geq)
  moreover have "8 \<le> n \<Longrightarrow> n mod 8 = (n - 8) mod 8" by (simp add: le_mod_geq)
  ultimately show ?case using Cons.IH [of "n - 8"]
    by (cases "n < 8") (auto simp: bit_or_iff bit_push_bit_iff)
qed simp

lemma length_mem_bytes [simp]: "length (mem_bytes (a :: 'a::len word)) = LENGTH('a) div 8"
  by (simp add: mem_bytes_def)

lemma of_mem_bytes_mem_bytes:
  assumes "8 dvd LENGTH('a)"
  shows "of_mem_bytes (mem_bytes a) = (a :: 'a::len word)"
proof (rule bit_word_eqI)
  fix n assume n: "n < LENGTH('a)"
  obtain k where k: "LENGTH('a) = 8 * k" using assms by (auto simp: dvd_def)
  with n have "n div 8 < k" by (simp add: less_mult_imp_div_less mult.commute)
  then show "bit (of_mem_bytes (mem_bytes a) :: 'a word) n = bit a n"
    using n k by (simp add: bit_of_mem_bytes) (simp add: mem_bytes_def bit_ucast_iff bit_drop_bit_eq k)
qed

section \<open>Writing\<close>

definition out_ok :: "bin_out \<Rightarrow> bool" where
  "out_ok s \<longleftrightarrow> bo_size s = length (bo_buf s)"

lemma bin_append_spec:
  assumes "out_ok s"
  shows "\<exists>s'. bin_append junk bs s = Some s' \<and> out_ok s' \<and> bo_buf s' = bo_buf s @ bs"
proof -
  have "take (length (bo_buf s)) (c_realloc junk (bo_buf s) (length (bo_buf s) + length bs)) = bo_buf s"
    by (simp add: take_c_realloc)
  then show ?thesis using assms by (simp add: bin_append_def write_at_def out_ok_def Let_def)
qed

lemmas bin_write_spec = bin_append_spec [of _ _ "mem_bytes a" for a, folded bin_write_def]

fun sval_bytes :: "sval \<Rightarrow> byte list" where
  "sval_bytes (SChar a) = mem_bytes a" | "sval_bytes (SUChar a) = mem_bytes a"
| "sval_bytes (SShort a) = mem_bytes a" | "sval_bytes (SUShort a) = mem_bytes a"
| "sval_bytes (SInt a) = mem_bytes a" | "sval_bytes (SUInt a) = mem_bytes a"
| "sval_bytes (SLong a) = mem_bytes a" | "sval_bytes (SULong a) = mem_bytes a"
| "sval_bytes (SBool a) = mem_bytes (if a then 1 else 0 :: byte)"
| "sval_bytes (SFloat a) = mem_bytes a" | "sval_bytes (SDouble a) = mem_bytes a"
| "sval_bytes (SString a) = a @ [0]"
| "sval_bytes (SObject p) = mem_bytes (case p of Some i \<Rightarrow> i | None \<Rightarrow> 0)"
| "sval_bytes (SVec3 x y z) = mem_bytes x @ mem_bytes y @ mem_bytes z"
| "sval_bytes (SQuat x y z w) = mem_bytes x @ mem_bytes y @ mem_bytes z @ mem_bytes w"
| "sval_bytes (SRandom bs) = bs"

text \<open>A string holds no NUL; for reading also no byte 255, which the reader takes for the end.
  An object has an id other than 0.\<close>

fun sval_ok :: "sval \<Rightarrow> bool" where
  "sval_ok (SString a) \<longleftrightarrow> 0 \<notin> set a \<and> - 1 \<notin> set a"
| "sval_ok (SObject p) \<longleftrightarrow> p \<noteq> Some 0"
| "sval_ok _ \<longleftrightarrow> True"

lemma mem_bytes_byte: "mem_bytes (b :: byte) = [b]"
  by (simp add: mem_bytes_def)

lemma bin_bytes_loop_spec:
  "out_ok s \<Longrightarrow> \<exists>s'. bin_bytes_loop junk bs s = Some s' \<and> out_ok s' \<and> bo_buf s' = bo_buf s @ bs"
proof (induction bs arbitrary: s)
  case (Cons b bs)
  from bin_write_spec [OF Cons.prems, of junk b] obtain s1 where
    "bin_write junk b s = Some s1" "out_ok s1" "bo_buf s1 = bo_buf s @ [b]" by (auto simp: mem_bytes_byte)
  with Cons.IH [of s1] show ?case by auto
qed simp

lemma bin_write_cstr_spec:
  assumes "out_ok s" "0 \<notin> set a"
  shows "\<exists>s'. bin_write_cstr junk (a @ [0]) s = Some s' \<and> out_ok s' \<and> bo_buf s' = bo_buf s @ a @ [0]"
proof -
  have "c_strlen (a @ [0]) = Some (length a)" using assms(2) takeWhile_zero [of a "[]"] by (simp add: c_strlen_def)
  then show ?thesis using bin_append_spec [OF assms(1), of junk "a @ [0]"] by (simp add: bin_write_cstr_def)
qed

lemma bin_put_spec:
  assumes "out_ok s" "sval_ok v"
  shows "\<exists>s'. bin_put junk v s = Some s' \<and> out_ok s' \<and> bo_buf s' = bo_buf s @ sval_bytes v"
proof (cases v)
  case (SString a) with assms bin_write_cstr_spec show ?thesis by auto
next
  case (SVec3 x y z)
  obtain s1 s2 where "bin_write junk x s = Some s1" "out_ok s1" "bo_buf s1 = bo_buf s @ mem_bytes x"
    "bin_write junk y s1 = Some s2" "out_ok s2" "bo_buf s2 = bo_buf s1 @ mem_bytes y"
    using bin_write_spec assms(1) by meson
  with SVec3 bin_write_spec [of s2 junk z] show ?thesis by auto
next
  case (SQuat x y z w)
  obtain s1 s2 s3 where "bin_write junk x s = Some s1" "out_ok s1" "bo_buf s1 = bo_buf s @ mem_bytes x"
    "bin_write junk y s1 = Some s2" "out_ok s2" "bo_buf s2 = bo_buf s1 @ mem_bytes y"
    "bin_write junk z s2 = Some s3" "out_ok s3" "bo_buf s3 = bo_buf s2 @ mem_bytes z"
    using bin_write_spec assms(1) by meson
  with SQuat bin_write_spec [of s3 junk w] show ?thesis by auto
next
  case (SRandom bs) with assms bin_bytes_loop_spec show ?thesis by simp
next
  case (SBool b) with assms bin_write_spec show ?thesis by (cases b) simp_all
qed (use assms bin_write_spec in simp_all)

lemma bin_put_all_spec:
  "out_ok s \<Longrightarrow> (\<forall>v \<in> set vs. sval_ok v) \<Longrightarrow>
   \<exists>s'. bin_put_all junk vs s = Some s' \<and> out_ok s' \<and> bo_buf s' = bo_buf s @ concat (map sval_bytes vs)"
proof (induction vs arbitrary: s)
  case (Cons v vs)
  from bin_put_spec [of s v junk] Cons.prems obtain s1 where
    "bin_put junk v s = Some s1" "out_ok s1" "bo_buf s1 = bo_buf s @ sval_bytes v" by auto
  with Cons.IH [of s1] Cons.prems show ?case by auto
qed simp

section \<open>Reading\<close>

text \<open>A reader stays in its block, and what it has still to read.\<close>

definition in_ok :: "bin_in \<Rightarrow> bool" where
  "in_ok s \<longleftrightarrow> bi_pos s + unat (bi_size s) \<le> length (bi_mem s)"

definition in_rest :: "bin_in \<Rightarrow> byte list" where
  "in_rest s = take (unat (bi_size s)) (drop (bi_pos s) (bi_mem s))"

lemma length_in_rest: "in_ok s \<Longrightarrow> length (in_rest s) = unat (bi_size s)"
  by (simp add: in_ok_def in_rest_def)

lemma unat_sub_nat: "n \<le> unat (x :: uint32) \<Longrightarrow> unat (x - word_of_nat n) = unat x - n"
proof -
  assume n: "n \<le> unat x"
  have "unat x < 2 ^ 32" using unsigned_less [of x, where ?'a = nat] by simp
  with n have "unat (word_of_nat n :: uint32) = n" by (simp add: unsigned_of_nat take_bit_nat_eq_self)
  with n show ?thesis by (simp add: unat_sub word_le_nat_alt)
qed

text \<open>Skipping \<open>n\<close> bytes that are left.\<close>

lemma in_skip:
  assumes "in_ok s" "n \<le> unat (bi_size s)"
  defines "s' \<equiv> s\<lparr>bi_pos := bi_pos s + n, bi_size := bi_size s - word_of_nat n\<rparr>"
  shows "in_ok s'" "in_rest s' = drop n (in_rest s)" "unat (bi_size s') = unat (bi_size s) - n"
proof -
  show u: "unat (bi_size s') = unat (bi_size s) - n" using unat_sub_nat [OF assms(2)] by (simp add: s'_def)
  with assms show "in_ok s'" by (simp add: in_ok_def s'_def)
  show "in_rest s' = drop n (in_rest s)"
    unfolding in_rest_def u by (simp add: s'_def drop_take ac_simps)
qed

lemma bin_fetch_spec:
  assumes "in_ok s"
  shows "bin_fetch n s =
    (if length (in_rest s) < n then Inl InputShortage
     else Inr (take n (in_rest s), s\<lparr>bi_pos := bi_pos s + n, bi_size := bi_size s - word_of_nat n\<rparr>))"
  using assms length_in_rest [OF assms] by (auto simp: bin_fetch_def in_ok_def in_rest_def min_def)

text \<open>The contract of a step: it never leaves the block, and keeps the reader in order.\<close>

definition stays_inside :: "(bin_in \<Rightarrow> stream_error + ('v \<times> bin_in)) \<Rightarrow> bool" where
  "stays_inside f \<longleftrightarrow> (\<forall>s. in_ok s \<longrightarrow>
     (case f s of Inl e \<Rightarrow> e \<noteq> OutOfBounds
      | Inr (v, s') \<Rightarrow> in_ok s' \<and> (\<exists>bs. in_rest s = bs @ in_rest s')))"

lemma stays_inside_fetch: "stays_inside (bin_fetch n)"
  unfolding stays_inside_def
proof (intro allI impI)
  fix s assume ok: "in_ok s"
  show "case bin_fetch n s of Inl e \<Rightarrow> e \<noteq> OutOfBounds
      | Inr (v, s') \<Rightarrow> in_ok s' \<and> (\<exists>bs. in_rest s = bs @ in_rest s')"
  proof (cases "length (in_rest s) < n")
    case True then show ?thesis by (simp add: bin_fetch_spec [OF ok])
  next
    case False
    then have "n \<le> unat (bi_size s)" using length_in_rest [OF ok] by simp
    from in_skip [OF ok this] False show ?thesis
      by (simp add: bin_fetch_spec [OF ok]) (metis append_take_drop_id)
  qed
qed

lemma stays_inside_and_then:
  assumes "stays_inside f" "\<And>v. stays_inside (g v)"
  shows "stays_inside (\<lambda>s. and_then (f s) (\<lambda>(v, s). g v s))"
  unfolding stays_inside_def
proof (intro allI impI)
  fix s assume ok: "in_ok s"
  show "case and_then (f s) (\<lambda>(v, s). g v s) of Inl e \<Rightarrow> e \<noteq> OutOfBounds
      | Inr (v, s') \<Rightarrow> in_ok s' \<and> (\<exists>bs. in_rest s = bs @ in_rest s')"
  proof (cases "f s")
    case (Inl e) then show ?thesis using assms(1) ok by (force simp: stays_inside_def and_then_def)
  next
    case (Inr r)
    obtain v s1 where r: "r = (v, s1)" by (cases r)
    with Inr assms(1) ok obtain bs where s1: "in_ok s1" "in_rest s = bs @ in_rest s1"
      by (force simp: stays_inside_def)
    with assms(2) [of v] show ?thesis
      by (auto simp: stays_inside_def and_then_def Inr r split: sum.splits dest!: spec [of _ s1])
  qed
qed

lemma stays_inside_return: "stays_inside (\<lambda>s. Inr (v, s))"
  by (auto simp: stays_inside_def)

lemma stays_inside_map: "stays_inside f \<Longrightarrow> stays_inside (\<lambda>s. and_then (f s) (\<lambda>(v, s). Inr (g v, s)))"
  by (intro stays_inside_and_then stays_inside_return)

lemma stays_inside_read: "stays_inside bin_read"
  using stays_inside_map [OF stays_inside_fetch, where g = of_mem_bytes] by (simp add: bin_read_def [abs_def])

lemma stays_inside_read_as: "stays_inside (read_as f)"
  using stays_inside_map [OF stays_inside_read, where g = f] by (simp add: read_as_def [abs_def])

lemma bin_get_spec:
  assumes "in_ok s"
  shows "bin_get s = (case in_rest s of [] \<Rightarrow> Inr (- 1, s)
    | c # _ \<Rightarrow> Inr (c, s\<lparr>bi_pos := bi_pos s + 1, bi_size := bi_size s - 1\<rparr>))"
proof (cases "bi_size s = 0")
  case True then show ?thesis by (simp add: bin_get_def in_rest_def)
next
  case False
  then have p: "0 < unat (bi_size s)" by (simp add: unat_gt_0)
  then have "bi_pos s < length (bi_mem s)" using assms by (simp add: in_ok_def)
  moreover then have "drop (bi_pos s) (bi_mem s) = bi_mem s ! bi_pos s # drop (Suc (bi_pos s)) (bi_mem s)"
    by (rule Cons_nth_drop_Suc [symmetric])
  ultimately show ?thesis using False p
    by (cases "unat (bi_size s)") (simp_all add: bin_get_def in_rest_def mem_simps)
qed

lemma in_skip1:
  assumes "in_ok s" "in_rest s = c # cs"
  shows "in_ok (s\<lparr>bi_pos := bi_pos s + 1, bi_size := bi_size s - 1\<rparr>)"
    "in_rest (s\<lparr>bi_pos := bi_pos s + 1, bi_size := bi_size s - 1\<rparr>) = cs"
  using in_skip [of s 1] assms length_in_rest [OF assms(1)] by simp_all

lemma bin_read_string_inside:
  "in_ok s \<Longrightarrow> case bin_read_string a s of Inl e \<Rightarrow> e \<noteq> OutOfBounds
     | Inr (v, s') \<Rightarrow> in_ok s' \<and> (\<exists>bs. in_rest s = bs @ in_rest s')"
proof (induction "in_rest s" arbitrary: a s)
  case Nil
  then show ?case by (subst bin_read_string.simps) (simp add: bin_get_spec flip: Nil.hyps)
next
  case (Cons c cs)
  note k = in_skip1 [OF Cons.prems Cons.hyps(2) [symmetric]]
  have "case bin_read_string (a @ [c]) (s\<lparr>bi_pos := bi_pos s + 1, bi_size := bi_size s - 1\<rparr>) of
      Inl e \<Rightarrow> e \<noteq> OutOfBounds | Inr (v, s') \<Rightarrow> in_ok s' \<and> (\<exists>bs. cs = bs @ in_rest s')"
    using Cons.hyps(1) [OF k(2) [symmetric] k(1), of "a @ [c]"] unfolding k(2) .
  then show ?case using Cons.prems k
    by (subst bin_read_string.simps)
       (auto simp: bin_get_spec simp flip: Cons.hyps(2) split: sum.splits intro: exI [of _ "[c]"] exI [of _ "c # _"])
qed

lemma stays_inside_string: "stays_inside (bin_read_string a)"
  using bin_read_string_inside by (auto simp: stays_inside_def)

lemma stays_inside_bytes: "stays_inside (bin_read_bytes n)"
proof (induction n)
  case 0 then show ?case using stays_inside_return [of "[]"] by (simp add: stays_inside_def)
next
  case (Suc n)
  show ?case
    using stays_inside_and_then [OF stays_inside_read stays_inside_map [OF Suc], of "\<lambda>b bs. b # bs"]
    by (simp add: stays_inside_def)
qed

lemma stays_inside_take: "stays_inside (bin_take t)"
proof (cases t)
  case TString then show ?thesis using stays_inside_map [OF stays_inside_string [of "[]"], where g = SString] by (simp add: stays_inside_def)
next
  case TVec3
  have "bin_take TVec3 = (\<lambda>s. and_then (bin_read s) (\<lambda>(x, s). and_then (bin_read s) (\<lambda>(y, s).
      and_then (bin_read s) (\<lambda>(z, s). Inr (SVec3 x y z, s)))))" by (rule ext) simp
  then show ?thesis unfolding TVec3 by (simp only:) (intro stays_inside_and_then stays_inside_read stays_inside_return)
next
  case TQuat
  have "bin_take TQuat = (\<lambda>s. and_then (bin_read s) (\<lambda>(x, s). and_then (bin_read s) (\<lambda>(y, s).
      and_then (bin_read s) (\<lambda>(z, s). and_then (bin_read s) (\<lambda>(w, s). Inr (SQuat x y z w, s))))))" by (rule ext) simp
  then show ?thesis unfolding TQuat by (simp only:) (intro stays_inside_and_then stays_inside_read stays_inside_return)
next
  case (TRandom n) then show ?thesis using stays_inside_map [OF stays_inside_bytes [of n], where g = SRandom] by (simp add: stays_inside_def)
qed (use stays_inside_read_as in \<open>simp_all add: stays_inside_def\<close>)

section \<open>What is read\<close>

text \<open>\<open>decodes good rest short f bs v\<close>: from a good reader whose input starts with \<open>bs\<close>, the step \<open>f\<close>
  returns \<open>v\<close> and leaves the rest; when the input ends within \<open>bs\<close> it throws \<open>short\<close>.\<close>

definition decodes ::
  "('s \<Rightarrow> bool) \<Rightarrow> ('s \<Rightarrow> byte list) \<Rightarrow> 'e \<Rightarrow> ('s \<Rightarrow> 'e + ('v \<times> 's)) \<Rightarrow> byte list \<Rightarrow> 'v \<Rightarrow> bool" where
  "decodes good rest short f bs v \<longleftrightarrow> (\<forall>s. good s \<longrightarrow>
     (\<forall>r. rest s = bs @ r \<longrightarrow> (\<exists>s'. f s = Inr (v, s') \<and> good s' \<and> rest s' = r))
     \<and> (\<forall>r. bs = rest s @ r \<longrightarrow> r \<noteq> [] \<longrightarrow> f s = Inl short))"

lemma decodesD:
  "decodes good rest short f bs v \<Longrightarrow> good s \<Longrightarrow> rest s = bs @ r \<Longrightarrow>
     \<exists>s'. f s = Inr (v, s') \<and> good s' \<and> rest s' = r"
  by (simp add: decodes_def)

lemma decodesD_short:
  "decodes good rest short f bs v \<Longrightarrow> good s \<Longrightarrow> bs = rest s @ r \<Longrightarrow> r \<noteq> [] \<Longrightarrow> f s = Inl short"
  by (simp add: decodes_def)

lemma decodes_return: "decodes good rest short (\<lambda>s. Inr (v, s)) [] v"
  by (auto simp: decodes_def)

lemma decodes_and_then:
  assumes f: "decodes good rest short f bs v" and g: "decodes good rest short (g v) cs w"
  shows "decodes good rest short (\<lambda>s. and_then (f s) (\<lambda>(v, s). g v s)) (bs @ cs) w"
  unfolding decodes_def
proof (intro allI impI conjI)
  fix s r assume s: "good s" "rest s = (bs @ cs) @ r"
  then obtain s1 where "f s = Inr (v, s1)" "good s1" "rest s1 = cs @ r"
    using decodesD [OF f, of s "cs @ r"] by auto
  then show "\<exists>s'. and_then (f s) (\<lambda>(v, s). g v s) = Inr (w, s') \<and> good s' \<and> rest s' = r"
    using decodesD [OF g, of s1 r] by (simp add: and_then_def)
next
  fix s r assume s: "good s" "bs @ cs = rest s @ r" "r \<noteq> []"
  then obtain us where us: "bs = rest s @ us \<and> us @ cs = r \<or> bs @ us = rest s \<and> cs = us @ r"
    by (auto simp: append_eq_append_conv2)
  then have "bs = rest s @ us \<and> us \<noteq> [] \<or> (\<exists>ws. rest s = bs @ ws \<and> cs = ws @ r)"
    by (metis append_Nil append_Nil2)
  then consider "bs = rest s @ us" "us \<noteq> []" | ws where "rest s = bs @ ws" "cs = ws @ r" by blast
  then show "and_then (f s) (\<lambda>(v, s). g v s) = Inl short"
  proof cases
    case 1 then show ?thesis using decodesD_short [OF f s(1), of us] by (simp add: and_then_def)
  next
    case (2 ws)
    then obtain s1 where "f s = Inr (v, s1)" "good s1" "rest s1 = ws"
      using decodesD [OF f s(1)] by blast
    then show ?thesis using decodesD_short [OF g, of s1 r] 2 s by (simp add: and_then_def)
  qed
qed

lemma decodes_map: "decodes good rest short f bs v \<Longrightarrow>
    decodes good rest short (\<lambda>s. and_then (f s) (\<lambda>(v, s). Inr (g v, s))) bs (g v)"
  using decodes_and_then [of good rest short f bs v "\<lambda>v s. Inr (g v, s)" "[]"] decodes_return by fastforce

text \<open>
  The contract between a writer and a reader of typed values: the bytes of a value decode to it.
  Then the bytes of a sequence of values decode to the sequence.
\<close>

locale stream_codec =
  fixes wf :: "'v \<Rightarrow> bool" and ty :: "'v \<Rightarrow> 't" and enc :: "'v \<Rightarrow> byte list"
    and dec :: "'t \<Rightarrow> 's \<Rightarrow> 'e + ('v \<times> 's)"
    and good :: "'s \<Rightarrow> bool" and rest :: "'s \<Rightarrow> byte list" and short :: 'e
  assumes dec_enc: "wf v \<Longrightarrow> decodes good rest short (dec (ty v)) (enc v) v"
begin

lemma dec_list:
  "(\<forall>v \<in> set vs. wf v) \<Longrightarrow>
   decodes good rest short (read_list dec (map ty vs)) (concat (map enc vs)) vs"
proof (induction vs)
  case Nil then show ?case using decodes_return [of good rest short "[]"] by (simp add: decodes_def)
next
  case (Cons v vs)
  then have v: "decodes good rest short (dec (ty v)) (enc v) v"
    and vs: "decodes good rest short (read_list dec (map ty vs)) (concat (map enc vs)) vs"
    by (simp_all add: dec_enc)
  have eq: "read_list dec (map ty (v # vs)) = (\<lambda>s. and_then (dec (ty v) s) (\<lambda>(v, s).
      and_then (read_list dec (map ty vs) s) (\<lambda>(vs, s). Inr (v # vs, s))))" by (rule ext) simp
  show ?case unfolding eq unfolding list.map concat.simps
    by (rule decodes_and_then [OF v]) (rule decodes_map [OF vs])
qed

lemma dec_all:
  assumes "\<forall>v \<in> set vs. wf v" "good s" "rest s = concat (map enc vs) @ r"
  shows "\<exists>s'. read_list dec (map ty vs) s = Inr (vs, s') \<and> good s' \<and> rest s' = r"
  using dec_list [OF assms(1)] assms(2,3) by (auto simp: decodes_def)

lemma dec_truncated:
  assumes "\<forall>v \<in> set vs. wf v" "good s" "concat (map enc vs) = rest s @ r" "r \<noteq> []"
  shows "read_list dec (map ty vs) s = Inl short"
  using dec_list [OF assms(1)] assms(2-4) by (auto simp: decodes_def)

end

abbreviation bin_decodes :: "(bin_in \<Rightarrow> stream_error + ('v \<times> bin_in)) \<Rightarrow> byte list \<Rightarrow> 'v \<Rightarrow> bool" where
  "bin_decodes \<equiv> decodes in_ok in_rest InputShortage"

lemma bin_decodes_fetch: "bin_decodes (bin_fetch (length bs)) bs bs"
  unfolding decodes_def
proof (intro allI impI conjI)
  fix s r assume s: "in_ok s" "in_rest s = bs @ r"
  then have "length bs \<le> unat (bi_size s)" using length_in_rest [of s] by simp
  from in_skip [OF s(1) this] s
  show "\<exists>s'. bin_fetch (length bs) s = Inr (bs, s') \<and> in_ok s' \<and> in_rest s' = r"
    by (simp add: bin_fetch_spec)
next
  fix s r assume "in_ok s" "bs = in_rest s @ r" "r \<noteq> []"
  then show "bin_fetch (length bs) s = Inl InputShortage" by (simp add: bin_fetch_spec)
qed

lemma bin_decodes_read:
  assumes "8 dvd LENGTH('a)"
  shows "bin_decodes bin_read (mem_bytes a) (a :: 'a::len word)"
  using decodes_map [OF bin_decodes_fetch [of "mem_bytes a"], where g = "of_mem_bytes :: _ \<Rightarrow> 'a word"]
  by (simp add: bin_read_def [abs_def] of_mem_bytes_mem_bytes [OF assms])

lemma bin_decodes_read_as:
  assumes "8 dvd LENGTH('a)"
  shows "bin_decodes (read_as f) (mem_bytes a) (f (a :: 'a::len word))"
  using decodes_map [OF bin_decodes_read [OF assms, of a], where g = f] by (simp add: read_as_def [abs_def])

lemma bin_decodes_string:
  "0 \<notin> set bs \<Longrightarrow> - 1 \<notin> set bs \<Longrightarrow> bin_decodes (bin_read_string a) (bs @ [0]) (a @ bs)"
proof (induction bs arbitrary: a)
  case Nil
  show ?case unfolding decodes_def
  proof (intro allI impI conjI)
    fix s r assume s: "in_ok s" "in_rest s = ([] @ [0]) @ r"
    then have k: "in_rest s = 0 # r" by simp
    from in_skip1 [OF s(1) k] k show "\<exists>s'. bin_read_string a s = Inr (a @ [], s') \<and> in_ok s' \<and> in_rest s' = r"
      by (subst bin_read_string.simps) (simp add: bin_get_spec [OF s(1)])
  next
    fix s r assume s: "in_ok s" "[] @ [0] = in_rest s @ r" "r \<noteq> []"
    then have "in_rest s = []" by (cases "in_rest s") auto
    then show "bin_read_string a s = Inl InputShortage"
      by (subst bin_read_string.simps) (simp add: bin_get_spec [OF s(1)])
  qed
next
  case (Cons b bs)
  then have IH: "bin_decodes (bin_read_string (a @ [b])) (bs @ [0]) (a @ b # bs)" by (metis append.assoc append_Cons
      append_Nil list.set_intros(2))
  have b: "b \<noteq> 0" "b \<noteq> - 1" using Cons.prems by auto
  show ?case unfolding decodes_def
  proof (intro allI impI conjI)
    fix s r assume s: "in_ok s" "in_rest s = ((b # bs) @ [0]) @ r"
    then have k: "in_rest s = b # (bs @ [0]) @ r" by simp
    from IH in_skip1 [OF s(1) k] obtain s' where
      "bin_read_string (a @ [b]) (s\<lparr>bi_pos := bi_pos s + 1, bi_size := bi_size s - 1\<rparr>) = Inr (a @ b # bs, s')"
      "in_ok s'" "in_rest s' = r" unfolding decodes_def by blast
    with b k show "\<exists>s'. bin_read_string a s = Inr (a @ b # bs, s') \<and> in_ok s' \<and> in_rest s' = r"
      by (subst bin_read_string.simps) (simp add: bin_get_spec [OF s(1)])
  next
    fix s r assume s: "in_ok s" "(b # bs) @ [0] = in_rest s @ r" "r \<noteq> []"
    show "bin_read_string a s = Inl InputShortage"
    proof (cases "in_rest s")
      case Nil then show ?thesis by (subst bin_read_string.simps) (simp add: bin_get_spec [OF s(1)])
    next
      case k: (Cons c cs)
      with s have c: "c = b" "bs @ [0] = cs @ r" by auto
      with IH in_skip1 [OF s(1) k] s(3)
      have "bin_read_string (a @ [b]) (s\<lparr>bi_pos := bi_pos s + 1, bi_size := bi_size s - 1\<rparr>) = Inl InputShortage"
        unfolding decodes_def by blast
      with b k c show ?thesis by (subst bin_read_string.simps) (simp add: bin_get_spec [OF s(1)])
    qed
  qed
qed

lemma bin_decodes_bytes: "bin_decodes (bin_read_bytes (length bs)) bs bs"
proof (induction bs)
  case Nil then show ?case using decodes_return [of in_ok in_rest InputShortage "[]"] by (simp add: decodes_def)
next
  case (Cons b bs)
  have "bin_decodes bin_read [b] b" using bin_decodes_read [of b] by (simp add: mem_bytes_byte)
  from decodes_and_then [OF this, of "\<lambda>b s. and_then (bin_read_bytes (length bs) s) (\<lambda>(bs, s). Inr (b # bs, s))",
      OF decodes_map [OF Cons]]
  show ?case by (simp add: decodes_def)
qed

lemma bin_take_fixed:
  "bin_take TChar = read_as SChar" "bin_take TUChar = read_as SUChar" "bin_take TShort = read_as SShort"
  "bin_take TUShort = read_as SUShort" "bin_take TInt = read_as SInt" "bin_take TUInt = read_as SUInt"
  "bin_take TLong = read_as SLong" "bin_take TULong = read_as SULong" "bin_take TFloat = read_as SFloat"
  "bin_take TDouble = read_as SDouble"
  by (rule ext, simp)+

lemma bin_decodes_take: "sval_ok v \<Longrightarrow> bin_decodes (bin_take (sval_type v)) (sval_bytes v) v"
proof (cases v)
  case (SString a)
  assume "sval_ok v"
  with SString have "bin_decodes (bin_read_string []) (a @ [0]) a" using bin_decodes_string [of a "[]"] by simp
  from decodes_map [OF this, of SString] SString show ?thesis by (simp add: decodes_def)
next
  case (SBool b)
  then show ?thesis using bin_decodes_read_as [where a = "if b then 1 else 0 :: byte" and f = "\<lambda>b. SBool (b \<noteq> 0)"]
    by (cases b) (simp_all add: decodes_def)
next
  case (SObject p)
  assume "sval_ok v"
  with SObject show ?thesis
    using bin_decodes_read_as [where a = "(case p of Some i \<Rightarrow> i | None \<Rightarrow> 0) :: uint32"
        and f = "\<lambda>i. SObject (if i = 0 then None else Some i)"]
    by (cases p) (simp_all add: decodes_def)
next
  case (SVec3 x y z)
  have "bin_take TVec3 = (\<lambda>s. and_then (bin_read s) (\<lambda>(x, s). and_then (bin_read s) (\<lambda>(y, s).
      and_then (bin_read s) (\<lambda>(z, s). Inr (SVec3 x y z, s)))))" by (rule ext) simp
  then show ?thesis unfolding SVec3 sval_type.simps sval_bytes.simps
    by (simp only:) ((rule decodes_and_then decodes_map, rule bin_decodes_read, simp)+)
next
  case (SQuat x y z w)
  have "bin_take TQuat = (\<lambda>s. and_then (bin_read s) (\<lambda>(x, s). and_then (bin_read s) (\<lambda>(y, s).
      and_then (bin_read s) (\<lambda>(z, s). and_then (bin_read s) (\<lambda>(w, s). Inr (SQuat x y z w, s))))))" by (rule ext) simp
  then show ?thesis unfolding SQuat sval_type.simps sval_bytes.simps
    by (simp only:) ((rule decodes_and_then decodes_map, rule bin_decodes_read, simp)+)
next
  case (SRandom bs)
  from decodes_map [OF bin_decodes_bytes [of bs], of SRandom] SRandom show ?thesis by (simp add: decodes_def)
qed (simp_all add: bin_take_fixed bin_decodes_read_as)

interpretation bin: stream_codec sval_ok sval_type sval_bytes bin_take in_ok in_rest InputShortage
  by unfold_locales (rule bin_decodes_take)

lemma bin_decodes_expect: "bin_decodes (\<lambda>s. and_then (bin_expect a s) (\<lambda>s. Inr ((), s))) (a @ [0]) ()"
  unfolding decodes_def
proof (intro allI impI conjI)
  fix s r assume s: "in_ok s" "in_rest s = (a @ [0]) @ r"
  define n where "n = length a + 1"
  have n: "n \<le> unat (bi_size s)" using length_in_rest [OF s(1)] s(2) by (simp add: n_def)
  have "take n (drop (bi_pos s) (bi_mem s)) = take n (in_rest s)" using n by (simp add: in_rest_def min_def)
  also have "\<dots> = a @ [0]" using s(2) by (simp add: n_def)
  finally have "bin_expect a s = Inr (s\<lparr>bi_pos := bi_pos s + n, bi_size := bi_size s - word_of_nat n\<rparr>)"
    using n s(1) by (simp add: bin_expect_def in_ok_def n_def Let_def)
  with in_skip [OF s(1) n] s(2)
  show "\<exists>s'. and_then (bin_expect a s) (\<lambda>s. Inr ((), s)) = Inr ((), s') \<and> in_ok s' \<and> in_rest s' = r"
    by (simp add: and_then_def n_def)
next
  fix s r assume s: "in_ok s" "a @ [0] = in_rest s @ r" "r \<noteq> []"
  then have "length a + 1 = unat (bi_size s) + length r" using length_in_rest [OF s(1)]
    by (metis length_append length_append_singleton Suc_eq_plus1)
  with s(3) show "and_then (bin_expect a s) (\<lambda>s. Inr ((), s)) = Inl InputShortage"
    by (cases r) (simp_all add: bin_expect_def and_then_def)
qed

section \<open>The properties\<close>

lemma bin_in_new_ok: "unat n \<le> length bs \<Longrightarrow> in_ok (bin_in_new bs n) \<and> in_rest (bin_in_new bs n) = take (unat n) bs"
  by (simp add: in_ok_def in_rest_def bin_in_new_def)

lemma unat_word_of_nat32: "n < 2 ^ 32 \<Longrightarrow> unat (word_of_nat n :: uint32) = n"
  by (simp add: unsigned_of_nat take_bit_nat_eq_self)

lemma out_new_ok: "out_ok bin_out_new" "bo_buf bin_out_new = []"
  by (simp_all add: out_ok_def bin_out_new_def)



lemma bin_read_bytes_length: "bin_read_bytes n s = Inr (bs, s') \<Longrightarrow> length bs = n"
  by (induction n arbitrary: s bs) (auto simp: and_then_def split: sum.splits)

lemma bin_take_type: "bin_take t s = Inr (v, s') \<Longrightarrow> sval_type v = t"
  by (cases t) (auto simp: read_as_def and_then_def bin_read_bytes_length split: sum.splits)

lemma stays_inside_list: "(\<And>t. stays_inside (dec t)) \<Longrightarrow> stays_inside (read_list dec ts)"
proof (induction ts)
  case Nil then show ?case using stays_inside_return [of "[]"] by (simp add: stays_inside_def)
next
  case (Cons t ts)
  have "read_list dec (t # ts) = (\<lambda>s. and_then (dec t s) (\<lambda>(v, s).
      and_then (read_list dec ts s) (\<lambda>(vs, s). Inr (v # vs, s))))" by (rule ext) simp
  moreover have "stays_inside (read_list dec ts)" using Cons by simp
  ultimately show ?case by (simp only:) (rule stays_inside_and_then [OF Cons.prems stays_inside_map])
qed

lemma read_list_types:
  "read_list bin_take ts s = Inr (vs, s') \<Longrightarrow> map sval_type vs = ts"
proof (induction ts arbitrary: s vs)
  case (Cons t ts)
  then obtain v s1 vs' where "bin_take t s = Inr (v, s1)" "read_list bin_take ts s1 = Inr (vs', s')" "vs = v # vs'"
    by (auto simp: and_then_def split: sum.splits)
  with Cons.IH bin_take_type show ?case by simp
qed simp



section \<open>Packed objects\<close>

definition pack_body :: "sobject \<Rightarrow> byte list" where
  "pack_body ob = so_class ob @ [0] @ concat (map sval_bytes (so_fields ob))"

definition pack_bytes :: "sobject \<Rightarrow> byte list" where
  "pack_bytes ob = mem_bytes (word_of_nat (length (pack_body ob)) :: uint32) @ pack_body ob"

definition sobject_ok :: "sobject \<Rightarrow> bool" where
  "sobject_ok ob \<longleftrightarrow> 0 \<notin> set (so_class ob) \<and> (\<forall>v \<in> set (so_fields ob). sval_ok v)
     \<and> length (pack_body ob) < 2 ^ 32"

lemma pack_object_spec:
  assumes "out_ok s" "sobject_ok ob"
  shows "\<exists>s'. pack_object junk ob s = Some s' \<and> out_ok s' \<and> bo_buf s' = bo_buf s @ pack_bytes ob"
proof -
  from bin_write_cstr_spec [OF out_new_ok(1), of "so_class ob" junk] assms(2) obtain s1 where
    s1: "bin_write_cstr junk (so_class ob @ [0]) bin_out_new = Some s1" "out_ok s1" "bo_buf s1 = so_class ob @ [0]"
    by (auto simp: sobject_ok_def out_new_ok)
  from bin_put_all_spec [OF s1(2), of "so_fields ob" junk] assms(2) s1(3) obtain s2 where
    s2: "bin_put_all junk (so_fields ob) s1 = Some s2" "out_ok s2" "bo_buf s2 = pack_body ob"
    by (auto simp: sobject_ok_def pack_body_def)
  from bin_write_spec [OF assms(1), of junk "word_of_nat (bo_size s2) :: uint32"] obtain s3 where
    s3: "bin_write junk (word_of_nat (bo_size s2) :: uint32) s = Some s3" "out_ok s3"
      "bo_buf s3 = bo_buf s @ mem_bytes (word_of_nat (bo_size s2) :: uint32)" by auto
  have "bo_size s2 = length (pack_body ob)" using s2 by (simp add: out_ok_def)
  with s1 s2 s3 bin_append_spec [OF s3(2), of junk "pack_body ob"] show ?thesis
    by (auto simp: pack_object_def bin_join_def pack_bytes_def)
qed

lemma unpack_object_spec:
  assumes "in_ok s" "sobject_ok ob" "in_rest s = pack_bytes ob @ r"
  shows "\<exists>s'. unpack_object (so_class ob) (map sval_type (so_fields ob)) s = Inr (so_fields ob, s')
    \<and> in_ok s' \<and> in_rest s' = r"
proof -
  define n where "n = length (pack_body ob)"
  have n: "unat (word_of_nat n :: uint32) = n" using assms(2) by (intro unat_word_of_nat32) (simp add: n_def sobject_ok_def)
  from decodesD [OF bin_decodes_read [of "word_of_nat n :: uint32"] assms(1), of "pack_body ob @ r"] assms(3)
  obtain s1 where s1: "bin_read s = Inr (word_of_nat n :: uint32, s1)" "in_ok s1" "in_rest s1 = pack_body ob @ r"
    by (auto simp: pack_bytes_def n_def)
  have le: "n \<le> unat (bi_size s1)" using length_in_rest [OF s1(2)] s1(3) by (simp add: n_def)
  define us where "us = \<lparr>bi_mem = bi_mem s1, bi_pos = bi_pos s1, bi_size = word_of_nat n\<rparr>"
  define s2 where "s2 = s1\<lparr>bi_pos := bi_pos s1 + n, bi_size := bi_size s1 - word_of_nat n\<rparr>"
  have sub: "bin_substream (word_of_nat n) s1 = (us, s2)" by (simp add: bin_substream_def us_def s2_def n)
  have s2: "in_ok s2" "in_rest s2 = r" using in_skip [OF s1(2) le] s1(3) by (simp_all add: s2_def n_def)
  have us: "in_ok us" using s1(2) le n by (simp add: in_ok_def us_def)
  have "in_rest us = take n (in_rest s1)" using le by (simp add: in_rest_def us_def n min_def)
  then have "in_rest us = (so_class ob @ [0]) @ concat (map sval_bytes (so_fields ob)) @ []"
    using s1(3) by (simp add: n_def pack_body_def)
  from decodesD [OF bin_decodes_expect us this] obtain us1 where
    us1: "bin_expect (so_class ob) us = Inr us1" "in_ok us1" "in_rest us1 = concat (map sval_bytes (so_fields ob)) @ []"
    by (auto simp: and_then_def split: sum.splits)
  from bin.dec_all [OF _ us1(2,3)] assms(2) obtain us2 where
    "bin_take_all (map sval_type (so_fields ob)) us1 = Inr (so_fields ob, us2)"
    by (auto simp: sobject_ok_def bin_take_all_def)
  with s1(1) sub us1(1) s2 show ?thesis by (simp add: unpack_object_def and_then_def)
qed



text \<open>The size field is not compared to what is left: a packed object that claims to be larger than
  the message makes the reader leave the block.\<close>

lemma unpack_overrun: "unpack_object [65] [] (bin_in_new [100, 0, 0, 0] 4) = Inl OutOfBounds"
  by code_simp

text \<open>A byte 255 in a string is taken for the end of the input.\<close>

lemma string_255: "bin_take TString (bin_in_new [65, 255, 66, 0] 4) = Inl InputShortage"
  by code_simp

text \<open>\<open>idPackUnserialize\<close> expects an id that \<open>idPackSerialize\<close> does not write.\<close>

lemma id_pack_no_roundtrip: "id_unpack_object [65] [TBool] (bin_in_new [3, 0, 0, 0, 65, 0, 1] 7) = Inl InputShortage"
  by code_simp

section \<open>The visit list\<close>

text \<open>The list from its last object to its first.\<close>

fun vpath :: "(nat \<Rightarrow> nat option) \<Rightarrow> nat option \<Rightarrow> nat list \<Rightarrow> bool" where
  "vpath link p [] \<longleftrightarrow> p = None"
| "vpath link p (x # xs) \<longleftrightarrow> p = Some x \<and> vpath link (link x) xs"

lemma vpath_update [simp]: "x \<notin> set xs \<Longrightarrow> vpath (link(x := r)) p xs = vpath link p xs"
  by (induction xs arbitrary: p) auto

lemma vpath_links: "vpath link p xs \<Longrightarrow> distinct xs \<Longrightarrow> x \<in> set xs \<Longrightarrow> link x = None \<longleftrightarrow> x = last xs"
  by (induction xs arbitrary: p) (auto, (case_tac xs; auto)+)

fun visit_order :: "nat set \<Rightarrow> nat list \<Rightarrow> nat list" where
  "visit_order seen [] = []"
| "visit_order seen (i # is) = (if i \<in> seen then visit_order seen is else i # visit_order (insert i seen) is)"

definition visits_at :: "nat list \<Rightarrow> visits \<Rightarrow> bool" where
  "visits_at L v \<longleftrightarrow> vpath (vl_link v) (vl_list v) L \<and> distinct L \<and> (\<forall>x. x \<notin> set L \<longrightarrow> vl_link v x = None)
     \<and> out_ok (vl_out v)"

lemma pack_all_visits:
  assumes "visits_at (L @ [i0]) v" "i0 \<notin> set is" "\<forall>i. sobject_ok (obj i)"
  shows "\<exists>v' L'. pack_all junk obj is v = Some v' \<and> visits_at (L' @ [i0]) v'
    \<and> bo_buf (vl_out v') = bo_buf (vl_out v) @ concat (map (\<lambda>i. pack_bytes (obj i)) (visit_order (set (L @ [i0])) is))"
  using assms(1,2)
proof (induction "is" arbitrary: L v)
  case Nil then show ?case by auto
next
  case (Cons i "is")
  show ?case
  proof (cases "i \<in> set (L @ [i0])")
    case True
    then have "vl_link v i \<noteq> None"
      using vpath_links [of "vl_link v" "vl_list v" "L @ [i0]" i] Cons.prems by (auto simp: visits_at_def)
    with True Cons.IH [OF Cons.prems(1)] Cons.prems(2) show ?thesis by auto
  next
    case False
    then have n: "vl_link v i = None" using Cons.prems(1) by (auto simp: visits_at_def)
    from pack_object_spec [of "vl_out v" "obj i" junk] assms(3) Cons.prems(1) obtain out where
      out: "pack_object junk (obj i) (vl_out v) = Some out" "out_ok out"
      "bo_buf out = bo_buf (vl_out v) @ pack_bytes (obj i)" by (auto simp: visits_at_def)
    define v1 where "v1 = v\<lparr>vl_link := (vl_link v)(i := vl_list v), vl_list := Some i, vl_out := out\<rparr>"
    have "visits_at ((i # L) @ [i0]) v1" using Cons.prems(1) False out(2) by (auto simp: visits_at_def v1_def)
    from Cons.IH [OF this] Cons.prems(2) obtain v' L' where
      "pack_all junk obj is v1 = Some v'" "visits_at (L' @ [i0]) v'"
      "bo_buf (vl_out v') = bo_buf out @ concat (map (\<lambda>i. pack_bytes (obj i)) (visit_order (set ((i # L) @ [i0])) is))"
      by (auto simp: v1_def)
    with False n out show ?thesis by (auto simp: v1_def)
  qed
qed

lemma clearVisitList_spec:
  "vpath link p L \<Longrightarrow> distinct L \<Longrightarrow> clearVisitList p link = Some (\<lambda>x. if x \<in> set L then None else link x)"
proof (induction L arbitrary: p link)
  case Nil then show ?case by (simp add: clearVisitList.simps)
next
  case (Cons x L)
  then have "clearVisitList (link x) (link(x := None)) = Some (\<lambda>y. if y \<in> set L then None else (link(x := None)) y)"
    by (intro Cons.IH) (simp_all del: fun_upd_apply)
  with Cons.prems show ?case by (subst clearVisitList.simps) (auto simp: fun_eq_iff)
qed

text \<open>Serializing a network of objects that does not come back to its first object writes every
  object exactly once, in the order of the first visits, and clearing the visit list afterwards
  ends and leaves no object marked.\<close>

theorem pack_all_once:
  assumes "\<forall>i. sobject_ok (obj i)" "i0 \<notin> set is"
  shows "\<exists>v. pack_all junk obj (i0 # is) \<lparr>vl_link = (\<lambda>_. None), vl_list = None, vl_out = bin_out_new\<rparr> = Some v
    \<and> bo_buf (vl_out v) = concat (map (\<lambda>i. pack_bytes (obj i)) (visit_order {} (i0 # is)))
    \<and> clearVisitList (vl_list v) (vl_link v) = Some (\<lambda>_. None)"
proof -
  from pack_object_spec [OF out_new_ok(1) spec [OF assms(1)], of junk i0] obtain out where
    out: "pack_object junk (obj i0) bin_out_new = Some out" "out_ok out" "bo_buf out = pack_bytes (obj i0)"
    by (auto simp: out_new_ok)
  define v1 where "v1 = \<lparr>vl_link = (\<lambda>_. None), vl_list = Some i0, vl_out = out\<rparr>"
  have "visits_at ([] @ [i0]) v1" using out(2) by (simp add: visits_at_def v1_def)
  from pack_all_visits [OF this assms(2,1), of junk] obtain v L where
    v: "pack_all junk obj is v1 = Some v" "visits_at (L @ [i0]) v"
    "bo_buf (vl_out v) = bo_buf out @ concat (map (\<lambda>i. pack_bytes (obj i)) (visit_order {i0} is))"
    unfolding v1_def by auto
  have "clearVisitList (vl_list v) (vl_link v) = Some (\<lambda>_. None)"
    using clearVisitList_spec [of "vl_link v" "vl_list v" "L @ [i0]"] v(2) by (auto simp: visits_at_def fun_eq_iff)
  moreover have "(\<lambda>_. None)(i0 := None) = (\<lambda>_. None)" by auto
  ultimately show ?thesis using v out by (auto simp: v1_def)
qed

lemma pack_all_once_witness:
  "\<exists>v. pack_all (\<lambda>_. 0) (\<lambda>i. \<lparr>so_class = [65], so_fields = [SBool (i = 1)]\<rparr>) [0, 1, 2, 1]
      \<lparr>vl_link = (\<lambda>_. None), vl_list = None, vl_out = bin_out_new\<rparr> = Some v
    \<and> clearVisitList (vl_list v) (vl_link v) = Some (\<lambda>_. None)"
  using pack_all_once [of "\<lambda>i. \<lparr>so_class = [65], so_fields = [SBool (i = 1)]\<rparr>" 0 "[1, 2, 1]" "\<lambda>_. 0"]
  by (auto simp: sobject_ok_def pack_body_def)

text \<open>The first object is linked to the null pointer and so never counts as visited.\<close>

lemma pack_first_twice:
  "map_option (length \<circ> bo_buf \<circ> vl_out)
     (pack_all (\<lambda>_. 0) (\<lambda>i. \<lparr>so_class = [65], so_fields = []\<rparr>) [0, 1, 0]
      \<lparr>vl_link = (\<lambda>_. None), vl_list = None, vl_out = bin_out_new\<rparr>) = Some (3 * 6)"
  by code_simp

section \<open>The map of constructors\<close>

lemma registerClass_lookup:
  "map_of (snd (snd (registerClass name c cm))) n = (if n = name then Some c else map_of cm n)"
  by (simp add: registerClass_def update_conv Let_def)

lemma unregisterClass_lookup:
  "map_of (unregisterClass name cm) n = (if n = name then None else map_of cm n)"
  by (simp add: unregisterClass_def delete_conv)

end
