(* ===== verification/Circut.thy ===== *)
theory Circut
  imports Complex_Main Prelude
begin

text \<open>
  The cache of circle cuts (\<open>clib/src/circut.c\<close>): the sines and cosines of the \<open>n\<close>-th parts of a
  circle, computed once and kept in an array for small \<open>n\<close> and in a binary tree for the others.
  Both are stores with keys, and the properties of the cache rest on the interface \<open>keyed_store\<close>
  that they share.
\<close>

section \<open>The cache\<close>

definition MAX_CIRCUT_ARRAY :: int where "MAX_CIRCUT_ARRAY = 256"

record circut =
  ct_n :: int
  ct_m :: int
  ct_d :: "(real \<times> real) list"

datatype ctree = CNull | CNode (ct_lo: ctree) (ct_node: circut) (ct_hi: ctree)

record circuts =
  circut_array :: "circut option list"
  circut_root :: ctree

definition circuts_start :: circuts where
  "circuts_start = \<lparr>circut_array = [], circut_root = CNull\<rparr>"

definition cut_at :: "int \<Rightarrow> nat \<Rightarrow> real \<times> real" where
  "cut_at n i = (sin (real i * 2 * pi / of_int n), cos (real i * 2 * pi / of_int n))"

definition make_cuts :: "int \<Rightarrow> int \<Rightarrow> circut" where
  "make_cuts n m = \<lparr>ct_n = n, ct_m = m, ct_d = map (cut_at n) [0..<nat m]\<rparr>"

text \<open>What happens to the node that was found: it is made, or made again when it holds too few cuts.\<close>

definition fill_cuts :: "int \<Rightarrow> int \<Rightarrow> circut option \<Rightarrow> circut" where
  "fill_cuts n m c =
     (case c of None \<Rightarrow> make_cuts n m
      | Some c \<Rightarrow> if ct_m c < m then make_cuts n m else c)"

text \<open>The array grows to the index that is asked for, new elements being null.\<close>

definition array_grow :: "int \<Rightarrow> circut option list \<Rightarrow> circut option list" where
  "array_grow n a = (if int (length a) \<le> n then a @ replicate (nat n + 1 - length a) None else a)"

definition array_update :: "(circut option \<Rightarrow> circut) \<Rightarrow> int \<Rightarrow> circut option list \<Rightarrow> circut option list" where
  "array_update f n a = (let a = array_grow n a in a[nat n := Some (f (a ! nat n))])"

definition array_lookup :: "circut option list \<Rightarrow> int \<Rightarrow> circut option" where
  "array_lookup a n = (if nat n < length a then a ! nat n else None)"

text \<open>The search in the tree, which has the smaller keys in \<open>hi\<close>; the place that it ends at is
  updated and the node keeps its children.\<close>

fun tree_update :: "(circut option \<Rightarrow> circut) \<Rightarrow> int \<Rightarrow> ctree \<Rightarrow> ctree" where
  "tree_update f n CNull = CNode CNull (f None) CNull"
| "tree_update f n (CNode lo c hi) =
     (if ct_n c \<noteq> n then
        (if n < ct_n c then CNode lo c (tree_update f n hi) else CNode (tree_update f n lo) c hi)
      else CNode lo (f (Some c)) hi)"

fun tree_lookup :: "ctree \<Rightarrow> int \<Rightarrow> circut option" where
  "tree_lookup CNull n = None"
| "tree_lookup (CNode lo c hi) n =
     (if ct_n c \<noteq> n then (if n < ct_n c then tree_lookup hi n else tree_lookup lo n) else Some c)"

definition find_cuts :: "int \<Rightarrow> circuts \<Rightarrow> circut option" where
  "find_cuts n s =
     (if n < MAX_CIRCUT_ARRAY then array_lookup (circut_array s) n else tree_lookup (circut_root s) n)"

definition update_cuts :: "(circut option \<Rightarrow> circut) \<Rightarrow> int \<Rightarrow> circuts \<Rightarrow> circuts" where
  "update_cuts f n s =
     (if n < MAX_CIRCUT_ARRAY then s\<lparr>circut_array := array_update f n (circut_array s)\<rparr>
      else s\<lparr>circut_root := tree_update f n (circut_root s)\<rparr>)"

definition CircleCuts :: "int \<Rightarrow> circuts \<Rightarrow> (real \<times> real) list option \<times> circuts" where
  "CircleCuts n s =
     (if n \<le> 0 then (None, s)
      else let s = update_cuts (fill_cuts n n) n s in (map_option ct_d (find_cuts n s), s))"

definition CircleCutsPartial :: "int \<Rightarrow> int \<Rightarrow> circuts \<Rightarrow> (real \<times> real) list option \<times> circuts" where
  "CircleCutsPartial n nmax s =
     (if n \<le> 0 \<or> n < nmax then (None, s)
      else let s = update_cuts (fill_cuts n nmax) n s in (map_option ct_d (find_cuts n s), s))"

text \<open>The memory in use, with the size \<open>hdr\<close> of a node without cuts and \<open>pt\<close> of a pointer.\<close>

fun circuts_memory :: "int \<Rightarrow> ctree \<Rightarrow> int" where
  "circuts_memory hdr CNull = 0"
| "circuts_memory hdr (CNode lo c hi) = hdr + ct_m c * 16 + circuts_memory hdr lo + circuts_memory hdr hi"

definition CircleCutsMemory :: "int \<Rightarrow> int \<Rightarrow> circuts \<Rightarrow> int" where
  "CircleCutsMemory hdr pt s =
     int (length (circut_array s)) * pt
     + sum_list (map (\<lambda>c. case c of Some c \<Rightarrow> hdr + ct_m c * 16 | None \<Rightarrow> 0) (circut_array s))
     + circuts_memory hdr (circut_root s)"

section \<open>Stores with keys\<close>

text \<open>
  What the cache relies on: an update at a key of the store changes the entry of that key by the
  function it is given, and no other.  An update function must keep the key of its entry.
\<close>

locale keyed_store =
  fixes good :: "'s \<Rightarrow> bool" and key :: "int \<Rightarrow> bool" and look :: "'s \<Rightarrow> int \<Rightarrow> circut option"
    and upd :: "(circut option \<Rightarrow> circut) \<Rightarrow> int \<Rightarrow> 's \<Rightarrow> 's"
  assumes upd_good: "good s \<Longrightarrow> key n \<Longrightarrow> (\<And>c. look s n = c \<Longrightarrow> ct_n (f c) = n) \<Longrightarrow> good (upd f n s)"
    and look_upd: "good s \<Longrightarrow> key n \<Longrightarrow> key k \<Longrightarrow> (\<And>c. look s n = c \<Longrightarrow> ct_n (f c) = n) \<Longrightarrow>
      look (upd f n s) k = (if k = n then Some (f (look s n)) else look s k)"
begin

text \<open>A property of the entries that the update establishes holds for all entries afterwards.\<close>

lemma upd_all:
  assumes "good s" "key n" "\<And>c. look s n = c \<Longrightarrow> ct_n (f c) = n"
    and "\<And>k c. key k \<Longrightarrow> look s k = Some c \<Longrightarrow> P k c" "P n (f (look s n))"
    and "key k" "look (upd f n s) k = Some c"
  shows "P k c"
  using assms look_upd [OF assms(1,2,6), of f] by (cases "k = n") auto

end

lemma array_lookup_grow: "0 \<le> k \<Longrightarrow> array_lookup (array_grow n a) k = array_lookup a k"
  by (auto simp: array_lookup_def array_grow_def nth_append)

interpretation cut_array: keyed_store "\<lambda>a. True" "\<lambda>n. 0 \<le> n" array_lookup array_update
proof
  fix s :: "circut option list" and n k :: int and f :: "circut option \<Rightarrow> circut"
  assume "0 \<le> n" "0 \<le> k"
  have "nat n < length (array_grow n s)" using \<open>0 \<le> n\<close> by (auto simp: array_grow_def)
  moreover have "array_grow n s ! nat n = array_lookup s n"
    using array_lookup_grow [OF \<open>0 \<le> n\<close>, of n s] calculation by (simp add: array_lookup_def)
  ultimately show "array_lookup (array_update f n s) k = (if k = n then Some (f (array_lookup s n)) else array_lookup s k)"
    using array_lookup_grow [OF \<open>0 \<le> k\<close>, of n s] \<open>0 \<le> n\<close> \<open>0 \<le> k\<close>
    by (auto simp: array_update_def array_lookup_def Let_def nth_list_update split: if_splits)
qed simp

text \<open>The search tree, ordered from \<open>hi\<close> to \<open>lo\<close>.\<close>

fun tree_keys :: "ctree \<Rightarrow> int set" where
  "tree_keys CNull = {}"
| "tree_keys (CNode lo c hi) = insert (ct_n c) (tree_keys lo \<union> tree_keys hi)"

fun tree_ordered :: "ctree \<Rightarrow> bool" where
  "tree_ordered CNull \<longleftrightarrow> True"
| "tree_ordered (CNode lo c hi) \<longleftrightarrow>
     tree_ordered lo \<and> tree_ordered hi \<and> (\<forall>k \<in> tree_keys hi. k < ct_n c) \<and> (\<forall>k \<in> tree_keys lo. ct_n c < k)"

lemma tree_keys_update:
  "(\<And>c. tree_lookup t n = c \<Longrightarrow> ct_n (f c) = n) \<Longrightarrow> tree_keys (tree_update f n t) = insert n (tree_keys t)"
  by (induction t) auto

lemma tree_ordered_update:
  "tree_ordered t \<Longrightarrow> (\<And>c. tree_lookup t n = c \<Longrightarrow> ct_n (f c) = n) \<Longrightarrow> tree_ordered (tree_update f n t)"
  by (induction t) (auto simp: tree_keys_update)

lemma tree_lookup_update:
  "tree_ordered t \<Longrightarrow> (\<And>c. tree_lookup t n = c \<Longrightarrow> ct_n (f c) = n) \<Longrightarrow>
   tree_lookup (tree_update f n t) k = (if k = n then Some (f (tree_lookup t n)) else tree_lookup t k)"
  by (induction t) auto

interpretation cut_tree: keyed_store tree_ordered "\<lambda>n. True" tree_lookup tree_update
  by unfold_locales (auto simp: tree_ordered_update tree_lookup_update)

lemma cuts_split:
  "find_cuts n s = (if n < 256 then array_lookup (circut_array s) n else tree_lookup (circut_root s) n)"
  by (simp add: find_cuts_def MAX_CIRCUT_ARRAY_def)

interpretation cuts: keyed_store "\<lambda>s. tree_ordered (circut_root s)" "\<lambda>n. 0 \<le> n" "\<lambda>s n. find_cuts n s" update_cuts
proof
  fix s :: circuts and n and f :: "circut option \<Rightarrow> circut"
  assume "tree_ordered (circut_root s)" "(0::int) \<le> n" "\<And>c. find_cuts n s = c \<Longrightarrow> ct_n (f c) = n"
  then show "tree_ordered (circut_root (update_cuts f n s))"
    by (auto simp: update_cuts_def cuts_split MAX_CIRCUT_ARRAY_def intro: cut_tree.upd_good)
next
  fix s :: circuts and n k and f :: "circut option \<Rightarrow> circut"
  assume "tree_ordered (circut_root s)" "(0::int) \<le> n" "(0::int) \<le> k" "\<And>c. find_cuts n s = c \<Longrightarrow> ct_n (f c) = n"
  then show "find_cuts k (update_cuts f n s) = (if k = n then Some (f (find_cuts n s)) else find_cuts k s)"
    by (auto simp: update_cuts_def cuts_split MAX_CIRCUT_ARRAY_def cut_tree.look_upd cut_array.look_upd)
qed

section \<open>The properties\<close>

text \<open>Every entry holds the cuts that its number says.\<close>

definition entry_ok :: "int \<Rightarrow> circut \<Rightarrow> bool" where
  "entry_ok n c \<longleftrightarrow> ct_n c = n \<and> ct_d c = map (cut_at n) [0..<nat (ct_m c)] \<and> ct_m c \<le> n"

definition circuts_ok :: "circuts \<Rightarrow> bool" where
  "circuts_ok s \<longleftrightarrow> tree_ordered (circut_root s) \<and> (\<forall>n c. 0 \<le> n \<longrightarrow> find_cuts n s = Some c \<longrightarrow> entry_ok n c)"

lemma fill_cuts_ok:
  "m \<le> n \<Longrightarrow> (\<And>c'. c = Some c' \<Longrightarrow> entry_ok n c') \<Longrightarrow>
   entry_ok n (fill_cuts n m c) \<and> m \<le> ct_m (fill_cuts n m c)"
  by (auto simp: fill_cuts_def make_cuts_def entry_ok_def split: option.split)

lemma update_cuts_ok:
  assumes "circuts_ok s" "0 \<le> n" "m \<le> n"
  defines "s' \<equiv> update_cuts (fill_cuts n m) n s"
  shows "circuts_ok s' \<and> (\<exists>c. find_cuts n s' = Some c \<and> entry_ok n c \<and> m \<le> ct_m c)"
proof -
  have e: "entry_ok n (fill_cuts n m (find_cuts n s)) \<and> m \<le> ct_m (fill_cuts n m (find_cuts n s))"
    using assms(1-3) by (intro fill_cuts_ok) (auto simp: circuts_ok_def)
  have t: "tree_ordered (circut_root s)" using assms(1) by (simp add: circuts_ok_def)
  have n: "find_cuts n s = c \<Longrightarrow> ct_n (fill_cuts n m c) = n" for c using e by (auto simp: entry_ok_def)
  have "tree_ordered (circut_root s')" unfolding s'_def by (rule cuts.upd_good [OF t assms(2) n])
  moreover have "0 \<le> k \<Longrightarrow> find_cuts k s' = Some c \<Longrightarrow> entry_ok k c" for k c
    unfolding s'_def
    by (rule cuts.upd_all [where P = entry_ok, OF t assms(2) n]) (use assms(1) e in \<open>auto simp: circuts_ok_def\<close>)
  moreover have "find_cuts n s' = Some (fill_cuts n m (find_cuts n s))"
    unfolding s'_def using cuts.look_upd [OF t assms(2,2) n] by simp
  ultimately show ?thesis using e by (simp add: circuts_ok_def)
qed

text \<open>The states that calls lead to.  A negative number of partial cuts asks the allocator for less than a
  node and is left out.\<close>

inductive circuts_reach :: "circuts \<Rightarrow> bool" where
  start: "circuts_reach circuts_start"
| cuts: "circuts_reach s \<Longrightarrow> circuts_reach (snd (CircleCuts n s))"
| partial: "circuts_reach s \<Longrightarrow> 0 \<le> nmax \<Longrightarrow> circuts_reach (snd (CircleCutsPartial n nmax s))"

lemma circuts_reach_ok: "circuts_reach s \<Longrightarrow> circuts_ok s"
proof (induction rule: circuts_reach.induct)
  case start
  then show ?case by (simp add: circuts_ok_def circuts_start_def find_cuts_def array_lookup_def)
next
  case (cuts s n)
  then show ?case using update_cuts_ok [of s n n] by (simp add: CircleCuts_def Let_def)
next
  case (partial s nmax n)
  then show ?case using update_cuts_ok [where s = s and n = n and m = nmax]
    by (auto simp: CircleCutsPartial_def Let_def not_le)
qed

lemma take_cuts: "nat m \<le> length d \<Longrightarrow> d = map (cut_at n) [0..<length d] \<Longrightarrow> take (nat m) d = map (cut_at n) [0..<nat m]"
  by (metis take_map take_upt add_0)

text \<open>C37: whatever has been asked for before, the cuts returned for \<open>n\<close> are \<open>n\<close> points, the \<open>i\<close>-th at the
  angle of \<open>i\<close> times the \<open>n\<close>-th part of the circle, and partial cuts start with the points asked for;
  a number that is not positive, or a part larger than the whole, returns the null pointer and
  changes nothing.\<close>

theorem CircleCuts_correct:
  assumes "circuts_reach s" and "0 \<le> nmax"
  shows "fst (CircleCuts n s) = (if n \<le> 0 then None else Some (map (cut_at n) [0..<nat n]))
    \<and> (if n \<le> 0 \<or> n < nmax then CircleCutsPartial n nmax s = (None, s)
       else map_option (take (nat nmax)) (fst (CircleCutsPartial n nmax s)) = Some (map (cut_at n) [0..<nat nmax]))"
proof
  note ok = circuts_reach_ok [OF assms(1)]
  show "fst (CircleCuts n s) = (if n \<le> 0 then None else Some (map (cut_at n) [0..<nat n]))"
  proof (cases "n \<le> 0")
    case False
    with update_cuts_ok [OF ok, of n n] obtain c where
      "find_cuts n (update_cuts (fill_cuts n n) n s) = Some c" "entry_ok n c" "n \<le> ct_m c" by auto
    then have "ct_d c = map (cut_at n) [0..<nat n]" by (simp add: entry_ok_def)
    with False \<open>find_cuts n _ = Some c\<close> show ?thesis by (simp add: CircleCuts_def Let_def)
  qed (simp add: CircleCuts_def)
  show "if n \<le> 0 \<or> n < nmax then CircleCutsPartial n nmax s = (None, s)
       else map_option (take (nat nmax)) (fst (CircleCutsPartial n nmax s)) = Some (map (cut_at n) [0..<nat nmax])"
  proof (cases "n \<le> 0 \<or> n < nmax")
    case False
    with update_cuts_ok [OF ok, of n nmax] obtain c where
      c: "find_cuts n (update_cuts (fill_cuts n nmax) n s) = Some c" "entry_ok n c" "nmax \<le> ct_m c" by auto
    then have "take (nat nmax) (ct_d c) = map (cut_at n) [0..<nat nmax]" by (intro take_cuts) (simp_all add: entry_ok_def nat_mono)
    with False c show ?thesis by (auto simp: CircleCutsPartial_def Let_def)
  qed (auto simp: CircleCutsPartial_def)
qed

lemma CircleCuts_correct_witness:
  "fst (CircleCuts 2 (snd (CircleCutsPartial 2 1 circuts_start))) = Some (map (cut_at 2) [0..<nat 2])"
  using CircleCuts_correct [where s = "snd (CircleCutsPartial 2 1 circuts_start)" and n = 2 and nmax = 1]
  by (simp add: circuts_reach.intros)

lemma cut_at_circle: "fst (cut_at n i) * fst (cut_at n i) + snd (cut_at n i) * snd (cut_at n i) = 1"
  by (simp add: cut_at_def flip: power2_eq_square)

end
