(* ===== verification/Bindiff.thy ===== *)
theory Bindiff
  imports CString
begin

text \<open>
  Binary differences (\<open>src/BinDiff.cpp\<close>, \<open>include/BinDiff.h\<close>), which the server sends to its clients
  instead of whole serialized streams: \<open>BinDiff\<close> compares a destination stream, given in
  parts, with a source block and collects patches, and \<open>applyPatches\<close> turns the source into
  the destination.  The pointers \<open>cur\<close> and \<open>srcdiff\<close> are offsets from \<open>src\<close>.  Sizes have 32 bits.
\<close>

record patch =
  pa_start :: uint32
  pa_size :: uint32
  pa_buf :: "byte list"

record bindiff =
  bd_src :: "byte list"
  bd_cur :: nat
  bd_size :: uint32
  bd_srcdiff :: "nat option"
  bd_patches :: "patch list"
  bd_closed :: bool

definition BinDiff_new :: "byte list \<Rightarrow> bindiff" where
  "BinDiff_new src = \<lparr>bd_src = src, bd_cur = 0, bd_size = of_nat (length src), bd_srcdiff = None,
     bd_patches = [], bd_closed = True\<rparr>"

text \<open>A new patch at \<open>cur\<close>, when none is open.\<close>

definition open_patch :: "bindiff \<Rightarrow> bindiff" where
  "open_patch b =
     (if bd_closed b
      then b\<lparr>bd_patches := bd_patches b @ [\<lparr>pa_start = of_nat (bd_cur b), pa_size = 0, pa_buf = []\<rparr>],
             bd_closed := False\<rparr>
      else b)"

text \<open>\<open>patches.back()\<close> must not be called on an empty list.\<close>

definition change_back :: "(patch \<Rightarrow> patch) \<Rightarrow> bindiff \<Rightarrow> bindiff option" where
  "change_back f b =
     (if bd_patches b = [] then None
      else Some (b\<lparr>bd_patches := butlast (bd_patches b) @ [f (last (bd_patches b))]\<rparr>))"

definition put_byte :: "byte \<Rightarrow> bindiff \<Rightarrow> bindiff option" where
  "put_byte d b = do {
     b \<leftarrow>
       (if unat (bd_size b) \<le> bd_cur b then
          change_back (\<lambda>p. p\<lparr>pa_buf := pa_buf p @ [d]\<rparr>) (open_patch b)
        else do {
          c \<leftarrow> aread (bd_src b) (bd_cur b);
          (if c = d \<and> (case bd_srcdiff b of None \<Rightarrow> False | Some s \<Rightarrow> 4 * 3 < bd_cur b - s)
           then Some (b\<lparr>bd_closed := True, bd_srcdiff := None\<rparr>)
           else if c \<noteq> d \<or> bd_srcdiff b \<noteq> None
           then let b = (if c \<noteq> d then b\<lparr>bd_srcdiff := Some (bd_cur b)\<rparr> else b)
                in change_back (\<lambda>p. p\<lparr>pa_size := pa_size p + 1, pa_buf := pa_buf p @ [d]\<rparr>) (open_patch b)
           else Some b) });
     Some (b\<lparr>bd_cur := bd_cur b + 1\<rparr>) }"

fun BinDiff_put :: "byte list \<Rightarrow> bindiff \<Rightarrow> bindiff option" where
  "BinDiff_put [] b = Some b"
| "BinDiff_put (d # ds) b = do { b \<leftarrow> put_byte d b; BinDiff_put ds b }"

definition BinDiff_close :: "bindiff \<Rightarrow> bindiff" where
  "BinDiff_close b =
     (if bd_cur b < unat (bd_size b)
      then b\<lparr>bd_patches := bd_patches b
               @ [\<lparr>pa_start = of_nat (bd_cur b), pa_size = bd_size b - of_nat (bd_cur b), pa_buf = []\<rparr>],
             bd_closed := True\<rparr>
      else b\<lparr>bd_closed := True\<rparr>)"

text \<open>\<open>std::vector::resize\<close>; new elements are 0.\<close>

definition vec_resize :: "byte list \<Rightarrow> nat \<Rightarrow> byte list" where
  "vec_resize xs n = take n xs @ replicate (n - length xs) 0"

definition apply_patch :: "patch \<Rightarrow> byte list \<Rightarrow> byte list option" where
  "apply_patch p result =
     (let rest = unat (pa_start p + pa_size p);
          after = (if unat (pa_size p) \<noteq> length (pa_buf p) \<and> rest < length result
                   then drop rest result else [])
      in do {
        let result = vec_resize result (unat (of_nat (length result) + of_nat (length (pa_buf p)) - pa_size p));
        result \<leftarrow> (if pa_buf p \<noteq> [] then write_at result (unat (pa_start p)) (pa_buf p) else Some result);
        (if after \<noteq> [] then write_at result (unat (pa_start p) + length (pa_buf p)) after else Some result) })"

text \<open>In reverse order of their creation.\<close>

definition applyPatches :: "byte list \<Rightarrow> patch list \<Rightarrow> byte list option" where
  "applyPatches result patches = foldr (\<lambda>p r. do { r \<leftarrow> r; apply_patch p r }) patches (Some result)"

text \<open>The parts of a destination stream, and the end.\<close>

definition bindiff_run :: "byte list \<Rightarrow> byte list list \<Rightarrow> patch list option" where
  "bindiff_run src parts = do {
     b \<leftarrow> foldl (\<lambda>b ds. do { b \<leftarrow> b; BinDiff_put ds b }) (Some (BinDiff_new src)) parts;
     Some (bd_patches (BinDiff_close b)) }"

section \<open>The round trip\<close>

lemma applyPatches_simps [simp]:
  "applyPatches r [] = Some r"
  "applyPatches r (ps @ [p]) = do { r \<leftarrow> apply_patch p r; applyPatches r ps }"
proof -
  have "foldr (\<lambda>p r. r \<bind> apply_patch p) ps None = None" for ps by (induction ps) simp_all
  then show "applyPatches r (ps @ [p]) = do { r \<leftarrow> apply_patch p r; applyPatches r ps }"
    by (cases "apply_patch p r") (simp_all add: applyPatches_def)
qed (simp add: applyPatches_def)

lemma unat_small: "n < 2 ^ 32 \<Longrightarrow> unat (of_nat n :: uint32) = n"
  by (simp add: unsigned_of_nat take_bit_nat_eq_self)

text \<open>A patch replaces the part that it names.\<close>

lemma apply_patch_spec:
  assumes "unat (pa_start p) = length A" "unat (pa_size p) = length B"
    and "length A + length B + length R < 2 ^ 32" "length A + length (pa_buf p) + length R < 2 ^ 32"
  shows "apply_patch p (A @ B @ R) = Some (A @ pa_buf p @ R)"
proof -
  let ?r = "A @ B @ R" and ?b = "pa_buf p"
  have rest: "unat (pa_start p + pa_size p) = length A + length B"
    using assms by (subst unat_add_lem [THEN iffD1]) simp_all
  have w: "of_nat (length ?r) + of_nat (length ?b) - pa_size p
      = (of_nat (length A + length R + length ?b) :: uint32)"
  proof -
    have "pa_size p = of_nat (length B)" using assms(2,3) by (simp add: word_unat_eq_iff unat_small)
    then show ?thesis by simp
  qed
  have n: "unat (of_nat (length ?r) + of_nat (length ?b) - pa_size p) = length A + length R + length ?b"
    unfolding w by (rule unat_small) (use assms(4) in simp)
  define r1 where "r1 = vec_resize ?r (length A + length R + length ?b)"
  define X where "X = drop (length A + length ?b) r1"
  have len: "length r1 = length A + length R + length ?b" by (simp add: r1_def vec_resize_def)
  have A: "take (length A) r1 = A" by (simp add: r1_def vec_resize_def)
  have "length X = length R" by (simp add: X_def len)
  have "r1 = take (length A) r1 @ take (length ?b) (drop (length A) r1) @ X"
    unfolding X_def by (metis append_take_drop_id drop_drop add.commute)
  with A have r1: "r1 = A @ take (length ?b) (drop (length A) r1) @ X" by simp
  have w1: "(if ?b \<noteq> [] then write_at r1 (unat (pa_start p)) ?b else Some r1) = Some (A @ ?b @ X)"
  proof (cases "?b = []")
    case True then show ?thesis using r1 by simp
  next
    case False
    then show ?thesis using A assms(1) len by (simp add: write_at_def X_def add.commute)
  qed
  show ?thesis
  proof (cases "length B \<noteq> length ?b \<and> R \<noteq> []")
    case True
    have "write_at (A @ ?b @ X) (length A + length ?b) R = Some (A @ ?b @ R)"
      using \<open>length X = length R\<close> by (simp add: write_at_def)
    then show ?thesis using True w1 assms(1,2) rest n by (simp add: apply_patch_def Let_def flip: r1_def)
  next
    case False
    have "X = R"
    proof (cases "R = []")
      case True then show ?thesis using \<open>length X = length R\<close> by simp
    next
      case False
      with \<open>\<not> (length B \<noteq> length ?b \<and> R \<noteq> [])\<close> have "length ?b = length B" by simp
      then show ?thesis by (simp add: X_def r1_def vec_resize_def)
    qed
    then show ?thesis using False w1 assms(1,2) rest n by (auto simp: apply_patch_def Let_def simp flip: r1_def)
  qed
qed

text \<open>Patches that turn the first \<open>k\<close> bytes of the source into \<open>D\<close>, whatever follows them.\<close>

definition patched :: "byte list \<Rightarrow> patch list \<Rightarrow> nat \<Rightarrow> byte list \<Rightarrow> bool" where
  "patched src ps k D \<longleftrightarrow>
     (\<forall>R. length (take k src) + length R < 2 ^ 32 \<longrightarrow> length D + length R < 2 ^ 32 \<longrightarrow>
        applyPatches (take k src @ R) ps = Some (D @ R))"

lemma patched_Nil [simp]: "patched src [] 0 []"
  by (simp add: patched_def)

lemma patched_same:
  assumes "patched src ps k D" "k < length src"
  shows "patched src ps (Suc k) (D @ [src ! k])"
  unfolding patched_def
proof (intro allI impI)
  fix R :: "byte list" assume "length (take (Suc k) src) + length R < 2 ^ 32" "length (D @ [src ! k]) + length R < 2 ^ 32"
  then show "applyPatches (take (Suc k) src @ R) ps = Some ((D @ [src ! k]) @ R)"
    using assms spec [OF assms(1) [unfolded patched_def], of "src ! k # R"]
    by (simp add: take_Suc_conv_app_nth)
qed

lemma patched_patch:
  assumes "patched src ps s (take s D)" "s \<le> k" "s \<le> length src" "length D = k"
    and "unat (pa_start p) = s" "unat (pa_size p) = min k (length src) - s" "pa_buf p = drop s D"
  shows "patched src (ps @ [p]) k D"
  unfolding patched_def
proof (intro allI impI)
  fix R :: "byte list" assume r: "length (take k src) + length R < 2 ^ 32" "length D + length R < 2 ^ 32"
  let ?B = "drop s (take k src)"
  have "take k src = take s src @ ?B" using assms(2) by (metis append_take_drop_id min.absorb1 take_take)
  then have eq: "take k src @ R = take s src @ ?B @ R" by (metis append.assoc)
  have "take s D @ drop s D @ R = D @ R" by (metis append.assoc append_take_drop_id)
  moreover have "apply_patch p (take s src @ ?B @ R) = Some (take s src @ drop s D @ R)"
    using apply_patch_spec [of p "take s src" ?B R] assms r by (simp add: min.commute)
  moreover have "applyPatches (take s src @ drop s D @ R) ps = Some (take s D @ drop s D @ R)"
    using spec [OF assms(1) [unfolded patched_def], of "drop s D @ R"] assms(2-4) r by simp
  ultimately show "applyPatches (take k src @ R) (ps @ [p]) = Some (D @ R)"
    unfolding eq applyPatches_simps by (simp only: Option.bind.bind_lunit)
qed

text \<open>The last patch while it is open: it covers the source and the destination since its start.\<close>

definition last_open :: "byte list \<Rightarrow> patch list \<Rightarrow> byte list \<Rightarrow> bool" where
  "last_open src ps D \<longleftrightarrow>
     (\<exists>qs p s. ps = qs @ [p] \<and> patched src qs s (take s D) \<and> s \<le> length D \<and> s \<le> length src
        \<and> unat (pa_start p) = s \<and> unat (pa_size p) = min (length D) (length src) - s \<and> pa_buf p = drop s D)"

lemma last_open_patched: "last_open src ps D \<Longrightarrow> patched src ps (length D) D"
  by (auto simp: last_open_def intro: patched_patch)

text \<open>The state after the bytes \<open>D\<close>.\<close>

definition bindiff_ok :: "byte list \<Rightarrow> byte list \<Rightarrow> bindiff \<Rightarrow> bool" where
  "bindiff_ok src D b \<longleftrightarrow>
     bd_src b = src \<and> unat (bd_size b) = length src \<and> bd_cur b = length D
     \<and> (if bd_closed b then length D \<le> length src \<and> patched src (bd_patches b) (length D) D
        else last_open src (bd_patches b) D)
     \<and> (length D < length src \<longrightarrow> (bd_srcdiff b = None) = bd_closed b)"

lemma open_patch_ok:
  assumes "bindiff_ok src D b" "length D < 2 ^ 32"
  shows "last_open src (bd_patches (open_patch b)) D \<and> \<not> bd_closed (open_patch b)
    \<and> bd_src (open_patch b) = src \<and> bd_size (open_patch b) = bd_size b \<and> bd_cur (open_patch b) = length D
    \<and> bd_srcdiff (open_patch b) = bd_srcdiff b"
  using assms unat_small [of "length D"] by (auto simp: open_patch_def bindiff_ok_def last_open_def)

text \<open>Another byte for the open patch, while the source lasts and after it.\<close>

lemma last_open_extend:
  assumes l: "last_open src ps D" and n: "length src < 2 ^ 32" and lt: "length D < length src"
  shows "last_open src (butlast ps @ [(last ps)\<lparr>pa_size := pa_size (last ps) + 1, pa_buf := pa_buf (last ps) @ [d]\<rparr>]) (D @ [d])"
proof -
  from l obtain qs p s where p: "ps = qs @ [p]" "patched src qs s (take s D)" "s \<le> length D" "s \<le> length src"
    "unat (pa_start p) = s" "unat (pa_size p) = min (length D) (length src) - s" "pa_buf p = drop s D"
    by (auto simp: last_open_def)
  have "unat (pa_size p + 1) = unat (pa_size p) + 1"
    using p(6) lt n by (subst unat_add_lem [THEN iffD1]) simp_all
  then show ?thesis using p lt
    by (auto simp: last_open_def intro!: exI [of _ qs] exI [of _ "p\<lparr>pa_size := pa_size p + 1, pa_buf := pa_buf p @ [d]\<rparr>"])
qed

lemma last_open_append:
  assumes l: "last_open src ps D" and ge: "length src \<le> length D"
  shows "last_open src (butlast ps @ [(last ps)\<lparr>pa_buf := pa_buf (last ps) @ [d]\<rparr>]) (D @ [d])"
proof -
  from l obtain qs p s where p: "ps = qs @ [p]" "patched src qs s (take s D)" "s \<le> length D" "s \<le> length src"
    "unat (pa_start p) = s" "unat (pa_size p) = min (length D) (length src) - s" "pa_buf p = drop s D"
    by (auto simp: last_open_def)
  then show ?thesis using ge
    by (auto simp: last_open_def intro!: exI [of _ qs] exI [of _ "p\<lparr>pa_buf := pa_buf p @ [d]\<rparr>"])
qed

lemma last_open_nonempty: "last_open src ps D \<Longrightarrow> ps \<noteq> []"
  by (auto simp: last_open_def)

lemma put_byte_ok:
  assumes b: "bindiff_ok src D b" and n: "length src < 2 ^ 32" "length D < 2 ^ 32"
  shows "\<exists>b'. put_byte d b = Some b' \<and> bindiff_ok src (D @ [d]) b'"
proof -
  note o = open_patch_ok [OF b n(2)]
  have f: "bd_src b = src" "unat (bd_size b) = length src" "bd_cur b = length D" using b by (auto simp: bindiff_ok_def)
  show ?thesis
  proof (cases "length src \<le> length D")
    case True
    then show ?thesis using o f last_open_append [of src "bd_patches (open_patch b)" D d] last_open_nonempty
      by (auto simp: put_byte_def change_back_def bindiff_ok_def)
  next
    case False
    then have lt: "length D < length src" by simp
    have rd: "aread (bd_src b) (bd_cur b) = Some (src ! length D)" using f lt by (simp add: mem_simps)
    have sd: "(bd_srcdiff b = None) = bd_closed b" using b lt by (simp add: bindiff_ok_def)
    consider "src ! length D = d" "case bd_srcdiff b of None \<Rightarrow> False | Some s \<Rightarrow> 4 * 3 < bd_cur b - s"
      | "src ! length D \<noteq> d \<or> bd_srcdiff b \<noteq> None" "\<not> (src ! length D = d \<and> (case bd_srcdiff b of None \<Rightarrow> False | Some s \<Rightarrow> 4 * 3 < bd_cur b - s))"
      | "src ! length D = d" "bd_srcdiff b = None" by blast
    then show ?thesis
    proof cases
      case 1
      then have "\<not> bd_closed b" using sd by (auto split: option.splits)
      then have "patched src (bd_patches b) (length D) D" using b last_open_patched by (simp add: bindiff_ok_def)
      from patched_same [OF this lt] show ?thesis using 1 rd f lt
        by (auto simp: put_byte_def bindiff_ok_def)
    next
      case 2
      let ?b = "if src ! length D \<noteq> d then b\<lparr>bd_srcdiff := Some (bd_cur b)\<rparr> else b"
      have op: "open_patch ?b = (open_patch b)\<lparr>bd_srcdiff := bd_srcdiff ?b\<rparr>" by (simp add: open_patch_def)
      have "bd_srcdiff ?b \<noteq> None" using 2(1) by auto
      then show ?thesis using 2 rd f lt o op last_open_extend [of src "bd_patches (open_patch b)" D d] n(1)
          last_open_nonempty [of src "bd_patches (open_patch b)" D]
        by (auto simp: put_byte_def change_back_def bindiff_ok_def Let_def)
    next
      case 3
      then have "patched src (bd_patches b) (length D) D" "bd_closed b" using b sd by (auto simp: bindiff_ok_def)
      with patched_same [OF this(1) lt] 3 rd f lt show ?thesis by (auto simp: put_byte_def bindiff_ok_def)
    qed
  qed
qed

lemma BinDiff_put_ok:
  "bindiff_ok src D b \<Longrightarrow> length src < 2 ^ 32 \<Longrightarrow> length D + length ds \<le> 2 ^ 32 \<Longrightarrow>
   \<exists>b'. BinDiff_put ds b = Some b' \<and> bindiff_ok src (D @ ds) b'"
proof (induction ds arbitrary: D b)
  case (Cons d ds)
  with put_byte_ok [of src D b d] obtain b' where "put_byte d b = Some b'" "bindiff_ok src (D @ [d]) b'" by auto
  with Cons.IH [of "D @ [d]" b'] Cons.prems show ?case by simp
qed simp

lemma BinDiff_parts_ok:
  "bindiff_ok src D b \<Longrightarrow> length src < 2 ^ 32 \<Longrightarrow> length D + length (concat parts) \<le> 2 ^ 32 \<Longrightarrow>
   \<exists>b'. foldl (\<lambda>b ds. do { b \<leftarrow> b; BinDiff_put ds b }) (Some b) parts = Some b' \<and> bindiff_ok src (D @ concat parts) b'"
proof (induction parts arbitrary: D b)
  case (Cons ds parts)
  with BinDiff_put_ok [of src D b ds] obtain b' where "BinDiff_put ds b = Some b'" "bindiff_ok src (D @ ds) b'" by auto
  with Cons.IH [of "D @ ds" b'] Cons.prems show ?case by simp
qed simp

lemma BinDiff_new_ok: "length src < 2 ^ 32 \<Longrightarrow> bindiff_ok src [] (BinDiff_new src)"
  by (simp add: bindiff_ok_def BinDiff_new_def unat_small)

lemma BinDiff_close_ok:
  assumes b: "bindiff_ok src D b" and n: "length src < 2 ^ 32" "length D < 2 ^ 32"
  shows "applyPatches src (bd_patches (BinDiff_close b)) = Some D"
proof -
  have f: "unat (bd_size b) = length src" "bd_cur b = length D" using b by (auto simp: bindiff_ok_def)
  have p: "patched src (bd_patches b) (length D) D"
    using b last_open_patched by (auto simp: bindiff_ok_def split: if_splits)
  then have P: "applyPatches (take (length D) src) (bd_patches b) = Some D"
    using spec [OF p [unfolded patched_def], of "[]"] n by simp
  show ?thesis
  proof (cases "length D < length src")
    case True
    let ?p = "\<lparr>pa_start = of_nat (length D), pa_size = bd_size b - of_nat (length D), pa_buf = []\<rparr>"
    have "bd_size b = of_nat (length src)" using f(1) n(1) by (simp add: word_unat_eq_iff unat_small)
    then have "bd_size b - of_nat (length D) = of_nat (length src - length D)" using True by simp
    then have "unat (pa_size ?p) = length (drop (length D) src)" using n by (simp add: unat_small)
    then have "apply_patch ?p (take (length D) src @ drop (length D) src @ []) = Some (take (length D) src @ [] @ [])"
      using apply_patch_spec [of ?p "take (length D) src" "drop (length D) src" "[]"] True n by (simp add: unat_small)
    then show ?thesis using True P f by (simp add: BinDiff_close_def)
  next
    case False
    then show ?thesis using P f by (simp add: BinDiff_close_def)
  qed
qed

text \<open>Equal bytes do not make a patch.\<close>

lemma BinDiff_put_same:
  "bd_closed b \<Longrightarrow> bd_srcdiff b = None \<Longrightarrow> bd_cur b + length ds \<le> length (bd_src b) \<Longrightarrow>
   unat (bd_size b) = length (bd_src b) \<Longrightarrow> take (length ds) (drop (bd_cur b) (bd_src b)) = ds \<Longrightarrow>
   BinDiff_put ds b = Some (b\<lparr>bd_cur := bd_cur b + length ds\<rparr>)"
proof (induction ds arbitrary: b)
  case (Cons d ds)
  have "drop (bd_cur b) (bd_src b) = bd_src b ! bd_cur b # drop (Suc (bd_cur b)) (bd_src b)"
    using Cons.prems(3) by (simp add: Cons_nth_drop_Suc)
  then have "bd_src b ! bd_cur b = d" "take (length ds) (drop (Suc (bd_cur b)) (bd_src b)) = ds" using Cons.prems(5) by auto
  then have "put_byte d b = Some (b\<lparr>bd_cur := bd_cur b + 1\<rparr>)"
    using Cons.prems by (simp add: put_byte_def mem_simps)
  with Cons.IH [of "b\<lparr>bd_cur := bd_cur b + 1\<rparr>"] Cons.prems \<open>take (length ds) _ = ds\<close> show ?case by simp
qed simp

text \<open>C15: a client that applies the patches has the stream of the server.  For every source and every
  destination of less than 4 GB, however the destination is cut into parts, the comparison runs
  without an access out of bounds and the patches turn the source into the destination, inside the
  vectors; and there are none when the two are equal.\<close>

theorem bindiff_roundtrip:
  assumes "length src < 2 ^ 32" "length (concat parts) < 2 ^ 32"
  shows "\<exists>ps. bindiff_run src parts = Some ps \<and> applyPatches src ps = Some (concat parts)
     \<and> (parts = [src] \<longrightarrow> ps = [])"
proof -
  obtain b where b: "foldl (\<lambda>b ds. do { b \<leftarrow> b; BinDiff_put ds b }) (Some (BinDiff_new src)) parts = Some b"
    "bindiff_ok src (concat parts) b"
    using BinDiff_parts_ok [OF BinDiff_new_ok [OF assms(1)] assms(1), of parts] assms(2) by auto
  have "parts = [src] \<Longrightarrow> bd_patches (BinDiff_close b) = []"
    using b(1) BinDiff_put_same [of "BinDiff_new src" src] assms(1)
    by (auto simp: BinDiff_new_def unat_small BinDiff_close_def)
  then show ?thesis using b BinDiff_close_ok [OF b(2) assms] by (simp add: bindiff_run_def)
qed

lemma bindiff_roundtrip_witness:
  "\<exists>ps. bindiff_run [1, 2, 3] [[1, 9], [9, 3, 4]] = Some ps \<and> applyPatches [1, 2, 3] ps = Some [1, 9, 9, 3, 4]"
  using bindiff_roundtrip [of "[1, 2, 3]" "[[1, 9], [9, 3, 4]]"] by auto

end
