(* ===== verification/Dstring.thy ===== *)
theory Dstring
  imports CString
begin

text \<open>
  The strings of the game (\<open>src/dstring.cpp\<close>, \<open>include/dstring.h\<close>): objects that share a counted block
  until one of them changes.  The objects are numbered, and the state has the member \<open>p\<close> of each of
  them; an object that does not exist, or no longer, has a null pointer.  The blocks have addresses that are
  not reused, so that a pointer to freed memory is never valid, and \<open>realloc\<close> moves the block that it
  grows, as it may.  Sizes are natural numbers: a block of 4 GB cannot be allocated.
\<close>

section \<open>Blocks and pointers\<close>

record dcell =
  dc_size :: nat
  dc_refs :: nat
  dc_s :: "byte list"

record dstate =
  dh_cell :: "nat \<Rightarrow> dcell option"
  dh_next :: nat
  dh_p :: "nat \<Rightarrow> nat option"

definition dstring_start :: dstate where
  "dstring_start = \<lparr>dh_cell = (\<lambda>_. None), dh_next = 0, dh_p = (\<lambda>_. None)\<rparr>"

text \<open>The macros \<open>alunit\<close> and \<open>alsize\<close>.\<close>

definition dalunit :: nat where "dalunit = 0x10"

definition dalsize :: "nat \<Rightarrow> nat" where "dalsize s = ((s + dalunit - 1) div dalunit) * dalunit"

text \<open>A \<open>const char *\<close>: to a constant or a buffer of the caller, or to the characters of a block.\<close>

datatype cstr = Chars "byte list" | Block nat

fun deref :: "dstate \<Rightarrow> cstr \<Rightarrow> byte list option" where
  "deref s (Chars bs) = Some bs"
| "deref s (Block a) = map_option dc_s (dh_cell s a)"

text \<open>\<open>operator const char *\<close> and \<open>c_str\<close>.\<close>

definition c_str :: "dstate \<Rightarrow> nat \<Rightarrow> cstr" where
  "c_str s x = (case dh_p s x of None \<Rightarrow> Chars [0] | Some a \<Rightarrow> Block a)"

definition dlen :: "dstate \<Rightarrow> nat \<Rightarrow> nat option" where
  "dlen s x = (case dh_p s x of None \<Rightarrow> Some 0 | Some a \<Rightarrow> map_option dc_size (dh_cell s a))"

text \<open>The counting loop of \<open>strncat\<close>.\<close>

definition c_strnlen :: "byte list \<Rightarrow> nat \<Rightarrow> nat option" where
  "c_strnlen src len =
     (let t = takeWhile (\<lambda>c. c \<noteq> 0) (take len src)
      in if length t < len \<and> length t = length src then None else Some (length t))"

definition new_cell :: "dcell \<Rightarrow> nat \<Rightarrow> dstate \<Rightarrow> dstate" where
  "new_cell c x s =
     s\<lparr>dh_cell := (dh_cell s)(dh_next s \<mapsto> c), dh_next := dh_next s + 1, dh_p := (dh_p s)(x := Some (dh_next s))\<rparr>"

section \<open>The members\<close>

text \<open>\<open>~dstring\<close>.\<close>

definition dstring_destroy :: "nat \<Rightarrow> dstate \<Rightarrow> dstate option" where
  "dstring_destroy x s =
     (case dh_p s x of
        None \<Rightarrow> Some s
      | Some a \<Rightarrow> do {
          c \<leftarrow> dh_cell s a;
          let c = c\<lparr>dc_refs := dc_refs c - 1\<rparr>;
          Some (s\<lparr>dh_cell := (dh_cell s)(a := (if dc_refs c = 0 then None else Some c)),
                  dh_p := (dh_p s)(x := None)\<rparr>) })"

text \<open>
  \<open>strncat\<close>: a new block for an empty string, a copy of a shared one, a larger one when it does not fit;
  \<open>junk\<close> is what new memory holds.  Appending a block to itself is an overlapping copy.
\<close>

definition dstring_strncat :: "(nat \<Rightarrow> byte) \<Rightarrow> nat \<Rightarrow> cstr \<Rightarrow> nat \<Rightarrow> dstate \<Rightarrow> dstate option" where
  "dstring_strncat junk x src len s = do {
     bs \<leftarrow> deref s src;
     sl \<leftarrow> c_strnlen bs len;
     if sl = 0 then Some s
     else
       (case dh_p s x of
          None \<Rightarrow> do {
            b \<leftarrow> write_at (c_malloc junk (dalsize sl + 1)) 0 (take sl bs);
            b \<leftarrow> awrite b sl 0;
            Some (new_cell \<lparr>dc_size = sl, dc_refs = 1, dc_s = b\<rparr> x s) }
        | Some a \<Rightarrow> do {
            c \<leftarrow> dh_cell s a;
            (if 1 < dc_refs c then do {
               b \<leftarrow> write_at (c_malloc junk (dalsize (dc_size c + sl) + 1)) 0 (take (dc_size c) (dc_s c));
               b \<leftarrow> write_at b (dc_size c) (take sl bs);
               b \<leftarrow> awrite b (dc_size c + sl) 0;
               let s = s\<lparr>dh_cell := (dh_cell s)(a \<mapsto> c\<lparr>dc_refs := dc_refs c - 1\<rparr>)\<rparr>;
               Some (new_cell \<lparr>dc_size = dc_size c + sl, dc_refs = 1, dc_s = b\<rparr> x s) }
             else do {
               let grow = (dalsize (dc_size c) < dc_size c + sl);
               let b = (if grow then c_realloc junk (dc_s c) (dalsize (dc_size c + sl) + 1) else dc_s c);
               bs \<leftarrow> (if src = Block a then None else Some bs);
               b \<leftarrow> (if dc_size c \<noteq> 0 then c_strncat b bs sl else c_strncpy b bs (sl + 1));
               let c = c\<lparr>dc_size := dc_size c + sl, dc_s := b\<rparr>;
               Some (if grow then new_cell c x (s\<lparr>dh_cell := (dh_cell s)(a := None)\<rparr>)
                     else s\<lparr>dh_cell := (dh_cell s)(a \<mapsto> c)\<rparr>) }) }) }"

text \<open>The members that are calls of it.\<close>

definition dstring_strcat :: "(nat \<Rightarrow> byte) \<Rightarrow> nat \<Rightarrow> cstr \<Rightarrow> dstate \<Rightarrow> dstate option" where
  "dstring_strcat junk x src s = do {
     bs \<leftarrow> deref s src;
     n \<leftarrow> c_strlen bs;
     dstring_strncat junk x src (n + 1) s }"

definition dstring_cat :: "(nat \<Rightarrow> byte) \<Rightarrow> nat \<Rightarrow> nat \<Rightarrow> dstate \<Rightarrow> dstate option" where
  "dstring_cat junk x y s = do { n \<leftarrow> dlen s y; dstring_strncat junk x (c_str s y) n s }"

definition dstring_strncpy :: "(nat \<Rightarrow> byte) \<Rightarrow> nat \<Rightarrow> cstr \<Rightarrow> nat \<Rightarrow> dstate \<Rightarrow> (nat \<times> dstate) option" where
  "dstring_strncpy junk x src len s = do {
     s \<leftarrow> dstring_destroy x s;
     s \<leftarrow> dstring_strncat junk x src len s;
     n \<leftarrow> dlen s x;
     Some (n, s) }"

definition dstring_strcpy :: "(nat \<Rightarrow> byte) \<Rightarrow> nat \<Rightarrow> cstr \<Rightarrow> dstate \<Rightarrow> (nat \<times> dstate) option" where
  "dstring_strcpy junk x src s = do {
     bs \<leftarrow> deref s src;
     n \<leftarrow> c_strlen bs;
     dstring_strncpy junk x src (n + 1) s }"

text \<open>The constructors.\<close>

definition dstring_init :: "(nat \<Rightarrow> byte) \<Rightarrow> nat \<Rightarrow> cstr option \<Rightarrow> int \<Rightarrow> dstate \<Rightarrow> dstate option" where
  "dstring_init junk x a len s =
     (let s = s\<lparr>dh_p := (dh_p s)(x := None)\<rparr>
      in case a of None \<Rightarrow> Some s
         | Some a \<Rightarrow> if len < 0 then dstring_strcat junk x a s else dstring_strncat junk x a (nat len) s)"

text \<open>From a number: the buffer has 1 + 8 * 4 characters.\<close>

definition dstring_init_long :: "(nat \<Rightarrow> byte) \<Rightarrow> nat \<Rightarrow> 32 word \<Rightarrow> dstate \<Rightarrow> dstate option" where
  "dstring_init_long junk x src s = do {
     buf \<leftarrow> write_at (c_malloc junk 33) 0 (c_decimal (sint src) @ [0]);
     dstring_init junk x (Some (Chars buf)) (-1) s }"

definition dstring_initu :: "(nat \<Rightarrow> byte) \<Rightarrow> nat \<Rightarrow> 32 word \<Rightarrow> dstate \<Rightarrow> dstate option" where
  "dstring_initu junk x src s = do {
     buf \<leftarrow> write_at (c_malloc junk 33) 0 (c_decimal (uint src) @ [0]);
     dstring_init junk x (Some (Chars buf)) (-1) s }"

definition dstring_char :: "(nat \<Rightarrow> byte) \<Rightarrow> nat \<Rightarrow> byte \<Rightarrow> dstate \<Rightarrow> dstate option" where
  "dstring_char junk x c s =
     map_option snd (dstring_strcpy junk x (Chars [c, 0]) (s\<lparr>dh_p := (dh_p s)(x := None)\<rparr>))"

text \<open>Sharing: the copy constructor and the assignment, which destroys first.\<close>

definition dstring_share :: "nat \<Rightarrow> nat \<Rightarrow> dstate \<Rightarrow> dstate option" where
  "dstring_share x y s =
     (let s = s\<lparr>dh_p := (dh_p s)(x := dh_p s y)\<rparr>
      in case dh_p s x of None \<Rightarrow> Some s
         | Some a \<Rightarrow> do {
             c \<leftarrow> dh_cell s a;
             Some (s\<lparr>dh_cell := (dh_cell s)(a \<mapsto> c\<lparr>dc_refs := dc_refs c + 1\<rparr>)\<rparr>) })"

definition dstring_copy :: "nat \<Rightarrow> nat \<Rightarrow> dstate \<Rightarrow> dstate option" where
  "dstring_copy x y s = dstring_share x y s"

definition dstring_assign :: "nat \<Rightarrow> nat \<Rightarrow> dstate \<Rightarrow> dstate option" where
  "dstring_assign x y s = do { s \<leftarrow> dstring_destroy x s; dstring_share x y s }"

definition dstring_assign_cstr :: "(nat \<Rightarrow> byte) \<Rightarrow> nat \<Rightarrow> cstr \<Rightarrow> dstate \<Rightarrow> dstate option" where
  "dstring_assign_cstr junk x a s = do { s \<leftarrow> dstring_destroy x s; dstring_strcat junk x a s }"

text \<open>\<open>operator <<(char)\<close>, \<open>push_back\<close>, and the sum, a new object \<open>z\<close>.\<close>

definition dstring_cat_char :: "(nat \<Rightarrow> byte) \<Rightarrow> nat \<Rightarrow> byte \<Rightarrow> dstate \<Rightarrow> dstate option" where
  "dstring_cat_char junk x c s = dstring_strncat junk x (Chars [c]) 1 s"

definition dstring_push_back :: "(nat \<Rightarrow> byte) \<Rightarrow> nat \<Rightarrow> byte \<Rightarrow> dstate \<Rightarrow> dstate option" where
  "dstring_push_back junk x c s = dstring_strcat junk x (Chars [c, 0]) s"

definition dstring_plus :: "(nat \<Rightarrow> byte) \<Rightarrow> nat \<Rightarrow> nat \<Rightarrow> nat \<Rightarrow> dstate \<Rightarrow> dstate option" where
  "dstring_plus junk z x y s = do { s \<leftarrow> dstring_copy z x s; dstring_cat junk z y s }"

section \<open>Reading\<close>

definition dstring_front :: "dstate \<Rightarrow> nat \<Rightarrow> byte option" where
  "dstring_front s x =
     (case dh_p s x of None \<Rightarrow> Some 0 | Some a \<Rightarrow> do { c \<leftarrow> dh_cell s a; aread (dc_s c) 0 })"

definition dstring_back :: "dstate \<Rightarrow> nat \<Rightarrow> byte option" where
  "dstring_back s x =
     (case dh_p s x of None \<Rightarrow> Some 0 | Some a \<Rightarrow> do { c \<leftarrow> dh_cell s a; aread (dc_s c) (dc_size c - 1) })"

text \<open>The sign of \<open>strcmp\<close> on two blocks.\<close>

fun c_strcmp :: "byte list \<Rightarrow> byte list \<Rightarrow> int option" where
  "c_strcmp (a # as) (b # bs) =
     (if a < b then Some (-1) else if b < a then Some 1 else if a = 0 then Some 0 else c_strcmp as bs)"
| "c_strcmp _ _ = None"

definition dstring_eq :: "dstate \<Rightarrow> nat \<Rightarrow> nat \<Rightarrow> bool option" where
  "dstring_eq s x y =
     (if dh_p s x = dh_p s y then Some True
      else case (dh_p s x, dh_p s y) of
          (Some a, Some b) \<Rightarrow> do {
            c \<leftarrow> dh_cell s a; d \<leftarrow> dh_cell s b;
            r \<leftarrow> c_strcmp (dc_s c) (dc_s d);
            Some (r = 0) }
        | _ \<Rightarrow> Some False)"

definition dstring_eq_cstr :: "dstate \<Rightarrow> nat \<Rightarrow> cstr \<Rightarrow> bool option" where
  "dstring_eq_cstr s x o' = do {
     bs \<leftarrow> deref s o';
     (case dh_p s x of
        Some a \<Rightarrow> do { c \<leftarrow> dh_cell s a; r \<leftarrow> c_strcmp (dc_s c) bs; Some (r = 0) }
      | None \<Rightarrow> do { b \<leftarrow> aread bs 0; Some (b = 0) }) }"

definition dstring_less :: "dstate \<Rightarrow> nat \<Rightarrow> nat \<Rightarrow> bool option" where
  "dstring_less s x y =
     (case dh_p s x of None \<Rightarrow> Some True
      | Some a \<Rightarrow>
          (case dh_p s y of None \<Rightarrow> Some False
           | Some b \<Rightarrow> do {
               c \<leftarrow> dh_cell s a; d \<leftarrow> dh_cell s b;
               r \<leftarrow> c_strcmp (dc_s c) (dc_s d);
               Some (r < 0) }))"

definition FNV1_32_INIT :: uint32 where "FNV1_32_INIT = 0x811c9dc5"

text \<open>A step of the hash; the multiplication by the prime is written with shifts.\<close>

definition fnv_step :: "uint32 \<Rightarrow> byte \<Rightarrow> uint32" where
  "fnv_step hval b =
     (let hval = hval XOR ucast b
      in hval + (push_bit 1 hval + push_bit 4 hval + push_bit 7 hval + push_bit 8 hval + push_bit 24 hval))"

definition dstring_hash :: "dstate \<Rightarrow> nat \<Rightarrow> uint32 option" where
  "dstring_hash s x =
     (case dh_p s x of None \<Rightarrow> Some FNV1_32_INIT
      | Some a \<Rightarrow> do {
          c \<leftarrow> dh_cell s a;
          (if dc_size c \<le> length (dc_s c) then Some (foldl fnv_step FNV1_32_INIT (take (dc_size c) (dc_s c))) else None) })"

end
