(* ===== verification/Dstring_Correct.thy ===== *)
theory Dstring_Correct
  imports Dstring
begin

text \<open>
  The strings of the game behave as values: whatever blocks they share, an operation changes the
  text of the object it is called on and of no other.  The invariant behind this is that the count of
  every block is the number of the objects that point to it.
\<close>

section \<open>The invariant\<close>

definition text_of :: "dcell \<Rightarrow> byte list" where "text_of c = take (dc_size c) (dc_s c)"

definition cell_ok :: "dcell \<Rightarrow> bool" where
  "cell_ok c \<longleftrightarrow> 0 < dc_size c \<and> length (dc_s c) = dalsize (dc_size c) + 1 \<and> holds_text (dc_s c) (text_of c)"

definition users :: "dstate \<Rightarrow> nat \<Rightarrow> nat set" where "users s a = {x. dh_p s x = Some a}"

definition dstring_ok :: "dstate \<Rightarrow> bool" where
  "dstring_ok s \<longleftrightarrow>
     finite {x. dh_p s x \<noteq> None} \<and> (\<forall>x a. dh_p s x = Some a \<longrightarrow> dh_cell s a \<noteq> None)
     \<and> (\<forall>a c. dh_cell s a = Some c \<longrightarrow>
          a < dh_next s \<and> cell_ok c \<and> 0 < dc_refs c \<and> dc_refs c = card (users s a))"

text \<open>The text of an object.\<close>

definition dval :: "dstate \<Rightarrow> nat \<Rightarrow> byte list" where
  "dval s x = (case dh_p s x of None \<Rightarrow> [] | Some a \<Rightarrow> text_of (the (dh_cell s a)))"

lemma dalsize_facts:
  "n \<le> dalsize n" "m \<le> n \<Longrightarrow> n \<le> dalsize m \<Longrightarrow> dalsize n = dalsize m"
proof -
  have d: "dalsize k = 16 * ((k + 15) div 16)" for k by (simp add: dalsize_def dalunit_def)
  show "n \<le> dalsize n" unfolding d by presburger
  assume "m \<le> n" "n \<le> dalsize m"
  then have "(m + 15) div 16 \<le> (n + 15) div 16" "n + 15 < 16 * ((m + 15) div 16) + 16"
    unfolding d by (simp_all add: div_le_mono)
  then have "(n + 15) div 16 = (m + 15) div 16" by (simp add: div_less_iff_less_mult le_antisym)
  then show "dalsize n = dalsize m" unfolding d by simp
qed

lemma dstring_ok_cell:
  assumes "dstring_ok s" "dh_p s x = Some a"
  obtains c where "dh_cell s a = Some c" "cell_ok c" "0 < dc_refs c" "dc_refs c = card (users s a)" "a < dh_next s"
  using assms unfolding dstring_ok_def by fastforce

lemma dstring_okD:
  "dstring_ok s \<Longrightarrow> dh_cell s a = Some c \<Longrightarrow> a < dh_next s \<and> cell_ok c \<and> 0 < dc_refs c \<and> dc_refs c = card (users s a)"
  unfolding dstring_ok_def by blast

lemma dstring_okI:
  assumes "finite {y. dh_p s y \<noteq> None}" "\<And>y b. dh_p s y = Some b \<Longrightarrow> dh_cell s b \<noteq> None"
    and "\<And>b d. dh_cell s b = Some d \<Longrightarrow> b < dh_next s \<and> cell_ok d \<and> 0 < dc_refs d \<and> dc_refs d = card (users s b)"
  shows "dstring_ok s"
  unfolding dstring_ok_def by (intro conjI allI impI assms(1)) (use assms(2,3) in blast)+

lemma finite_users: "dstring_ok s \<Longrightarrow> finite (users s a)"
  by (rule finite_subset [of _ "{x. dh_p s x \<noteq> None}"]) (auto simp: dstring_ok_def users_def)

lemma users_upd:
  "users (s\<lparr>dh_p := (dh_p s)(x := p)\<rparr>) a = (if p = Some a then insert x (users s a) else users s a - {x})"
  by (auto simp: users_def)

lemma users_cells [simp]:
  "users (s\<lparr>dh_cell := h\<rparr>) = users s" "users (s\<lparr>dh_next := n\<rparr>) = users s"
  by (simp_all add: users_def fun_eq_iff)

lemma finite_support_upd: "finite {y. f y \<noteq> None} \<Longrightarrow> finite {y. (f(x := p)) y \<noteq> None}"
  by (rule finite_subset [of _ "insert x {y. f y \<noteq> None}"]) auto

lemma dstring_ok_finite: "dstring_ok s \<Longrightarrow> finite {y. dh_p s y \<noteq> None}"
  by (simp only: dstring_ok_def)

lemma dstring_start_ok: "dstring_ok dstring_start \<and> dval dstring_start = (\<lambda>_. [])"
  by (simp add: dstring_ok_def dstring_start_def dval_def fun_eq_iff)

lemma dval_nonempty: "dstring_ok s \<Longrightarrow> dval s x = [] \<longleftrightarrow> dh_p s x = None"
  by (auto simp: dval_def cell_ok_def text_of_def elim: dstring_ok_cell split: option.split)

section \<open>Destroying and sharing\<close>

lemma destroy_ok:
  assumes "dstring_ok s"
  shows "\<exists>s'. dstring_destroy x s = Some s' \<and> dstring_ok s' \<and> dval s' = (dval s)(x := [])
     \<and> dh_p s' = (dh_p s)(x := None) \<and> (\<forall>y a. y \<noteq> x \<longrightarrow> dh_p s y = Some a \<longrightarrow> deref s' (Block a) = deref s (Block a))"
proof (cases "dh_p s x")
  case None
  then show ?thesis using assms by (auto simp: dstring_destroy_def dval_def fun_eq_iff)
next
  case (Some a)
  obtain c where c: "dh_cell s a = Some c" "cell_ok c" "0 < dc_refs c" "dc_refs c = card (users s a)" "a < dh_next s"
    using dstring_ok_cell [OF assms Some] by metis
  define c' where "c' = c\<lparr>dc_refs := dc_refs c - 1\<rparr>"
  define s' where "s' = s\<lparr>dh_cell := (dh_cell s)(a := (if dc_refs c' = 0 then None else Some c')), dh_p := (dh_p s)(x := None)\<rparr>"
  have d: "dstring_destroy x s = Some s'" using Some c(1) by (simp add: dstring_destroy_def s'_def c'_def Let_def)
  have x: "x \<in> users s a" using Some by (simp add: users_def)
  have u: "users s' b = users s b - {x}" for b by (auto simp: users_def s'_def)
  have card: "card (users s' a) = dc_refs c - 1" using x c(4) finite_users [OF assms] by (simp add: u)
  have other: "users s' b = users s b" if "b \<noteq> a" for b
  proof -
    have "x \<notin> users s b" using that Some by (simp add: users_def)
    then show ?thesis by (simp add: u)
  qed
  have p': "\<exists>c. dh_cell s' b = Some c" if "dh_p s' y = Some b" for y b
  proof (cases "b = a")
    case True
    then have "y \<in> users s' a" using that by (simp add: users_def)
    moreover have "finite (users s' a)" using finite_users [OF assms] by (simp add: u)
    ultimately have "0 < card (users s' a)" by (auto simp: card_gt_0_iff)
    then show ?thesis using True card by (simp add: s'_def c'_def)
  next
    case False
    then show ?thesis using that assms by (auto simp: s'_def dstring_ok_def split: if_splits)
  qed
  have cells: "b < dh_next s' \<and> cell_ok d \<and> 0 < dc_refs d \<and> dc_refs d = card (users s' b)" if "dh_cell s' b = Some d" for b d
  proof (cases "b = a")
    case True
    then show ?thesis using that c card by (auto simp: s'_def c'_def cell_ok_def text_of_def split: if_splits)
  next
    case False
    then have "dh_cell s b = Some d" using that by (simp add: s'_def)
    from dstring_okD [OF assms this] show ?thesis using other [OF False] by (simp add: s'_def)
  qed
  have "dh_p s' = (dh_p s)(x := None)" by (simp add: s'_def)
  then have "finite {y. dh_p s' y \<noteq> None}" by (simp only: finite_support_upd [OF dstring_ok_finite [OF assms]])
  moreover have "\<And>y b. dh_p s' y = Some b \<Longrightarrow> dh_cell s' b \<noteq> None" using p' by blast
  ultimately have ok: "dstring_ok s'" by (intro dstring_okI) (use cells in blast)+
  have t: "map_option dc_s (dh_cell s' b) = map_option dc_s (dh_cell s b) \<and> text_of (the (dh_cell s' b)) = text_of (the (dh_cell s b))"
    if "y \<noteq> x" "dh_p s y = Some b" for y b
    using p' [of y b] that c(1) by (auto simp: s'_def c'_def text_of_def)
  have "dval s' y = (if y = x then [] else dval s y)" for y
    using t [of y] by (cases "dh_p s y") (simp_all add: dval_def \<open>dh_p s' = (dh_p s)(x := None)\<close>)
  then have "dval s' = (dval s)(x := [])" by (simp add: fun_eq_iff)
  then show ?thesis using d ok t by (auto simp: s'_def)
qed

lemma share_ok:
  assumes s: "dstring_ok s" and x: "dh_p s x = None"
  shows "\<exists>s'. dstring_share x y s = Some s' \<and> dstring_ok s' \<and> dval s' = (dval s)(x := dval s y)"
proof (cases "dh_p s y")
  case None
  have "(dh_p s)(x := dh_p s y) = dh_p s" using x None by (simp add: fun_upd_idem)
  then have "dstring_share x y s = Some s" using x by (simp add: dstring_share_def Let_def)
  then show ?thesis using s None x by (auto simp: dval_def fun_eq_iff)
next
  case (Some a)
  obtain c where c: "dh_cell s a = Some c" "cell_ok c" "0 < dc_refs c" "dc_refs c = card (users s a)" "a < dh_next s"
    using dstring_ok_cell [OF s Some] by metis
  define s' where "s' = s\<lparr>dh_p := (dh_p s)(x := Some a), dh_cell := (dh_cell s)(a \<mapsto> c\<lparr>dc_refs := dc_refs c + 1\<rparr>)\<rparr>"
  have sh: "dstring_share x y s = Some s'" using Some c(1) by (simp add: dstring_share_def s'_def Let_def)
  have u: "users s' b = (if b = a then insert x (users s a) else users s b)" for b
    using x by (auto simp: users_def s'_def)
  have "x \<notin> users s a" using x by (simp add: users_def)
  then have card: "card (users s' a) = dc_refs c + 1" using c(4) finite_users [OF s] by (simp add: u)
  have cells: "b < dh_next s' \<and> cell_ok d \<and> 0 < dc_refs d \<and> dc_refs d = card (users s' b)" if "dh_cell s' b = Some d" for b d
  proof (cases "b = a")
    case True
    then show ?thesis using that c card by (auto simp: s'_def cell_ok_def text_of_def)
  next
    case False
    then have "dh_cell s b = Some d" using that by (simp add: s'_def)
    from dstring_okD [OF s this] show ?thesis using False u [of b] by (simp add: s'_def)
  qed
  have "dh_p s' = (dh_p s)(x := Some a)" by (simp add: s'_def)
  then have "finite {y. dh_p s' y \<noteq> None}" by (simp only: finite_support_upd [OF dstring_ok_finite [OF s]])
  moreover have "\<forall>y b. dh_p s' y = Some b \<longrightarrow> dh_cell s' b \<noteq> None" using s c(1) by (auto simp: s'_def dstring_ok_def)
  ultimately have "dstring_ok s'" by (intro dstring_okI) (use cells in blast)+
  moreover have "dval s' = (dval s)(x := dval s y)"
    using Some c(1) by (auto simp: dval_def fun_eq_iff s'_def text_of_def split: option.split)
  ultimately show ?thesis using sh by blast
qed

text \<open>An object gets a block of its own, and leaves the one it had to its other users.\<close>

lemma new_cell_ok:
  assumes s: "dstring_ok s" and x: "dh_p s x = None" and c: "cell_ok c" "dc_refs c = 1"
  shows "dstring_ok (new_cell c x s) \<and> dval (new_cell c x s) = (dval s)(x := text_of c)"
proof -
  let ?s = "new_cell c x s" and ?a = "dh_next s"
  have fresh: "dh_cell s ?a = None"
  proof (rule ccontr)
    assume "dh_cell s ?a \<noteq> None"
    then show False using s by (auto simp: dstring_ok_def)
  qed
  have nop: "dh_p s y \<noteq> Some ?a" for y using s fresh by (auto simp: dstring_ok_def)
  have u: "users ?s b = (if b = ?a then {x} else users s b)" for b
    using nop x by (auto simp: users_def new_cell_def)
  have cells: "b < dh_next ?s \<and> cell_ok d \<and> 0 < dc_refs d \<and> dc_refs d = card (users ?s b)" if "dh_cell ?s b = Some d" for b d
  proof (cases "b = ?a")
    case True
    then show ?thesis using that c by (simp add: u) (simp add: new_cell_def)
  next
    case False
    then have "dh_cell s b = Some d" using that by (simp add: new_cell_def)
    from dstring_okD [OF s this] show ?thesis using False u [of b] by (simp add: new_cell_def)
  qed
  have "dh_p ?s = (dh_p s)(x := Some ?a)" by (simp add: new_cell_def)
  then have "finite {y. dh_p ?s y \<noteq> None}" by (simp only: finite_support_upd [OF dstring_ok_finite [OF s]])
  moreover have "\<forall>y b. dh_p ?s y = Some b \<longrightarrow> dh_cell ?s b \<noteq> None" using s by (auto simp: new_cell_def dstring_ok_def)
  ultimately have "dstring_ok ?s" by (intro dstring_okI) (use cells in blast)+
  moreover have "dval ?s = (dval s)(x := text_of c)"
    using nop by (auto simp: dval_def fun_eq_iff new_cell_def split: option.split)
  ultimately show ?thesis by blast
qed

text \<open>The block of an object that is its only user changes in place.\<close>

lemma in_place_ok:
  assumes s: "dstring_ok s" and x: "dh_p s x = Some a" and a: "dh_cell s a = Some c" "dc_refs c = 1"
    and c: "cell_ok c'" "dc_refs c' = 1"
  shows "dstring_ok (s\<lparr>dh_cell := (dh_cell s)(a \<mapsto> c')\<rparr>)
     \<and> dval (s\<lparr>dh_cell := (dh_cell s)(a \<mapsto> c')\<rparr>) = (dval s)(x := text_of c')"
proof -
  let ?s = "s\<lparr>dh_cell := (dh_cell s)(a \<mapsto> c')\<rparr>"
  have "card (users s a) = 1" using dstring_okD [OF s a(1)] a(2) by simp
  moreover have "x \<in> users s a" using x by (simp add: users_def)
  ultimately have only: "users s a = {x}" by (metis card_1_singletonE singletonD)
  have u: "users ?s b = users s b" for b by simp
  have "dstring_ok ?s"
  proof (rule dstring_okI)
    show "finite {y. dh_p ?s y \<noteq> None}" using dstring_ok_finite [OF s] by simp
    show "dh_cell ?s b \<noteq> None" if "dh_p ?s y = Some b" for y b using that s by (auto simp: dstring_ok_def)
    show "b < dh_next ?s \<and> cell_ok d \<and> 0 < dc_refs d \<and> dc_refs d = card (users ?s b)" if "dh_cell ?s b = Some d" for b d
      using that dstring_okD [OF s, of b] a c only unfolding u by (cases "b = a") auto
  qed
  moreover have "dh_p s y \<noteq> Some a" if "y \<noteq> x" for y using only that by (auto simp: users_def)
  then have "dval ?s = (dval s)(x := text_of c')" using x by (auto simp: dval_def fun_eq_iff split: option.split)
  ultimately show ?thesis by blast
qed

section \<open>Appending\<close>

text \<open>The characters that the counting loop counts.\<close>

lemma c_strnlen_Some:
  assumes "c_strnlen bs len = Some n"
  shows "n \<le> len" "n \<le> length bs" "0 \<notin> set (take n bs)" "takeWhile (\<lambda>c. c \<noteq> 0) (take n bs) = take n bs"
proof -
  let ?t = "takeWhile (\<lambda>c. c \<noteq> 0) (take len bs)"
  have n: "n = length ?t" using assms by (simp add: c_strnlen_def Let_def split: if_splits)
  have le: "length ?t \<le> length (take len bs)" by (rule length_takeWhile_le)
  then show l: "n \<le> len" "n \<le> length bs" unfolding n by simp_all
  have "take n (take len bs) = ?t" unfolding n by (rule takeWhile_eq_take [symmetric])
  then have t: "take n bs = ?t" using l by (simp add: min_def)
  show z: "0 \<notin> set (take n bs)" unfolding t using set_takeWhileD by fastforce
  show "takeWhile (\<lambda>c. c \<noteq> 0) (take n bs) = take n bs" unfolding t by simp
qed

lemma c_strnlen_text: "holds_text bs t \<Longrightarrow> c_strnlen bs len = Some (min len (length t))"
  unfolding c_strnlen_def Let_def by (auto simp: takeWhile_take_text min_def) (auto simp: holds_text_def)

lemma c_strncat_counted:
  assumes n: "c_strnlen bs len = Some n" and d: "holds_text dst t" "length t + n < length dst"
  shows "\<exists>b. c_strncat dst bs n = Some b \<and> holds_text b (t @ take n bs) \<and> length b = length dst"
proof -
  note n = c_strnlen_Some [OF n]
  have "0 \<notin> set t" "take (length t) dst = t" using d by (auto simp: holds_text_alt)
  then show ?thesis
    using write_at_text [of "take n bs" t dst] n d
    by (simp add: c_strncat_def n(4) Let_def)
qed

text \<open>The two blocks that are new: the text is written into fresh memory, then the NUL.\<close>

lemma fresh_text:
  assumes "0 \<notin> set t" "0 \<notin> set u" "length t + length u < m"
  shows "\<exists>b b' b''. write_at (c_malloc junk m) 0 t = Some b \<and> write_at b (length t) u = Some b'
     \<and> awrite b' (length t + length u) 0 = Some b'' \<and> holds_text b'' (t @ u) \<and> length b'' = m"
proof -
  let ?b = "t @ drop (length t) (c_malloc junk m)"
  let ?b' = "t @ u @ drop (length t + length u) (c_malloc junk m)"
  let ?b'' = "t @ u @ 0 # drop (Suc (length t + length u)) (c_malloc junk m)"
  have b: "write_at (c_malloc junk m) 0 t = Some ?b" using assms by (simp add: write_at_def)
  have b': "write_at ?b (length t) u = Some ?b'" using assms by (simp add: write_at_def add.commute)
  have "drop (length t + length u) (c_malloc junk m)
      = c_malloc junk m ! (length t + length u) # drop (Suc (length t + length u)) (c_malloc junk m)"
    using assms(3) by (intro Cons_nth_drop_Suc [symmetric]) simp
  then have b'': "awrite ?b' (length t + length u) 0 = Some ?b''"
    using assms(3) by (simp add: awrite_def list_update_append)
  have "holds_text ?b'' (t @ u)" using assms(1,2) by (auto simp: holds_text_alt)
  moreover have "length ?b'' = m" using assms(3) by simp
  ultimately show ?thesis using b b' b'' by blast
qed

lemma cell_okI: "holds_text b t \<Longrightarrow> t \<noteq> [] \<Longrightarrow> length b = dalsize (length t) + 1 \<Longrightarrow>
    cell_ok \<lparr>dc_size = length t, dc_refs = r, dc_s = b\<rparr> \<and> text_of \<lparr>dc_size = length t, dc_refs = r, dc_s = b\<rparr> = t"
  by (auto simp: cell_ok_def text_of_def holds_text_alt)

lemma cell_ok_text: "cell_ok c \<Longrightarrow> length (text_of c) = dc_size c \<and> text_of c \<noteq> [] \<and> holds_text (dc_s c) (text_of c)
    \<and> take (dc_size c) (dc_s c) = text_of c \<and> 0 \<notin> set (text_of c) \<and> length (dc_s c) = dalsize (dc_size c) + 1"
  using dalsize_facts(1) [of "dc_size c"] by (auto simp: cell_ok_def text_of_def holds_text_def)

text \<open>
  \<open>strncat\<close> on every branch: the text grows by the characters counted, and no other object's text
  changes.  The source may be the text of another object, or of the same one as long as its block is shared.
\<close>

lemma strncat_ok:
  assumes s: "dstring_ok s" and bs: "deref s src = Some bs" and n: "c_strnlen bs len = Some n"
    and shared: "\<And>a c. src = Block a \<Longrightarrow> dh_p s x = Some a \<Longrightarrow> dh_cell s a = Some c \<Longrightarrow> 0 < n \<Longrightarrow> 1 < dc_refs c"
  shows "\<exists>s'. dstring_strncat junk x src len s = Some s' \<and> dstring_ok s' \<and> dval s' = (dval s)(x := dval s x @ take n bs)"
proof (cases "n = 0")
  case True
  then show ?thesis using s bs n by (auto simp: dstring_strncat_def)
next
  case False
  let ?u = "take n bs"
  note u = c_strnlen_Some [OF n]
  have lu: "length ?u = n" using u(2) by simp
  show ?thesis
  proof (cases "dh_p s x")
    case None
    obtain b b' where b: "write_at (c_malloc junk (dalsize n + 1)) 0 ?u = Some b" "awrite b n 0 = Some b'"
        "holds_text b' ?u" "length b' = dalsize n + 1"
      using fresh_text [of ?u "[]" "dalsize n + 1" junk] u(3) lu dalsize_facts(1) [of n]
      by (auto simp: write_at_def split: if_splits)
    let ?c = "\<lparr>dc_size = n, dc_refs = 1, dc_s = b'\<rparr>"
    have c: "cell_ok ?c \<and> text_of ?c = ?u" using cell_okI [of b' ?u 1] b False lu by fastforce
    have "dstring_strncat junk x src len s = Some (new_cell ?c x s)"
      using bs n False None b by (simp add: dstring_strncat_def)
    moreover have "dval s x = []" using None by (simp add: dval_def)
    ultimately show ?thesis using new_cell_ok [OF s None, of ?c] c by simp
  next
    case (Some a)
    obtain c where c: "dh_cell s a = Some c" "cell_ok c" "0 < dc_refs c" using dstring_ok_cell [OF s Some] by metis
    note t = cell_ok_text [OF c(2)]
    have dx: "dval s x = text_of c" using Some c(1) by (simp add: dval_def)
    obtain s1 where d: "dstring_destroy x s = Some s1" "dstring_ok s1" "dval s1 = (dval s)(x := [])" "dh_p s1 = (dh_p s)(x := None)"
      using destroy_ok [OF s, of x] by blast
    have s1: "s1 = s\<lparr>dh_cell := (dh_cell s)(a := (if dc_refs c = 1 then None else Some (c\<lparr>dc_refs := dc_refs c - 1\<rparr>))), dh_p := (dh_p s)(x := None)\<rparr>"
      using d(1) Some c by (auto simp: dstring_destroy_def)
    show ?thesis
    proof (cases "1 < dc_refs c")
      case True
      obtain b b' b'' where b: "write_at (c_malloc junk (dalsize (dc_size c + n) + 1)) 0 (text_of c) = Some b"
          "write_at b (dc_size c) ?u = Some b'" "awrite b' (dc_size c + n) 0 = Some b''"
          "holds_text b'' (text_of c @ ?u)" "length b'' = dalsize (dc_size c + n) + 1"
        using fresh_text [of "text_of c" ?u "dalsize (dc_size c + n) + 1" junk] t u(3) lu dalsize_facts(1) [of "dc_size c + n"]
        by (auto simp: less_Suc_eq_le)
      let ?c = "\<lparr>dc_size = dc_size c + n, dc_refs = 1, dc_s = b''\<rparr>"
      have c': "cell_ok ?c \<and> text_of ?c = text_of c @ ?u" using cell_okI [of b'' "text_of c @ ?u" 1] b t lu by simp
      have "dstring_strncat junk x src len s
          = Some (new_cell ?c x (s\<lparr>dh_cell := (dh_cell s)(a \<mapsto> c\<lparr>dc_refs := dc_refs c - 1\<rparr>)\<rparr>))"
        using bs n False Some c(1) True t b by (simp add: dstring_strncat_def Let_def)
      also have "\<dots> = Some (new_cell ?c x s1)" using True by (simp add: s1 new_cell_def)
      finally show ?thesis using new_cell_ok [OF d(2), of x ?c] c' d(3,4) dx by simp
    next
      case False
      then have refs: "dc_refs c = 1" using c(3) by simp
      have na: "src \<noteq> Block a" using shared [of a c] Some c(1) False \<open>n \<noteq> 0\<close> by blast
      define grow where "grow = (dalsize (dc_size c) < dc_size c + n)"
      define b where "b = (if grow then c_realloc junk (dc_s c) (dalsize (dc_size c + n) + 1) else dc_s c)"
      have "dalsize (dc_size c + n) = dalsize (dc_size c)" if "\<not> grow"
        using dalsize_facts(2) [of "dc_size c" "dc_size c + n"] that by (simp add: grow_def)
      then have lb: "length b = dalsize (dc_size c + n) + 1" using t by (auto simp: b_def)
      have "take (dc_size c + 1) b = take (dc_size c + 1) (dc_s c)"
        using dalsize_facts(1) [of "dc_size c"] dalsize_facts(1) [of "dc_size c + n"] t by (auto simp: b_def intro!: take_c_realloc)
      then have hb: "holds_text b (text_of c)"
        using t lb dalsize_facts(1) [of "dc_size c + n"] by (auto simp: holds_text_def)
      obtain b' where b': "c_strncat b bs n = Some b'" "holds_text b' (text_of c @ ?u)" "length b' = length b"
        using c_strncat_counted [OF n hb] t lb dalsize_facts(1) [of "dc_size c + n"] by (auto simp: less_Suc_eq_le)
      have size: "0 < dc_size c" using c(2) by (simp add: cell_ok_def)
      let ?c = "c\<lparr>dc_size := dc_size c + n, dc_s := b'\<rparr>"
      have c': "cell_ok ?c \<and> text_of ?c = text_of c @ ?u"
      proof -
        have "?c = \<lparr>dc_size = length (text_of c @ ?u), dc_refs = dc_refs c, dc_s = b'\<rparr>" using t lu by simp
        then show ?thesis using cell_okI [of b' "text_of c @ ?u" "dc_refs c"] b' t lu lb by (simp only:) simp
      qed
      have run: "dstring_strncat junk x src len s
          = Some (if grow then new_cell ?c x (s\<lparr>dh_cell := (dh_cell s)(a := None)\<rparr>) else s\<lparr>dh_cell := (dh_cell s)(a \<mapsto> ?c)\<rparr>)"
        using \<open>n \<noteq> 0\<close> na size refs b'(1)
        by (simp add: dstring_strncat_def bs n Some c(1) Let_def flip: grow_def b_def)
      show ?thesis
      proof (cases grow)
        case True
        then have "dstring_strncat junk x src len s = Some (new_cell ?c x s1)" using run refs by (simp add: s1 new_cell_def)
        then show ?thesis using new_cell_ok [OF d(2), of x ?c] c' d(3,4) dx refs by simp
      next
        case False
        then have "dstring_strncat junk x src len s = Some (s\<lparr>dh_cell := (dh_cell s)(a \<mapsto> ?c)\<rparr>)" using run by simp
        then show ?thesis using in_place_ok [OF s Some c(1) refs, of ?c] c' refs dx by simp
      qed
    qed
  qed
qed

section \<open>The operations\<close>

text \<open>A string in memory, of the caller or a constant.\<close>

lemma text_takeWhile: "0 \<in> set bs \<Longrightarrow> holds_text bs (takeWhile (\<lambda>c. c \<noteq> 0) bs)"
proof -
  assume "0 \<in> set bs"
  then have "dropWhile (\<lambda>c. c \<noteq> 0) bs \<noteq> []" by (simp add: dropWhile_eq_Nil_conv)
  then obtain c r where d: "dropWhile (\<lambda>c. c \<noteq> 0) bs = c # r" by (cases "dropWhile (\<lambda>c. c \<noteq> 0) bs") auto
  then have "c = 0" using hd_dropWhile [of "\<lambda>c. c \<noteq> 0" bs] by simp
  with d have "bs = takeWhile (\<lambda>c. c \<noteq> 0) bs @ 0 # r" by (metis takeWhile_dropWhile_id)
  then show ?thesis by (metis holds_text_alt set_takeWhileD)
qed

lemma dstring_strcat_ok:
  assumes "dstring_ok s" "holds_text bs t"
  shows "\<exists>s'. dstring_strcat junk x (Chars bs) s = Some s' \<and> dstring_ok s' \<and> dval s' = (dval s)(x := dval s x @ t)"
  using strncat_ok [OF assms(1), of "Chars bs" bs "length t + 1" "length t" x junk] assms(2)
  by (auto simp: dstring_strcat_def c_strnlen_text holds_text_take)

lemma dstring_read:
  assumes "dstring_ok s"
  shows "\<exists>bs. deref s (c_str s x) = Some bs \<and> holds_text bs (dval s x) \<and> dlen s x = Some (length (dval s x))"
proof (cases "dh_p s x")
  case None
  then show ?thesis by (simp add: c_str_def dlen_def dval_def holds_text_def)
next
  case (Some a)
  obtain c where "dh_cell s a = Some c" "cell_ok c" using dstring_ok_cell [OF assms Some] by metis
  with cell_ok_text [of c] Some show ?thesis by (auto simp: c_str_def dlen_def dval_def)
qed

lemma dstring_cat_ok:
  assumes s: "dstring_ok s" and d: "dh_p s x = dh_p s y \<Longrightarrow> x \<noteq> y \<or> dh_p s x = None"
  shows "\<exists>s'. dstring_cat junk x y s = Some s' \<and> dstring_ok s' \<and> dval s' = (dval s)(x := dval s x @ dval s y)"
proof -
  obtain bs where bs: "deref s (c_str s y) = Some bs" "holds_text bs (dval s y)" "dlen s y = Some (length (dval s y))"
    using dstring_read [OF s] by blast
  have n: "c_strnlen bs (length (dval s y)) = Some (length (dval s y))" using c_strnlen_text [OF bs(2)] by simp
  have "1 < dc_refs c" if "c_str s y = Block a" "dh_p s x = Some a" "dh_cell s a = Some c" for a c
  proof -
    have "dh_p s y = Some a" using that(1) by (simp add: c_str_def split: option.splits)
    then have "{x, y} \<subseteq> users s a" "x \<noteq> y" using that d by (auto simp: users_def)
    then have "2 \<le> card (users s a)" by (metis card_2_iff card_mono finite_users s)
    then show ?thesis using dstring_okD [OF s that(3)] by simp
  qed
  from strncat_ok [OF s bs(1) n, of x junk] this show ?thesis
    using bs by (simp add: dstring_cat_def holds_text_take)
qed

lemma dstring_assign_ok:
  assumes "dstring_ok s" "x \<noteq> y"
  shows "\<exists>s'. dstring_assign x y s = Some s' \<and> dstring_ok s' \<and> dval s' = (dval s)(x := dval s y)"
proof -
  obtain s1 where d: "dstring_destroy x s = Some s1" "dstring_ok s1" "dval s1 = (dval s)(x := [])" "dh_p s1 = (dh_p s)(x := None)"
    using destroy_ok [OF assms(1), of x] by blast
  then show ?thesis using share_ok [OF d(2), of x y] assms(2) by (simp add: dstring_assign_def)
qed

text \<open>Assigning a string to itself loses it: the destructor runs first.\<close>

lemma dstring_assign_self:
  "dstring_ok s \<Longrightarrow> \<exists>s'. dstring_assign x x s = Some s' \<and> dval s' x = []"
  using destroy_ok [of s x] by (auto simp: dstring_assign_def dstring_share_def Let_def dval_def)

lemma dstring_assign_cstr_ok:
  assumes "dstring_ok s" "holds_text bs t"
  shows "\<exists>s'. dstring_assign_cstr junk x (Chars bs) s = Some s' \<and> dstring_ok s' \<and> dval s' = (dval s)(x := t)"
proof -
  obtain s1 where "dstring_destroy x s = Some s1" "dstring_ok s1" "dval s1 = (dval s)(x := [])"
    using destroy_ok [OF assms(1), of x] by blast
  then show ?thesis using dstring_strcat_ok [OF _ assms(2), of s1 junk x] by (auto simp: dstring_assign_cstr_def)
qed

lemma dstring_strncpy_ok:
  assumes "dstring_ok s" "holds_text bs t"
  shows "\<exists>s'. dstring_strncpy junk x (Chars bs) len s = Some (length (take len t), s') \<and> dstring_ok s' \<and> dval s' = (dval s)(x := take len t)"
proof -
  obtain s1 where d: "dstring_destroy x s = Some s1" "dstring_ok s1" "dval s1 = (dval s)(x := [])"
    using destroy_ok [OF assms(1), of x] by blast
  obtain s' where s': "dstring_strncat junk x (Chars bs) len s1 = Some s'" "dstring_ok s'"
      "dval s' = (dval s1)(x := dval s1 x @ take (min len (length t)) bs)"
    using strncat_ok [OF d(2), of "Chars bs" bs len "min len (length t)" x junk] assms(2) by (auto simp: c_strnlen_text)
  have "take (min len (length t)) bs = take len t"
    using holds_text_take [OF assms(2), of "min len (length t)"] by (simp add: min_def)
  then show ?thesis using d s' dstring_read [OF s'(2), of x] by (auto simp: dstring_strncpy_def)
qed

lemma dstring_init_long_ok:
  assumes s: "dstring_ok s" and x: "dh_p s x = None"
  shows "\<exists>s'. dstring_init_long junk x n s = Some s' \<and> dstring_ok s' \<and> dval s' = (dval s)(x := c_decimal (sint n))"
proof -
  let ?t = "c_decimal (sint n)"
  have "\<bar>sint n\<bar> \<le> 2 ^ 31" using sint_range_size [of n] by (auto simp: word_size)
  then have "nat \<bar>sint n\<bar> < 10 ^ 31" by simp
  then have "length (decimal (nat \<bar>sint n\<bar>)) \<le> 31" by (rule length_decimal) simp
  then have "length ?t < 33" by (auto simp: c_decimal_def)
  then obtain b where b: "write_at (c_malloc junk 33) 0 (?t @ [0]) = Some b" "holds_text b ?t"
    using write_at_text [of ?t "[]" "c_malloc junk 33"] c_decimal_text by auto
  have "(dh_p s)(x := None) = dh_p s" using x by (simp add: fun_upd_idem)
  moreover have "dval s x = []" using x by (simp add: dval_def)
  ultimately show ?thesis using dstring_strcat_ok [OF s b(2), of junk x] b(1)
    by (simp add: dstring_init_long_def dstring_init_def Let_def)
qed

lemma dstring_plus_ok:
  assumes s: "dstring_ok s" and z: "dh_p s z = None" "z \<noteq> y"
  shows "\<exists>s'. dstring_plus junk z x y s = Some s' \<and> dstring_ok s' \<and> dval s' = (dval s)(z := dval s x @ dval s y)"
proof -
  obtain s1 where s1: "dstring_share z x s = Some s1" "dstring_ok s1" "dval s1 = (dval s)(z := dval s x)"
    using share_ok [OF s z(1)] by blast
  then show ?thesis using dstring_cat_ok [OF s1(2), of z y junk] z(2)
    by (simp add: dstring_plus_def dstring_copy_def)
qed

section \<open>Every sequence of operations\<close>

datatype dop =
    Destroy nat
  | Assign nat nat
  | Assign_text nat "byte list"
  | Copy_text nat "byte list" nat
  | Append nat nat
  | Append_text nat "byte list"
  | Append_char nat byte
  | Number nat "32 word"
  | Plus nat nat nat

fun dstep :: "(nat \<Rightarrow> byte) \<Rightarrow> dop \<Rightarrow> dstate \<Rightarrow> dstate option" where
  "dstep junk (Destroy x) s = dstring_destroy x s"
| "dstep junk (Assign x y) s = dstring_assign x y s"
| "dstep junk (Assign_text x bs) s = dstring_assign_cstr junk x (Chars bs) s"
| "dstep junk (Copy_text x bs n) s = map_option snd (dstring_strncpy junk x (Chars bs) n s)"
| "dstep junk (Append x y) s = dstring_cat junk x y s"
| "dstep junk (Append_text x bs) s = dstring_strcat junk x (Chars bs) s"
| "dstep junk (Append_char x c) s = dstring_cat_char junk x c s"
| "dstep junk (Number x n) s = dstring_init_long junk x n s"
| "dstep junk (Plus z x y) s = dstring_plus junk z x y s"

text \<open>
  What they mean on independent texts, and when they are meant to be called: an object is constructed
  where there is none, texts end, and an object is neither assigned nor appended to itself.
\<close>

fun dsem :: "dop \<Rightarrow> (nat \<Rightarrow> byte list) \<Rightarrow> nat \<Rightarrow> byte list" where
  "dsem (Destroy x) v = v(x := [])"
| "dsem (Assign x y) v = v(x := v y)"
| "dsem (Assign_text x bs) v = v(x := takeWhile (\<lambda>c. c \<noteq> 0) bs)"
| "dsem (Copy_text x bs n) v = v(x := take n (takeWhile (\<lambda>c. c \<noteq> 0) bs))"
| "dsem (Append x y) v = v(x := v x @ v y)"
| "dsem (Append_text x bs) v = v(x := v x @ takeWhile (\<lambda>c. c \<noteq> 0) bs)"
| "dsem (Append_char x c) v = v(x := v x @ takeWhile (\<lambda>c. c \<noteq> 0) [c])"
| "dsem (Number x n) v = v(x := c_decimal (sint n))"
| "dsem (Plus z x y) v = v(z := v x @ v y)"

fun dadm :: "dop \<Rightarrow> (nat \<Rightarrow> byte list) \<Rightarrow> bool" where
  "dadm (Destroy x) v \<longleftrightarrow> True"
| "dadm (Assign x y) v \<longleftrightarrow> x \<noteq> y"
| "dadm (Assign_text x bs) v \<longleftrightarrow> 0 \<in> set bs"
| "dadm (Copy_text x bs n) v \<longleftrightarrow> 0 \<in> set bs"
| "dadm (Append x y) v \<longleftrightarrow> x \<noteq> y"
| "dadm (Append_text x bs) v \<longleftrightarrow> 0 \<in> set bs"
| "dadm (Append_char x c) v \<longleftrightarrow> True"
| "dadm (Number x n) v \<longleftrightarrow> v x = []"
| "dadm (Plus z x y) v \<longleftrightarrow> v z = [] \<and> z \<noteq> y"

lemma dstring_cat_char_ok:
  assumes "dstring_ok s"
  shows "\<exists>s'. dstring_cat_char junk x c s = Some s' \<and> dstring_ok s' \<and> dval s' = (dval s)(x := dval s x @ takeWhile (\<lambda>c. c \<noteq> 0) [c])"
  using strncat_ok [OF assms, of "Chars [c]" "[c]" 1 "if c = 0 then 0 else 1" x junk]
  by (auto simp: dstring_cat_char_def c_strnlen_def split: if_splits)

interpretation dstrings: simulation dstring_ok dval "dstep junk" dadm dsem for junk
proof
  fix s op assume s: "dstring_ok s" and a: "dadm op (dval s)"
  note p = dval_nonempty [OF s, THEN iffD1]
  show "\<exists>s'. dstep junk op s = Some s' \<and> dstring_ok s' \<and> dval s' = dsem op (dval s)"
  proof (cases op)
    case (Destroy x) then show ?thesis using destroy_ok [OF s, of x] by auto
  next
    case (Assign x y) then show ?thesis using a dstring_assign_ok [OF s, of x y] by simp
  next
    case (Assign_text x bs)
    then show ?thesis using a dstring_assign_cstr_ok [OF s text_takeWhile, of bs junk x] by simp
  next
    case (Copy_text x bs n)
    then obtain s' where "dstring_strncpy junk x (Chars bs) n s = Some (length (take n (takeWhile (\<lambda>c. c \<noteq> 0) bs)), s')"
        "dstring_ok s'" "dval s' = dsem op (dval s)"
      using a dstring_strncpy_ok [OF s text_takeWhile, of bs junk x n] by auto
    then show ?thesis using Copy_text by simp
  next
    case (Append x y) then show ?thesis using a dstring_cat_ok [OF s, of x y junk] by simp
  next
    case (Append_text x bs)
    then show ?thesis using a dstring_strcat_ok [OF s text_takeWhile, of bs junk x] by simp
  next
    case (Append_char x c) then show ?thesis using dstring_cat_char_ok [OF s, of junk x c] by (simp del: takeWhile.simps)
  next
    case (Number x n) then show ?thesis using a dstring_init_long_ok [OF s p, of x junk n] by simp
  next
    case (Plus z x y) then show ?thesis using a dstring_plus_ok [OF s p, of z y junk x] by simp
  qed
qed



section \<open>Comparing and hashing\<close>

lemma c_strcmp_text:
  "0 \<notin> set t \<Longrightarrow> 0 \<notin> set u \<Longrightarrow>
     \<exists>r. c_strcmp (t @ 0 # v) (u @ 0 # w) = Some r \<and> (r = 0 \<longleftrightarrow> t = u) \<and> (r < 0 \<longleftrightarrow> (t, u) \<in> lexord {(a, b). a < b})"
proof (induction t arbitrary: u)
  case Nil
  then show ?case by (cases u) (auto simp: word_neq_0_conv)
next
  case (Cons a t)
  show ?case
  proof (cases u)
    case Nil
    with Cons.prems show ?thesis by (auto simp: word_neq_0_conv)
  next
    case (Cons b u')
    with Cons.prems Cons.IH [of u'] show ?thesis by auto
  qed
qed

text \<open>A step of the hash is the step of FNV-1a.\<close>

lemma fnv_step_prime: "fnv_step h b = (h XOR ucast b) * 16777619"
  by (simp add: fnv_step_def Let_def push_bit_eq_mult algebra_simps)

text \<open>The observers of an object see its text alone, not the block it is in: the length, the first and
  the last character, equality with another object and order as equality and lexicographic order of the
  texts (an empty string, though, is less than everything, itself too), and the hash, which is the FNV-1a
  hash of the text with the prime 16777619; so strings that are equal have equal hashes.
\<close>

theorem dstring_observers:
  assumes "dstring_ok s"
  shows "dlen s x = Some (length (dval s x))
     \<and> dstring_front s x = Some (if dval s x = [] then 0 else hd (dval s x))
     \<and> dstring_back s x = Some (if dval s x = [] then 0 else last (dval s x))
     \<and> dstring_eq s x y = Some (dval s x = dval s y)
     \<and> dstring_less s x y = Some (dval s x = [] \<or> (dval s x, dval s y) \<in> lexord {(a, b). a < b})
     \<and> dstring_hash s x = Some (foldl (\<lambda>h b. (h XOR ucast b) * 16777619) 0x811c9dc5 (dval s x))"
proof (cases "dh_p s x")
  case None
  then have x: "dval s x = []" by (simp add: dval_def)
  have "dstring_eq s x y = Some (dval s x = dval s y)"
    using None dval_nonempty [OF assms, of y] x by (auto simp: dstring_eq_def split: option.split)
  then show ?thesis using None x
    by (simp add: dlen_def dstring_front_def dstring_back_def dstring_less_def dstring_hash_def FNV1_32_INIT_def)
next
  case (Some a)
  obtain c where c: "dh_cell s a = Some c" "cell_ok c" using dstring_ok_cell [OF assms Some] by metis
  note t = cell_ok_text [OF c(2)]
  then obtain r where r: "dc_s c = text_of c @ 0 # r" by (auto simp: holds_text_alt)
  have x: "dval s x = text_of c" using Some c by (simp add: dval_def)
  have read: "dlen s x = Some (length (dval s x)) \<and> dstring_front s x = Some (hd (text_of c)) \<and> dstring_back s x = Some (last (text_of c))"
    using Some c(1) x t r
    by (auto simp: dlen_def dstring_front_def dstring_back_def aread_def nth_append hd_conv_nth last_conv_nth)
  have hash: "dstring_hash s x = Some (foldl fnv_step FNV1_32_INIT (text_of c))"
    using Some c(1) t r by (simp add: dstring_hash_def)
  have cmp: "dstring_eq s x y = Some (dval s x = dval s y)
      \<and> dstring_less s x y = Some ((dval s x, dval s y) \<in> lexord {(a, b). a < b})"
  proof (cases "dh_p s y")
    case None
    then have "dval s y = []" by (simp add: dval_def)
    then show ?thesis using None Some t x by (simp add: dstring_eq_def dstring_less_def)
  next
    case y: (Some b)
    obtain d where d: "dh_cell s b = Some d" "cell_ok d" using dstring_ok_cell [OF assms y] by metis
    note u = cell_ok_text [OF d(2)]
    then obtain r' where r': "dc_s d = text_of d @ 0 # r'" by (auto simp: holds_text_alt)
    obtain k where k: "c_strcmp (dc_s c) (dc_s d) = Some k" "k = 0 \<longleftrightarrow> text_of c = text_of d"
        "k < 0 \<longleftrightarrow> (text_of c, text_of d) \<in> lexord {(a, b). a < b}"
      using c_strcmp_text [of "text_of c" "text_of d" r r'] t u r r' by metis
    have "dval s y = text_of d" using y d by (simp add: dval_def)
    then show ?thesis using Some y c(1) d(1) k x by (auto simp: dstring_eq_def dstring_less_def)
  qed
  have "fnv_step = (\<lambda>h b. (h XOR ucast b) * 16777619)" by (simp add: fun_eq_iff fnv_step_prime)
  then show ?thesis using read hash cmp x t by (simp add: FNV1_32_INIT_def)
qed

theorem dstring_observers_witness: "dstring_hash dstring_start 3 = Some 0x811c9dc5"
  using dstring_observers [of dstring_start 3 0] dstring_start_ok by simp

text \<open>The order is not irreflexive on the empty string.\<close>

lemma dstring_less_empty: "dstring_less dstring_start x x = Some True"
  by (simp add: dstring_less_def dstring_start_def)

end
