(* ===== verification/Observable.thy ===== *)
theory Observable
  imports Complex_Main Prelude
begin

text \<open>
  Objects that tell their observers when they are destroyed (\<open>src/Observable.cpp\<close>,
  \<open>include/Observable.h\<close>): the list of observers of an object with the number of references that each
  has, the weak pointer and the set, list and map of objects.  Objects and observers are numbered in the
  order of their addresses, by which the containers of the standard library sort them.  A call on an
  object or an observer that does not exist, or no longer, is \<open>None\<close>.
\<close>

section \<open>The standard map\<close>

text \<open>A \<open>std::map\<close> with pointers as keys: the pairs in the order of the keys.\<close>

type_synonym 'v omap = "(nat \<times> 'v) list"

fun omap_put :: "nat \<Rightarrow> 'v \<Rightarrow> 'v omap \<Rightarrow> 'v omap" where
  "omap_put k v [] = [(k, v)]"
| "omap_put k v ((j, w) # m) =
     (if k < j then (k, v) # (j, w) # m else if k = j then (k, v) # m else (j, w) # omap_put k v m)"

definition omap_del :: "nat \<Rightarrow> 'v omap \<Rightarrow> 'v omap" where
  "omap_del k m = [p \<leftarrow> m. fst p \<noteq> k]"

text \<open>\<open>insert\<close> keeps the value of a key that is there.\<close>

definition omap_insert :: "nat \<Rightarrow> 'v \<Rightarrow> 'v omap \<Rightarrow> 'v omap" where
  "omap_insert k v m = (if map_of m k = None then omap_put k v m else m)"

text \<open>A \<open>std::set\<close> of pointers.\<close>

fun oset_insert :: "nat \<Rightarrow> nat list \<Rightarrow> nat list" where
  "oset_insert k [] = [k]"
| "oset_insert k (j # m) = (if k < j then k # j # m else if k = j then j # m else j # oset_insert k m)"

section \<open>Objects and observers\<close>

datatype 'r observer =
    WeakPtr (wp_ptr: "nat option")
  | ObservableSet "nat list"
  | ObservableList "nat list"
  | ObservableMap "'r omap"

text \<open>The observers of every object that is alive, and the contents of every observer.\<close>

record 'r ostate =
  os_observers :: "nat \<Rightarrow> int omap option"
  os_observer :: "nat \<Rightarrow> 'r observer option"

definition addObserver :: "nat \<Rightarrow> nat \<Rightarrow> 'r ostate \<Rightarrow> 'r ostate option" where
  "addObserver x o' s = do {
     m \<leftarrow> os_observers s x;
     let m = (case map_of m o' of Some n \<Rightarrow> omap_put o' (n + 1) m | None \<Rightarrow> omap_put o' 1 m);
     Some (s\<lparr>os_observers := (os_observers s)(x \<mapsto> m)\<rparr>) }"

text \<open>The assertion fails when the observer is not in the list.\<close>

definition removeObserver :: "nat \<Rightarrow> nat \<Rightarrow> 'r ostate \<Rightarrow> 'r ostate option" where
  "removeObserver x o' s = do {
     m \<leftarrow> os_observers s x;
     n \<leftarrow> map_of m o';
     let m = (if n - 1 = 0 then omap_del o' m else omap_put o' (n - 1) m);
     Some (s\<lparr>os_observers := (os_observers s)(x \<mapsto> m)\<rparr>) }"

definition addWeakPtr :: "nat \<Rightarrow> nat \<Rightarrow> 'r ostate \<Rightarrow> 'r ostate option" where
  "addWeakPtr x o' s = addObserver x o' s"

definition removeWeakPtr :: "nat \<Rightarrow> nat \<Rightarrow> 'r ostate \<Rightarrow> 'r ostate option" where
  "removeWeakPtr x o' s = removeObserver x o' s"

text \<open>The contents of an observer are replaced; it must exist.\<close>

definition store_observer :: "nat \<Rightarrow> 'r observer \<Rightarrow> 'r ostate \<Rightarrow> 'r ostate" where
  "store_observer o' b s = s\<lparr>os_observer := (os_observer s)(o' \<mapsto> b)\<rparr>"

definition observer_gone :: "nat \<Rightarrow> 'r ostate \<Rightarrow> 'r ostate" where
  "observer_gone o' s = s\<lparr>os_observer := (os_observer s)(o' := None)\<rparr>"

text \<open>A loop over elements that removes the observer from each.\<close>

fun remove_all :: "nat \<Rightarrow> nat list \<Rightarrow> 'r ostate \<Rightarrow> 'r ostate option" where
  "remove_all o' [] s = Some s"
| "remove_all o' (x # xs) s = do { s \<leftarrow> removeObserver x o' s; remove_all o' xs s }"

section \<open>The virtual call of \<open>unlink\<close>\<close>

definition weak_unlink :: "nat \<Rightarrow> nat option \<Rightarrow> nat option" where
  "weak_unlink x p = (if p = Some x then None else p)"

definition oset_unlink :: "nat \<Rightarrow> nat list \<Rightarrow> nat list" where
  "oset_unlink x xs = (if x \<in> set xs then [y \<leftarrow> xs. y \<noteq> x] else xs)"

text \<open>The loop erases the first reference and stops.\<close>

fun olist_unlink :: "nat \<Rightarrow> nat list \<Rightarrow> nat list" where
  "olist_unlink x [] = []"
| "olist_unlink x (y # ys) = (if y = x then ys else y # olist_unlink x ys)"

definition omap_unlink :: "nat \<Rightarrow> 'r omap \<Rightarrow> 'r omap" where
  "omap_unlink x m = (if map_of m x \<noteq> None then omap_del x m else m)"

fun observer_unlink :: "nat \<Rightarrow> 'r observer \<Rightarrow> 'r observer" where
  "observer_unlink x (WeakPtr p) = WeakPtr (weak_unlink x p)"
| "observer_unlink x (ObservableSet xs) = ObservableSet (oset_unlink x xs)"
| "observer_unlink x (ObservableList xs) = ObservableList (olist_unlink x xs)"
| "observer_unlink x (ObservableMap m) = ObservableMap (omap_unlink x m)"

text \<open>\<open>~Observable\<close>: the loop calls \<open>unlink\<close> of every observer, none of which changes the list.\<close>

fun unlink_all :: "nat \<Rightarrow> int omap \<Rightarrow> 'r ostate \<Rightarrow> 'r ostate option" where
  "unlink_all x [] s = Some s"
| "unlink_all x ((o', n) # m) s = do {
     b \<leftarrow> os_observer s o';
     unlink_all x m (store_observer o' (observer_unlink x b) s) }"

definition Observable_destroy :: "nat \<Rightarrow> 'r ostate \<Rightarrow> 'r ostate option" where
  "Observable_destroy x s = do {
     m \<leftarrow> os_observers s x;
     s \<leftarrow> unlink_all x m s;
     Some (s\<lparr>os_observers := (os_observers s)(x := None)\<rparr>) }"

definition Observable_new :: "nat \<Rightarrow> 'r ostate \<Rightarrow> 'r ostate" where
  "Observable_new x s = s\<lparr>os_observers := (os_observers s)(x \<mapsto> [])\<rparr>"

section \<open>Events\<close>

text \<open>
  \<open>notifyEvent\<close>: the iterator to the next observer is taken before the call of \<open>handleEvent\<close>, the
  parameter \<open>h\<close>; an iterator whose element is gone, or whose object is, cannot be used.
\<close>

fun next_key :: "nat \<Rightarrow> 'v omap \<Rightarrow> nat option" where
  "next_key k [] = None"
| "next_key k ((j, w) # m) = (if k < j then Some j else next_key k m)"

partial_function (option) notify_from ::
    "(nat \<Rightarrow> nat \<Rightarrow> 'e \<Rightarrow> 'r ostate \<Rightarrow> 'r ostate option) \<Rightarrow> nat \<Rightarrow> 'e \<Rightarrow> nat option \<Rightarrow> 'r ostate \<Rightarrow> 'r ostate option" where
  "notify_from h x e it s =
     (case it of
        None \<Rightarrow> Some s
      | Some o' \<Rightarrow>
          (case os_observers s x of
             None \<Rightarrow> None
           | Some m \<Rightarrow>
               if map_of m o' = None then None
               else Option.bind (h o' x e s) (\<lambda>s. notify_from h x e (next_key o' m) s)))"

declare notify_from.simps [code]

definition notifyEvent ::
    "(nat \<Rightarrow> nat \<Rightarrow> 'e \<Rightarrow> 'r ostate \<Rightarrow> 'r ostate option) \<Rightarrow> nat \<Rightarrow> 'e \<Rightarrow> 'r ostate \<Rightarrow> 'r ostate option" where
  "notifyEvent h x e s = do {
     m \<leftarrow> os_observers s x;
     notify_from h x e (case m of [] \<Rightarrow> None | (o', _) # _ \<Rightarrow> Some o') s }"

text \<open>\<open>Observer::handleEvent\<close>, which ignores the event; its result is not used.\<close>

definition Observer_handleEvent :: "nat \<Rightarrow> nat \<Rightarrow> 'e \<Rightarrow> 'r ostate \<Rightarrow> 'r ostate option" where
  "Observer_handleEvent o' x e s = Some s"

section \<open>Weak pointers\<close>

definition WeakPtr_new :: "nat \<Rightarrow> nat option \<Rightarrow> 'r ostate \<Rightarrow> 'r ostate option" where
  "WeakPtr_new o' p s =
     (let s = store_observer o' (WeakPtr p) s
      in case p of None \<Rightarrow> Some s | Some x \<Rightarrow> addWeakPtr x o' s)"

definition WeakPtr_delete :: "nat \<Rightarrow> 'r ostate \<Rightarrow> 'r ostate option" where
  "WeakPtr_delete o' s =
     (case os_observer s o' of
        Some (WeakPtr p) \<Rightarrow>
          map_option (observer_gone o') (case p of None \<Rightarrow> Some s | Some x \<Rightarrow> removeWeakPtr x o' s)
      | _ \<Rightarrow> None)"

definition WeakPtr_assign :: "nat \<Rightarrow> nat option \<Rightarrow> 'r ostate \<Rightarrow> 'r ostate option" where
  "WeakPtr_assign o' q s =
     (case os_observer s o' of
        Some (WeakPtr p) \<Rightarrow> do {
          s \<leftarrow> (case p of None \<Rightarrow> Some s | Some x \<Rightarrow> removeWeakPtr x o' s);
          s \<leftarrow> (case q of None \<Rightarrow> Some s | Some x \<Rightarrow> addWeakPtr x o' s);
          Some (store_observer o' (WeakPtr q) s) }
      | _ \<Rightarrow> None)"

definition WeakPtr_get :: "nat \<Rightarrow> 'r ostate \<Rightarrow> nat option option" where
  "WeakPtr_get o' s = (case os_observer s o' of Some (WeakPtr p) \<Rightarrow> Some p | _ \<Rightarrow> None)"

definition WeakPtr_assign_weak :: "nat \<Rightarrow> nat \<Rightarrow> 'r ostate \<Rightarrow> 'r ostate option" where
  "WeakPtr_assign_weak o' o'' s = do { q \<leftarrow> WeakPtr_get o'' s; WeakPtr_assign o' q s }"

section \<open>Sets\<close>

definition oset_get :: "nat \<Rightarrow> 'r ostate \<Rightarrow> nat list option" where
  "oset_get o' s = (case os_observer s o' of Some (ObservableSet xs) \<Rightarrow> Some xs | _ \<Rightarrow> None)"

definition oset_add :: "nat \<Rightarrow> nat \<Rightarrow> 'r ostate \<Rightarrow> 'r ostate option" where
  "oset_add o' x s = do {
     xs \<leftarrow> oset_get o' s;
     s \<leftarrow> (if x \<notin> set xs then addObserver x o' s else Some s);
     Some (store_observer o' (ObservableSet (oset_insert x xs)) s) }"

text \<open>The iterator is the element, or the end.\<close>

definition oset_erase :: "nat \<Rightarrow> nat option \<Rightarrow> 'r ostate \<Rightarrow> 'r ostate option" where
  "oset_erase o' it s = do {
     xs \<leftarrow> oset_get o' s;
     (case it of
        None \<Rightarrow> Some s
      | Some x \<Rightarrow> if x \<in> set xs then do {
            s \<leftarrow> removeObserver x o' s;
            Some (store_observer o' (ObservableSet [y \<leftarrow> xs. y \<noteq> x]) s) } else None) }"

definition oset_clear :: "nat \<Rightarrow> 'r ostate \<Rightarrow> 'r ostate option" where
  "oset_clear o' s = do {
     xs \<leftarrow> oset_get o' s;
     s \<leftarrow> remove_all o' xs s;
     Some (store_observer o' (ObservableSet []) s) }"

definition oset_delete :: "nat \<Rightarrow> 'r ostate \<Rightarrow> 'r ostate option" where
  "oset_delete o' s = map_option (observer_gone o') (oset_clear o' s)"

section \<open>Lists\<close>

definition olist_get :: "nat \<Rightarrow> 'r ostate \<Rightarrow> nat list option" where
  "olist_get o' s = (case os_observer s o' of Some (ObservableList xs) \<Rightarrow> Some xs | _ \<Rightarrow> None)"

definition olist_push_back :: "nat \<Rightarrow> nat \<Rightarrow> 'r ostate \<Rightarrow> 'r ostate option" where
  "olist_push_back o' x s = do {
     xs \<leftarrow> olist_get o' s;
     s \<leftarrow> addObserver x o' s;
     Some (store_observer o' (ObservableList (xs @ [x])) s) }"

definition olist_nth :: "nat \<Rightarrow> nat \<Rightarrow> 'r ostate \<Rightarrow> nat option" where
  "olist_nth o' i s = do { xs \<leftarrow> olist_get o' s; aread xs i }"

text \<open>The iterator is an index, the end when it is the length.\<close>

definition olist_erase :: "nat \<Rightarrow> nat \<Rightarrow> 'r ostate \<Rightarrow> 'r ostate option" where
  "olist_erase o' i s = do {
     xs \<leftarrow> olist_get o' s;
     if i = length xs then Some s
     else do {
       x \<leftarrow> aread xs i;
       s \<leftarrow> removeObserver x o' s;
       Some (store_observer o' (ObservableList (take i xs @ drop (i + 1) xs)) s) } }"

definition olist_clear :: "nat \<Rightarrow> 'r ostate \<Rightarrow> 'r ostate option" where
  "olist_clear o' s = do {
     xs \<leftarrow> olist_get o' s;
     s \<leftarrow> remove_all o' xs s;
     Some (store_observer o' (ObservableList []) s) }"

definition olist_delete :: "nat \<Rightarrow> 'r ostate \<Rightarrow> 'r ostate option" where
  "olist_delete o' s = map_option (observer_gone o') (olist_clear o' s)"

section \<open>Maps\<close>

definition omap_get :: "nat \<Rightarrow> 'r ostate \<Rightarrow> 'r omap option" where
  "omap_get o' s = (case os_observer s o' of Some (ObservableMap m) \<Rightarrow> Some m | _ \<Rightarrow> None)"

definition omap_add :: "nat \<Rightarrow> nat \<Rightarrow> 'r \<Rightarrow> 'r ostate \<Rightarrow> 'r ostate option" where
  "omap_add o' x v s = do {
     m \<leftarrow> omap_get o' s;
     s \<leftarrow> addObserver x o' s;
     Some (store_observer o' (ObservableMap (omap_insert x v m)) s) }"

text \<open>The operator \<open>[]\<close>, with the default value of the type and the value it gives a reference to.\<close>

definition omap_at :: "'r \<Rightarrow> nat \<Rightarrow> nat \<Rightarrow> 'r ostate \<Rightarrow> ('r \<times> 'r ostate) option" where
  "omap_at zero o' x s = do {
     m \<leftarrow> omap_get o' s;
     s \<leftarrow> (if map_of m x = None then omap_add o' x zero s else Some s);
     m \<leftarrow> omap_get o' s;
     v \<leftarrow> map_of m x;
     Some (v, s) }"

definition omap_erase_it :: "nat \<Rightarrow> nat option \<Rightarrow> 'r ostate \<Rightarrow> 'r ostate option" where
  "omap_erase_it o' it s = do {
     m \<leftarrow> omap_get o' s;
     (case it of
        None \<Rightarrow> Some s
      | Some x \<Rightarrow> if map_of m x \<noteq> None then do {
            s \<leftarrow> removeObserver x o' s;
            Some (store_observer o' (ObservableMap (omap_del x m)) s) } else None) }"

definition omap_erase :: "nat \<Rightarrow> nat \<Rightarrow> 'r ostate \<Rightarrow> (nat \<times> 'r ostate) option" where
  "omap_erase o' x s = do {
     m \<leftarrow> omap_get o' s;
     let it = (if map_of m x = None then None else Some x);
     let ret = (if it \<noteq> None then 1 else 0);
     s \<leftarrow> omap_erase_it o' it s;
     Some (ret, s) }"

definition omap_clear :: "nat \<Rightarrow> 'r ostate \<Rightarrow> 'r ostate option" where
  "omap_clear o' s = do {
     m \<leftarrow> omap_get o' s;
     s \<leftarrow> remove_all o' (map fst m) s;
     Some (store_observer o' (ObservableMap []) s) }"

definition omap_delete :: "nat \<Rightarrow> 'r ostate \<Rightarrow> 'r ostate option" where
  "omap_delete o' s = map_option (observer_gone o') (omap_clear o' s)"

text \<open>Containers start empty.\<close>

definition container_new :: "nat \<Rightarrow> 'r observer \<Rightarrow> 'r ostate \<Rightarrow> 'r ostate" where
  "container_new o' b s = store_observer o' b s"

definition ostate_start :: "'r ostate" where
  "ostate_start = \<lparr>os_observers = (\<lambda>_. None), os_observer = (\<lambda>_. None)\<rparr>"

end
