(* ===== verification/Observable_Correct.thy ===== *)
theory Observable_Correct
  imports Observable
begin

text \<open>
  Objects and their observers: the number of references in the list of an object is the number of times
  the observer holds the object, so that whoever holds an object hears of its destruction, and every
  sequence of operations acts on the weak pointers and the containers as if the destruction of an object
  simply took it out of all of them.
\<close>

section \<open>The standard containers\<close>

lemma map_of_put [simp]: "map_of (omap_put k v m) = (map_of m)(k \<mapsto> v)"
  by (induction k v m rule: omap_put.induct) (auto simp: fun_eq_iff)

lemma map_of_del [simp]: "map_of (omap_del k m) = (map_of m)(k := None)"
  by (induction m) (auto simp: omap_del_def fun_eq_iff)

lemma keys_put [simp]: "fst ` set (omap_put k v m) = insert k (fst ` set m)"
  by (induction k v m rule: omap_put.induct) auto

lemma sorted_put: "sorted_wrt (<) (map fst m) \<Longrightarrow> sorted_wrt (<) (map fst (omap_put k v m))"
proof (induction k v m rule: omap_put.induct)
  case (2 k v j w m)
  then have "\<forall>x \<in> set (map fst m). j < x" by simp
  then have "k < j \<Longrightarrow> \<forall>x \<in> set (map fst m). k < x" by (meson less_trans)
  with 2 show ?case by auto
qed simp

lemma keys_del: "map fst (omap_del k m) = [x \<leftarrow> map fst m. x \<noteq> k]"
  by (induction m) (auto simp: omap_del_def)

lemma sorted_del: "sorted_wrt (<) (map fst m) \<Longrightarrow> sorted_wrt (<) (map fst (omap_del k m))"
  unfolding keys_del by (rule sorted_wrt_filter)

lemma set_oset_insert [simp]: "set (oset_insert k xs) = insert k (set xs)"
  by (induction k xs rule: oset_insert.induct) auto

lemma sorted_oset_insert: "sorted_wrt (<) xs \<Longrightarrow> sorted_wrt (<) (oset_insert k xs)"
  by (induction k xs rule: oset_insert.induct) auto

lemma sorted_distinct: "sorted_wrt (<) (xs :: nat list) \<Longrightarrow> distinct xs"
  by (induction xs) auto

lemma count_sorted: "sorted_wrt (<) (xs :: nat list) \<Longrightarrow> count_list xs x = (if x \<in> set xs then 1 else 0)"
  by (induction xs) auto

lemma count_filter: "count_list [y \<leftarrow> xs. y \<noteq> x] z = (if z = x then 0 else count_list xs z)"
  by (induction xs) auto

section \<open>The invariant\<close>

fun elems :: "'r observer \<Rightarrow> nat list" where
  "elems (WeakPtr p) = (case p of None \<Rightarrow> [] | Some x \<Rightarrow> [x])"
| "elems (ObservableSet xs) = xs"
| "elems (ObservableList xs) = xs"
| "elems (ObservableMap m) = map fst m"

fun observer_wf :: "'r observer \<Rightarrow> bool" where
  "observer_wf (ObservableSet xs) \<longleftrightarrow> sorted_wrt (<) xs"
| "observer_wf (ObservableMap m) \<longleftrightarrow> sorted_wrt (<) (map fst m)"
| "observer_wf _ \<longleftrightarrow> True"

definition count :: "'r ostate \<Rightarrow> nat \<Rightarrow> nat \<Rightarrow> int" where
  "count s x p = (case os_observers s x of None \<Rightarrow> 0 | Some m \<Rightarrow> (case map_of m p of None \<Rightarrow> 0 | Some n \<Rightarrow> n))"

definition held :: "'r ostate \<Rightarrow> nat \<Rightarrow> nat \<Rightarrow> int" where
  "held s x p = (case os_observer s p of None \<Rightarrow> 0 | Some b \<Rightarrow> int (count_list (elems b) x))"

definition lists_ok :: "'r ostate \<Rightarrow> bool" where
  "lists_ok s \<longleftrightarrow> (\<forall>x m. os_observers s x = Some m \<longrightarrow>
      sorted_wrt (<) (map fst m) \<and> (\<forall>p n. map_of m p = Some n \<longrightarrow> 0 < n))"

definition observers_ok :: "'r ostate \<Rightarrow> bool" where
  "observers_ok s \<longleftrightarrow> lists_ok s \<and> (\<forall>x p. count s x p = held s x p)
     \<and> (\<forall>p b. os_observer s p = Some b \<longrightarrow> observer_wf b)"

definition oview :: "'r ostate \<Rightarrow> (nat \<Rightarrow> bool) \<times> (nat \<Rightarrow> 'r observer option)" where
  "oview s = (\<lambda>x. os_observers s x \<noteq> None, os_observer s)"

lemma observers_ok_start: "observers_ok ostate_start \<and> oview ostate_start = (\<lambda>_. False, \<lambda>_. None)"
  by (simp add: observers_ok_def lists_ok_def ostate_start_def count_def held_def oview_def)

lemma observers_okD:
  assumes "observers_ok s"
  shows "lists_ok s" "count s x p = held s x p" "os_observer s p = Some b \<Longrightarrow> observer_wf b"
  using assms by (auto simp: observers_ok_def)

lemma observers_okI:
  assumes "lists_ok s" "\<And>x p. count s x p = held s x p" "\<And>p b. os_observer s p = Some b \<Longrightarrow> observer_wf b"
  shows "observers_ok s"
  unfolding observers_ok_def using assms by blast

text \<open>What an observer holds is alive.\<close>

lemma held_alive: "observers_ok s \<Longrightarrow> os_observer s p = Some b \<Longrightarrow> x \<in> set (elems b) \<Longrightarrow> os_observers s x \<noteq> None"
proof
  assume ok: "observers_ok s" and b: "os_observer s p = Some b" and x: "x \<in> set (elems b)" and none: "os_observers s x = None"
  then have "held s x p = 0" using observers_okD(2) [OF ok, of x p] by (simp add: count_def)
  then show False using b x by (simp add: held_def count_list_0_iff)
qed

section \<open>Counting references\<close>

text \<open>The lists of the objects count \<open>f y\<close> more references of the observer \<open>p\<close> to \<open>y\<close>.\<close>

definition recount :: "'r ostate \<Rightarrow> 'r ostate \<Rightarrow> nat \<Rightarrow> (nat \<Rightarrow> int) \<Rightarrow> bool" where
  "recount s s' p f \<longleftrightarrow> lists_ok s' \<and> os_observer s' = os_observer s
     \<and> (\<forall>x. (os_observers s' x = None) = (os_observers s x = None))
     \<and> (\<forall>x q. count s' x q = count s x q + (if q = p then f x else 0))"

lemma recount_refl: "lists_ok s \<Longrightarrow> recount s s p (\<lambda>_. 0)" by (simp add: recount_def)

lemma recount_trans: "recount s s' p f \<Longrightarrow> recount s' s'' p g \<Longrightarrow> recount s s'' p (\<lambda>x. f x + g x)"
  by (simp add: recount_def)

lemma recount_lists: "recount s s' p f \<Longrightarrow> lists_ok s'" by (simp add: recount_def)

lemma lists_ok_upd:
  assumes "lists_ok s" "sorted_wrt (<) (map fst m)" "\<And>p n. map_of m p = Some n \<Longrightarrow> 0 < n"
  shows "lists_ok (s\<lparr>os_observers := (os_observers s)(x \<mapsto> m)\<rparr>)"
  using assms by (simp add: lists_ok_def)

lemma addObserver_ok:
  assumes s: "lists_ok s" and x: "os_observers s x \<noteq> None"
  shows "\<exists>s'. addObserver x p s = Some s' \<and> recount s s' p (\<lambda>y. if y = x then 1 else 0)"
proof -
  obtain m where m: "os_observers s x = Some m" using x by auto
  have ok: "sorted_wrt (<) (map fst m)" "map_of m q = Some n \<Longrightarrow> 0 < n" for q n
    using s m by (auto simp: lists_ok_def)
  define m' where "m' = (case map_of m p of Some n \<Rightarrow> omap_put p (n + 1) m | None \<Rightarrow> omap_put p 1 m)"
  have m': "sorted_wrt (<) (map fst m')" "map_of m' = (map_of m)(p \<mapsto> (case map_of m p of Some n \<Rightarrow> n + 1 | None \<Rightarrow> 1))"
    using ok(1) by (auto simp: m'_def sorted_put split: option.split)
  let ?s = "s\<lparr>os_observers := (os_observers s)(x \<mapsto> m')\<rparr>"
  have "0 < n" if "map_of m' q = Some n" for q n
    using that ok(2) [of q] ok(2) [of p] by (fastforce simp: m'(2) split: if_splits option.splits)
  then have "lists_ok ?s" using s m'(1) by (rule lists_ok_upd [rotated 2])
  moreover have "count ?s y q = count s y q + (if q = p then if y = x then 1 else 0 else 0)" for y q
    using m by (simp add: count_def m'(2) split: option.split)
  ultimately have "recount s ?s p (\<lambda>y. if y = x then 1 else 0)" using m by (simp add: recount_def)
  moreover have "addObserver x p s = Some ?s" using m by (simp add: addObserver_def m'_def)
  ultimately show ?thesis by blast
qed

lemma removeObserver_ok:
  assumes s: "lists_ok s" and x: "0 < count s x p"
  shows "\<exists>s'. removeObserver x p s = Some s' \<and> recount s s' p (\<lambda>y. if y = x then -1 else 0)"
proof -
  obtain m n where m: "os_observers s x = Some m" "map_of m p = Some n"
    using x by (auto simp: count_def split: option.splits)
  have ok: "sorted_wrt (<) (map fst m)" "map_of m q = Some k \<Longrightarrow> 0 < k" for q k
    using s m by (auto simp: lists_ok_def)
  define m' where "m' = (if n - 1 = 0 then omap_del p m else omap_put p (n - 1) m)"
  have m': "sorted_wrt (<) (map fst m')" "map_of m' = (map_of m)(p := (if n - 1 = 0 then None else Some (n - 1)))"
    using ok(1) by (auto simp: m'_def sorted_put sorted_del)
  let ?s = "s\<lparr>os_observers := (os_observers s)(x \<mapsto> m')\<rparr>"
  have "0 < k" if "map_of m' q = Some k" for q k
    using that ok(2) [of q k] ok(2) [OF m(2)] by (auto simp: m'(2) split: if_splits)
  then have "lists_ok ?s" using s m'(1) by (rule lists_ok_upd [rotated 2])
  moreover have "count ?s y q = count s y q + (if q = p then if y = x then -1 else 0 else 0)" for y q
    using m by (simp add: count_def m'(2))
  ultimately have "recount s ?s p (\<lambda>y. if y = x then -1 else 0)" using m by (simp add: recount_def)
  moreover have "removeObserver x p s = Some ?s" using m by (simp add: removeObserver_def m'_def)
  ultimately show ?thesis by blast
qed

lemma remove_all_ok:
  "lists_ok s \<Longrightarrow> (\<And>x. int (count_list xs x) \<le> count s x p) \<Longrightarrow>
     \<exists>s'. remove_all p xs s = Some s' \<and> recount s s' p (\<lambda>x. - int (count_list xs x))"
proof (induction xs arbitrary: s)
  case Nil
  then show ?case by (simp add: recount_refl)
next
  case (Cons y ys)
  have "0 < count s y p" using Cons.prems(2) [of y] by simp
  then obtain s1 where s1: "removeObserver y p s = Some s1" "recount s s1 p (\<lambda>x. if x = y then -1 else 0)"
    using removeObserver_ok [OF Cons.prems(1)] by blast
  have "int (count_list ys x) \<le> count s1 x p" for x using Cons.prems(2) [of x] s1(2) by (auto simp: recount_def split: if_splits)
  then obtain s2 where s2: "remove_all p ys s1 = Some s2" "recount s1 s2 p (\<lambda>x. - int (count_list ys x))"
    using Cons.IH [OF recount_lists [OF s1(2)]] by blast
  have "(\<lambda>x. (if x = y then -1 else 0) + - int (count_list ys x)) = (\<lambda>x. - int (count_list (y # ys) x))"
    by (simp add: fun_eq_iff)
  then show ?case using s1(1) s2(1) recount_trans [OF s1(2) s2(2)] by simp
qed

text \<open>When the contents of the observer change by the same numbers, the invariant is back.\<close>

lemma store_observer_ok:
  assumes s: "observers_ok s" and r: "recount s s' p f" and b: "\<And>x. int (count_list (elems b) x) = held s x p + f x" "observer_wf b"
  shows "observers_ok (store_observer p b s') \<and> oview (store_observer p b s') = (fst (oview s), (os_observer s)(p \<mapsto> b))"
proof -
  have "count (store_observer p b s') x q = held (store_observer p b s') x q" for x q
  proof -
    have "count (store_observer p b s') x q = held s x q + (if q = p then f x else 0)"
      using r observers_okD(2) [OF s, of x q] by (simp add: recount_def count_def store_observer_def)
    also have "\<dots> = held (store_observer p b s') x q"
      using b(1) [of x] r by (simp add: held_def store_observer_def recount_def)
    finally show ?thesis .
  qed
  moreover have "lists_ok (store_observer p b s')" using r by (simp add: recount_def lists_ok_def store_observer_def)
  moreover have "observer_wf c" if "os_observer (store_observer p b s') q = Some c" for q c
    using that b(2) observers_okD(3) [OF s, of q c] r by (simp add: store_observer_def recount_def split: if_splits)
  ultimately have "observers_ok (store_observer p b s')" by (intro observers_okI) blast+
  then show ?thesis using r by (simp add: oview_def recount_def store_observer_def)
qed

lemma observer_gone_ok:
  assumes s: "observers_ok s" and r: "recount s s' p f" and b: "\<And>x. held s x p + f x = 0"
  shows "observers_ok (observer_gone p s') \<and> oview (observer_gone p s') = (fst (oview s), (os_observer s)(p := None))"
proof -
  have "count (observer_gone p s') x q = held (observer_gone p s') x q" for x q
  proof -
    have "count (observer_gone p s') x q = held s x q + (if q = p then f x else 0)"
      using r observers_okD(2) [OF s, of x q] by (simp add: recount_def count_def observer_gone_def)
    also have "\<dots> = held (observer_gone p s') x q"
      using b [of x] r by (simp add: held_def observer_gone_def recount_def)
    finally show ?thesis .
  qed
  moreover have "lists_ok (observer_gone p s')" using r by (simp add: recount_def lists_ok_def observer_gone_def)
  moreover have "observer_wf c" if "os_observer (observer_gone p s') q = Some c" for q c
    using that observers_okD(3) [OF s, of q c] r by (simp add: observer_gone_def recount_def split: if_splits)
  ultimately have "observers_ok (observer_gone p s')" by (intro observers_okI) blast+
  then show ?thesis using r by (simp add: oview_def recount_def observer_gone_def)
qed

section \<open>Destroying an object\<close>

fun odrop :: "nat \<Rightarrow> 'r observer \<Rightarrow> 'r observer" where
  "odrop x (WeakPtr p) = WeakPtr (if p = Some x then None else p)"
| "odrop x (ObservableSet xs) = ObservableSet [y \<leftarrow> xs. y \<noteq> x]"
| "odrop x (ObservableList xs) = ObservableList [y \<leftarrow> xs. y \<noteq> x]"
| "odrop x (ObservableMap m) = ObservableMap [p \<leftarrow> m. fst p \<noteq> x]"

lemma elems_odrop: "elems (odrop x b) = [y \<leftarrow> elems b. y \<noteq> x]"
  by (cases b) (auto simp: filter_map o_def split: option.split)

lemma odrop_wf: "observer_wf b \<Longrightarrow> observer_wf (odrop x b)"
  using sorted_del by (cases b) (auto simp: sorted_wrt_filter omap_del_def)

lemma odrop_none: "x \<notin> set (elems b) \<Longrightarrow> odrop x b = b"
  by (cases b) (auto simp: filter_id_conv split: option.split)

lemma olist_unlink_once: "count_list xs x \<le> 1 \<Longrightarrow> olist_unlink x xs = [y \<leftarrow> xs. y \<noteq> x]"
proof (induction xs)
  case (Cons y ys)
  have "y = x \<Longrightarrow> [z \<leftarrow> ys. z \<noteq> x] = ys" using Cons.prems by (auto simp: count_list_0_iff filter_id_conv)
  with Cons show ?case by auto
qed simp

lemma unlink_odrop:
  "(\<And>xs. b = ObservableList xs \<Longrightarrow> count_list xs x \<le> 1) \<Longrightarrow> observer_unlink x b = odrop x b"
proof (cases b)
  case (ObservableSet xs)
  have "x \<notin> set xs \<Longrightarrow> [y \<leftarrow> xs. y \<noteq> x] = xs" by (auto simp: filter_id_conv)
  then show ?thesis using ObservableSet by (simp add: oset_unlink_def)
next
  case (ObservableMap m)
  have "map_of m x = None \<Longrightarrow> [p \<leftarrow> m. fst p \<noteq> x] = m" by (auto simp: filter_id_conv map_of_eq_None_iff)
  then show ?thesis using ObservableMap by (auto simp: omap_unlink_def omap_del_def)
qed (auto simp: weak_unlink_def olist_unlink_once)

text \<open>A list that holds an object twice keeps one of the pointers when it is destroyed.\<close>

lemma olist_unlink_leaves: "2 \<le> count_list xs x \<Longrightarrow> x \<in> set (olist_unlink x xs)"
proof (induction xs)
  case (Cons y ys)
  show ?case
  proof (cases "y = x")
    case True
    then have "count_list ys x \<noteq> 0" using Cons.prems by simp
    then show ?thesis using True by (simp add: count_list_0_iff)
  next
    case False
    then show ?thesis using Cons by simp
  qed
qed simp

lemma unlink_all_ok:
  "distinct (map fst m) \<Longrightarrow> (\<And>p. p \<in> fst ` set m \<Longrightarrow> os_observer s p \<noteq> None) \<Longrightarrow>
     unlink_all x m s = Some (s\<lparr>os_observer :=
       (\<lambda>p. if p \<in> fst ` set m then map_option (observer_unlink x) (os_observer s p) else os_observer s p)\<rparr>)"
proof (induction m arbitrary: s)
  case (Cons a m)
  obtain p n where a: "a = (p, n)" by (cases a)
  obtain b where b: "os_observer s p = Some b" using Cons.prems(2) [of p] a by auto
  let ?s = "store_observer p (observer_unlink x b) s"
  have "unlink_all x m ?s = Some (?s\<lparr>os_observer :=
       (\<lambda>p. if p \<in> fst ` set m then map_option (observer_unlink x) (os_observer ?s p) else os_observer ?s p)\<rparr>)"
    using Cons.prems by (intro Cons.IH) (auto simp: store_observer_def a)
  also have "?s\<lparr>os_observer :=
       (\<lambda>p. if p \<in> fst ` set m then map_option (observer_unlink x) (os_observer ?s p) else os_observer ?s p)\<rparr>
     = s\<lparr>os_observer := (\<lambda>p. if p \<in> fst ` set (a # m) then map_option (observer_unlink x) (os_observer s p) else os_observer s p)\<rparr>"
  proof -
    have "(if q \<in> fst ` set m then map_option (observer_unlink x) (os_observer ?s q) else os_observer ?s q)
        = (if q \<in> fst ` set (a # m) then map_option (observer_unlink x) (os_observer s q) else os_observer s q)" for q
      using Cons.prems(1) b by (auto simp: store_observer_def a)
    then show ?thesis by (simp add: store_observer_def)
  qed
  finally show ?case using b by (simp add: a)
qed simp

lemma destroy_object_ok:
  assumes s: "observers_ok s" and x: "os_observers s x \<noteq> None"
    and once: "\<And>p xs. os_observer s p = Some (ObservableList xs) \<Longrightarrow> count_list xs x \<le> 1"
  shows "\<exists>s'. Observable_destroy x s = Some s' \<and> observers_ok s'
     \<and> oview s' = ((fst (oview s))(x := False), \<lambda>p. map_option (odrop x) (os_observer s p))"
proof -
  obtain m where m: "os_observers s x = Some m" using x by auto
  have sorted: "sorted_wrt (<) (map fst m)" and pos: "\<And>p n. map_of m p = Some n \<Longrightarrow> 0 < n"
    using observers_okD(1) [OF s] m by (auto simp: lists_ok_def)
  have held: "held s x p = (case map_of m p of None \<Rightarrow> 0 | Some n \<Rightarrow> n)" for p
    using observers_okD(2) [OF s, of x p] m by (simp add: count_def)
  have key: "p \<in> fst ` set m \<longleftrightarrow> 0 < held s x p" for p
    using pos [of p] by (auto simp: held map_of_eq_None_iff split: option.split)
       (metis eq_fst_iff image_eqI map_of_SomeD)
  have alive: "os_observer s p \<noteq> None" if "p \<in> fst ` set m" for p
    using that unfolding key by (cases "os_observer s p") (simp_all add: held_def)
  have drop: "(if p \<in> fst ` set m then map_option (observer_unlink x) (os_observer s p) else os_observer s p)
      = map_option (odrop x) (os_observer s p)" for p
  proof (cases "os_observer s p")
    case (Some b)
    have "observer_unlink x b = odrop x b" using once [of p] Some by (intro unlink_odrop) simp
    moreover have "odrop x b = b" if "p \<notin> fst ` set m"
      using that Some unfolding key by (intro odrop_none) (simp add: held_def count_list_0_iff)
    ultimately show ?thesis using Some by simp
  qed simp
  let ?s = "s\<lparr>os_observer := (\<lambda>p. map_option (odrop x) (os_observer s p)), os_observers := (os_observers s)(x := None)\<rparr>"
  have run: "Observable_destroy x s = Some ?s"
    using unlink_all_ok [OF sorted_distinct [OF sorted] alive, where x = x] m by (simp add: Observable_destroy_def drop)
  have "observers_ok ?s"
  proof (rule observers_okI)
    show "lists_ok ?s" using observers_okD(1) [OF s] by (simp add: lists_ok_def)
    show "count ?s y p = held ?s y p" for y p
    proof -
      have "count ?s y p = (if y = x then 0 else held s y p)"
        using observers_okD(2) [OF s, of y p] by (simp add: count_def)
      also have "\<dots> = held ?s y p" by (simp add: held_def elems_odrop count_filter split: option.split)
      finally show ?thesis .
    qed
    show "observer_wf b" if "os_observer ?s p = Some b" for p b
      using that observers_okD(3) [OF s, of p] by (auto intro: odrop_wf)
  qed
  then show ?thesis using run by (auto simp: oview_def)
qed

section \<open>The operations\<close>

lemma held_elems: "os_observer s p = Some b \<Longrightarrow> held s x p = int (count_list (elems b) x)"
  by (simp add: held_def)

lemma held_none: "os_observer s p = None \<Longrightarrow> held s x p = 0"
  by (simp add: held_def)

lemma add_opt_ok:
  assumes "lists_ok s" "\<And>x. q = Some x \<Longrightarrow> os_observers s x \<noteq> None"
  shows "\<exists>s'. (case q of None \<Rightarrow> Some s | Some x \<Rightarrow> addWeakPtr x p s) = Some s'
     \<and> recount s s' p (\<lambda>x. int (count_list (elems (WeakPtr q)) x))"
proof (cases q)
  case None
  then show ?thesis using recount_refl [OF assms(1)] by simp
next
  case (Some x)
  have "(\<lambda>y. int (count_list (elems (WeakPtr q)) y)) = (\<lambda>y. if y = x then 1 else 0)" using Some by auto
  then show ?thesis using addObserver_ok [OF assms(1), of x p] assms(2) [OF Some] Some by (simp add: addWeakPtr_def)
qed

lemma remove_opt_ok:
  assumes s: "observers_ok s" and p: "os_observer s p = Some (WeakPtr q)"
  shows "\<exists>s'. (case q of None \<Rightarrow> Some s | Some x \<Rightarrow> removeWeakPtr x p s) = Some s'
     \<and> recount s s' p (\<lambda>x. - int (count_list (elems (WeakPtr q)) x))"
proof (cases q)
  case None
  then show ?thesis using recount_refl [OF observers_okD(1) [OF s]] by simp
next
  case (Some x)
  have "(\<lambda>y. - int (count_list (elems (WeakPtr q)) y)) = (\<lambda>y. if y = x then -1 else 0)" using Some by auto
  moreover have "0 < count s x p" using observers_okD(2) [OF s, of x p] Some held_elems [OF p, of x] by simp
  ultimately show ?thesis using removeObserver_ok [OF observers_okD(1) [OF s], of x p] Some by (simp add: removeWeakPtr_def)
qed

lemma new_observer_ok:
  assumes s: "observers_ok s" and p: "os_observer s p = None" and b: "elems b = []" "observer_wf b"
  shows "observers_ok (store_observer p b s) \<and> oview (store_observer p b s) = (fst (oview s), (os_observer s)(p \<mapsto> b))"
  by (rule store_observer_ok [OF s recount_refl [OF observers_okD(1) [OF s]]]) (simp_all add: b held_none [OF p])

lemma WeakPtr_new_ok:
  assumes s: "observers_ok s" and p: "os_observer s p = None" and q: "\<And>x. q = Some x \<Longrightarrow> os_observers s x \<noteq> None"
  shows "\<exists>s'. WeakPtr_new p q s = Some s' \<and> observers_ok s' \<and> oview s' = (fst (oview s), (os_observer s)(p \<mapsto> WeakPtr q))"
proof -
  obtain s' where s': "(case q of None \<Rightarrow> Some s | Some x \<Rightarrow> addWeakPtr x p s) = Some s'"
      "recount s s' p (\<lambda>x. int (count_list (elems (WeakPtr q)) x))"
    using add_opt_ok [OF observers_okD(1) [OF s] q] by blast
  have "WeakPtr_new p q s = Some (store_observer p (WeakPtr q) s')"
    using s'(1) by (auto simp: WeakPtr_new_def Let_def addWeakPtr_def addObserver_def store_observer_def split: option.splits bind_splits)
  then show ?thesis using store_observer_ok [OF s s'(2), of "WeakPtr q"] held_none [OF p] by simp
qed

lemma WeakPtr_delete_ok:
  assumes s: "observers_ok s" and p: "os_observer s p = Some (WeakPtr q)"
  shows "\<exists>s'. WeakPtr_delete p s = Some s' \<and> observers_ok s' \<and> oview s' = (fst (oview s), (os_observer s)(p := None))"
proof -
  obtain s' where s': "(case q of None \<Rightarrow> Some s | Some x \<Rightarrow> removeWeakPtr x p s) = Some s'"
      "recount s s' p (\<lambda>x. - int (count_list (elems (WeakPtr q)) x))"
    using remove_opt_ok [OF s p] by blast
  then show ?thesis using observer_gone_ok [OF s s'(2)] held_elems [OF p] p by (simp add: WeakPtr_delete_def)
qed

lemma WeakPtr_assign_ok:
  assumes s: "observers_ok s" and p: "os_observer s p = Some (WeakPtr r)" and q: "\<And>x. q = Some x \<Longrightarrow> os_observers s x \<noteq> None"
  shows "\<exists>s'. WeakPtr_assign p q s = Some s' \<and> observers_ok s' \<and> oview s' = (fst (oview s), (os_observer s)(p \<mapsto> WeakPtr q))"
proof -
  obtain s1 where s1: "(case r of None \<Rightarrow> Some s | Some x \<Rightarrow> removeWeakPtr x p s) = Some s1"
      "recount s s1 p (\<lambda>x. - int (count_list (elems (WeakPtr r)) x))"
    using remove_opt_ok [OF s p] by blast
  have "\<And>x. q = Some x \<Longrightarrow> os_observers s1 x \<noteq> None" using q s1(2) by (simp add: recount_def)
  then obtain s2 where s2: "(case q of None \<Rightarrow> Some s1 | Some x \<Rightarrow> addWeakPtr x p s1) = Some s2"
      "recount s1 s2 p (\<lambda>x. int (count_list (elems (WeakPtr q)) x))"
    using add_opt_ok [OF recount_lists [OF s1(2)]] by blast
  then have "WeakPtr_assign p q s = Some (store_observer p (WeakPtr q) s2)" using p s1(1) by (simp add: WeakPtr_assign_def)
  then show ?thesis using store_observer_ok [OF s recount_trans [OF s1(2) s2(2)], of "WeakPtr q"] held_elems [OF p] by simp
qed

text \<open>Adding an element to a container and taking one out, and emptying it.\<close>

lemma add_element_ok:
  assumes s: "observers_ok s" and p: "os_observer s p = Some b" and x: "os_observers s x \<noteq> None"
    and b: "\<And>y. count_list (elems b') y = count_list (elems b) y + (if y = x then 1 else 0)" "observer_wf b'"
  shows "\<exists>s1. addObserver x p s = Some s1 \<and> os_observer s1 = os_observer s \<and> observers_ok (store_observer p b' s1)
     \<and> oview (store_observer p b' s1) = (fst (oview s), (os_observer s)(p \<mapsto> b'))"
proof -
  obtain s1 where s1: "addObserver x p s = Some s1" "recount s s1 p (\<lambda>y. if y = x then 1 else 0)"
    using addObserver_ok [OF observers_okD(1) [OF s] x] by blast
  moreover have "os_observer s1 = os_observer s" using s1(2) by (simp add: recount_def)
  ultimately show ?thesis using store_observer_ok [OF s s1(2), of b'] b held_elems [OF p] by simp
qed

lemma remove_element_ok:
  assumes s: "observers_ok s" and p: "os_observer s p = Some b" and x: "x \<in> set (elems b)"
    and b: "\<And>y. count_list (elems b) y = count_list (elems b') y + (if y = x then 1 else 0)" "observer_wf b'"
  shows "\<exists>s1. removeObserver x p s = Some s1 \<and> observers_ok (store_observer p b' s1)
     \<and> oview (store_observer p b' s1) = (fst (oview s), (os_observer s)(p \<mapsto> b'))"
proof -
  have "0 < count s x p" using x observers_okD(2) [OF s, of x p] held_elems [OF p, of x] by (simp add: count_list_0_iff zero_less_iff_neq_zero)
  then obtain s1 where s1: "removeObserver x p s = Some s1" "recount s s1 p (\<lambda>y. if y = x then -1 else 0)"
    using removeObserver_ok [OF observers_okD(1) [OF s]] by blast
  then show ?thesis using store_observer_ok [OF s s1(2), of b'] b held_elems [OF p] by simp
qed

lemma remove_elements_ok:
  assumes s: "observers_ok s" and p: "os_observer s p = Some b"
  shows "\<exists>s1. remove_all p (elems b) s = Some s1 \<and> recount s s1 p (\<lambda>x. - int (count_list (elems b) x))"
  using remove_all_ok [OF observers_okD(1) [OF s], of "elems b" p] observers_okD(2) [OF s, of _ p] held_elems [OF p] by simp

lemma clear_ok:
  assumes s: "observers_ok s" and p: "os_observer s p = Some b" and b: "elems b' = []" "observer_wf b'"
  shows "\<exists>s1. remove_all p (elems b) s = Some s1 \<and> observers_ok (store_observer p b' s1)
     \<and> oview (store_observer p b' s1) = (fst (oview s), (os_observer s)(p \<mapsto> b'))
     \<and> observers_ok (observer_gone p (store_observer p b' s1))
     \<and> oview (observer_gone p (store_observer p b' s1)) = (fst (oview s), (os_observer s)(p := None))"
proof -
  obtain s1 where s1: "remove_all p (elems b) s = Some s1" "recount s s1 p (\<lambda>x. - int (count_list (elems b) x))"
    using remove_elements_ok [OF s p] by blast
  have "observer_gone p (store_observer p b' s1) = observer_gone p s1" by (simp add: observer_gone_def store_observer_def)
  then show ?thesis
    using s1 store_observer_ok [OF s s1(2), of b'] observer_gone_ok [OF s s1(2)] b held_elems [OF p] by simp
qed

lemma oset_add_ok:
  assumes s: "observers_ok s" and p: "os_observer s p = Some (ObservableSet xs)" and x: "os_observers s x \<noteq> None"
  shows "\<exists>s'. oset_add p x s = Some s' \<and> observers_ok s'
     \<and> oview s' = (fst (oview s), (os_observer s)(p \<mapsto> ObservableSet (oset_insert x xs)))"
proof -
  have sorted: "sorted_wrt (<) xs" "sorted_wrt (<) (oset_insert x xs)"
    using observers_okD(3) [OF s p] by (simp_all add: sorted_oset_insert)
  note c = count_sorted [OF sorted(1)] count_sorted [OF sorted(2)]
  show ?thesis
  proof (cases "x \<in> set xs")
    case True
    then show ?thesis
      using store_observer_ok [OF s recount_refl [OF observers_okD(1) [OF s]], of "ObservableSet (oset_insert x xs)" p] p sorted
      by (simp add: oset_add_def oset_get_def held_elems [OF p] c)
  next
    case False
    then have "count_list (oset_insert x xs) y = count_list xs y + (if y = x then 1 else 0)" for y by (simp add: c)
    then show ?thesis
      using add_element_ok [OF s p x, of "ObservableSet (oset_insert x xs)"] p sorted False
      by (auto simp: oset_add_def oset_get_def)
  qed
qed

lemma oset_erase_ok:
  assumes s: "observers_ok s" and p: "os_observer s p = Some (ObservableSet xs)" and x: "x \<in> set xs"
  shows "\<exists>s'. oset_erase p (Some x) s = Some s' \<and> observers_ok s'
     \<and> oview s' = (fst (oview s), (os_observer s)(p \<mapsto> ObservableSet [y \<leftarrow> xs. y \<noteq> x]))"
proof -
  have sorted: "sorted_wrt (<) xs" using observers_okD(3) [OF s p] by simp
  have "count_list xs y = count_list [y \<leftarrow> xs. y \<noteq> x] y + (if y = x then 1 else 0)" for y
    using x by (simp add: count_filter count_sorted [OF sorted])
  then show ?thesis
    using remove_element_ok [OF s p, of x "ObservableSet [y \<leftarrow> xs. y \<noteq> x]"] p x sorted
    by (auto simp: oset_erase_def oset_get_def sorted_wrt_filter)
qed

lemma olist_push_back_ok:
  assumes s: "observers_ok s" and p: "os_observer s p = Some (ObservableList xs)" and x: "os_observers s x \<noteq> None"
  shows "\<exists>s'. olist_push_back p x s = Some s' \<and> observers_ok s'
     \<and> oview s' = (fst (oview s), (os_observer s)(p \<mapsto> ObservableList (xs @ [x])))"
proof -
  have "count_list (xs @ [x]) y = count_list xs y + (if y = x then 1 else 0)" for y by auto
  then show ?thesis
    using add_element_ok [OF s p x, of "ObservableList (xs @ [x])"] p
    by (auto simp: olist_push_back_def olist_get_def simp del: count_list_append)
qed

lemma olist_erase_ok:
  assumes s: "observers_ok s" and p: "os_observer s p = Some (ObservableList xs)" and i: "i \<le> length xs"
  shows "\<exists>s'. olist_erase p i s = Some s' \<and> observers_ok s'
     \<and> oview s' = (fst (oview s), (os_observer s)(p \<mapsto> ObservableList (take i xs @ drop (i + 1) xs)))"
proof (cases "i = length xs")
  case True
  then have "(os_observer s)(p \<mapsto> ObservableList (take i xs @ drop (i + 1) xs)) = os_observer s" using p by (simp add: fun_upd_idem)
  then show ?thesis using True s p by (simp add: olist_erase_def olist_get_def oview_def)
next
  case False
  then have i: "i < length xs" using i by simp
  have "count_list xs y = count_list (take i xs @ drop (i + 1) xs) y + (if y = xs ! i then 1 else 0)" for y
    by (subst id_take_nth_drop [OF i]) simp
  then show ?thesis
    using remove_element_ok [OF s p, of "xs ! i" "ObservableList (take i xs @ drop (i + 1) xs)"] p i
    by (auto simp: olist_erase_def olist_get_def mem_simps)
qed

lemma omap_add_ok:
  assumes s: "observers_ok s" and p: "os_observer s p = Some (ObservableMap m)" and x: "os_observers s x \<noteq> None"
    and new: "map_of m x = None"
  shows "\<exists>s'. omap_add p x v s = Some s' \<and> observers_ok s'
     \<and> oview s' = (fst (oview s), (os_observer s)(p \<mapsto> ObservableMap (omap_insert x v m)))"
proof -
  have sorted: "sorted_wrt (<) (map fst m)" "sorted_wrt (<) (map fst (omap_put x v m))"
    using observers_okD(3) [OF s p] by (simp_all add: sorted_put)
  have "x \<notin> fst ` set m" using new by (simp add: map_of_eq_None_iff)
  then have "count_list (map fst (omap_put x v m)) y = count_list (map fst m) y + (if y = x then 1 else 0)" for y
    by (auto simp: count_sorted [OF sorted(1)] count_sorted [OF sorted(2)])
  then show ?thesis
    using add_element_ok [OF s p x, of "ObservableMap (omap_put x v m)"] p sorted new
    by (auto simp: omap_add_def omap_get_def omap_insert_def)
qed

lemma omap_at_ok:
  assumes s: "observers_ok s" and p: "os_observer s p = Some (ObservableMap m)" and x: "os_observers s x \<noteq> None"
  shows "\<exists>s'. omap_at zero p x s = Some (case map_of m x of None \<Rightarrow> zero | Some v \<Rightarrow> v, s') \<and> observers_ok s'
     \<and> oview s' = (fst (oview s), (os_observer s)(p \<mapsto> ObservableMap (omap_insert x zero m)))"
proof (cases "map_of m x")
  case None
  obtain s' where s': "omap_add p x zero s = Some s'" "observers_ok s'"
     "oview s' = (fst (oview s), (os_observer s)(p \<mapsto> ObservableMap (omap_insert x zero m)))"
    using omap_add_ok [OF s p x None] by blast
  then have "os_observer s' p = Some (ObservableMap (omap_put x zero m))" using None by (simp add: oview_def omap_insert_def)
  then show ?thesis using None s' p by (simp add: omap_at_def omap_get_def)
next
  case (Some v)
  then have "(os_observer s)(p \<mapsto> ObservableMap (omap_insert x zero m)) = os_observer s" using p by (simp add: omap_insert_def fun_upd_idem)
  then show ?thesis using Some s p by (simp add: omap_at_def omap_get_def oview_def)
qed

lemma omap_erase_ok:
  assumes s: "observers_ok s" and p: "os_observer s p = Some (ObservableMap m)"
  shows "\<exists>s'. omap_erase p x s = Some (if map_of m x = None then 0 else 1, s') \<and> observers_ok s'
     \<and> oview s' = (fst (oview s), (os_observer s)(p \<mapsto> ObservableMap (omap_del x m)))"
proof (cases "map_of m x")
  case None
  then have "omap_del x m = m" by (auto simp: omap_del_def filter_id_conv map_of_eq_None_iff)
  then have "(os_observer s)(p \<mapsto> ObservableMap (omap_del x m)) = os_observer s" using p by (simp add: fun_upd_idem)
  then show ?thesis using None s p by (simp add: omap_erase_def omap_erase_it_def omap_get_def oview_def Let_def)
next
  case (Some v)
  have sorted: "sorted_wrt (<) (map fst m)" using observers_okD(3) [OF s p] by simp
  have x: "x \<in> set (map fst m)" using map_of_SomeD [OF Some] by force
  then have "count_list (map fst m) y = count_list (map fst (omap_del x m)) y + (if y = x then 1 else 0)" for y
    unfolding keys_del by (simp add: count_filter count_sorted [OF sorted])
  then show ?thesis
    using remove_element_ok [OF s p, of x "ObservableMap (omap_del x m)"] p x sorted_del [OF sorted] Some
    by (auto simp: omap_erase_def omap_erase_it_def omap_get_def Let_def)
qed

section \<open>Every sequence of operations\<close>

datatype 'r oop =
    New_object nat
  | Destroy_object nat
  | New_weak nat "nat option"
  | Assign_weak nat "nat option"
  | Copy_weak nat nat
  | New_set nat
  | New_list nat
  | New_map nat
  | Insert nat nat
  | Erase nat nat
  | Push_back nat nat
  | Erase_index nat nat
  | Insert_key nat nat 'r
  | At_key nat nat
  | Erase_key nat nat
  | Clear nat
  | Delete nat

fun ostep :: "'r \<Rightarrow> 'r oop \<Rightarrow> 'r ostate \<Rightarrow> 'r ostate option" where
  "ostep zero (New_object x) s = Some (Observable_new x s)"
| "ostep zero (Destroy_object x) s = Observable_destroy x s"
| "ostep zero (New_weak p q) s = WeakPtr_new p q s"
| "ostep zero (Assign_weak p q) s = WeakPtr_assign p q s"
| "ostep zero (Copy_weak p p') s = WeakPtr_assign_weak p p' s"
| "ostep zero (New_set p) s = Some (container_new p (ObservableSet []) s)"
| "ostep zero (New_list p) s = Some (container_new p (ObservableList []) s)"
| "ostep zero (New_map p) s = Some (container_new p (ObservableMap []) s)"
| "ostep zero (Insert p x) s = oset_add p x s"
| "ostep zero (Erase p x) s = oset_erase p (Some x) s"
| "ostep zero (Push_back p x) s = olist_push_back p x s"
| "ostep zero (Erase_index p i) s = olist_erase p i s"
| "ostep zero (Insert_key p x v) s = omap_add p x v s"
| "ostep zero (At_key p x) s = map_option snd (omap_at zero p x s)"
| "ostep zero (Erase_key p x) s = map_option snd (omap_erase p x s)"
| "ostep zero (Clear p) s =
     (case os_observer s p of
        Some (ObservableSet _) \<Rightarrow> oset_clear p s
      | Some (ObservableList _) \<Rightarrow> olist_clear p s
      | Some (ObservableMap _) \<Rightarrow> omap_clear p s
      | _ \<Rightarrow> None)"
| "ostep zero (Delete p) s =
     (case os_observer s p of
        Some (WeakPtr _) \<Rightarrow> WeakPtr_delete p s
      | Some (ObservableSet _) \<Rightarrow> oset_delete p s
      | Some (ObservableList _) \<Rightarrow> olist_delete p s
      | Some (ObservableMap _) \<Rightarrow> omap_delete p s
      | None \<Rightarrow> None)"

text \<open>Without lists of observers: which objects are alive, and what every observer holds.\<close>

type_synonym 'r oabs = "(nat \<Rightarrow> bool) \<times> (nat \<Rightarrow> 'r observer option)"

fun emptied :: "'r observer \<Rightarrow> 'r observer" where
  "emptied (WeakPtr p) = WeakPtr None"
| "emptied (ObservableSet xs) = ObservableSet []"
| "emptied (ObservableList xs) = ObservableList []"
| "emptied (ObservableMap m) = ObservableMap []"

fun osem :: "'r \<Rightarrow> 'r oop \<Rightarrow> 'r oabs \<Rightarrow> 'r oabs" where
  "osem zero (New_object x) (A, B) = (A(x := True), B)"
| "osem zero (Destroy_object x) (A, B) = (A(x := False), \<lambda>p. map_option (odrop x) (B p))"
| "osem zero (New_weak p q) (A, B) = (A, B(p \<mapsto> WeakPtr q))"
| "osem zero (Assign_weak p q) (A, B) = (A, B(p \<mapsto> WeakPtr q))"
| "osem zero (Copy_weak p p') (A, B) = (A, B(p := B p'))"
| "osem zero (New_set p) (A, B) = (A, B(p \<mapsto> ObservableSet []))"
| "osem zero (New_list p) (A, B) = (A, B(p \<mapsto> ObservableList []))"
| "osem zero (New_map p) (A, B) = (A, B(p \<mapsto> ObservableMap []))"
| "osem zero (Insert p x) (A, B) =
     (A, case B p of Some (ObservableSet xs) \<Rightarrow> B(p \<mapsto> ObservableSet (oset_insert x xs)) | _ \<Rightarrow> B)"
| "osem zero (Erase p x) (A, B) =
     (A, case B p of Some (ObservableSet xs) \<Rightarrow> B(p \<mapsto> ObservableSet [y \<leftarrow> xs. y \<noteq> x]) | _ \<Rightarrow> B)"
| "osem zero (Push_back p x) (A, B) =
     (A, case B p of Some (ObservableList xs) \<Rightarrow> B(p \<mapsto> ObservableList (xs @ [x])) | _ \<Rightarrow> B)"
| "osem zero (Erase_index p i) (A, B) =
     (A, case B p of Some (ObservableList xs) \<Rightarrow> B(p \<mapsto> ObservableList (take i xs @ drop (i + 1) xs)) | _ \<Rightarrow> B)"
| "osem zero (Insert_key p x v) (A, B) =
     (A, case B p of Some (ObservableMap m) \<Rightarrow> B(p \<mapsto> ObservableMap (omap_insert x v m)) | _ \<Rightarrow> B)"
| "osem zero (At_key p x) (A, B) =
     (A, case B p of Some (ObservableMap m) \<Rightarrow> B(p \<mapsto> ObservableMap (omap_insert x zero m)) | _ \<Rightarrow> B)"
| "osem zero (Erase_key p x) (A, B) =
     (A, case B p of Some (ObservableMap m) \<Rightarrow> B(p \<mapsto> ObservableMap (omap_del x m)) | _ \<Rightarrow> B)"
| "osem zero (Clear p) (A, B) = (A, B(p := map_option emptied (B p)))"
| "osem zero (Delete p) (A, B) = (A, B(p := None))"

text \<open>
  When they are meant to be called: on objects and observers that exist, and
  with two reservations for the containers: no list holds an object twice when it is destroyed, and a key
  that a map has already is not inserted again.
\<close>

fun oadm :: "'r oop \<Rightarrow> 'r oabs \<Rightarrow> bool" where
  "oadm (New_object x) (A, B) \<longleftrightarrow> \<not> A x"
| "oadm (Destroy_object x) (A, B) \<longleftrightarrow> A x \<and> (\<forall>p xs. B p = Some (ObservableList xs) \<longrightarrow> count_list xs x \<le> 1)"
| "oadm (New_weak p q) (A, B) \<longleftrightarrow> B p = None \<and> pred_option A q"
| "oadm (Assign_weak p q) (A, B) \<longleftrightarrow> (\<exists>r. B p = Some (WeakPtr r)) \<and> pred_option A q"
| "oadm (Copy_weak p p') (A, B) \<longleftrightarrow> (\<exists>r. B p = Some (WeakPtr r)) \<and> (\<exists>q. B p' = Some (WeakPtr q))"
| "oadm (New_set p) (A, B) \<longleftrightarrow> B p = None"
| "oadm (New_list p) (A, B) \<longleftrightarrow> B p = None"
| "oadm (New_map p) (A, B) \<longleftrightarrow> B p = None"
| "oadm (Insert p x) (A, B) \<longleftrightarrow> (\<exists>xs. B p = Some (ObservableSet xs)) \<and> A x"
| "oadm (Erase p x) (A, B) \<longleftrightarrow> (\<exists>xs. B p = Some (ObservableSet xs) \<and> x \<in> set xs)"
| "oadm (Push_back p x) (A, B) \<longleftrightarrow> (\<exists>xs. B p = Some (ObservableList xs)) \<and> A x"
| "oadm (Erase_index p i) (A, B) \<longleftrightarrow> (\<exists>xs. B p = Some (ObservableList xs) \<and> i \<le> length xs)"
| "oadm (Insert_key p x v) (A, B) \<longleftrightarrow> (\<exists>m. B p = Some (ObservableMap m) \<and> map_of m x = None) \<and> A x"
| "oadm (At_key p x) (A, B) \<longleftrightarrow> (\<exists>m. B p = Some (ObservableMap m)) \<and> A x"
| "oadm (Erase_key p x) (A, B) \<longleftrightarrow> (\<exists>m. B p = Some (ObservableMap m))"
| "oadm (Clear p) (A, B) \<longleftrightarrow> (\<exists>b. B p = Some b \<and> (\<forall>q. b \<noteq> WeakPtr q))"
| "oadm (Delete p) (A, B) \<longleftrightarrow> B p \<noteq> None"

lemma oview_pair: "oview s = (\<lambda>x. os_observers s x \<noteq> None, os_observer s)" by (simp add: oview_def)

lemma new_object_ok:
  assumes "observers_ok s" "os_observers s x = None"
  shows "observers_ok (Observable_new x s) \<and> oview (Observable_new x s) = ((fst (oview s))(x := True), os_observer s)"
proof -
  let ?s = "Observable_new x s"
  have "count ?s y p = count s y p" for y p using assms(2) by (simp add: count_def Observable_new_def)
  moreover have "held ?s y p = held s y p" for y p by (simp add: held_def Observable_new_def)
  moreover have "lists_ok ?s" using observers_okD(1) [OF assms(1)] by (simp add: lists_ok_def Observable_new_def)
  ultimately have "observers_ok ?s"
    using observers_okD(2,3) [OF assms(1)] by (intro observers_okI) (auto simp: Observable_new_def)
  then show ?thesis by (auto simp: oview_def Observable_new_def)
qed

lemma Clear_ok:
  assumes s: "observers_ok s" and p: "os_observer s p = Some b" "\<And>q. b \<noteq> WeakPtr q"
  shows "\<exists>s'. ostep zero (Clear p) s = Some s' \<and> observers_ok s' \<and> oview s' = (fst (oview s), (os_observer s)(p \<mapsto> emptied b))"
  using clear_ok [OF s p(1), of "emptied b"] p
  by (cases b) (auto simp: oset_clear_def olist_clear_def omap_clear_def oset_get_def olist_get_def omap_get_def)

lemma Delete_ok:
  assumes s: "observers_ok s" and p: "os_observer s p = Some b"
  shows "\<exists>s'. ostep zero (Delete p) s = Some s' \<and> observers_ok s' \<and> oview s' = (fst (oview s), (os_observer s)(p := None))"
proof (cases b)
  case (WeakPtr q)
  then show ?thesis using WeakPtr_delete_ok [OF s, of p q] p by simp
qed (use clear_ok [OF s p(1), of "emptied b"] p in
  \<open>auto simp: oset_delete_def olist_delete_def omap_delete_def oset_clear_def olist_clear_def omap_clear_def oset_get_def olist_get_def omap_get_def\<close>)

interpretation observers: simulation observers_ok oview "ostep zero" oadm "osem zero" for zero :: 'r
proof
  fix s :: "'r ostate" and op :: "'r oop"
  assume s: "observers_ok s" and a: "oadm op (oview s)"
  show "\<exists>s'. ostep zero op s = Some s' \<and> observers_ok s' \<and> oview s' = osem zero op (oview s)"
  proof (cases op)
    case (New_object x)
    then show ?thesis using a new_object_ok [OF s, of x] by (simp add: oview_pair [of s])
  next
    case (Destroy_object x)
    then show ?thesis using a destroy_object_ok [OF s, of x] by (simp add: oview_pair [of s])
  next
    case (New_weak p q)
    then show ?thesis using a WeakPtr_new_ok [OF s, of p q] by (cases q) (simp_all add: oview_pair [of s])
  next
    case (Assign_weak p q)
    then show ?thesis using a WeakPtr_assign_ok [OF s, of p _ q] by (cases q) (auto simp: oview_pair [of s])
  next
    case (Copy_weak p p')
    then obtain r q where p: "os_observer s p = Some (WeakPtr r)" "os_observer s p' = Some (WeakPtr q)"
      using a by (auto simp: oview_pair [of s])
    have "os_observers s x \<noteq> None" if "q = Some x" for x using held_alive [OF s p(2), of x] that by simp
    then show ?thesis using Copy_weak p WeakPtr_assign_ok [OF s p(1), of q]
      by (simp add: oview_pair [of s] WeakPtr_assign_weak_def WeakPtr_get_def)
  next
    case (New_set p)
    then show ?thesis using a new_observer_ok [OF s, of p "ObservableSet []"] by (simp add: oview_pair [of s] container_new_def)
  next
    case (New_list p)
    then show ?thesis using a new_observer_ok [OF s, of p "ObservableList []"] by (simp add: oview_pair [of s] container_new_def)
  next
    case (New_map p)
    then show ?thesis using a new_observer_ok [OF s, of p "ObservableMap []"] by (simp add: oview_pair [of s] container_new_def)
  next
    case (Insert p x)
    then show ?thesis using a oset_add_ok [OF s, of p _ x] by (auto simp: oview_pair [of s])
  next
    case (Erase p x)
    then show ?thesis using a oset_erase_ok [OF s, of p _ x] by (auto simp: oview_pair [of s])
  next
    case (Push_back p x)
    then show ?thesis using a olist_push_back_ok [OF s, of p _ x] by (auto simp: oview_pair [of s])
  next
    case (Erase_index p i)
    then show ?thesis using a olist_erase_ok [OF s, of p _ i] by (auto simp: oview_pair [of s])
  next
    case (Insert_key p x v)
    then show ?thesis using a omap_add_ok [OF s, of p _ x v] by (auto simp: oview_pair [of s])
  next
    case (At_key p x)
    then obtain m where m: "os_observer s p = Some (ObservableMap m)" "os_observers s x \<noteq> None" using a by (auto simp: oview_pair [of s])
    then show ?thesis using At_key omap_at_ok [OF s m, of zero] by (auto simp: oview_pair [of s])
  next
    case (Erase_key p x)
    then obtain m where m: "os_observer s p = Some (ObservableMap m)" using a by (auto simp: oview_pair [of s])
    then show ?thesis using Erase_key omap_erase_ok [OF s m, of x] by (auto simp: oview_pair [of s])
  next
    case (Clear p)
    then obtain b where "os_observer s p = Some b" "\<And>q. b \<noteq> WeakPtr q" using a by (auto simp: oview_pair [of s])
    then show ?thesis using Clear Clear_ok [OF s, of p b zero] by (simp add: oview_pair [of s])
  next
    case (Delete p)
    then obtain b where "os_observer s p = Some b" using a by (auto simp: oview_pair [of s])
    then show ?thesis using Delete Delete_ok [OF s, of p b zero] by (simp add: oview_pair [of s])
  qed
qed



section \<open>Events\<close>

lemma next_key_suffix:
  "sorted_wrt (<) (map fst (u @ (k, w) # m)) \<Longrightarrow> next_key k (u @ (k, w) # m) = (case m of [] \<Rightarrow> None | (j, _) # _ \<Rightarrow> Some j)"
proof (induction u)
  case Nil
  then show ?case by (cases m) auto
qed auto

text \<open>The same for the keys alone, from which the handlers may have taken the ones before.\<close>

lemma notify_from_keys:
  assumes h: "\<And>p s s' m. h p x e s = Some s' \<Longrightarrow> os_observers s x = Some m \<Longrightarrow>
      \<exists>m'. os_observers s' x = Some m' \<and> (map fst m' = map fst m \<or> map fst m' = [q \<leftarrow> map fst m. q \<noteq> p])"
  shows "os_observers s x = Some m \<Longrightarrow> map fst m = done @ todo \<Longrightarrow> sorted_wrt (<) (map fst m) \<Longrightarrow>
     notify_from h x e (case todo of [] \<Rightarrow> None | p # _ \<Rightarrow> Some p) s = run_steps (\<lambda>p. h p x e) todo s"
proof (induction todo arbitrary: s m "done")
  case Nil
  then show ?case by (subst notify_from.simps) simp
next
  case (Cons p todo)
  have p: "map_of m p \<noteq> None" using Cons.prems(2) by (auto simp: map_of_eq_None_iff simp flip: set_map)
  have "next_key p m = (case todo of [] \<Rightarrow> None | q # _ \<Rightarrow> Some q)"
  proof -
    obtain u w m2 where m: "m = u @ (p, w) # m2" "map fst m2 = todo"
      using Cons.prems(2) by (auto simp: map_eq_append_conv map_eq_Cons_conv)
    show ?thesis using next_key_suffix [of u p w m2] Cons.prems(3) m by (cases m2) auto
  qed
  moreover have "notify_from h x e (case todo of [] \<Rightarrow> None | q # _ \<Rightarrow> Some q) s' = run_steps (\<lambda>p. h p x e) todo s'"
    if s': "h p x e s = Some s'" for s'
  proof -
    obtain m' where m': "os_observers s' x = Some m'" "map fst m' = map fst m \<or> map fst m' = [q \<leftarrow> map fst m. q \<noteq> p]"
      using h [OF s' Cons.prems(1)] by blast
    have d: "p \<notin> set done" "p \<notin> set todo" using sorted_distinct [OF Cons.prems(3)] Cons.prems(2) by auto
    then have "[q \<leftarrow> done. q \<noteq> p] = done" "[q \<leftarrow> todo. q \<noteq> p] = todo" by (auto simp: filter_id_conv)
    then have "[q \<leftarrow> map fst m. q \<noteq> p] = done @ todo" using Cons.prems(2) by simp
    then have "map fst m' = (done @ [p]) @ todo \<or> map fst m' = done @ todo" using m'(2) Cons.prems(2) by auto
    moreover have "sorted_wrt (<) (map fst m')" using m'(2) Cons.prems(3) by (auto simp: sorted_wrt_filter)
    ultimately show ?thesis using Cons.IH [OF m'(1)] by blast
  qed
  ultimately show ?case using Cons.prems(1) p
    by (subst notify_from.simps) (cases "h p x e s"; auto)
qed

text \<open>C36: an event reaches every observer that is in the list when it is sent, each once and in the order of
  the addresses, also when a handler takes its own observer out of the list: \<open>notifyEvent\<close> is the
  sequence of the calls of \<open>handleEvent\<close>, as long as no handler adds or removes other observers of the
  object.
\<close>

theorem notify_reaches_all:
  assumes h: "\<And>p s s' m. h p x e s = Some s' \<Longrightarrow> os_observers s x = Some m \<Longrightarrow>
      \<exists>m'. os_observers s' x = Some m' \<and> (map fst m' = map fst m \<or> map fst m' = [q \<leftarrow> map fst m. q \<noteq> p])"
    and m: "lists_ok s" "os_observers s x = Some m"
  shows "notifyEvent h x e s = run_steps (\<lambda>p. h p x e) (map fst m) s"
proof -
  have "sorted_wrt (<) (map fst m)" using m by (simp add: lists_ok_def)
  from notify_from_keys [of h x e s m "[]" "map fst m", OF h m(2) _ this] show ?thesis
    using m(2) by (cases m) (auto simp: notifyEvent_def)
qed

text \<open>A weak pointer that forgets the object on the first event, and another observer after it.\<close>

definition forget :: "nat \<Rightarrow> nat \<Rightarrow> unit \<Rightarrow> nat ostate \<Rightarrow> nat ostate option" where
  "forget p x e s = do {
     m \<leftarrow> os_observers s x;
     Some (s\<lparr>os_observers := (os_observers s)(x \<mapsto> (if p = 1 then omap_del p m else m)), os_observer := (os_observer s)(p \<mapsto> WeakPtr None)\<rparr>) }"

theorem notify_reaches_all_witness:
  "\<exists>s. notifyEvent forget 5 () (ostate_start\<lparr>os_observers := [5 \<mapsto> [(1, 1), (3, 2)]]\<rparr>) = Some s
     \<and> os_observer s 3 = Some (WeakPtr None) \<and> os_observers s 5 = Some [(3, 2)]"
proof -
  let ?s = "ostate_start\<lparr>os_observers := [5 \<mapsto> [(1, 1), (3, 2)]]\<rparr> :: nat ostate"
  have h: "\<exists>m'. os_observers s' 5 = Some m' \<and> (map fst m' = map fst m \<or> map fst m' = [q \<leftarrow> map fst m. q \<noteq> p])"
    if "forget p 5 () s = Some s'" "os_observers s 5 = Some m" for p s s' m
    using that keys_del [of p m] by (auto simp: forget_def split: if_splits)
  have ok: "lists_ok ?s" by (simp add: lists_ok_def)
  have "notifyEvent forget 5 () ?s = run_steps (\<lambda>p. forget p 5 ()) [1, 3] ?s"
    using notify_reaches_all [of forget 5 "()" ?s "[(1, 1), (3, 2)]", OF h ok] by simp
  then show ?thesis by (simp add: forget_def omap_del_def)
qed

text \<open>A key that is inserted into a map twice is counted twice, and its observer stays in the list.\<close>

lemma omap_add_twice:
  "\<exists>s. run_steps (ostep (0::nat)) [New_object 5, New_map 1, Insert_key 1 5 7, Insert_key 1 5 8, Erase_key 1 5] ostate_start = Some s
     \<and> os_observer s 1 = Some (ObservableMap []) \<and> os_observers s 5 = Some [(1, 1)]"
  by (simp add: Observable_new_def container_new_def omap_add_def omap_get_def addObserver_def omap_insert_def
      omap_erase_def omap_erase_it_def removeObserver_def omap_del_def store_observer_def ostate_start_def Let_def)

end
