(* ===== verification/Coordsys.thy ===== *)
theory Coordsys
  imports Cppquat Prelude
begin

text \<open>
  The tree of coordinate systems (\<open>src/CoordSys.cpp\<close>, \<open>include/CoordSys.h\<close>), the data structure of the
  universe: every node has a position, velocity, orientation and angular velocity relative to its parent, and
  pointers to its parent, its first child and its next sibling.  A node is a number, its address, and the
  heap maps the addresses of living nodes to their members; reading through a null pointer or a pointer to
  a deleted node is \<open>None\<close>, and so is a search that does not end.  The members that scripts, drawing and
  the war fields use are left out.
\<close>

section \<open>Nodes\<close>

definition CS_DELETE :: uint32 where "CS_DELETE = 2"
definition CS_WARPABLE :: uint32 where "CS_WARPABLE = 4"
definition CS_SOLAR :: uint32 where "CS_SOLAR = 8"
definition CS_EXTENT :: uint32 where "CS_EXTENT = 0x10"
definition CS_ISOLATED :: uint32 where "CS_ISOLATED = 0x20"

record csnode =
  cn_pos :: "real Vec3"
  cn_velo :: "real Vec3"
  cn_rot :: "real Quat"
  cn_omg :: "real Vec3"
  cn_csrad :: real
  cn_parent :: "nat option"
  cn_name :: "byte list"
  cn_fullname :: "byte list"
  cn_extranames :: "byte list list"
  cn_flags :: uint32
  cn_next :: "nat option"
  cn_children :: "nat option"
  cn_aorder :: "nat list"

type_synonym csheap = "nat \<Rightarrow> csnode option"

section \<open>Searching the tree\<close>

text \<open>
  The recursions \<open>findchild\<close>, \<open>findchildv\<close>, \<open>findchildq\<close> and \<open>findparent\<close>, \<open>findparentv\<close>, \<open>findparentq\<close> are the
  same search with different values: \<open>down\<close> takes a value from a node's parent to the node and \<open>up\<close> from
  the node to its parent.  The first walks over the siblings from \<open>p\<close> but \<open>skip\<close>; \<open>Some None\<close> is the result 0.
\<close>

partial_function (option) find_child ::
    "(csnode \<Rightarrow> 'v \<Rightarrow> 'v) \<Rightarrow> csheap \<Rightarrow> nat \<Rightarrow> nat option \<Rightarrow> nat option \<Rightarrow> 'v \<Rightarrow> 'v option option" where
  "find_child down h retcs skip p src =
     (case p of
        None \<Rightarrow> Some None
      | Some c \<Rightarrow>
          (case h c of
             None \<Rightarrow> None
           | Some n \<Rightarrow>
               if skip = Some c then find_child down h retcs skip (cn_next n) src
               else if retcs = c then Some (Some (down n src))
               else Option.bind (find_child down h retcs None (cn_children n) (down n src))
                 (\<lambda>r. if r \<noteq> None then Some r else find_child down h retcs skip (cn_next n) src)))"

partial_function (option) find_parent ::
    "(csnode \<Rightarrow> 'v \<Rightarrow> 'v) \<Rightarrow> (csnode \<Rightarrow> 'v \<Rightarrow> 'v) \<Rightarrow> csheap \<Rightarrow> nat \<Rightarrow> 'v \<Rightarrow> nat \<Rightarrow> 'v option option" where
  "find_parent up down h retcs src c =
     (case h c of
        None \<Rightarrow> None
      | Some n \<Rightarrow>
          (case cn_parent n of
             None \<Rightarrow> Some None
           | Some p \<Rightarrow>
               if p = retcs then Some (Some (up n src))
               else
                 (case h p of
                    None \<Rightarrow> None
                  | Some m \<Rightarrow>
                      Option.bind (find_child down h retcs (Some c) (cn_children m) (up n src))
                        (\<lambda>r. if r \<noteq> None then Some r else find_parent up down h retcs (up n src) p))))"

declare find_child.simps [code] find_parent.simps [code]

text \<open>\<open>this->tocs...(..., cs)\<close>: the node itself, the tree below \<open>cs\<close>, and then its ancestors.\<close>

definition to_cs ::
    "(csnode \<Rightarrow> 'v \<Rightarrow> 'v) \<Rightarrow> (csnode \<Rightarrow> 'v \<Rightarrow> 'v) \<Rightarrow> csheap \<Rightarrow> nat \<Rightarrow> 'v \<Rightarrow> nat \<Rightarrow> 'v option" where
  "to_cs up down h this src cs =
     (if cs = this then Some src
      else do {
        n \<leftarrow> h cs;
        r \<leftarrow> find_child down h this None (cn_children n) src;
        (case r of
           Some v \<Rightarrow> Some v
         | None \<Rightarrow> do {
             r \<leftarrow> find_parent up down h this src cs;
             Some (case r of Some v \<Rightarrow> v | None \<Rightarrow> src) }) })"

section \<open>Positions, directions, velocities and orientations\<close>

definition pos_down :: "csnode \<Rightarrow> real Vec3 \<Rightarrow> real Vec3" where
  "pos_down n src = Quat_itrans (cn_rot n) (src - cn_pos n)"

definition pos_up :: "csnode \<Rightarrow> real Vec3 \<Rightarrow> real Vec3" where
  "pos_up n src = Quat_trans (cn_rot n) src + cn_pos n"

definition dir_down :: "csnode \<Rightarrow> real Vec3 \<Rightarrow> real Vec3" where
  "dir_down n src = Quat_itrans (cn_rot n) src"

definition dir_up :: "csnode \<Rightarrow> real Vec3 \<Rightarrow> real Vec3" where
  "dir_up n src = Quat_trans (cn_rot n) src"

definition tocs :: "csheap \<Rightarrow> nat \<Rightarrow> real Vec3 \<Rightarrow> nat \<Rightarrow> bool \<Rightarrow> real Vec3 option" where
  "tocs h this src cs delta =
     to_cs (if delta then dir_up else pos_up) (if delta then dir_down else pos_down) h this src cs"

text \<open>A velocity with the position that it is at.\<close>

definition vel_down :: "csnode \<Rightarrow> real Vec3 \<times> real Vec3 \<Rightarrow> real Vec3 \<times> real Vec3" where
  "vel_down n vp =
     (let (src, srcpos) = vp;
          pos = Quat_itrans (cn_rot n) (srcpos - cn_pos n);
          v1 = src - cn_velo n;
          vrot = Vec3_vp (Quat_itrans (cn_rot n) (cn_omg n)) pos;
          v1 = v1 - vrot
      in (Quat_itrans (cn_rot n) v1, pos))"

definition vel_up :: "csnode \<Rightarrow> real Vec3 \<times> real Vec3 \<Rightarrow> real Vec3 \<times> real Vec3" where
  "vel_up n vp =
     (let (src, srcpos) = vp;
          v = Quat_trans (cn_rot n) src;
          v = v + cn_velo n;
          vrot = Vec3_vp (cn_omg n) (Quat_trans (cn_rot n) srcpos);
          v = v + vrot;
          pos = Quat_trans (cn_rot n) srcpos + cn_pos n
      in (v, pos))"

definition tocsv :: "csheap \<Rightarrow> nat \<Rightarrow> real Vec3 \<Rightarrow> real Vec3 \<Rightarrow> nat \<Rightarrow> real Vec3 option" where
  "tocsv h this src srcpos cs = map_option fst (to_cs vel_up vel_down h this (src, srcpos) cs)"

definition rot_down :: "csnode \<Rightarrow> real Quat \<Rightarrow> real Quat" where
  "rot_down n src = Quat_mul src (cn_rot n)"

definition rot_up :: "csnode \<Rightarrow> real Quat \<Rightarrow> real Quat" where
  "rot_up n src = Quat_imul src (cn_rot n)"

definition tocsq :: "csheap \<Rightarrow> nat \<Rightarrow> nat \<Rightarrow> real Quat option" where
  "tocsq h this cs = to_cs rot_up rot_down h this quat_u cs"

definition tocsm :: "csheap \<Rightarrow> nat \<Rightarrow> nat \<Rightarrow> real Mat4 option" where
  "tocsm h this cs = do { q \<leftarrow> tocsq h this cs; Some (Quat_tomat4 q) }"

definition tocsim :: "csheap \<Rightarrow> nat \<Rightarrow> nat \<Rightarrow> real Mat4 option" where
  "tocsim h this cs = do { q \<leftarrow> tocsq h cs this; Some (Quat_tomat4 q) }"

section \<open>Which node a position belongs to\<close>

definition cs_belongs :: "csnode \<Rightarrow> real Vec3 \<Rightarrow> bool" where
  "cs_belongs n pos = (case cn_parent n of None \<Rightarrow> True | Some _ \<Rightarrow> Vec3_slen pos < cn_csrad n * cn_csrad n)"

text \<open>The node found and the position in it.\<close>

partial_function (option) findchildb ::
    "csheap \<Rightarrow> nat option \<Rightarrow> nat option \<Rightarrow> real Vec3 \<Rightarrow> (nat \<times> real Vec3) option option" where
  "findchildb h skip p src =
     (case p of
        None \<Rightarrow> Some None
      | Some c \<Rightarrow>
          (case h c of
             None \<Rightarrow> None
           | Some n \<Rightarrow>
               if skip = Some c \<or> \<not> cs_belongs n (pos_down n src) then findchildb h skip (cn_next n) src
               else Option.bind (findchildb h None (cn_children n) (pos_down n src))
                 (\<lambda>r. if r \<noteq> None then Some r else Some (Some (c, pos_down n src)))))"

text \<open>The test whether the parent has the position in it is made with the child's coordinates \<open>src\<close>.\<close>

partial_function (option) findparentb :: "csheap \<Rightarrow> nat \<Rightarrow> real Vec3 \<Rightarrow> (nat \<times> real Vec3) option" where
  "findparentb h c src =
     (case h c of
        None \<Rightarrow> None
      | Some n \<Rightarrow>
          (case cn_parent n of
             None \<Rightarrow> Some (c, src)
           | Some p \<Rightarrow>
               if cs_belongs n src then Some (c, src)
               else
                 (case h p of
                    None \<Rightarrow> None
                  | Some m \<Rightarrow>
                      if cs_belongs m src
                      then Option.bind (findchildb h (Some c) (cn_children m) (pos_up n src))
                        (\<lambda>r. case r of Some x \<Rightarrow> Some x | None \<Rightarrow> Some (p, pos_up n src))
                      else findparentb h p (pos_up n src))))"

declare findchildb.simps [code] findparentb.simps [code]

text \<open>\<open>belongcs\<close> does not set \<open>ret\<close>, here \<open>None\<close>, when the position stays in the node itself.\<close>

definition belongcs :: "csheap \<Rightarrow> nat \<Rightarrow> real Vec3 \<Rightarrow> (nat \<times> real Vec3 option) option" where
  "belongcs h this src = do {
     n \<leftarrow> h this;
     r \<leftarrow> findchildb h None (cn_children n) src;
     (case r of
        Some (c, ret) \<Rightarrow> Some (c, Some ret)
      | None \<Rightarrow>
          if cs_belongs n src then Some (this, None)
          else map_option (\<lambda>(c, ret). (c, Some ret)) (findparentb h this src)) }"

section \<open>Ancestors\<close>

partial_function (option) ancestor_from :: "csheap \<Rightarrow> nat \<Rightarrow> nat option \<Rightarrow> bool option" where
  "ancestor_from h this p =
     (case p of
        None \<Rightarrow> Some False
      | Some c \<Rightarrow> if c = this then Some True
          else (case h c of None \<Rightarrow> None | Some n \<Rightarrow> ancestor_from h this (cn_parent n)))"

definition is_ancestor_of :: "csheap \<Rightarrow> nat \<Rightarrow> nat \<Rightarrow> bool option" where
  "is_ancestor_of h this object = do { n \<leftarrow> h object; ancestor_from h this (cn_parent n) }"

text \<open>The nearest system above that is extent and isolated.\<close>

partial_function (option) eisystem_from :: "csheap \<Rightarrow> nat option \<Rightarrow> nat option option" where
  "eisystem_from h p =
     (case p of
        None \<Rightarrow> Some None
      | Some c \<Rightarrow>
          (case h c of
             None \<Rightarrow> None
           | Some n \<Rightarrow>
               if and (cn_flags n) (or CS_EXTENT CS_ISOLATED) = or CS_EXTENT CS_ISOLATED then Some (Some c)
               else eisystem_from h (cn_parent n)))"

declare ancestor_from.simps [code] eisystem_from.simps [code]

definition findeisystem :: "csheap \<Rightarrow> nat \<Rightarrow> nat option option" where
  "findeisystem h this = do { n \<leftarrow> h this; eisystem_from h (cn_parent n) }"

end
