(* ===== verification/Coordsys_Tree.thy ===== *)
theory Coordsys_Tree
  imports Coordsys
begin

text \<open>
  The operations that change the tree of \<open>src/CoordSys.cpp\<close>: construction, adoption by another parent, the
  end of a frame with the deletion of marked nodes, and rotation with time.  The loops over pointers to
  pointers (\<open>for(ppcs = &parent->children; *ppcs; ppcs = &(*ppcs)->next)\<close>) walk over the places where a link to a
  sibling is stored: the member \<open>children\<close> of a node or the member \<open>next\<close> of one.
\<close>

section \<open>Links\<close>

datatype cslink = Children nat | Next nat

fun cslink_get :: "csheap \<Rightarrow> cslink \<Rightarrow> nat option option" where
  "cslink_get h (Children a) = map_option cn_children (h a)"
| "cslink_get h (Next a) = map_option cn_next (h a)"

fun cslink_set :: "csheap \<Rightarrow> cslink \<Rightarrow> nat option \<Rightarrow> csheap option" where
  "cslink_set h (Children a) p = do { n \<leftarrow> h a; Some (h(a \<mapsto> n\<lparr>cn_children := p\<rparr>)) }"
| "cslink_set h (Next a) p = do { n \<leftarrow> h a; Some (h(a \<mapsto> n\<lparr>cn_next := p\<rparr>)) }"

text \<open>The place of the link to \<open>c\<close>, from the place \<open>l\<close> on; \<open>Some None\<close> when the list ends.\<close>

partial_function (option) find_link :: "csheap \<Rightarrow> nat \<Rightarrow> cslink \<Rightarrow> cslink option option" where
  "find_link h c l =
     (case cslink_get h l of
        None \<Rightarrow> None
      | Some p \<Rightarrow>
          (case p of
             None \<Rightarrow> Some None
           | Some x \<Rightarrow> if x = c then Some (Some l) else find_link h c (Next x)))"

declare find_link.simps [code]

section \<open>Families\<close>

text \<open>\<open>legitimize_child\<close>; the virtual \<open>onChangeParent\<close> does nothing in the base class.\<close>

definition legitimize_child :: "csheap \<Rightarrow> nat \<Rightarrow> (cslink option \<times> csheap) option" where
  "legitimize_child h this = do {
     n \<leftarrow> h this;
     (case cn_parent n of
        None \<Rightarrow> Some (None, h)
      | Some p \<Rightarrow> do {
          r \<leftarrow> find_link h this (Children p);
          (case r of
             Some l \<Rightarrow> Some (Some l, h)
           | None \<Rightarrow> do {
               m \<leftarrow> h p;
               let h = h(this \<mapsto> n\<lparr>cn_next := cn_children m\<rparr>);
               h \<leftarrow> cslink_set h (Children p) (Some this);
               Some (Some (Children p), h) }) }) }"

text \<open>Taking a node out of the list of its parent; whether it was there.\<close>

definition cs_unlink :: "csheap \<Rightarrow> nat \<Rightarrow> nat \<Rightarrow> nat option \<Rightarrow> (bool \<times> csheap) option" where
  "cs_unlink h p c next = do {
     r \<leftarrow> find_link h c (Children p);
     (case r of
        None \<Rightarrow> Some (False, h)
      | Some l \<Rightarrow> do { h \<leftarrow> cslink_set h l next; Some (True, h) }) }"

text \<open>The place and motion relative to the new parent.\<close>

definition adopt_frame :: "csheap \<Rightarrow> nat \<Rightarrow> nat \<Rightarrow> (real Vec3 \<times> real Vec3 \<times> real Quat) option" where
  "adopt_frame h adoptee newparent = do {
     n \<leftarrow> h adoptee;
     q \<leftarrow> tocsq h adoptee newparent;
     p \<leftarrow> cn_parent n;
     pos \<leftarrow> tocs h newparent (cn_pos n) p False;
     velo \<leftarrow> tocsv h newparent (cn_velo n) (cn_pos n) p;
     Some (pos, velo, q) }"

definition adopt_child :: "csheap \<Rightarrow> nat \<Rightarrow> nat \<Rightarrow> bool \<Rightarrow> csheap option" where
  "adopt_child h adoptee newparent retain = do {
     n \<leftarrow> h adoptee;
     (if cn_parent n = Some newparent then Some h
      else do {
        f \<leftarrow> (if retain then adopt_frame h adoptee newparent else Some (cn_pos n, cn_velo n, cn_rot n));
        h \<leftarrow> (case cn_parent n of None \<Rightarrow> Some h | Some p \<Rightarrow> map_option snd (cs_unlink h p adoptee (cn_next n)));
        n \<leftarrow> h adoptee;
        let n = (if retain then n\<lparr>cn_pos := fst f, cn_velo := fst (snd f),
                   cn_omg := Quat_trans (snd (snd f)) (cn_omg n), cn_rot := snd (snd f)\<rparr> else n);
        m \<leftarrow> h newparent;
        let h = h(adoptee \<mapsto> n\<lparr>cn_parent := Some newparent, cn_next := cn_children m\<rparr>);
        cslink_set h (Children newparent) (Some adoptee) }) }"

section \<open>Names\<close>

text \<open>\<open>findcsppath\<close>: a component matches every name that begins with it.  The path ends at \<open>pathend\<close>.\<close>

definition until_slash :: "byte list \<Rightarrow> byte list" where
  "until_slash path = takeWhile (\<lambda>c. c \<noteq> 47) path"

text \<open>\<open>strncmp\<close> of a name with the \<open>n\<close> first characters of a path is 0.\<close>

definition name_begins :: "byte list \<Rightarrow> byte list \<Rightarrow> bool" where
  "name_begins name part \<longleftrightarrow> take (length part) name = part"

partial_function (option) child_beginning :: "csheap \<Rightarrow> byte list \<Rightarrow> nat option \<Rightarrow> nat option option" where
  "child_beginning h part p =
     (case p of
        None \<Rightarrow> Some None
      | Some c \<Rightarrow>
          (case h c of
             None \<Rightarrow> None
           | Some n \<Rightarrow> if name_begins (cn_name n) part then Some (Some c) else child_beginning h part (cn_next n)))"

declare child_beginning.simps [code]

function findcsppath :: "csheap \<Rightarrow> nat \<Rightarrow> byte list \<Rightarrow> nat option option" where
  "findcsppath h this path =
     (if path = [] then Some (Some this)
      else do {
        n \<leftarrow> h this;
        c \<leftarrow> child_beginning h (until_slash path) (cn_children n);
        (case c of
           None \<Rightarrow> Some None
         | Some c \<Rightarrow> findcsppath h c (drop (length (until_slash path) + 1) path)) })"
  by pat_completeness auto
termination by (relation "measure (\<lambda>(h, this, path). length path)") auto

declare findcsppath.simps [simp del]

section \<open>Construction\<close>

definition csnode_blank :: csnode where
  "csnode_blank = \<lparr>cn_pos = 0, cn_velo = 0, cn_rot = quat_u, cn_omg = 0, cn_csrad = 100, cn_parent = None, cn_name = [],
     cn_fullname = [], cn_extranames = [], cn_flags = 0, cn_next = None, cn_children = None, cn_aorder = []\<rparr>"

text \<open>The part of a path before its last slash and the part behind it.\<close>

definition split_path :: "byte list \<Rightarrow> byte list \<times> byte list" where
  "split_path path =
     (let name = rev (takeWhile (\<lambda>c. c \<noteq> 47) (rev path))
      in (take (length path - length name - 1) path, name))"

text \<open>\<open>this\<close> is a fresh address; a path without a slash is a name under \<open>rt\<close>, the argument \<open>root\<close>, and no path is the name \<open>?\<close>.\<close>

definition cs_init :: "csheap \<Rightarrow> nat \<Rightarrow> byte list option \<Rightarrow> nat option \<Rightarrow> csheap option" where
  "cs_init h this path rt = do {
     rn \<leftarrow> (case path of
              None \<Rightarrow> Some (rt, [63])
            | Some path \<Rightarrow>
                if 47 \<in> set path then do {
                  r \<leftarrow> rt;
                  r \<leftarrow> findcsppath h r (fst (split_path path));
                  Some (r, snd (split_path path)) }
                else Some (rt, path));
     let h = h(this \<mapsto> csnode_blank\<lparr>cn_parent := fst rn, cn_name := snd rn\<rparr>);
     map_option snd (legitimize_child h this) }"

definition addToDrawList :: "csheap \<Rightarrow> nat \<Rightarrow> nat \<Rightarrow> (bool \<times> csheap) option" where
  "addToDrawList h this descendant = do {
     n \<leftarrow> h this;
     Some (if descendant \<in> set (cn_aorder n) then (False, h)
           else (True, h(this \<mapsto> n\<lparr>cn_aorder := cn_aorder n @ [descendant]\<rparr>))) }"

section \<open>Destruction\<close>

text \<open>The first entry of a node in the list of its extent and isolated system is erased.\<close>

definition aorder_erase :: "csheap \<Rightarrow> nat \<Rightarrow> csheap option" where
  "aorder_erase h this = do {
     e \<leftarrow> findeisystem h this;
     (case e of
        None \<Rightarrow> Some h
      | Some e \<Rightarrow> do { n \<leftarrow> h e; Some (h(e \<mapsto> n\<lparr>cn_aorder := remove1 this (cn_aorder n)\<rparr>)) }) }"

text \<open>
  \<open>~CoordSys\<close> and \<open>delete\<close>.  On the server the children are deleted first, with the pointer to the next one read before;
  \<open>delete_list\<close> is the loop from \<open>p\<close> on, \<open>this\<close> the node whose destructor it is part of.
\<close>

partial_function (option) delete_list :: "bool \<Rightarrow> nat option \<Rightarrow> csheap \<Rightarrow> csheap option" where
  "delete_list server p h =
     (case p of
        None \<Rightarrow> Some h
      | Some c \<Rightarrow>
          (case h c of
             None \<Rightarrow> None
           | Some n \<Rightarrow>
               Option.bind (if server then delete_list server (cn_children n) h else Some h)
                 (\<lambda>h. Option.bind (aorder_erase h c) (\<lambda>h. delete_list server (cn_next n) (h(c := None))))))"

declare delete_list.simps [code]

definition cs_delete :: "bool \<Rightarrow> csheap \<Rightarrow> nat \<Rightarrow> csheap option" where
  "cs_delete server h this = do {
     n \<leftarrow> h this;
     h \<leftarrow> (if server then delete_list server (cn_children n) h else Some h);
     h \<leftarrow> aorder_erase h this;
     Some (h(this := None)) }"

text \<open>The children of a node that is to be deleted go to the parent \<open>p\<close>; \<open>this\<close> keeps its pointer to them.\<close>

partial_function (option) give_children :: "nat \<Rightarrow> nat \<Rightarrow> nat option \<Rightarrow> csheap \<Rightarrow> csheap option" where
  "give_children this p cs h =
     (case cs of
        None \<Rightarrow> Some h
      | Some c \<Rightarrow>
          (case h c of
             None \<Rightarrow> None
           | Some n \<Rightarrow>
               Option.bind (tocsv h p (cn_velo n) (cn_pos n) this) (\<lambda>velo.
               Option.bind (tocs h p (cn_pos n) this False) (\<lambda>pos.
               Option.bind (tocs h p (cn_omg n) this True) (\<lambda>omg.
               Option.bind (tocsq h p this) (\<lambda>rot.
               Option.bind (h p) (\<lambda>m.
               Option.bind (cslink_set
                   (h(c \<mapsto> n\<lparr>cn_velo := velo, cn_pos := pos, cn_omg := omg, cn_rot := rot, cn_parent := Some p,
                      cn_next := cn_children m\<rparr>)) (Children p) (Some c)) (\<lambda>h.
               give_children this p (cn_next n) h))))))))"

declare give_children.simps [code]

text \<open>
  \<open>endframe\<close>.  The assertion fails when a marked node is not in its parent's list.  Without a parent there is no
  list to unlink from, and giving the children to the null pointer fails.
\<close>

definition endframe_delete :: "nat \<Rightarrow> csheap \<Rightarrow> csheap option" where
  "endframe_delete this h = do {
     n \<leftarrow> h this;
     h \<leftarrow> (case cn_parent n of
             None \<Rightarrow> Some h
           | Some p \<Rightarrow> do { r \<leftarrow> cs_unlink h p this (cn_next n); (if fst r then Some (snd r) else None) });
     h \<leftarrow> aorder_erase h this;
     n \<leftarrow> h this;
     h \<leftarrow> (case cn_children n of None \<Rightarrow> Some h | Some _ \<Rightarrow> do { p \<leftarrow> cn_parent n; give_children this p (cn_children n) h });
     cs_delete True h this }"

partial_function (option) endframe_list :: "bool \<Rightarrow> nat option \<Rightarrow> csheap \<Rightarrow> csheap option" where
  "endframe_list server p h =
     (case p of
        None \<Rightarrow> Some h
      | Some c \<Rightarrow>
          (case h c of
             None \<Rightarrow> None
           | Some n \<Rightarrow>
               Option.bind (endframe_list server (cn_children n) h) (\<lambda>h.
               Option.bind (if server \<and> and (cn_flags n) CS_DELETE \<noteq> 0 then endframe_delete c h else Some h)
                 (endframe_list server (cn_next n)))))"

declare endframe_list.simps [code]

definition endframe :: "bool \<Rightarrow> csheap \<Rightarrow> nat \<Rightarrow> csheap option" where
  "endframe server h this = do {
     n \<leftarrow> h this;
     h \<leftarrow> endframe_list server (cn_children n) h;
     n \<leftarrow> h this;
     (if server \<and> and (cn_flags n) CS_DELETE \<noteq> 0 then endframe_delete this h else Some h) }"

text \<open>\<open>deleteAll\<close>: the children first, through the place that points to the node.\<close>

partial_function (option) deleteAll :: "cslink \<Rightarrow> csheap \<Rightarrow> csheap option" where
  "deleteAll l h =
     (case cslink_get h l of
        None \<Rightarrow> None
      | Some p \<Rightarrow>
          (case p of
             None \<Rightarrow> Some h
           | Some c \<Rightarrow>
               (case h c of
                  None \<Rightarrow> None
                | Some n \<Rightarrow>
                    (case cn_children n of
                       Some _ \<Rightarrow> Option.bind (deleteAll (Children c) h) (deleteAll l)
                     | None \<Rightarrow> Option.bind (cslink_set h l (cn_next n)) (\<lambda>h. Some (h(c := None)))))))"

declare deleteAll.simps [code]

section \<open>Rotation\<close>

text \<open>A node turns about its angular velocity; \<open>scale\<close> is the time scale of the universe.\<close>

definition cs_turn :: "real \<Rightarrow> real \<Rightarrow> csnode \<Rightarrow> csnode" where
  "cs_turn scale dt n =
     (if 0 < Vec3_slen (cn_omg n) then
        let len = Vec3_len (cn_omg n)
        in n\<lparr>cn_rot := Quat_mul (Quat_rotationv (len * dt * scale) (Vec3_div (cn_omg n) len)) (cn_rot n)\<rparr>
      else n)"

text \<open>\<open>anim\<close> and \<open>clientUpdate\<close>, which turn the same way, on the list of siblings from \<open>p\<close>.\<close>

partial_function (option) anim_list :: "real \<Rightarrow> real \<Rightarrow> nat option \<Rightarrow> csheap \<Rightarrow> csheap option" where
  "anim_list scale dt p h =
     (case p of
        None \<Rightarrow> Some h
      | Some c \<Rightarrow>
          (case h c of
             None \<Rightarrow> None
           | Some n \<Rightarrow>
               Option.bind (anim_list scale dt (cn_children n) (h(c \<mapsto> cs_turn scale dt n)))
                 (anim_list scale dt (cn_next n))))"

declare anim_list.simps [code]

definition cs_anim :: "real \<Rightarrow> real \<Rightarrow> csheap \<Rightarrow> nat \<Rightarrow> csheap option" where
  "cs_anim scale dt h this = do {
     n \<leftarrow> h this;
     anim_list scale dt (cn_children n) (h(this \<mapsto> cs_turn scale dt n)) }"

definition cs_clientUpdate :: "real \<Rightarrow> real \<Rightarrow> csheap \<Rightarrow> nat \<Rightarrow> csheap option" where
  "cs_clientUpdate scale dt h this = do {
     n \<leftarrow> h this;
     anim_list scale dt (cn_children n) (h(this \<mapsto> cs_turn scale dt n)) }"

text \<open>The virtual \<open>rotation\<close>, by which cameras turn.\<close>

definition cs_rotation :: "real Vec3 \<Rightarrow> real Quat \<Rightarrow> real Quat" where
  "cs_rotation pyr srcq =
     (case pyr of Vec3 p y r \<Rightarrow>
        let ret = Quat_quatrotquat srcq (Vec3_scale vec3_100 p);
            ret = Quat_quatrotquat ret (Vec3_scale vec3_010 y)
        in Quat_quatrotquat ret (Vec3_scale vec3_001 r))"

end
