(* ===== verification/Cpprot.thy ===== *)
theory Cpprot
  imports Cppquat
begin

text \<open>
  Rotations by the quaternions of \<open>cpplib/include/cpplib/quat.h\<close>: products, conjugates and norms, and
  what they do to vectors.  The conversions between coordinate systems and the hit tests share these facts.
\<close>

lemma Quat_mul_assoc: "Quat_mul (Quat_mul p q) r = Quat_mul p (Quat_mul q r)" for p q r :: "real Quat"
  by (cases p; cases q; cases r) (simp add: algebra_simps)

lemma Quat_cnj_mul: "Quat_cnj (Quat_mul p q) = Quat_mul (Quat_cnj q) (Quat_cnj p)" for p q :: "real Quat"
  by (cases p; cases q) (simp add: algebra_simps)

lemma Quat_cnj_cnj [simp]: "Quat_cnj (Quat_cnj q) = q" for q :: "real Quat"
  by (cases q) simp

lemma Quat_slen_cnj [simp]: "Quat_slen (Quat_cnj q) = Quat_slen q" for q :: "real Quat"
  by (cases q) simp

lemma Quat_slen_mul: "Quat_slen (Quat_mul p q) = Quat_slen p * Quat_slen q" for p q :: "real Quat"
  by (cases p; cases q) (simp add: algebra_simps)

lemma Quat_mul_cnj: "Quat_mul q (Quat_cnj q) = Quat 0 0 0 (Quat_slen q)" "Quat_mul (Quat_cnj q) q = Quat 0 0 0 (Quat_slen q)"
  for q :: "real Quat"
  by (cases q; simp add: algebra_simps)+

lemma Quat_mul_unit [simp]: "Quat_mul q (Quat 0 0 0 1) = q" "Quat_mul (Quat 0 0 0 1) q = q" for q :: "real Quat"
  by (cases q; simp)+

lemma Quat_of_to: "Quat_re (Quat_mul (Quat_mul q (Quat_ofVec3 v)) (Quat_cnj q)) = 0" for q :: "real Quat"
  by (cases q; cases v) (simp add: algebra_simps)

lemma Quat_ofVec3_trans: "Quat_ofVec3 (Quat_trans q v) = Quat_mul (Quat_mul q (Quat_ofVec3 v)) (Quat_cnj q)" for q :: "real Quat"
proof -
  have "Quat_ofVec3 (Quat_toVec3 r) = r" if "Quat_re r = 0" for r :: "real Quat" using that by (cases r) simp
  then show ?thesis using Quat_of_to [of q v] by (simp add: Quat_trans_def)
qed

lemma Quat_trans_mul: "Quat_trans (Quat_mul p q) v = Quat_trans p (Quat_trans q v)" for p q :: "real Quat"
  by (simp add: Quat_trans_def [of "Quat_mul p q"] Quat_trans_def [of p] Quat_ofVec3_trans Quat_cnj_mul Quat_mul_assoc)

lemma Quat_trans_unit [simp]: "Quat_trans (Quat 0 0 0 1) v = v" for v :: "real Vec3"
  by (cases v) (simp add: Quat_trans_def)

lemma Quat_trans_add: "Quat_trans q (v + w) = Quat_trans q v + Quat_trans q w" for q :: "real Quat"
  by (cases q; cases v; cases w) (simp add: Quat_trans_def plus_Vec3_def algebra_simps)

lemma trans_itrans: "Quat_slen q = 1 \<Longrightarrow> Quat_trans q (Quat_itrans q v) = v \<and> Quat_itrans q (Quat_trans q v) = v" for q :: "real Quat"
  by (simp add: Quat_itrans_def Quat_mul_cnj flip: Quat_trans_mul)

lemma Quat_trans_inj: "Quat_slen R = 1 \<Longrightarrow> Quat_trans R v = Quat_trans R w \<longleftrightarrow> v = w" for R :: "real Quat"
  by (metis trans_itrans)

lemma Quat_trans_lin:
  "Quat_trans q (v + w) = Quat_trans q v + Quat_trans q w" "Quat_trans q (v - w) = Quat_trans q v - Quat_trans q w"
  "Quat_trans q (Vec3_scale v s) = Vec3_scale (Quat_trans q v) s" for q :: "real Quat"
  by (cases q; cases v; cases w; simp add: Quat_trans_def plus_Vec3_def minus_Vec3_def Vec3_sub_def algebra_simps)+

lemma Quat_trans_sp: "Vec3_sp (Quat_trans q v) (Quat_trans q w) = Quat_slen q * Quat_slen q * Vec3_sp v w" for q :: "real Quat"
  by (cases q; cases v; cases w) (simp add: Quat_trans_def algebra_simps)

lemma Mat4_dvp3_tomat4: "Mat4_dvp3 (Quat_tomat4 q) v = Quat_trans q v" for q :: "real Quat"
  by (cases q; cases v) (simp add: Quat_tomat4_def Quat_trans_def algebra_simps)

end
