(* ===== verification/Coordsys_Correct.thy ===== *)
theory Coordsys_Correct
  imports Coordsys_Tree Cpprot
begin

text \<open>
  The conversions between coordinate systems are right: the pointers of a universe are those of a tree, a
  node of it is reached from every other, and what a conversion returns is the same place, direction or
  orientation as its argument when both are taken to the root.
\<close>

section \<open>Trees\<close>

datatype cstree = CSNode (csroot: nat) "cstree list"

fun tree_nodes :: "cstree \<Rightarrow> nat list" where
  "tree_nodes (CSNode a ts) = a # concat (map tree_nodes ts)"

abbreviation forest_nodes :: "cstree list \<Rightarrow> nat list" where
  "forest_nodes ts \<equiv> concat (map tree_nodes ts)"

text \<open>The list of siblings from the pointer \<open>p\<close>, children of \<open>par\<close>, is the forest.\<close>

fun sibs :: "csheap \<Rightarrow> nat option \<Rightarrow> nat option \<Rightarrow> cstree list \<Rightarrow> bool" where
  "sibs h par p [] \<longleftrightarrow> p = None"
| "sibs h par p (CSNode a ts # us) \<longleftrightarrow>
     p = Some a \<and> (case h a of None \<Rightarrow> False
       | Some n \<Rightarrow> cn_parent n = par \<and> sibs h (Some a) (cn_children n) ts \<and> sibs h par (cn_next n) us)"

definition universe :: "csheap \<Rightarrow> cstree \<Rightarrow> bool" where
  "universe h t \<longleftrightarrow> sibs h None (Some (csroot t)) [t] \<and> distinct (tree_nodes t)"

text \<open>A place in a tree: the ancestors from the parent on, each with the siblings on both sides of the way.\<close>

type_synonym csplace = "(nat \<times> cstree list \<times> cstree list) list"

fun plug :: "csplace \<Rightarrow> cstree \<Rightarrow> cstree" where
  "plug [] s = s"
| "plug ((b, ls, rs) # ctx) s = plug ctx (CSNode b (ls @ s # rs))"

lemma csroot_in [simp]: "csroot t \<in> set (tree_nodes t)"
  by (cases t) simp

lemma plug_append: "plug (ctx @ ctx') s = plug ctx' (plug ctx s)"
  by (induction ctx s rule: plug.induct) auto

lemma node_place: "c \<in> set (tree_nodes s) \<Longrightarrow> \<exists>ctx ts. s = plug ctx (CSNode c ts)"
proof (induction s rule: tree_nodes.induct)
  case (1 a ts)
  show ?case
  proof (cases "c = a")
    case True
    then have "CSNode a ts = plug [] (CSNode c ts)" by simp
    then show ?thesis by blast
  next
    case False
    then obtain u where u: "u \<in> set ts" "c \<in> set (tree_nodes u)" using 1(2) by auto
    then obtain ls rs where ts: "ts = ls @ u # rs" by (meson split_list)
    obtain ctx us where "u = plug ctx (CSNode c us)" using "1.IH" u by blast
    then have "CSNode a ts = plug (ctx @ [(a, ls, rs)]) (CSNode c us)" by (simp add: plug_append ts)
    then show ?thesis by blast
  qed
qed

lemma nodes_plug: "set (tree_nodes s) \<subseteq> set (tree_nodes (plug ctx s))"
  by (induction ctx s rule: plug.induct) auto

lemma distinct_plug: "distinct (tree_nodes (plug ctx s)) \<Longrightarrow> distinct (tree_nodes s)"
  by (induction ctx s rule: plug.induct) auto

lemma sibs_member:
  "sibs h par p (ls @ CSNode a ts # rs) \<Longrightarrow>
     \<exists>n. h a = Some n \<and> cn_parent n = par \<and> sibs h (Some a) (cn_children n) ts"
proof (induction ls arbitrary: p)
  case (Cons u ls)
  then show ?case by (cases u) (auto split: option.splits)
qed (auto split: option.splits)

text \<open>What the heap has at a place of a universe.\<close>

definition place_parent :: "csplace \<Rightarrow> nat option" where
  "place_parent ctx = (case ctx of [] \<Rightarrow> None | (b, ls, rs) # _ \<Rightarrow> Some b)"

lemma universe_node:
  "universe h (plug ctx (CSNode a ts)) \<Longrightarrow>
     \<exists>n. h a = Some n \<and> cn_parent n = place_parent ctx \<and> sibs h (Some a) (cn_children n) ts"
proof (induction ctx arbitrary: a ts)
  case Nil
  then show ?case by (auto simp: universe_def place_parent_def split: option.splits)
next
  case (Cons x ctx)
  obtain b ls rs where x: "x = (b, ls, rs)" by (cases x)
  then obtain m where "h b = Some m" "sibs h (Some b) (cn_children m) (ls @ CSNode a ts # rs)" using Cons.IH [of b "ls @ CSNode a ts # rs"] Cons.prems by auto
  then show ?case using sibs_member by (fastforce simp: x place_parent_def)
qed

lemma universe_distinct: "universe h (plug ctx s) \<Longrightarrow> distinct (tree_nodes s)"
  unfolding universe_def by (blast intro: distinct_plug)

lemma forest_induct [case_names Nil Cons]:
  assumes "P []" "\<And>a ts us. P ts \<Longrightarrow> P us \<Longrightarrow> P (CSNode a ts # us)"
  shows "P us"
  using assms by induction_schema (pat_completeness, lexicographic_order)

section \<open>The search\<close>

text \<open>The value that \<open>find_child\<close> computes, on the forest itself.\<close>

fun seek :: "(csnode \<Rightarrow> 'v \<Rightarrow> 'v) \<Rightarrow> csheap \<Rightarrow> nat \<Rightarrow> nat option \<Rightarrow> cstree list \<Rightarrow> 'v \<Rightarrow> 'v option" where
  "seek down h ret skip [] src = None"
| "seek down h ret skip (CSNode a ts # us) src =
     (if skip = Some a then seek down h ret skip us src
      else if ret = a then Some (down (the (h a)) src)
      else (case seek down h ret None ts (down (the (h a)) src) of
              Some v \<Rightarrow> Some v
            | None \<Rightarrow> seek down h ret skip us src))"

lemma find_child_seek: "sibs h par p ts \<Longrightarrow> find_child down h ret skip p src = Some (seek down h ret skip ts src)"
proof (induction down h ret skip ts src arbitrary: par p rule: seek.induct)
  case 1
  then show ?case by (simp add: find_child.simps)
next
  case (2 down h ret skip a ts us src)
  then obtain n where n: "p = Some a" "h a = Some n" "sibs h (Some a) (cn_children n) ts" "sibs h par (cn_next n) us"
    by (auto split: option.splits)
  then show ?case using "2.IH"(1) [OF _ n(4)] "2.IH"(2) [OF _ _ n(3)] "2.IH"(3) [OF _ _ _ n(4)]
    by (subst find_child.simps) (auto split: option.split)
qed

lemma seek_complete:
  "ret \<in> set (forest_nodes [t \<leftarrow> ts. skip \<noteq> Some (csroot t)]) \<Longrightarrow> seek down h ret skip ts src \<noteq> None"
proof (induction ts arbitrary: skip src rule: forest_induct)
  case (Cons a ts us)
  show ?case
  proof (cases "skip = Some a \<or> ret = a")
    case True
    then show ?thesis using Cons.IH(2) [of skip src] Cons.prems by (cases "skip = Some a") auto
  next
    case False
    have all: "[t \<leftarrow> ts. None \<noteq> Some (csroot t)] = ts" by (simp add: filter_id_conv)
    show ?thesis
    proof (cases "ret \<in> set (forest_nodes ts)")
      case True
      then show ?thesis using Cons.IH(1) [of None "down (the (h a)) src"] all False by auto
    next
      case no: False
      then show ?thesis using Cons.IH(2) [of skip src] Cons.prems False by (auto split: option.split)
    qed
  qed
qed simp

text \<open>A value of a node is taken to the root.\<close>

partial_function (option) to_root :: "(csnode \<Rightarrow> 'v \<Rightarrow> 'v) \<Rightarrow> csheap \<Rightarrow> nat \<Rightarrow> 'v \<Rightarrow> 'v option" where
  "to_root up h c v =
     (case h c of
        None \<Rightarrow> None
      | Some n \<Rightarrow> (case cn_parent n of None \<Rightarrow> Some v | Some p \<Rightarrow> to_root up h p (up n v)))"

lemma to_root_step: "h c = Some n \<Longrightarrow> cn_parent n = Some p \<Longrightarrow> to_root up h c v = to_root up h p (up n v)"
  by (subst to_root.simps) simp

lemma to_root_total: "universe h (plug ctx (CSNode c ts)) \<Longrightarrow> \<exists>w. to_root up h c v = Some w"
proof (induction ctx arbitrary: c ts v)
  case Nil
  then show ?case using universe_node [OF Nil] by (subst to_root.simps) (auto simp: place_parent_def)
next
  case (Cons x ctx)
  obtain b ls rs where x: "x = (b, ls, rs)" by (cases x)
  obtain n where "h c = Some n" "cn_parent n = Some b" using universe_node [OF Cons.prems] by (auto simp: place_parent_def x)
  then show ?case using Cons.IH [of b] Cons.prems by (simp add: x to_root_step)
qed

text \<open>
  The interface of a kind of value: going down into a node and up again changes nothing, at least in
  the nodes that are \<open>good\<close>.
\<close>

locale frames =
  fixes up :: "csnode \<Rightarrow> 'v \<Rightarrow> 'v" and down :: "csnode \<Rightarrow> 'v \<Rightarrow> 'v" and good :: "csnode \<Rightarrow> bool"
  assumes up_down: "good n \<Longrightarrow> up n (down n v) = v"
begin

lemma seek_root:
  "sibs h (Some a) p ts \<Longrightarrow> (\<And>x. x \<in> set (forest_nodes ts) \<Longrightarrow> good (the (h x))) \<Longrightarrow>
     seek down h ret skip ts src = Some v \<Longrightarrow> to_root up h ret v = to_root up h a src"
proof (induction ts arbitrary: a p skip src v rule: forest_induct)
  case (Cons b ts us)
  then obtain n where n: "h b = Some n" "cn_parent n = Some a" "sibs h (Some b) (cn_children n) ts" "sibs h (Some a) (cn_next n) us"
    by (auto split: option.splits)
  have g: "good n" using Cons.prems(2) [of b] n(1) by simp
  have here: "to_root up h b (down n src) = to_root up h a src"
    using to_root_step [of h b n a up "down n src"] n(1,2) up_down [OF g] by simp
  have rest: "seek down h ret skip us src = Some v \<Longrightarrow> ?case" using Cons.IH(2) [OF n(4)] Cons.prems(2) by auto
  show ?case
  proof (cases "skip = Some b \<or> ret = b")
    case True
    then show ?thesis using Cons.prems(3) n(1) here rest by (auto split: if_splits)
  next
    case False
    show ?thesis
    proof (cases "seek down h ret None ts (down n src)")
      case None
      then show ?thesis using False rest Cons.prems(3) n(1) by auto
    next
      case (Some w)
      then have "to_root up h ret w = to_root up h b (down n src)" using Cons.IH(1) [OF n(3)] Cons.prems(2) by auto
      then show ?thesis using here Some False Cons.prems(3) n(1) by auto
    qed
  qed
qed simp

lemma find_parent_root:
  "universe h (plug ctx s) \<Longrightarrow> ret \<in> set (tree_nodes (plug ctx s)) \<Longrightarrow> ret \<notin> set (tree_nodes s) \<Longrightarrow>
     \<exists>v. find_parent up down h ret src (csroot s) = Some (Some v)
       \<and> ((\<forall>x \<in> set (tree_nodes (plug ctx s)). good (the (h x))) \<longrightarrow> to_root up h ret v = to_root up h (csroot s) src)"
proof (induction ctx arbitrary: s src)
  case (Cons x ctx)
  obtain b ls rs where x: "x = (b, ls, rs)" by (cases x)
  obtain c ts where s: "s = CSNode c ts" by (cases s)
  let ?t = "CSNode b (ls @ s # rs)"
  have u: "universe h (plug ctx ?t)" using Cons.prems(1) by (simp add: x)
  obtain n where n: "h c = Some n" "cn_parent n = Some b"
    using universe_node [of h "x # ctx" c ts] Cons.prems(1) by (auto simp: s x place_parent_def)
  obtain m where m: "h b = Some m" "sibs h (Some b) (cn_children m) (ls @ s # rs)" using universe_node [OF u] by blast
  have step: "to_root up h c src = to_root up h b (up n src)" using to_root_step [of h c n b up src] n by simp
  show ?case
  proof (cases "b = ret")
    case True
    then have "find_parent up down h ret src c = Some (Some (up n src))" using n by (subst find_parent.simps) simp
    then show ?thesis using step True by (simp add: s)
  next
    case False
    note fc = find_child_seek [OF m(2), of "down" ret "Some c" "up n src"]
    have nodes: "set (forest_nodes (ls @ s # rs)) \<subseteq> set (tree_nodes (plug ctx ?t))" using nodes_plug [of ?t ctx] by auto
    show ?thesis
    proof (cases "seek down h ret (Some c) (ls @ s # rs) (up n src)")
      case (Some v)
      then have "find_parent up down h ret src c = Some (Some v)" using n m False fc by (subst find_parent.simps) simp
      moreover have "to_root up h ret v = to_root up h b (up n src)" if "\<forall>y \<in> set (tree_nodes (plug (x # ctx) s)). good (the (h y))"
        by (rule seek_root [OF m(2) _ Some]) (use that nodes in \<open>unfold x plug.simps, blast\<close>)
      ultimately show ?thesis using step by (simp add: s)
    next
      case None
      have d: "distinct (tree_nodes ?t)" using universe_distinct [OF u] .
      have "[t \<leftarrow> ls @ s # rs. Some c \<noteq> Some (csroot t)] = ls @ rs"
      proof -
        have "csroot t \<noteq> c" if "t \<in> set ls \<union> set rs" for t
          using d that by (auto simp: s)
        then have "[t \<leftarrow> ls. c \<noteq> csroot t] = ls" "[t \<leftarrow> rs. c \<noteq> csroot t] = rs" by (auto simp: filter_id_conv)
        then show ?thesis by (simp add: s)
      qed
      then have "ret \<notin> set (forest_nodes (ls @ rs))" using seek_complete [where ret = ret and ts = "ls @ s # rs" and skip = "Some c"] None by metis
      then have "ret \<notin> set (tree_nodes ?t)" using Cons.prems(3) False by auto
      then obtain v where v: "find_parent up down h ret (up n src) b = Some (Some v)"
          "(\<forall>x \<in> set (tree_nodes (plug ctx ?t)). good (the (h x))) \<longrightarrow> to_root up h ret v = to_root up h b (up n src)"
        using Cons.IH [OF u, of "up n src"] Cons.prems by (auto simp: x)
      then have "find_parent up down h ret src c = Some (Some v)" using n m False fc None by (subst find_parent.simps) simp
      then show ?thesis using v step by (simp add: s x)
    qed
  qed
qed simp

text \<open>A conversion returns the value that is the same at the root.\<close>

lemma to_cs_root:
  assumes u: "universe h t" and nodes: "this \<in> set (tree_nodes t)" "cs \<in> set (tree_nodes t)"
  shows "\<exists>v. to_cs up down h this src cs = Some v
     \<and> ((\<forall>x \<in> set (tree_nodes t). good (the (h x))) \<longrightarrow> to_root up h this v = to_root up h cs src)"
proof (cases "cs = this")
  case True
  then show ?thesis by (simp add: to_cs_def)
next
  case False
  obtain ctx ts where t: "t = plug ctx (CSNode cs ts)" using node_place [OF nodes(2)] by blast
  obtain n where n: "h cs = Some n" "sibs h (Some cs) (cn_children n) ts" using universe_node u t by blast
  have sub: "set (forest_nodes ts) \<subseteq> set (tree_nodes t)" using nodes_plug [of "CSNode cs ts" ctx] by (simp add: t)
  note fc = find_child_seek [OF n(2), of "down" this None src]
  show ?thesis
  proof (cases "seek down h this None ts src")
    case (Some v)
    have "to_root up h this v = to_root up h cs src" if "\<forall>x \<in> set (tree_nodes t). good (the (h x))"
      by (rule seek_root [OF n(2) _ Some]) (use that sub in blast)
    then show ?thesis using Some False n(1) fc by (simp add: to_cs_def)
  next
    case None
    have "[t \<leftarrow> ts. None \<noteq> Some (csroot t)] = ts" by (simp add: filter_id_conv)
    then have "this \<notin> set (forest_nodes ts)" using seek_complete [where ret = this and ts = ts and skip = None] None by metis
    then have "this \<notin> set (tree_nodes (CSNode cs ts))" using False by simp
    then show ?thesis
      using find_parent_root [of h ctx "CSNode cs ts" this src] u nodes None n(1) fc False
      by (auto simp: to_cs_def t)
  qed
qed

end

section \<open>Rotations\<close>

definition unit_node :: "csnode \<Rightarrow> bool" where "unit_node n \<longleftrightarrow> Quat_slen (cn_rot n) = 1"

interpretation positions: frames pos_up pos_down unit_node
  by unfold_locales (simp add: pos_up_def pos_down_def unit_node_def trans_itrans)

interpretation directions: frames dir_up dir_down unit_node
  by unfold_locales (simp add: dir_up_def dir_down_def unit_node_def trans_itrans)

interpretation rotations: frames rot_up rot_down unit_node
  by unfold_locales (simp add: rot_up_def rot_down_def unit_node_def Quat_imul_def Quat_mul_assoc Quat_mul_cnj)

text \<open>A conversion always returns, of whatever kind.\<close>

interpretation anything: frames up down "\<lambda>_. False" for up down
  by unfold_locales simp

text \<open>Velocities are an instance only where nothing rotates.\<close>

interpretation velocities: frames vel_up vel_down "\<lambda>n. unit_node n \<and> cn_omg n = 0"
proof
  fix n and vp :: "real Vec3 \<times> real Vec3" assume n: "unit_node n \<and> cn_omg n = 0"
  obtain v p where vp: "vp = (v, p)" by (cases vp)
  have z: "Vec3_vp 0 w = 0" "Quat_itrans q 0 = 0" for w :: "real Vec3" and q
    by (cases w; cases q; simp add: zero_Vec3_def Vec3_zero_def Quat_itrans_def Quat_trans_def)+
  show "vel_up n (vel_down n vp) = vp"
    using n by (simp add: vp vel_up_def vel_down_def z unit_node_def trans_itrans)
qed

text \<open>Otherwise the way down subtracts the velocity of rotation in the coordinates of the child from one in
  those of the parent: a point at rest in a rotating child is not at rest when its velocity is converted
  up and down again.\<close>

lemma vel_down_mixes:
  "vel_down (csnode_blank\<lparr>cn_rot := Quat 0 0 1 0, cn_omg := Vec3 1 0 0\<rparr>)
     (vel_up (csnode_blank\<lparr>cn_rot := Quat 0 0 1 0, cn_omg := Vec3 1 0 0\<rparr>) (Vec3 0 0 0, Vec3 0 0 1)) = (Vec3 0 2 0, Vec3 0 0 1)"
  by (simp add: vel_down_def vel_up_def csnode_blank_def Quat_trans_def Quat_itrans_def zero_Vec3_def Vec3_zero_def plus_Vec3_def
      minus_Vec3_def Vec3_sub_def)

section \<open>Conversions\<close>

text \<open>A universe whose nodes are rotated by unit quaternions.\<close>

definition universe_ok :: "csheap \<Rightarrow> cstree \<Rightarrow> bool" where
  "universe_ok h t \<longleftrightarrow> universe h t \<and> (\<forall>x \<in> set (tree_nodes t). unit_node (the (h x)))"

text \<open>What a node's coordinates are at the root: a rotation and a translation.\<close>

lemma absolute_frame:
  "universe h (plug ctx (CSNode c ts)) \<Longrightarrow> (\<And>x. x \<in> set (tree_nodes (plug ctx (CSNode c ts))) \<Longrightarrow> unit_node (the (h x))) \<Longrightarrow>
     \<exists>R T. Quat_slen R = 1 \<and> (\<forall>v. to_root pos_up h c v = Some (Quat_trans R v + T))
       \<and> (\<forall>v. to_root dir_up h c v = Some (Quat_trans R v)) \<and> (\<forall>q. to_root rot_up h c q = Some (Quat_mul q (Quat_cnj R)))"
proof (induction ctx arbitrary: c ts)
  case Nil
  obtain n where n: "h c = Some n" "cn_parent n = None" using universe_node [OF Nil(1)] by (auto simp: place_parent_def)
  have "Quat_slen (Quat 0 0 0 (1 :: real)) = 1 \<and> (\<forall>v. to_root pos_up h c v = Some (Quat_trans (Quat 0 0 0 1) v + 0))
      \<and> (\<forall>v. to_root dir_up h c v = Some (Quat_trans (Quat 0 0 0 1) v))
      \<and> (\<forall>q. to_root rot_up h c q = Some (Quat_mul q (Quat_cnj (Quat 0 0 0 1))))"
    by (intro conjI allI; simp?; subst to_root.simps; simp add: n)
  then show ?case by blast
next
  case (Cons x ctx)
  obtain b ls rs where x: "x = (b, ls, rs)" by (cases x)
  obtain n where n: "h c = Some n" "cn_parent n = Some b" using universe_node [OF Cons.prems(1)] by (auto simp: place_parent_def x)
  have "c \<in> set (tree_nodes (plug (x # ctx) (CSNode c ts)))" using nodes_plug [of "CSNode c ts" "x # ctx"] by auto
  then have unit: "Quat_slen (cn_rot n) = 1" using Cons.prems(2) n(1) by (force simp: unit_node_def)
  obtain R T where RT: "Quat_slen R = 1" "\<And>v. to_root pos_up h b v = Some (Quat_trans R v + T)"
      "\<And>v. to_root dir_up h b v = Some (Quat_trans R v)" "\<And>q. to_root rot_up h b q = Some (Quat_mul q (Quat_cnj R))"
    using Cons.IH [of b "ls @ CSNode c ts # rs"] Cons.prems by (auto simp: x)
  let ?R = "Quat_mul R (cn_rot n)" and ?T = "Quat_trans R (cn_pos n) + T"
  have "Quat_slen ?R = 1" using RT(1) unit by (simp add: Quat_slen_mul)
  moreover have "to_root pos_up h c v = Some (Quat_trans ?R v + ?T)" for v
    using to_root_step [of h c n b pos_up v] n RT(2) by (simp add: pos_up_def Quat_trans_mul Quat_trans_add add.assoc)
  moreover have "to_root dir_up h c v = Some (Quat_trans ?R v)" for v
    using to_root_step [of h c n b dir_up v] n RT(3) by (simp add: dir_up_def Quat_trans_mul)
  moreover have "to_root rot_up h c q = Some (Quat_mul q (Quat_cnj ?R))" for q
    using to_root_step [of h c n b rot_up q] n RT(4) by (simp add: rot_up_def Quat_imul_def Quat_cnj_mul Quat_mul_assoc)
  ultimately show ?case by blast
qed

lemma absolute:
  assumes "universe_ok h t" "c \<in> set (tree_nodes t)"
  obtains R T where "Quat_slen R = 1" "\<And>v. to_root pos_up h c v = Some (Quat_trans R v + T)"
    "\<And>v. to_root dir_up h c v = Some (Quat_trans R v)" "\<And>q. to_root rot_up h c q = Some (Quat_mul q (Quat_cnj R))"
proof -
  obtain ctx ts where t: "t = plug ctx (CSNode c ts)" using node_place [OF assms(2)] by blast
  then show thesis using absolute_frame [of h ctx c ts] assms(1) that unfolding universe_ok_def t by blast
qed

lemma to_root_inj:
  assumes "universe_ok h t" "c \<in> set (tree_nodes t)"
  shows "to_root pos_up h c v = to_root pos_up h c w \<longleftrightarrow> v = w" "to_root dir_up h c v = to_root dir_up h c w \<longleftrightarrow> v = w"
proof -
  obtain R T where "Quat_slen R = 1" "\<And>v. to_root pos_up h c v = Some (Quat_trans R v + T)"
      "\<And>v. to_root dir_up h c v = Some (Quat_trans R v)"
    using absolute [OF assms] by metis
  then show "to_root pos_up h c v = to_root pos_up h c w \<longleftrightarrow> v = w" "to_root dir_up h c v = to_root dir_up h c w \<longleftrightarrow> v = w"
    by (simp_all add: Quat_trans_inj)
qed

text \<open>C4: a conversion between two coordinate systems of a universe finds its way, whichever of them lies above
  the other or neither, and returns the same place, or the same direction with \<open>delta\<close>: both are equal in
  the coordinates of the root, and converting back gives the argument again.\<close>

theorem tocs_correct:
  assumes "universe_ok h t" "this \<in> set (tree_nodes t)" "cs \<in> set (tree_nodes t)"
  shows "\<exists>v. tocs h this src cs delta = Some v
     \<and> to_root (if delta then dir_up else pos_up) h this v = to_root (if delta then dir_up else pos_up) h cs src
     \<and> tocs h cs v this delta = Some src"
proof -
  have one: "\<exists>v. tocs h a w b delta = Some v
      \<and> to_root (if delta then dir_up else pos_up) h a v = to_root (if delta then dir_up else pos_up) h b w"
    if "a \<in> set (tree_nodes t)" "b \<in> set (tree_nodes t)" for a b w
    using that positions.to_cs_root [of h t a b w] directions.to_cs_root [of h t a b w] assms(1)
    by (auto simp: tocs_def universe_ok_def)
  obtain v where v: "tocs h this src cs delta = Some v"
      "to_root (if delta then dir_up else pos_up) h this v = to_root (if delta then dir_up else pos_up) h cs src"
    using one [OF assms(2,3)] by blast
  obtain w where w: "tocs h cs v this delta = Some w"
      "to_root (if delta then dir_up else pos_up) h cs w = to_root (if delta then dir_up else pos_up) h this v"
    using one [OF assms(3,2)] by blast
  have "to_root (if delta then dir_up else pos_up) h cs w = to_root (if delta then dir_up else pos_up) h cs src"
    using v(2) w(2) by simp
  then have "w = src" using to_root_inj [OF assms(1,3), of w src] by (cases delta) simp_all
  then show ?thesis using v w by blast
qed

text \<open>C29: the quaternion that \<open>this->tocsq(cs)\<close> returns is of unit length and turns directions of this
  coordinate system into those of \<open>cs\<close>, as \<open>cs->tocs(..., this, true)\<close> does; so do the matrices of
  \<open>this->tocsm(cs)\<close> and of \<open>cs->tocsim(this)\<close>.\<close>

theorem tocsq_correct:
  assumes "universe_ok h t" "this \<in> set (tree_nodes t)" "cs \<in> set (tree_nodes t)"
  shows "\<exists>q. tocsq h this cs = Some q \<and> Quat_slen q = 1 \<and> tocs h cs v this True = Some (Quat_trans q v)
     \<and> (\<exists>m. tocsm h this cs = Some m \<and> tocsim h cs this = Some m \<and> Mat4_vp3 m v = Quat_trans q v)"
proof -
  obtain q where q: "tocsq h this cs = Some q" "to_root rot_up h this q = to_root rot_up h cs quat_u"
    using rotations.to_cs_root [of h t this cs quat_u] assms by (auto simp: tocsq_def universe_ok_def)
  obtain w where w: "tocs h cs v this True = Some w" "to_root dir_up h cs w = to_root dir_up h this v"
    using directions.to_cs_root [of h t cs this v] assms by (auto simp: tocs_def universe_ok_def)
  obtain A T where A: "Quat_slen A = 1" "\<And>v. to_root pos_up h this v = Some (Quat_trans A v + T)"
      "\<And>v. to_root dir_up h this v = Some (Quat_trans A v)"
      "\<And>q. to_root rot_up h this q = Some (Quat_mul q (Quat_cnj A))" using absolute [OF assms(1,2)] by metis
  obtain B U where B: "Quat_slen B = 1" "\<And>v. to_root pos_up h cs v = Some (Quat_trans B v + U)"
      "\<And>v. to_root dir_up h cs v = Some (Quat_trans B v)"
      "\<And>q. to_root rot_up h cs q = Some (Quat_mul q (Quat_cnj B))" using absolute [OF assms(1,3)] by metis
  have "Quat_mul q (Quat_cnj A) = Quat_cnj B" using q(2) A(4) B(4) by (simp add: quat_u_def)
  then have "Quat_mul (Quat_mul q (Quat_cnj A)) A = Quat_mul (Quat_cnj B) A" by simp
  then have qAB: "q = Quat_mul (Quat_cnj B) A" using A(1) by (simp add: Quat_mul_assoc Quat_mul_cnj)
  have "Quat_trans B w = Quat_trans A v" using w(2) A(3) B(3) by simp
  then have "w = Quat_itrans B (Quat_trans A v)" using trans_itrans [OF B(1)] by metis
  then have "w = Quat_trans q v" by (simp add: qAB Quat_trans_mul Quat_itrans_def)
  moreover have "Quat_slen q = 1" using A(1) B(1) by (simp add: qAB Quat_slen_mul)
  ultimately show ?thesis using q(1) w(1) by (simp add: tocsm_def tocsim_def Quat_tomat4_trans)
qed

section \<open>An example\<close>

text \<open>A root with two children, of which the first is turned and has a child of its own.\<close>

definition sample_heap :: csheap where
  "sample_heap =
     [0 \<mapsto> csnode_blank\<lparr>cn_children := Some 1\<rparr>,
      1 \<mapsto> csnode_blank\<lparr>cn_pos := Vec3 1 0 0, cn_rot := Quat 0 0 (3/5) (4/5), cn_parent := Some 0, cn_name := [97],
        cn_next := Some 2, cn_children := Some 3\<rparr>,
      2 \<mapsto> csnode_blank\<lparr>cn_pos := Vec3 0 5 0, cn_parent := Some 0, cn_name := [98]\<rparr>,
      3 \<mapsto> csnode_blank\<lparr>cn_pos := Vec3 0 0 2, cn_parent := Some 1, cn_name := [99]\<rparr>]"

definition sample_tree :: cstree where
  "sample_tree = CSNode 0 [CSNode 1 [CSNode 3 []], CSNode 2 []]"

lemma sample_ok: "universe_ok sample_heap sample_tree"
  by (simp add: universe_ok_def universe_def sample_heap_def sample_tree_def csnode_blank_def unit_node_def quat_u_def)

lemma sample_nodes: "set (tree_nodes sample_tree) = {0, 1, 2, 3}"
  by (auto simp: sample_tree_def)

theorem tocs_correct_witness:
  "\<exists>v. tocs sample_heap 3 (Vec3 1 2 3) 2 False = Some v \<and> tocs sample_heap 2 v 3 False = Some (Vec3 1 2 3)"
  using tocs_correct [OF sample_ok, of 3 2 "Vec3 1 2 3" False] sample_nodes by auto

theorem tocsq_correct_witness:
  "\<exists>q. tocsq sample_heap 3 2 = Some q \<and> Quat_slen q = 1 \<and> tocs sample_heap 2 (Vec3 1 2 3) 3 True = Some (Quat_trans q (Vec3 1 2 3))"
  using tocsq_correct [OF sample_ok, of 3 2 "Vec3 1 2 3"] sample_nodes by auto

end
