(* ===== verification/Coordsys_Adopt.thy ===== *)
theory Coordsys_Adopt
  imports Coordsys_Correct "HOL-Library.Multiset"
begin

text \<open>
  Adoption: a coordinate system that gets another parent keeps its place.  The pointers are those of the
  tree with the branch moved, and every node of it, the adopted ones and what is below them
  included, has the same coordinates at the root as before.
\<close>

section \<open>Changing a part of a tree\<close>

definition cslinks :: "csheap \<Rightarrow> nat \<Rightarrow> (nat option \<times> nat option \<times> nat option) option" where
  "cslinks h x = map_option (\<lambda>n. (cn_parent n, cn_next n, cn_children n)) (h x)"

lemma sibs_cong: "sibs h par p ts \<Longrightarrow> (\<And>x. x \<in> set (forest_nodes ts) \<Longrightarrow> cslinks h' x = cslinks h x) \<Longrightarrow> sibs h' par p ts"
proof (induction ts arbitrary: par p rule: forest_induct)
  case (Cons a ts us)
  obtain n where n: "p = Some a" "h a = Some n" "cn_parent n = par" "sibs h (Some a) (cn_children n) ts" "sibs h par (cn_next n) us"
    using Cons.prems(1) by (auto split: option.splits)
  have "cslinks h' a = cslinks h a" using Cons.prems(2) by simp
  then obtain m where "h' a = Some m" "cn_parent m = par" "cn_children m = cn_children n" "cn_next m = cn_next n"
    using n by (auto simp: cslinks_def)
  moreover have "sibs h' (Some a) (cn_children n) ts" using Cons.IH(1) [OF n(4)] Cons.prems(2) by simp
  moreover have "sibs h' par (cn_next n) us" using Cons.IH(2) [OF n(5)] Cons.prems(2) by simp
  ultimately show ?case using n(1) by simp
qed simp

text \<open>The nodes around a place.\<close>

definition place_nodes :: "csplace \<Rightarrow> nat multiset" where
  "place_nodes ctx = sum_list (map (\<lambda>(b, ls, rs). {#b#} + mset (forest_nodes ls) + mset (forest_nodes rs)) ctx)"

lemma mset_plug: "mset (tree_nodes (plug ctx s)) = mset (tree_nodes s) + place_nodes ctx"
  by (induction ctx s rule: plug.induct) (simp_all add: place_nodes_def)

lemma distinct_mset: "distinct xs \<longleftrightarrow> (\<forall>x. count (mset xs) x \<le> 1)"
proof
  assume "distinct xs"
  then show "\<forall>x. count (mset xs) x \<le> 1" by (simp add: distinct_count_atmost_1)
next
  assume c: "\<forall>x. count (mset xs) x \<le> 1"
  have "count (mset xs) x = (if x \<in> set xs then 1 else 0)" for x
    using c [rule_format, of x] count_greater_zero_iff [of "mset xs" x] by (cases "count (mset xs) x") auto
  then show "distinct xs" by (simp add: distinct_count_atmost_1)
qed

lemma distinct_subset: "mset ys \<subseteq># mset xs \<Longrightarrow> distinct xs \<Longrightarrow> distinct ys"
  unfolding distinct_mset by (meson mset_subset_eq_count le_trans)

lemma place_outside:
  assumes d: "distinct (tree_nodes (plug ctx s))" and y: "y \<in># place_nodes ctx"
  shows "y \<notin> set (tree_nodes s)"
proof
  assume "y \<in> set (tree_nodes s)"
  then have "y \<in># mset (tree_nodes s)" by simp
  then have "1 \<le> count (mset (tree_nodes s)) y" "1 \<le> count (place_nodes ctx) y" using y by (simp_all only: count_greater_eq_one_iff)
  moreover have "count (mset (tree_nodes s) + place_nodes ctx) y \<le> 1" using d unfolding distinct_mset mset_plug by blast
  ultimately show False unfolding count_union by linarith
qed

lemma disjoint_parts:
  assumes "distinct xs" "mset xs = mset ys + mset zs"
  shows "set ys \<inter> set zs = {}"
proof -
  have "distinct (ys @ zs)" by (rule distinct_subset [OF _ assms(1)]) (simp add: assms(2))
  then show ?thesis by simp
qed

lemma sibs_replace:
  "sibs h par p (ls @ CSNode a us # rs) \<Longrightarrow> distinct (forest_nodes (ls @ CSNode a us # rs)) \<Longrightarrow>
   (\<And>x. x \<in> set (forest_nodes (ls @ rs)) \<Longrightarrow> cslinks h' x = cslinks h x) \<Longrightarrow>
   h a = Some n \<Longrightarrow> h' a = Some n' \<Longrightarrow> cn_parent n' = cn_parent n \<Longrightarrow> cn_next n' = cn_next n \<Longrightarrow>
   sibs h' (Some a) (cn_children n') us' \<Longrightarrow> sibs h' par p (ls @ CSNode a us' # rs)"
proof (induction ls arbitrary: p)
  case Nil
  then have "sibs h par (cn_next n) rs" by simp
  then have "sibs h' par (cn_next n) rs" by (rule sibs_cong) (use Nil.prems(3) in simp)
  then show ?case using Nil by simp
next
  case (Cons u ls)
  obtain b vs where u: "u = CSNode b vs" by (cases u)
  obtain k where k: "p = Some b" "h b = Some k" "cn_parent k = par" "sibs h (Some b) (cn_children k) vs"
      "sibs h par (cn_next k) (ls @ CSNode a us # rs)" using Cons.prems(1) by (auto simp: u split: option.splits)
  have "cslinks h' b = cslinks h b" using Cons.prems(3) by (simp add: u)
  then obtain k' where k': "h' b = Some k'" "cn_parent k' = par" "cn_children k' = cn_children k" "cn_next k' = cn_next k"
    using k by (auto simp: cslinks_def)
  have "sibs h' (Some b) (cn_children k) vs" using k(4) by (rule sibs_cong) (use Cons.prems(3) in \<open>simp add: u\<close>)
  moreover have "sibs h' par (cn_next k) (ls @ CSNode a us' # rs)"
    using Cons.IH [OF k(5)] Cons.prems by (simp add: u)
  ultimately show ?case using k(1) k' by (simp add: u)
qed

lemma universe_replace:
  assumes "universe h (plug ctx (CSNode a us))"
    and "\<And>x. x \<in># place_nodes ctx \<Longrightarrow> cslinks h' x = cslinks h x"
    and "h a = Some n" "h' a = Some n'" "cn_parent n' = cn_parent n" "cn_next n' = cn_next n"
    and "sibs h' (Some a) (cn_children n') us'" "distinct (tree_nodes (plug ctx (CSNode a us')))"
  shows "universe h' (plug ctx (CSNode a us'))"
  using assms
proof (induction ctx arbitrary: a us us' n n')
  case Nil
  then show ?case by (simp add: universe_def)
next
  case (Cons x ctx)
  obtain b ls rs where x: "x = (b, ls, rs)" by (cases x)
  let ?us = "ls @ CSNode a us # rs" and ?us' = "ls @ CSNode a us' # rs"
  have u: "universe h (plug ctx (CSNode b ?us))" using Cons.prems(1) by (simp add: x)
  obtain m where m: "h b = Some m" "sibs h (Some b) (cn_children m) ?us" using universe_node [OF u] by blast
  have same: "cslinks h' y = cslinks h y" if "y = b \<or> y \<in> set (forest_nodes (ls @ rs)) \<or> y \<in># place_nodes ctx" for y
    using Cons.prems(2) [of y] that by (auto simp: x place_nodes_def)
  obtain m' where m': "h' b = Some m'" "cn_parent m' = cn_parent m" "cn_next m' = cn_next m" "cn_children m' = cn_children m"
    using same [of b] m(1) by (auto simp: cslinks_def)
  have "distinct (forest_nodes ?us)" using universe_distinct [OF u] by simp
  then have "sibs h' (Some b) (cn_children m') ?us'"
    using sibs_replace [OF m(2) _ _ Cons.prems(3-7)] same m'(4) by simp
  then show ?case using Cons.IH [OF u _ m(1) m'(1-3)] same Cons.prems(8) by (simp add: x)
qed

section \<open>Leaving a family\<close>

lemma find_link_sibs:
  "sibs h par p (ls @ CSNode c ts # rs) \<Longrightarrow> c \<notin> set (forest_nodes ls) \<Longrightarrow> cslink_get h l = Some p \<Longrightarrow>
     find_link h c l = Some (Some (if ls = [] then l else Next (csroot (last ls))))"
proof (induction ls arbitrary: p l)
  case Nil
  then show ?case by (subst find_link.simps) simp
next
  case (Cons u ls)
  obtain b vs where u: "u = CSNode b vs" by (cases u)
  obtain k where k: "p = Some b" "h b = Some k" "sibs h par (cn_next k) (ls @ CSNode c ts # rs)"
    using Cons.prems(1) by (auto simp: u split: option.splits)
  have "find_link h c l = find_link h c (Next b)"
    using k(1) Cons.prems(2,3) by (subst find_link.simps) (auto simp: u)
  then show ?case using Cons.IH [OF k(3), of "Next b"] Cons.prems(2) k(2) by (auto simp: u)
qed

lemma last_root: "ls \<noteq> [] \<Longrightarrow> csroot (last ls) \<in> set (forest_nodes ls)"
proof -
  assume "ls \<noteq> []"
  then have "last ls \<in> set ls" by simp
  moreover have "csroot (last ls) \<in> set (tree_nodes (last ls))" by simp
  ultimately show ?thesis by (simp only: set_concat set_map) blast
qed

lemma sibs_unlink:
  "sibs h par p (ls @ CSNode c ts # rs) \<Longrightarrow> distinct (forest_nodes (ls @ CSNode c ts # rs)) \<Longrightarrow> ls \<noteq> [] \<Longrightarrow>
   h c = Some n \<Longrightarrow> h (csroot (last ls)) = Some m \<Longrightarrow> h' (csroot (last ls)) = Some (m\<lparr>cn_next := cn_next n\<rparr>) \<Longrightarrow>
   (\<And>x. x \<noteq> csroot (last ls) \<Longrightarrow> h' x = h x) \<Longrightarrow> sibs h' par p (ls @ rs)"
proof (induction ls arbitrary: p)
  case (Cons u ls)
  obtain b vs where u: "u = CSNode b vs" by (cases u)
  obtain k where k: "p = Some b" "h b = Some k" "cn_parent k = par" "sibs h (Some b) (cn_children k) vs"
      "sibs h par (cn_next k) (ls @ CSNode c ts # rs)" using Cons.prems(1) by (auto simp: u split: option.splits)
  have in_ls: "csroot (last (u # ls)) \<in> set (b # forest_nodes ls)" using last_root [of ls] by (auto simp: u)
  have outside: "cslinks h' y = cslinks h y" if "y \<in> set (forest_nodes vs) \<or> y \<in> set (forest_nodes rs)" for y
  proof -
    have "y \<notin> set (b # forest_nodes ls)" using Cons.prems(2) that by (auto simp: u)
    then have "y \<noteq> csroot (last (u # ls))" using in_ls by blast
    then show ?thesis using Cons.prems(7) by (simp add: cslinks_def)
  qed
  have vs: "sibs h' (Some b) (cn_children k) vs" using k(4) by (rule sibs_cong) (use outside in blast)
  show ?case
  proof (cases "ls = []")
    case True
    have "sibs h par (cn_next n) rs" using k(5) Cons.prems(4) True by simp
    then have "sibs h' par (cn_next n) rs" by (rule sibs_cong) (use outside in blast)
    then show ?thesis using True k vs Cons.prems(5,6) by (simp add: u)
  next
    case False
    have "csroot (last ls) \<noteq> b" using last_root [OF False] Cons.prems(2) by (auto simp: u)
    then have "h' b = Some k" using Cons.prems(7) False k(2) by simp
    moreover have "sibs h' par (cn_next k) (ls @ rs)" using Cons.IH [OF k(5)] Cons.prems False by (simp add: u)
    ultimately show ?thesis using False k vs by (simp add: u)
  qed
qed simp

text \<open>A node is taken out of its parent's list, and the rest of the tree is as before.\<close>

definition cn_frame :: "csnode \<Rightarrow> nat option \<times> real Vec3 \<times> real Quat" where
  "cn_frame n = (cn_parent n, cn_pos n, cn_rot n)"

lemma cs_unlink_ok:
  assumes u: "universe h (plug ((a, ls, rs) # ctx) (CSNode c ts))" and c: "h c = Some n"
  shows "\<exists>h'. cs_unlink h a c (cn_next n) = Some (True, h') \<and> universe h' (plug ctx (CSNode a (ls @ rs)))
     \<and> h' c = h c \<and> sibs h' (Some c) (cn_children n) ts \<and> (\<forall>x. map_option cn_frame (h' x) = map_option cn_frame (h x))"
proof -
  let ?s = "CSNode c ts"
  have u': "universe h (plug ctx (CSNode a (ls @ ?s # rs)))" using u by simp
  obtain m where m: "h a = Some m" "sibs h (Some a) (cn_children m) (ls @ ?s # rs)" using universe_node [OF u'] by blast
  have d: "distinct (a # forest_nodes (ls @ ?s # rs))" using universe_distinct [OF u'] by simp
  have dall: "distinct (tree_nodes (plug ctx (CSNode a (ls @ ?s # rs))))" using u' by (simp add: universe_def)
  have around: "y \<notin> set (a # forest_nodes (ls @ ?s # rs))" if "y \<in># place_nodes ctx" for y
    using place_outside [OF dall that] by simp
  have dist: "distinct (tree_nodes (plug ctx (CSNode a (ls @ rs))))"
    by (rule distinct_subset [OF _ dall]) (simp add: mset_plug)
  obtain k where k: "h c = Some k" "cn_parent k = Some a" "sibs h (Some c) (cn_children k) ts"
    using sibs_member [OF m(2)] by blast
  then have sc: "sibs h (Some c) (cn_children n) ts" using c by simp
  have link: "find_link h c (Children a) = Some (Some (if ls = [] then Children a else Next (csroot (last ls))))"
    using find_link_sibs [OF m(2), of "Children a"] m(1) d by auto
  show ?thesis
  proof (cases "ls = []")
    case True
    define h' where "h' = h(a \<mapsto> m\<lparr>cn_children := cn_next n\<rparr>)"
    have out: "cslinks h' x = cslinks h x" if "x \<noteq> a" for x using that by (simp add: h'_def cslinks_def)
    have "sibs h (Some a) (cn_next n) rs" using m(2) c True by simp
    then have "sibs h' (Some a) (cn_next n) rs" by (rule sibs_cong) (use d in \<open>auto intro!: out\<close>)
    then have "universe h' (plug ctx (CSNode a (ls @ rs)))"
      using universe_replace [OF u' _ m(1), of h' "m\<lparr>cn_children := cn_next n\<rparr>" "ls @ rs"] out around dist True
      by (auto simp: h'_def)
    moreover have "sibs h' (Some c) (cn_children n) ts" using sc by (rule sibs_cong) (use d in \<open>auto intro!: out\<close>)
    moreover have "h' c = h c" using d by (auto simp: h'_def)
    moreover have "cs_unlink h a c (cn_next n) = Some (True, h')" using link True m(1) by (simp add: cs_unlink_def h'_def)
    moreover have "map_option cn_frame (h' x) = map_option cn_frame (h x)" for x using m(1) by (simp add: h'_def cn_frame_def)
    ultimately show ?thesis by blast
  next
    case False
    define b where "b = csroot (last ls)"
    have b: "b \<in> set (forest_nodes ls)" using last_root [OF False] by (simp add: b_def)
    obtain w where w: "h b = Some w"
    proof -
      obtain ks ps where "ls = ks @ [CSNode b ps]" using False unfolding b_def
        by (metis append_butlast_last_id cstree.exhaust_sel)
      then show thesis using sibs_member [of h "Some a" "cn_children m" ks b ps "?s # rs"] m(2) that by auto
    qed
    define h' where "h' = h(b \<mapsto> w\<lparr>cn_next := cn_next n\<rparr>)"
    have out: "cslinks h' x = cslinks h x" if "x \<noteq> b" for x using that by (simp add: h'_def cslinks_def)
    have pl: "cslinks h' y = cslinks h y" if "y \<in># place_nodes ctx" for y
    proof -
      have "y \<noteq> b" using around [OF that] b by auto
      then show ?thesis by (rule out)
    qed
    have "sibs h' (Some a) (cn_children m) (ls @ rs)"
      using sibs_unlink [OF m(2) _ False c] d w by (simp add: h'_def b_def)
    moreover have "h' a = Some m" using m(1) b d by (auto simp: h'_def)
    ultimately have "universe h' (plug ctx (CSNode a (ls @ rs)))"
      using universe_replace [OF u' pl m(1), of m "ls @ rs"] dist by simp
    moreover have "sibs h' (Some c) (cn_children n) ts" using sc by (rule sibs_cong) (use d b in \<open>auto intro!: out\<close>)
    moreover have "h' c = h c" using d b by (auto simp: h'_def)
    moreover have "cs_unlink h a c (cn_next n) = Some (True, h')" using link False w by (simp add: cs_unlink_def h'_def b_def)
    moreover have "map_option cn_frame (h' x) = map_option cn_frame (h x)" for x using w by (simp add: h'_def cn_frame_def)
    ultimately show ?thesis by blast
  qed
qed

section \<open>Entering another\<close>

lemma enter_family_ok:
  assumes u: "universe h (plug ctx (CSNode p us))" and m: "h p = Some m"
    and d: "distinct (tree_nodes (plug ctx (CSNode p (CSNode c ts # us))))"
    and c: "sibs h (Some c) (cn_children n) ts"
    and n: "cn_parent n = Some p" "cn_next n = cn_children m"
  shows "universe (h(c \<mapsto> n, p \<mapsto> m\<lparr>cn_children := Some c\<rparr>)) (plug ctx (CSNode p (CSNode c ts # us)))"
proof -
  let ?h = "h(c \<mapsto> n, p \<mapsto> m\<lparr>cn_children := Some c\<rparr>)"
  have out: "cslinks ?h x = cslinks h x" if "x \<noteq> c" "x \<noteq> p" for x using that by (simp add: cslinks_def)
  have dn: "distinct (p # c # forest_nodes ts @ forest_nodes us)" using distinct_plug [OF d] by simp
  have pl: "cslinks ?h x = cslinks h x" if "x \<in># place_nodes ctx" for x
  proof -
    have "x \<noteq> c" "x \<noteq> p" using place_outside [OF d that] by simp_all
    then show ?thesis by (rule out)
  qed
  have inside: "cslinks ?h y = cslinks h y" if "y \<in> set (forest_nodes ts @ forest_nodes us)" for y
  proof -
    have "p \<notin> set (forest_nodes ts @ forest_nodes us)" "c \<notin> set (forest_nodes ts @ forest_nodes us)"
      using dn unfolding distinct.simps(2) by (meson list.set_intros(2))+
    then have "y \<noteq> c" "y \<noteq> p" using that by blast+
    then show ?thesis by (rule out)
  qed
  obtain m' where "h p = Some m'" "sibs h (Some p) (cn_children m') us" using universe_node [OF u] by blast
  then have "sibs h (Some p) (cn_children m) us" using m by simp
  then have "sibs ?h (Some p) (cn_children m) us" by (rule sibs_cong) (rule inside, simp)
  moreover have "sibs ?h (Some c) (cn_children n) ts" using c by (rule sibs_cong) (rule inside, simp)
  moreover have "?h c = Some n" "?h p = Some (m\<lparr>cn_children := Some c\<rparr>)" using dn by auto
  ultimately have s: "sibs ?h (Some p) (Some c) (CSNode c ts # us)" using n by (simp only: sibs.simps option.case)
  show ?thesis
    by (rule universe_replace [OF u pl m, of "m\<lparr>cn_children := Some c\<rparr>"]) (use s d in \<open>simp_all del: sibs.simps\<close>)
qed

section \<open>Coordinates at the root\<close>

definition frame_only :: "(csnode \<Rightarrow> 'v \<Rightarrow> 'v) \<Rightarrow> bool" where
  "frame_only up \<longleftrightarrow> (\<forall>n n'. cn_frame n = cn_frame n' \<longrightarrow> up n = up n')"

lemma frame_only_up [simp]: "frame_only pos_up" "frame_only dir_up"
  by (auto simp: frame_only_def cn_frame_def pos_up_def dir_up_def)

lemma to_root_cong:
  "universe h (plug ctx (CSNode c ts)) \<Longrightarrow> frame_only up \<Longrightarrow>
   (\<And>x. x \<in> set (tree_nodes (plug ctx (CSNode c ts))) \<Longrightarrow> map_option cn_frame (h' x) = map_option cn_frame (h x)) \<Longrightarrow>
     to_root up h' c v = to_root up h c v"
proof (induction ctx arbitrary: c ts v)
  case Nil
  obtain n where n: "h c = Some n" "cn_parent n = None" using universe_node [OF Nil(1)] by (auto simp: place_parent_def)
  then obtain n' where "h' c = Some n'" "cn_parent n' = None" using Nil(3) [of c] by (auto simp: cn_frame_def)
  with n show ?case by (simp add: to_root.simps)
next
  case (Cons x ctx)
  obtain b ls rs where x: "x = (b, ls, rs)" by (cases x)
  obtain n where n: "h c = Some n" "cn_parent n = Some b" using universe_node [OF Cons.prems(1)] by (auto simp: place_parent_def x)
  have "c \<in> set (tree_nodes (plug (x # ctx) (CSNode c ts)))" using nodes_plug [of "CSNode c ts" "x # ctx"] by auto
  then obtain n' where n': "h' c = Some n'" "cn_frame n' = cn_frame n" using Cons.prems(3) [of c] n by auto
  then have "cn_parent n' = Some b" "up n' = up n" using n Cons.prems(2) by (auto simp: cn_frame_def frame_only_def)
  then show ?case
    using Cons.IH [of b "ls @ CSNode c ts # rs" "up n v"] Cons.prems n n'
    by (simp add: x to_root_step [of h c n b] to_root_step [of h' c n' b])
qed

lemma to_root_cong_nodes:
  assumes "universe h t" "frame_only up" "c \<in> set (tree_nodes t)"
    and "\<And>x. x \<in> set (tree_nodes t) \<Longrightarrow> map_option cn_frame (h' x) = map_option cn_frame (h x)"
  shows "to_root up h' c v = to_root up h c v"
proof -
  obtain ctx ts where "t = plug ctx (CSNode c ts)" using node_place [OF assms(3)] by blast
  then show ?thesis using to_root_cong [of h ctx c ts up h'] assms by blast
qed

lemma below_not_root:
  "distinct (tree_nodes (plug k (CSNode b us))) \<Longrightarrow> x \<in> set (forest_nodes us) \<Longrightarrow> x \<noteq> csroot (plug k (CSNode b us))"
proof (induction k arbitrary: b us)
  case Nil
  then show ?case by auto
next
  case (Cons e k)
  obtain c ls rs where e: "e = (c, ls, rs)" by (cases e)
  then show ?case using Cons.IH [of c "ls @ CSNode b us # rs"] Cons.prems by auto
qed

text \<open>Below a node that is where it was, everything is where it was.\<close>

lemma to_root_below:
  assumes u: "universe h (plug ctx s)" and f: "frame_only up"
    and top: "\<And>v. to_root up h' (csroot s) v = to_root up h (csroot s) v"
    and same: "\<And>x. x \<in> set (tree_nodes s) \<Longrightarrow> x \<noteq> csroot s \<Longrightarrow> map_option cn_frame (h' x) = map_option cn_frame (h x)"
  shows "s = plug k (CSNode x us) \<Longrightarrow> to_root up h' x v = to_root up h x v"
proof (induction k arbitrary: x us v)
  case Nil
  then show ?case using top by simp
next
  case (Cons e k)
  obtain b ls rs where e: "e = (b, ls, rs)" by (cases e)
  have "universe h (plug ((b, ls, rs) # (k @ ctx)) (CSNode x us))" using u Cons.prems by (simp add: e plug_append)
  then obtain n where n: "h x = Some n" "cn_parent n = Some b" using universe_node by (fastforce simp: place_parent_def)
  have s: "s = plug k (CSNode b (ls @ CSNode x us # rs))" using Cons.prems by (simp add: e)
  have "x \<in># mset (tree_nodes s)" using nodes_plug [of "CSNode x us" "e # k"] Cons.prems by auto
  moreover have "x \<noteq> csroot s"
  proof -
    have "distinct (tree_nodes s)" using universe_distinct [OF u] .
    then show ?thesis unfolding s by (rule below_not_root) simp
  qed
  ultimately obtain n' where n': "h' x = Some n'" "cn_frame n' = cn_frame n" using same [of x] n by auto
  then have "cn_parent n' = Some b" "up n' = up n" using n f by (auto simp: cn_frame_def frame_only_def)
  then show ?case using Cons.IH [OF s, of "up n v"] n n' by (simp add: to_root_step [of h x n b] to_root_step [of h' x n' b])
qed

section \<open>Adoption\<close>

lemma csroot_plug: "csroot (plug ctx (CSNode a us)) = csroot (plug ctx (CSNode a us'))"
proof (induction ctx arbitrary: a us us')
  case (Cons e ctx)
  then show ?case by (cases e) simp
qed simp

lemma universe_member: "universe h t \<Longrightarrow> x \<in> set (tree_nodes t) \<Longrightarrow> \<exists>n. h x = Some n"
  using node_place [of x t] universe_node by blast

lemma ancestor_below:
  assumes u: "universe h (plug ctx s)"
  shows "s = plug k (CSNode x us) \<Longrightarrow> k \<noteq> [] \<Longrightarrow> is_ancestor_of h (csroot s) x = Some True"
proof (induction k arbitrary: x us)
  case (Cons e k)
  obtain b ls rs where e: "e = (b, ls, rs)" by (cases e)
  have "universe h (plug ((b, ls, rs) # (k @ ctx)) (CSNode x us))" using u Cons.prems by (simp add: e plug_append)
  then obtain n where n: "h x = Some n" "cn_parent n = Some b" using universe_node by (fastforce simp: place_parent_def)
  have s: "s = plug k (CSNode b (ls @ CSNode x us # rs))" using Cons.prems by (simp add: e)
  show ?case
  proof (cases "b = csroot s")
    case True
    then show ?thesis using n by (simp add: is_ancestor_of_def ancestor_from.simps)
  next
    case False
    then have "k \<noteq> []" using s by auto
    then have ih: "is_ancestor_of h (csroot s) b = Some True" using Cons.IH [OF s] by simp
    then obtain m where "h b = Some m" by (cases "h b") (auto simp: is_ancestor_of_def)
    then show ?thesis using ih n False by (simp add: is_ancestor_of_def ancestor_from.simps [of h "csroot s" "Some b"])
  qed
qed simp

lemma not_below:
  assumes "universe h (plug ctx s)" "x \<in> set (tree_nodes s)" "x \<noteq> csroot s"
  shows "is_ancestor_of h (csroot s) x = Some True"
proof -
  obtain k us where "s = plug k (CSNode x us)" using node_place [OF assms(2)] by blast
  then show ?thesis using ancestor_below [OF assms(1)] assms(3) by (cases k) auto
qed

lemma cn_frame_unit: "cn_frame n = cn_frame n' \<Longrightarrow> unit_node n = unit_node n'"
  by (simp add: cn_frame_def unit_node_def)

text \<open>C5: adoption moves a branch of the universe and nothing in space.  When the new parent is neither the
  node itself nor below it, \<open>adopt_child\<close> runs, the pointers are those of a tree of the same nodes again, with the
  node under its new parent and all rotations of unit length, and every place and direction in every
  coordinate system, the adopted one and those below it included, is at the root what it was before.\<close>

theorem adopt_child_keeps_places:
  assumes ok: "universe_ok h t" and nodes: "c \<in> set (tree_nodes t)" "p \<in> set (tree_nodes t)"
    and c: "c \<noteq> csroot t" "p \<noteq> c" "is_ancestor_of h c p = Some False"
  shows "\<exists>h' t'. adopt_child h c p True = Some h' \<and> universe_ok h' t' \<and> csroot t' = csroot t
     \<and> mset (tree_nodes t') = mset (tree_nodes t) \<and> (\<exists>n. h' c = Some n \<and> cn_parent n = Some p)
     \<and> (\<forall>x \<in> set (tree_nodes t). \<forall>v. to_root pos_up h' x v = to_root pos_up h x v \<and> to_root dir_up h' x v = to_root dir_up h x v)"
proof -
  have u: "universe h t" using ok by (simp add: universe_ok_def)
  obtain k ts where "t = plug k (CSNode c ts)" using node_place [OF nodes(1)] by blast
  moreover obtain a ls rs ctx where "k = (a, ls, rs) # ctx" using calculation c(1) by (cases k) auto
  ultimately have t: "t = plug ((a, ls, rs) # ctx) (CSNode c ts)" by simp
  obtain n where n: "h c = Some n" "cn_parent n = Some a" "sibs h (Some c) (cn_children n) ts"
    using universe_node u unfolding t by (fastforce simp: place_parent_def)
  show ?thesis
  proof (cases "a = p")
    case True
    then have "adopt_child h c p True = Some h" using n by (simp add: adopt_child_def)
    then show ?thesis using ok n True by blast
  next
    case False
    let ?s = "CSNode c ts"
    have us: "universe h (plug ((a, ls, rs) # ctx) ?s)" using u t by simp
    let ?t1 = "plug ctx (CSNode a (ls @ rs))"
    obtain h1 where h1: "cs_unlink h a c (cn_next n) = Some (True, h1)" "universe h1 ?t1" "h1 c = h c"
        "sibs h1 (Some c) (cn_children n) ts" "\<And>x. map_option cn_frame (h1 x) = map_option cn_frame (h x)"
      using cs_unlink_ok [OF us n(1)] by blast
    have split: "mset (tree_nodes t) = mset (tree_nodes ?t1) + mset (tree_nodes ?s)" by (simp add: t mset_plug)
    have "p \<notin> set (tree_nodes ?s)" using not_below [OF us, of p] c by auto
    then have p1: "p \<in> set (tree_nodes ?t1)" using nodes(2) split by (metis set_mset_mset union_iff)
    obtain ctx2 vs where t1: "?t1 = plug ctx2 (CSNode p vs)" using node_place [OF p1] by blast
    obtain m where m: "h1 p = Some m" using universe_node [of h1 ctx2 p vs] h1(2) t1 by auto
    let ?t2 = "plug ctx2 (CSNode p (?s # vs))"
    have m2: "mset (tree_nodes ?t2) = mset (tree_nodes t)" using split unfolding t1 by (simp add: mset_plug)
    have d2: "distinct (tree_nodes ?t2)" using u m2 by (auto simp: universe_def intro: distinct_subset)
    obtain q where q: "tocsq h c p = Some q" "to_root rot_up h c q = to_root rot_up h p quat_u"
      using rotations.to_cs_root [of h t c p quat_u] ok nodes by (auto simp: tocsq_def universe_ok_def)
    have a: "a \<in> set (tree_nodes t)" unfolding t using nodes_plug [of "CSNode a (ls @ ?s # rs)" ctx] by auto
    obtain pos where pos: "tocs h p (cn_pos n) a False = Some pos" "to_root pos_up h p pos = to_root pos_up h a (cn_pos n)"
      using positions.to_cs_root [of h t p a "cn_pos n"] ok nodes a by (auto simp: tocs_def universe_ok_def)
    obtain velo where velo: "tocsv h p (cn_velo n) (cn_pos n) a = Some velo" using anything.to_cs_root [OF u nodes(2) a, where up = vel_up and down = vel_down and src = "(cn_velo n, cn_pos n)"]
      by (auto simp: tocsv_def)
    define n' where "n' = n\<lparr>cn_pos := pos, cn_velo := velo, cn_omg := Quat_trans q (cn_omg n), cn_rot := q,
      cn_parent := Some p, cn_next := cn_children m\<rparr>"
    define h' where "h' = h1(c \<mapsto> n', p \<mapsto> m\<lparr>cn_children := Some c\<rparr>)"
    have run: "adopt_child h c p True = Some h'"
      using n(1,2) False q(1) pos(1) velo h1(1,3) m c(2)
      by (simp add: adopt_child_def adopt_frame_def h'_def n'_def)
    have u2: "universe h' ?t2" unfolding h'_def
      by (rule enter_family_ok) (use h1(2,4) t1 m d2 in \<open>simp_all add: n'_def\<close>)
    have same: "map_option cn_frame (h' x) = map_option cn_frame (h1 x)" if "x \<noteq> c" for x
      using that m by (simp add: h'_def cn_frame_def)
    have rest: "to_root up h' x v = to_root up h x v" if "frame_only up" "x \<in> set (tree_nodes ?t1)" for up :: "csnode \<Rightarrow> real Vec3 \<Rightarrow> real Vec3" and x v
    proof -
      have c1: "c \<notin> set (tree_nodes ?t1)" using disjoint_parts [OF d2, of "tree_nodes ?t1" "tree_nodes ?s"] m2 split by auto
      have "to_root up h' x v = to_root up h1 x v"
        by (rule to_root_cong_nodes [OF h1(2) that]) (metis c1 same)
      moreover have "x \<in> set (tree_nodes t)" using that(2) split by (metis set_mset_mset union_iff)
      ultimately show ?thesis using to_root_cong_nodes [OF u that(1), of x h1 v] h1(5) by simp
    qed
    obtain A U where A: "Quat_slen A = 1" "\<And>v. to_root pos_up h c v = Some (Quat_trans A v + U)"
        "\<And>v. to_root dir_up h c v = Some (Quat_trans A v)"
        "\<And>q. to_root rot_up h c q = Some (Quat_mul q (Quat_cnj A))" using absolute [OF ok nodes(1)] by metis
    obtain B W where B: "Quat_slen B = 1" "\<And>v. to_root pos_up h p v = Some (Quat_trans B v + W)"
        "\<And>v. to_root dir_up h p v = Some (Quat_trans B v)"
        "\<And>q. to_root rot_up h p q = Some (Quat_mul q (Quat_cnj B))" using absolute [OF ok nodes(2)] by metis
    have "Quat_mul (Quat_mul q (Quat_cnj A)) A = Quat_mul (Quat_cnj B) A" using q(2) A(4) B(4) by (simp add: quat_u_def)
    then have qAB: "q = Quat_mul (Quat_cnj B) A" using A(1) by (simp add: Quat_mul_assoc Quat_mul_cnj)
    then have turn: "Quat_trans B (Quat_trans q v) = Quat_trans A v" for v
      using trans_itrans [OF B(1), of "Quat_trans A v"] by (simp add: Quat_trans_mul Quat_itrans_def)
    have zero: "Quat_trans r 0 = 0" for r :: "real Quat" by (cases r) (simp add: Quat_trans_def zero_Vec3_def Vec3_zero_def)
    have "to_root pos_up h p pos = to_root pos_up h c 0"
      using pos(2) to_root_step [of h c n a pos_up 0] n(1,2) by (simp add: pos_up_def zero)
    then have off: "Quat_trans B pos + W = U" using A(2) B(2) by (simp add: zero)
    have h'c: "h' c = Some n'" "cn_parent n' = Some p" using c(2) by (simp_all add: h'_def n'_def)
    have top: "to_root pos_up h' c v = to_root pos_up h c v" "to_root dir_up h' c v = to_root dir_up h c v" for v
      using to_root_step [of h' c n' p pos_up v] to_root_step [of h' c n' p dir_up v] h'c rest [OF _ p1] off A(2,3) B(2,3)
      by (simp_all add: pos_up_def dir_up_def n'_def turn Quat_trans_add add.assoc)
    have keeps: "to_root up h' x v = to_root up h x v"
      if f: "frame_only up" and top: "\<And>v. to_root up h' c v = to_root up h c v" and x: "x \<in> set (tree_nodes t)"
      for up :: "csnode \<Rightarrow> real Vec3 \<Rightarrow> real Vec3" and x v
    proof (cases "x \<in> set (tree_nodes ?t1)")
      case True
      then show ?thesis using rest f by blast
    next
      case False
      then have "x \<in> set (tree_nodes ?s)" using x split by (metis set_mset_mset union_iff)
      then obtain k us where "?s = plug k (CSNode x us)" using node_place by blast
      then show ?thesis by (rule to_root_below [OF us f, rotated 2]) (simp_all add: top same h1(5))
    qed
    have "unit_node (the (h' x))" if "x \<in> set (tree_nodes ?t2)" for x
    proof (cases "x = c")
      case True
      then show ?thesis using h'c(1) A(1) B(1) by (simp add: unit_node_def n'_def qAB Quat_slen_mul)
    next
      case False
      have "x \<in> set (tree_nodes t)" using that m2 by (metis set_mset_mset)
      then obtain k where "h x = Some k" "unit_node k" using universe_member [OF u] ok by (fastforce simp: universe_ok_def)
      moreover obtain k' where "h' x = Some k'" "cn_frame k' = cn_frame k" using same [OF False] h1(5) [of x] calculation(1) by auto
      ultimately show ?thesis using cn_frame_unit [of k' k] by simp
    qed
    then have "universe_ok h' ?t2" using u2 by (simp add: universe_ok_def)
    moreover have "csroot ?t2 = csroot t" using csroot_plug [of ctx2 p vs "?s # vs"] csroot_plug [of ctx a "ls @ rs" "ls @ ?s # rs"] t1 t by simp
    ultimately show ?thesis using run m2 h'c keeps top by (metis frame_only_up)
  qed
qed

theorem adopt_child_keeps_places_witness:
  "\<exists>h' t'. adopt_child sample_heap 1 2 True = Some h' \<and> universe_ok h' t' \<and> csroot t' = 0
     \<and> (\<forall>v. to_root pos_up h' 3 v = to_root pos_up sample_heap 3 v)"
proof -
  have "is_ancestor_of sample_heap 1 2 = Some False"
    by (simp add: is_ancestor_of_def sample_heap_def csnode_blank_def ancestor_from.simps)
  moreover have "csroot sample_tree = 0" by (simp add: sample_tree_def)
  ultimately show ?thesis
    using adopt_child_keeps_places [OF sample_ok, of 1 2] sample_nodes by fastforce
qed

section \<open>Defects\<close>

text \<open>Adoption by a descendant is not refused: the two nodes become each other's parent.\<close>

lemma find_link_Some [simp]:
  "cslink_get h l = Some (Some x) \<Longrightarrow> find_link h c l = (if x = c then Some (Some l) else find_link h c (Next x))"
  by (subst find_link.simps) simp

lemma adopt_child_cycle:
  "\<exists>h'. adopt_child sample_heap 1 3 False = Some h'
     \<and> map_option cn_parent (h' 1) = Some (Some 3) \<and> map_option cn_parent (h' 3) = Some (Some 1)"
  by (simp add: adopt_child_def cs_unlink_def sample_heap_def csnode_blank_def Let_def)

text \<open>The loops on concrete heaps.\<close>

lemma loop_simps:
  "endframe_list server None h = Some h" "delete_list server None h = Some h" "give_children this p None h = Some h"
  "find_child down h ret skip None src = Some None" "eisystem_from h None = Some None"
  "h c = Some n \<Longrightarrow> eisystem_from h (Some c) =
     (if and (cn_flags n) (or CS_EXTENT CS_ISOLATED) = or CS_EXTENT CS_ISOLATED then Some (Some c) else eisystem_from h (cn_parent n))"
  "h c = Some n \<Longrightarrow> delete_list server (Some c) h =
     Option.bind (if server then delete_list server (cn_children n) h else Some h)
       (\<lambda>h. Option.bind (aorder_erase h c) (\<lambda>h. delete_list server (cn_next n) (h(c := None))))"
  "h c = Some n \<Longrightarrow> endframe_list server (Some c) h =
     Option.bind (endframe_list server (cn_children n) h) (\<lambda>h.
       Option.bind (if server \<and> and (cn_flags n) CS_DELETE \<noteq> 0 then endframe_delete c h else Some h)
         (endframe_list server (cn_next n)))"
  "h c = Some n \<Longrightarrow> cn_parent n = Some ret \<Longrightarrow> find_parent up down h ret src c = Some (Some (up n src))"
  "h c = Some n \<Longrightarrow> find_child down h ret skip (Some c) src =
     (if skip = Some c then find_child down h ret skip (cn_next n) src
      else if ret = c then Some (Some (down n src))
      else Option.bind (find_child down h ret None (cn_children n) (down n src))
        (\<lambda>r. if r \<noteq> None then Some r else find_child down h ret skip (cn_next n) src))"
  by (subst endframe_list.simps delete_list.simps give_children.simps find_child.simps eisystem_from.simps find_parent.simps;
      simp)+

text \<open>
  A node that is deleted at the end of a frame gives its children to its parent but keeps the pointer to the
  first of them, and its destructor deletes what it points to: the children are gone with it, the siblings
  of the node are too, and the parent points to a deleted node.
\<close>

definition doomed_heap :: csheap where
  "doomed_heap =
     [0 \<mapsto> csnode_blank\<lparr>cn_children := Some 1\<rparr>,
      1 \<mapsto> csnode_blank\<lparr>cn_parent := Some 0, cn_flags := 2, cn_next := Some 2, cn_children := Some 3\<rparr>,
      2 \<mapsto> csnode_blank\<lparr>cn_parent := Some 0\<rparr>,
      3 \<mapsto> csnode_blank\<lparr>cn_parent := Some 1\<rparr>]"

lemma doomed_delete:
  "\<exists>h'. endframe_delete 1 doomed_heap = Some h' \<and> h' 1 = None \<and> h' 2 = None \<and> h' 3 = None
     \<and> map_option cn_children (h' 0) = Some (Some 3)"
  by (simp add: endframe_delete_def cs_unlink_def aorder_erase_def findeisystem_def doomed_heap_def csnode_blank_def loop_simps
      CS_EXTENT_def CS_ISOLATED_def give_children.simps [of _ _ "Some _"] tocsv_def tocs_def tocsq_def to_cs_def cs_delete_def)

end
