(* ===== verification/Coordsys_Path.thy ===== *)
theory Coordsys_Path
  imports Coordsys_Adopt CString
begin

text \<open>
  Names and paths of coordinate systems (\<open>src/CoordSys.cpp\<close>): the search by name, the path of a node and
  the search by path, and the conversions that look for the node a position is in; and the turning of all
  nodes with time.
\<close>

section \<open>Searching by name and path\<close>

definition cs_named :: "csnode \<Rightarrow> byte list \<Rightarrow> bool" where
  "cs_named n name \<longleftrightarrow> cn_name n = name \<or> cn_fullname n = name \<or> name \<in> set (cn_extranames n)"

partial_function (option) findcs_list :: "csheap \<Rightarrow> byte list \<Rightarrow> nat option \<Rightarrow> nat option option" where
  "findcs_list h name p =
     (case p of
        None \<Rightarrow> Some None
      | Some c \<Rightarrow>
          (case h c of
             None \<Rightarrow> None
           | Some n \<Rightarrow>
               if cs_named n name then Some (Some c)
               else Option.bind (findcs_list h name (cn_children n))
                 (\<lambda>r. if r \<noteq> None then Some r else findcs_list h name (cn_next n))))"

declare findcs_list.simps [code]

definition findcs :: "csheap \<Rightarrow> nat \<Rightarrow> byte list \<Rightarrow> nat option option" where
  "findcs h this name = do {
     n \<leftarrow> h this;
     (if cs_named n name then Some (Some this) else findcs_list h name (cn_children n)) }"

text \<open>The loop to the root, and the loop for the child whose name is the component.\<close>

partial_function (option) root_from :: "csheap \<Rightarrow> nat \<Rightarrow> nat option" where
  "root_from h c =
     (case h c of
        None \<Rightarrow> None
      | Some n \<Rightarrow> (case cn_parent n of None \<Rightarrow> Some c | Some p \<Rightarrow> root_from h p))"

partial_function (option) child_named :: "csheap \<Rightarrow> byte list \<Rightarrow> nat option \<Rightarrow> nat option option" where
  "child_named h part p =
     (case p of
        None \<Rightarrow> Some None
      | Some c \<Rightarrow>
          (case h c of
             None \<Rightarrow> None
           | Some n \<Rightarrow> if cn_name n = part then Some (Some c) else child_named h part (cn_next n)))"

declare root_from.simps [code] child_named.simps [code]

text \<open>\<open>findcspath\<close>; the node may be the null pointer, which is returned.\<close>

function findcspath :: "csheap \<Rightarrow> nat option \<Rightarrow> byte list \<Rightarrow> nat option option" where
  "findcspath h this path =
     (if path = [] then Some this
      else case this of
        None \<Rightarrow> Some None
      | Some c \<Rightarrow>
          (let part = until_slash path; rest = drop (length part) path
           in if part = [] then do { r \<leftarrow> root_from h c; findcspath h (Some r) (tl path) }
              else if part = [46] then (if rest = [] then Some this else findcspath h this (tl rest))
              else if part = [46, 46] then do {
                n \<leftarrow> h c;
                (if rest = [] then Some (cn_parent n) else findcspath h (cn_parent n) (tl rest)) }
              else do {
                n \<leftarrow> h c;
                r \<leftarrow> child_named h part (cn_children n);
                (case r of
                   None \<Rightarrow> Some None
                 | Some x \<Rightarrow> if rest = [] then Some (Some x) else findcspath h (Some x) (tl rest)) }))"
  by pat_completeness auto
termination by (relation "measure (\<lambda>(h, this, path). length path)") auto

declare findcspath.simps [simp del]

section \<open>The path of a node\<close>

text \<open>The string and the depth; the slash of the root is not doubled.\<close>

partial_function (option) getpathint :: "csheap \<Rightarrow> nat \<Rightarrow> (byte list \<times> nat) option" where
  "getpathint h c =
     (case h c of
        None \<Rightarrow> None
      | Some n \<Rightarrow>
          (case cn_parent n of
             None \<Rightarrow> Some ([47], 0)
           | Some p \<Rightarrow>
               Option.bind (getpathint h p) (\<lambda>(ret, depth).
                 Some ((if last ret \<noteq> 47 then ret @ [47] else ret) @ cn_name n, depth + 1))))"

declare getpathint.simps [code]

definition getpath :: "csheap \<Rightarrow> nat \<Rightarrow> byte list option" where
  "getpath h c = map_option fst (getpathint h c)"

text \<open>The version for a buffer of the caller, whose size it does not look at.\<close>

partial_function (option) getpathint_buf :: "csheap \<Rightarrow> nat \<Rightarrow> byte list \<Rightarrow> (byte list \<times> nat) option" where
  "getpathint_buf h c buf =
     (case h c of
        None \<Rightarrow> None
      | Some n \<Rightarrow>
          (case cn_parent n of
             None \<Rightarrow> Some (buf, 0)
           | Some p \<Rightarrow>
               Option.bind (getpathint_buf h p buf) (\<lambda>(buf, ret).
               Option.bind (awrite buf ret 47) (\<lambda>buf.
               Option.bind (write_at buf (ret + 1) (cn_name n @ [0])) (\<lambda>buf.
                 Some (buf, length (cn_name n) + 1 + ret))))))"

declare getpathint_buf.simps [code]

definition getpath_buf :: "csheap \<Rightarrow> nat \<Rightarrow> byte list \<Rightarrow> nat \<Rightarrow> (byte list \<times> bool) option" where
  "getpath_buf h c buf sz = map_option (\<lambda>(buf, ret). (buf, ret \<noteq> 0)) (getpathint_buf h c buf)"

text \<open>\<open>getrpath\<close>: the nodes on the stack, the innermost first, are written in this order.\<close>

fun join_names :: "csheap \<Rightarrow> nat list \<Rightarrow> byte list option" where
  "join_names h [] = Some []"
| "join_names h [c] = map_option cn_name (h c)"
| "join_names h (c # d # st) = do { n \<leftarrow> h c; r \<leftarrow> join_names h (d # st); Some (cn_name n @ [47] @ r) }"

partial_function (option) findcsrpath_list :: "csheap \<Rightarrow> nat \<Rightarrow> nat option \<Rightarrow> nat list \<Rightarrow> byte list option option" where
  "findcsrpath_list h subject p st =
     (case p of
        None \<Rightarrow> Some None
      | Some c \<Rightarrow>
          if subject = c then map_option Some (join_names h (c # st))
          else
            (case h c of
               None \<Rightarrow> None
             | Some n \<Rightarrow>
                 Option.bind (findcsrpath_list h subject (cn_children n) (c # st))
                   (\<lambda>r. if r \<noteq> None then Some r else findcsrpath_list h subject (cn_next n) st)))"

declare findcsrpath_list.simps [code]

definition getrpath :: "csheap \<Rightarrow> nat \<Rightarrow> nat \<Rightarrow> byte list option" where
  "getrpath h this base =
     (if this = base then join_names h [base]
      else do {
        n \<leftarrow> h base;
        r \<leftarrow> findcsrpath_list h this (cn_children n) [base];
        Some (case r of None \<Rightarrow> [] | Some s \<Rightarrow> s) })"

section \<open>Visiting all nodes\<close>

text \<open>
  \<open>find\<close> calls a function of the caller, here \<open>call\<close> on a state of the caller, for the nodes around \<open>this\<close>, until it
  returns false.  The result of the inner call is not looked at.
\<close>

partial_function (option) tempFindChild ::
    "(nat \<Rightarrow> 's \<Rightarrow> bool \<times> 's) \<Rightarrow> csheap \<Rightarrow> nat option \<Rightarrow> nat option \<Rightarrow> 's \<Rightarrow> (bool \<times> 's) option" where
  "tempFindChild call h skip p s =
     (case p of
        None \<Rightarrow> Some (True, s)
      | Some c \<Rightarrow>
          (case h c of
             None \<Rightarrow> None
           | Some n \<Rightarrow>
               if skip = Some c then tempFindChild call h skip (cn_next n) s
               else if \<not> fst (call c s) then Some (False, snd (call c s))
               else Option.bind (tempFindChild call h None (cn_children n) (snd (call c s)))
                 (\<lambda>r. tempFindChild call h skip (cn_next n) (snd r))))"

partial_function (option) tempFindParent ::
    "(nat \<Rightarrow> 's \<Rightarrow> bool \<times> 's) \<Rightarrow> csheap \<Rightarrow> nat option \<Rightarrow> 's \<Rightarrow> (bool \<times> 's) option" where
  "tempFindParent call h p s =
     (case p of
        None \<Rightarrow> Some (False, s)
      | Some c \<Rightarrow>
          (case h c of
             None \<Rightarrow> None
           | Some n \<Rightarrow>
               Option.bind (tempFindChild call h (Some c) (cn_children n) s) (\<lambda>r.
                 if \<not> fst r then Some (False, snd r)
                 else tempFindParent call h (cn_parent n) (snd (call c (snd r))))))"

declare tempFindChild.simps [code] tempFindParent.simps [code]

definition cs_find :: "(nat \<Rightarrow> 's \<Rightarrow> bool \<times> 's) \<Rightarrow> csheap \<Rightarrow> nat \<Rightarrow> 's \<Rightarrow> (bool \<times> 's) option" where
  "cs_find call h this s = tempFindParent call h (Some this) s"

section \<open>Paths lead back\<close>

text \<open>Names that a path can have: without a slash, not empty and not a dot or two, and different among siblings.\<close>

definition good_name :: "byte list \<Rightarrow> bool" where
  "good_name s \<longleftrightarrow> s \<noteq> [] \<and> 47 \<notin> set s \<and> s \<noteq> [46] \<and> s \<noteq> [46, 46]"

definition cs_name_of :: "csheap \<Rightarrow> cstree \<Rightarrow> byte list" where
  "cs_name_of h t = cn_name (the (h (csroot t)))"

fun names_ok :: "csheap \<Rightarrow> cstree \<Rightarrow> bool" where
  "names_ok h (CSNode a ts) \<longleftrightarrow>
     distinct (map (cs_name_of h) ts) \<and> (\<forall>t \<in> set ts. good_name (cs_name_of h t) \<and> names_ok h t)"

lemma names_ok_plug: "names_ok h (plug ctx s) \<Longrightarrow> names_ok h s"
  by (induction ctx s rule: plug.induct) auto

lemma until_slash_append: "47 \<notin> set s \<Longrightarrow> until_slash (s @ 47 # r) = s"
  by (induction s) (auto simp: until_slash_def)

lemma until_slash_all: "47 \<notin> set s \<Longrightarrow> until_slash s = s"
  by (induction s) (auto simp: until_slash_def)

lemma child_named_sibs:
  "sibs h par p (ls @ s # rs) \<Longrightarrow> cs_name_of h s \<notin> set (map (cs_name_of h) ls) \<Longrightarrow>
     child_named h (cs_name_of h s) p = Some (Some (csroot s))"
proof (induction ls arbitrary: p)
  case Nil
  then show ?case by (cases s) (subst child_named.simps, auto simp: cs_name_of_def split: option.splits)
next
  case (Cons u ls)
  obtain b vs where u: "u = CSNode b vs" by (cases u)
  obtain k where k: "p = Some b" "h b = Some k" "sibs h par (cn_next k) (ls @ s # rs)"
    using Cons.prems(1) by (auto simp: u split: option.splits)
  have "cn_name k \<noteq> cs_name_of h s" using Cons.prems(2) k(2) by (auto simp: u cs_name_of_def)
  then show ?case using Cons.IH [OF k(3)] Cons.prems(2) k by (subst child_named.simps) simp
qed

text \<open>A step down by a component.\<close>

lemma findcspath_child:
  assumes u: "universe h (plug ((a, ls, rs) # ctx) s)" and n: "names_ok h (plug ((a, ls, rs) # ctx) s)"
  shows "findcspath h (Some a) (cs_name_of h s) = Some (Some (csroot s))"
    and "findcspath h (Some a) (cs_name_of h s @ 47 # r) = findcspath h (Some (csroot s)) r"
proof -
  obtain m where m: "h a = Some m" "sibs h (Some a) (cn_children m) (ls @ s # rs)" using universe_node u by fastforce
  have "names_ok h (plug ctx (CSNode a (ls @ s # rs)))" using n by simp
  then have ok: "names_ok h (CSNode a (ls @ s # rs))" by (rule names_ok_plug)
  then have g: "good_name (cs_name_of h s)" by simp
  have c: "child_named h (cs_name_of h s) (cn_children m) = Some (Some (csroot s))"
    by (rule child_named_sibs [OF m(2)]) (use ok in auto)
  have s: "until_slash (cs_name_of h s) = cs_name_of h s" "until_slash (cs_name_of h s @ 47 # r) = cs_name_of h s"
    using g by (simp_all add: good_name_def until_slash_append until_slash_all)
  show "findcspath h (Some a) (cs_name_of h s) = Some (Some (csroot s))"
    using g m(1) c s(1) by (subst findcspath.simps) (simp add: good_name_def)
  show "findcspath h (Some a) (cs_name_of h s @ 47 # r) = findcspath h (Some (csroot s)) r"
    using g m(1) c s(2) by (subst findcspath.simps) (simp add: good_name_def)
qed

lemma root_from_root: "universe h (plug ctx (CSNode c ts)) \<Longrightarrow> root_from h c = Some (csroot (plug ctx (CSNode c ts)))"
proof (induction ctx arbitrary: c ts)
  case Nil
  obtain n where "h c = Some n" "cn_parent n = None" using universe_node [OF Nil] by (auto simp: place_parent_def)
  then show ?case by (subst root_from.simps) simp
next
  case (Cons x ctx)
  obtain b ls rs where x: "x = (b, ls, rs)" by (cases x)
  obtain n where n: "h c = Some n" "cn_parent n = Some b" using universe_node [OF Cons.prems] by (auto simp: place_parent_def x)
  have "root_from h c = root_from h b" using n by (subst root_from.simps) simp
  then show ?case using Cons.IH [of b] Cons.prems by (simp add: x)
qed

text \<open>The path of the node at a place, and where it leads from the root.\<close>

lemma path_down:
  "universe h (plug ctx s) \<Longrightarrow> names_ok h (plug ctx s) \<Longrightarrow> ctx \<noteq> [] \<Longrightarrow>
     \<exists>q. getpathint h (csroot s) = Some (47 # q, length ctx) \<and> q \<noteq> [] \<and> last q \<noteq> 47
       \<and> findcspath h (Some (csroot (plug ctx s))) q = Some (Some (csroot s))
       \<and> (\<forall>r. findcspath h (Some (csroot (plug ctx s))) (q @ 47 # r) = findcspath h (Some (csroot s)) r)"
proof (induction ctx arbitrary: s)
  case (Cons x ctx)
  obtain b ls rs where x: "x = (b, ls, rs)" by (cases x)
  let ?t = "CSNode b (ls @ s # rs)"
  have u: "universe h (plug ctx ?t)" and ok: "names_ok h (plug ctx ?t)" using Cons.prems by (simp_all add: x)
  obtain c ts where s: "s = CSNode c ts" by (cases s)
  obtain n where n: "h c = Some n" "cn_parent n = Some b"
    using universe_node [of h "x # ctx" c ts] Cons.prems(1) by (auto simp: s x place_parent_def)
  have name: "cs_name_of h s = cn_name n" using n(1) by (simp add: s cs_name_of_def)
  have "good_name (cs_name_of h s)" using names_ok_plug [OF ok] by simp
  then have g: "cn_name n \<noteq> []" "last (cn_name n) \<noteq> 47" using name by (auto simp: good_name_def dest: last_in_set)
  note step = findcspath_child [of h b ls rs ctx s] Cons.prems(1,2)
  show ?case
  proof (cases "ctx = []")
    case True
    obtain m where m: "h b = Some m" "cn_parent m = None" using universe_node [OF u] True by (auto simp: place_parent_def)
    have "getpathint h b = Some ([47], 0)" using m by (subst getpathint.simps) simp
    then have "getpathint h c = Some (47 # cn_name n, 1)" using n by (subst getpathint.simps) simp
    then show ?thesis using g step name True by (auto simp: x s)
  next
    case False
    obtain q where q: "getpathint h b = Some (47 # q, length ctx)" "q \<noteq> []" "last q \<noteq> 47"
        "\<And>r. findcspath h (Some (csroot (plug ctx ?t))) (q @ 47 # r) = findcspath h (Some b) r"
      using Cons.IH [OF u ok False] by auto
    have "getpathint h c = Some (47 # q @ 47 # cn_name n, length ctx + 1)"
      using n q(1-3) by (subst getpathint.simps) simp
    then show ?thesis using g step name q(4) by (auto simp: x s intro!: exI [of _ "q @ 47 # cn_name n"])
  qed
qed simp

text \<open>C30: a path leads back.  In a universe whose names are neither empty nor dots, have no slash and are
  different among siblings, \<open>getpath\<close> of a node is a path by which \<open>findcspath\<close> finds this node, from
  every node that the search starts at.\<close>

theorem path_roundtrip:
  assumes "universe h t" "names_ok h t" "c \<in> set (tree_nodes t)" "from \<in> set (tree_nodes t)"
  shows "\<exists>path. getpath h c = Some path \<and> findcspath h (Some from) path = Some (Some c)"
proof -
  obtain ctx ts where t: "t = plug ctx (CSNode c ts)" using node_place [OF assms(3)] by blast
  obtain k us where k: "t = plug k (CSNode from us)" using node_place [OF assms(4)] by blast
  have top: "findcspath h (Some from) (47 # q) = findcspath h (Some (csroot t)) q" for q
    using root_from_root [of h k "from" us] assms(1) k by (subst findcspath.simps) (simp add: until_slash_def)
  show ?thesis
  proof (cases "ctx = []")
    case True
    obtain n where "h c = Some n" "cn_parent n = None" using universe_node assms(1) t True by (fastforce simp: place_parent_def)
    then have "getpath h c = Some [47]" by (simp add: getpath_def getpathint.simps)
    moreover have "findcspath h (Some from) [47] = Some (Some c)" using top [of "[]"] t True by (simp add: findcspath.simps)
    ultimately show ?thesis by blast
  next
    case False
    then show ?thesis using path_down [of h ctx "CSNode c ts"] assms(1,2) t top by (auto simp: getpath_def)
  qed
qed

theorem path_roundtrip_witness:
  "\<exists>path. getpath sample_heap 3 = Some path \<and> findcspath sample_heap (Some 2) path = Some (Some 3)"
proof -
  have "names_ok sample_heap sample_tree"
    by (simp add: sample_tree_def sample_heap_def cs_name_of_def good_name_def csnode_blank_def)
  then show ?thesis using path_roundtrip [of sample_heap sample_tree 3 2] sample_ok sample_nodes by (simp add: universe_ok_def)
qed

section \<open>The first node of a name\<close>

lemma find_append: "List.find P (xs @ ys) = (case List.find P xs of None \<Rightarrow> List.find P ys | Some x \<Rightarrow> Some x)"
  by (induction xs) auto

lemma findcs_list_sibs:
  "sibs h par p ts \<Longrightarrow> findcs_list h name p = Some (List.find (\<lambda>x. cs_named (the (h x)) name) (forest_nodes ts))"
proof (induction ts arbitrary: par p rule: forest_induct)
  case Nil
  then show ?case by (simp add: findcs_list.simps)
next
  case (Cons a ts us)
  then obtain n where n: "p = Some a" "h a = Some n" "sibs h (Some a) (cn_children n) ts" "sibs h par (cn_next n) us"
    by (auto split: option.splits)
  then show ?case using Cons.IH(1) [OF n(3)] Cons.IH(2) [OF n(4)]
    by (subst findcs_list.simps) (auto simp: find_append split: option.split)
qed

lemma findcs_preorder:
  assumes "universe h (plug ctx s)"
  shows "findcs h (csroot s) name = Some (List.find (\<lambda>x. cs_named (the (h x)) name) (tree_nodes s))"
proof (cases s)
  case (CSNode c ts)
  obtain n where "h c = Some n" "sibs h (Some c) (cn_children n) ts" using universe_node assms CSNode by blast
  then show ?thesis using findcs_list_sibs by (simp add: CSNode findcs_def)
qed

section \<open>Where a position belongs\<close>

lemma sibs_unique: "sibs h par p ts \<Longrightarrow> sibs h par p us \<Longrightarrow> ts = us"
proof (induction ts arbitrary: par p us rule: forest_induct)
  case Nil
  then show ?case by (cases us) (auto elim: sibs.elims)
next
  case (Cons a ts vs)
  obtain n where n: "p = Some a" "h a = Some n" "sibs h (Some a) (cn_children n) ts" "sibs h par (cn_next n) vs"
    using Cons.prems(1) by (auto split: option.splits)
  then obtain ts' vs' where us: "us = CSNode a ts' # vs'" using Cons.prems(2) by (cases us; cases "hd us") auto
  then have "sibs h (Some a) (cn_children n) ts'" "sibs h par (cn_next n) vs'" using Cons.prems(2) n(2) by auto
  then show ?case using Cons.IH n us by blast
qed

text \<open>What the search below a node returns is the same place, inside of the node returned; without a result no
  child has the place in it.\<close>

lemma findchildb_ok:
  "sibs h (Some a) p ts \<Longrightarrow> (\<And>x. x \<in> set (forest_nodes ts) \<Longrightarrow> unit_node (the (h x))) \<Longrightarrow>
     \<exists>r. findchildb h None p src = Some r
       \<and> (case r of
            None \<Rightarrow> \<forall>u \<in> set ts. \<not> cs_belongs (the (h (csroot u))) (pos_down (the (h (csroot u))) src)
          | Some (c, v) \<Rightarrow> c \<in> set (forest_nodes ts) \<and> to_root pos_up h c v = to_root pos_up h a src \<and> cs_belongs (the (h c)) v)"
proof (induction ts arbitrary: a p src rule: forest_induct)
  case Nil
  then show ?case by (simp add: findchildb.simps)
next
  case (Cons b ts us)
  then obtain n where n: "p = Some b" "h b = Some n" "cn_parent n = Some a" "sibs h (Some b) (cn_children n) ts" "sibs h (Some a) (cn_next n) us"
    by (auto split: option.splits)
  have unit: "unit_node n" using Cons.prems(2) [of b] n(2) by simp
  have here: "to_root pos_up h b (pos_down n src) = to_root pos_up h a src"
    using to_root_step [of h b n a pos_up "pos_down n src"] n(2,3) positions.up_down [OF unit] by simp
  obtain r where r: "findchildb h None (cn_next n) src = Some r"
      "case r of None \<Rightarrow> \<forall>u \<in> set us. \<not> cs_belongs (the (h (csroot u))) (pos_down (the (h (csroot u))) src)
        | Some (c, v) \<Rightarrow> c \<in> set (forest_nodes us) \<and> to_root pos_up h c v = to_root pos_up h a src \<and> cs_belongs (the (h c)) v"
    using Cons.IH(2) [OF n(5), of src] Cons.prems(2) by auto
  show ?case
  proof (cases "cs_belongs n (pos_down n src)")
    case False
    then have "findchildb h None p src = Some r" using n(1,2) r(1) by (subst findchildb.simps) simp
    then show ?thesis using r(2) False n(2) by (auto split: option.splits)
  next
    case True
    obtain q where q: "findchildb h None (cn_children n) (pos_down n src) = Some q"
        "case q of None \<Rightarrow> True
          | Some (c, v) \<Rightarrow> c \<in> set (forest_nodes ts) \<and> to_root pos_up h c v = to_root pos_up h b (pos_down n src) \<and> cs_belongs (the (h c)) v"
      using Cons.IH(1) [OF n(4), of "pos_down n src"] Cons.prems(2) by (auto split: option.splits)
    have "findchildb h None p src = Some (if q \<noteq> None then q else Some (b, pos_down n src))"
      using n(1,2) q(1) True by (subst findchildb.simps) simp
    then show ?thesis using q(2) here True n(2) by (auto split: option.splits)
  qed
qed

text \<open>A position that lies in a system below \<open>this\<close>, or in \<open>this\<close> itself, is given to a system of the
  universe that has it inside, with the coordinates of the same place; when a child of \<open>this\<close> has it inside,
  to one below \<open>this\<close>.\<close>

theorem belongcs_below:
  assumes ok: "universe_ok h t" and t_in: "this \<in> set (tree_nodes t)"
    and inside: "cs_belongs (the (h this)) src
      \<or> (\<exists>c m. h c = Some m \<and> c \<in> set (tree_nodes t) \<and> cn_parent m = Some this \<and> cs_belongs m (pos_down m src))"
  shows "\<exists>c v. (belongcs h this src = Some (c, Some v) \<or> belongcs h this src = Some (c, None) \<and> c = this \<and> v = src)
     \<and> c \<in> set (tree_nodes t) \<and> to_root pos_up h c v = to_root pos_up h this src \<and> cs_belongs (the (h c)) v"
proof -
  have u: "universe h t" using ok by (simp add: universe_ok_def)
  obtain ctx ts where t: "t = plug ctx (CSNode this ts)" using node_place [OF t_in] by blast
  obtain n where n: "h this = Some n" "sibs h (Some this) (cn_children n) ts" using universe_node u t by blast
  have sub: "set (forest_nodes ts) \<subseteq> set (tree_nodes t)" using nodes_plug [of "CSNode this ts" ctx] by (simp add: t)
  obtain r where r: "findchildb h None (cn_children n) src = Some r"
      "case r of None \<Rightarrow> \<forall>w \<in> set ts. \<not> cs_belongs (the (h (csroot w))) (pos_down (the (h (csroot w))) src)
        | Some (c, v) \<Rightarrow> c \<in> set (forest_nodes ts) \<and> to_root pos_up h c v = to_root pos_up h this src \<and> cs_belongs (the (h c)) v"
    using findchildb_ok [OF n(2), of src] ok sub by (auto simp: universe_ok_def)
  show ?thesis
  proof (cases r)
    case (Some cv)
    obtain c v where cv: "cv = (c, v)" by (cases cv)
    then have "belongcs h this src = Some (c, Some v)" using n(1) r(1) Some by (simp add: belongcs_def)
    then show ?thesis using r(2) Some cv sub by auto
  next
    case None
    have "cs_belongs n src"
    proof (rule ccontr)
      assume "\<not> cs_belongs n src"
      then obtain c m where c: "h c = Some m" "c \<in> set (tree_nodes t)" "cn_parent m = Some this" "cs_belongs m (pos_down m src)"
        using inside n(1) by auto
      obtain k us where k: "t = plug k (CSNode c us)" using node_place [OF c(2)] by blast
      then obtain ls rs k' where "k = (this, ls, rs) # k'"
        using universe_node [of h k c us] u c(1,3) by (cases k) (auto simp: place_parent_def)
      then have k': "universe h (plug k' (CSNode this (ls @ CSNode c us # rs)))" using u k by simp
      then obtain m' where "h this = Some m'" "sibs h (Some this) (cn_children m') (ls @ CSNode c us # rs)" using universe_node by blast
      then have "ts = ls @ CSNode c us # rs" using sibs_unique [OF n(2)] n(1) by simp
      then show False using r(2) None c(1,4) by auto
    qed
    then have "belongcs h this src = Some (this, None)" using n(1) r(1) None by (simp add: belongcs_def)
    then show ?thesis using t_in \<open>cs_belongs n src\<close> n(1) by auto
  qed
qed

theorem belongcs_below_witness:
  "\<exists>c v. (belongcs sample_heap 0 (Vec3 1 0 3) = Some (c, Some v) \<or> belongcs sample_heap 0 (Vec3 1 0 3) = Some (c, None) \<and> c = 0 \<and> v = Vec3 1 0 3)
     \<and> to_root pos_up sample_heap c v = to_root pos_up sample_heap 0 (Vec3 1 0 3)"
proof -
  have "cs_belongs (the (sample_heap 0)) (Vec3 1 0 3)" by (simp add: cs_belongs_def sample_heap_def csnode_blank_def)
  then show ?thesis using belongcs_below [OF sample_ok, of 0 "Vec3 1 0 3"] sample_nodes by fastforce
qed

section \<open>Turning\<close>

lemma cs_turn_links [simp]:
  "cn_parent (cs_turn scale dt n) = cn_parent n" "cn_next (cs_turn scale dt n) = cn_next n"
  "cn_children (cs_turn scale dt n) = cn_children n" "cn_pos (cs_turn scale dt n) = cn_pos n"
  by (simp_all add: cs_turn_def Let_def)

lemma unit_axis:
  fixes l :: real
  assumes "l * l = x * x + y * y + z * z" "l \<noteq> 0"
  shows "(x / l) * (x / l) + (y / l) * (y / l) + (z / l) * (z / l) = 1"
proof -
  have "x * x + y * y + z * z = l * l" "l * l \<noteq> 0" using assms(1) [symmetric] assms(2) no_zero_divisors [of l l] by auto
  then show ?thesis by (simp add: add_divide_distrib [symmetric])
qed

lemma cs_turn_slinks: "map_option (\<lambda>n. (cn_parent n, cn_next n, cn_children n)) (map_option (cs_turn scale dt) v)
     = map_option (\<lambda>n. (cn_parent n, cn_next n, cn_children n)) v"
  by (cases v) simp_all

lemma cs_turn_unit: "unit_node n \<Longrightarrow> unit_node (cs_turn scale dt n)"
proof (cases "0 < Vec3_slen (cn_omg n)")
  case True
  assume n: "unit_node n"
  obtain x y z where o: "cn_omg n = Vec3 x y z" by (cases "cn_omg n")
  let ?l = "sqrt (x * x + y * y + z * z)"
  have "?l * ?l = x * x + y * y + z * z" "?l \<noteq> 0" using True o by simp_all
  then have axis: "(x / ?l) * (x / ?l) + (y / ?l) * (y / ?l) + (z / ?l) * (z / ?l) = 1" by (rule unit_axis)
  have "Quat_slen (Quat_rotation p a b c) = 1" if "a * a + b * b + c * c = 1" for p a b c
  proof -
    have "Quat_slen (Quat_rotation p a b c) = (sin (p / 2))\<^sup>2 * (a * a + b * b + c * c) + (cos (p / 2))\<^sup>2"
      by (simp add: Quat_rotation_def Let_def power2_eq_square algebra_simps)
    then show ?thesis using that by simp
  qed
  then show ?thesis using n True o axis by (simp add: unit_node_def cs_turn_def Let_def Quat_slen_mul)
qed (simp add: cs_turn_def)

lemma anim_list_ok:
  "sibs h par p ts \<Longrightarrow> distinct (forest_nodes ts) \<Longrightarrow>
     anim_list scale dt p h = Some (\<lambda>x. if x \<in> set (forest_nodes ts) then map_option (cs_turn scale dt) (h x) else h x)"
proof (induction ts arbitrary: par p h rule: forest_induct)
  case Nil
  then show ?case by (simp add: anim_list.simps)
next
  case (Cons a ts us)
  obtain n where n: "p = Some a" "h a = Some n" "sibs h (Some a) (cn_children n) ts" "sibs h par (cn_next n) us"
    using Cons.prems(1) by (auto split: option.splits)
  have d: "a \<notin> set (forest_nodes ts)" "a \<notin> set (forest_nodes us)" "set (forest_nodes ts) \<inter> set (forest_nodes us) = {}"
    "distinct (forest_nodes ts)" "distinct (forest_nodes us)" using Cons.prems(2) by (simp_all del: set_concat)
  let ?h = "h(a \<mapsto> cs_turn scale dt n)"
  let ?h2 = "\<lambda>x. if x \<in> set (forest_nodes ts) then map_option (cs_turn scale dt) (?h x) else ?h x"
  have links: "cslinks ?h2 x = cslinks h x" for x
    using n(2) by (cases "x = a") (simp_all add: cslinks_def cs_turn_slinks del: option.map_comp)
  have "cslinks ?h x = cslinks h x" for x using n(2) by (simp add: cslinks_def)
  then have one: "anim_list scale dt (cn_children n) ?h = Some ?h2"
    using Cons.IH(1) [of ?h "Some a" "cn_children n"] sibs_cong [OF n(3), of ?h] d(4) by blast
  have "sibs ?h2 par (cn_next n) us" using n(4) by (rule sibs_cong) (rule links)
  then have two: "anim_list scale dt (cn_next n) ?h2
      = Some (\<lambda>x. if x \<in> set (forest_nodes us) then map_option (cs_turn scale dt) (?h2 x) else ?h2 x)"
    using Cons.IH(2) d(5) by blast
  have "(if x \<in> set (forest_nodes us) then map_option (cs_turn scale dt) (?h2 x) else ?h2 x)
      = (if x \<in> set (forest_nodes (CSNode a ts # us)) then map_option (cs_turn scale dt) (h x) else h x)" for x
  proof -
    consider "x = a" | "x \<in> set (forest_nodes ts)" "x \<noteq> a" "x \<notin> set (forest_nodes us)"
      | "x \<in> set (forest_nodes us)" "x \<noteq> a" "x \<notin> set (forest_nodes ts)"
      | "x \<noteq> a" "x \<notin> set (forest_nodes ts)" "x \<notin> set (forest_nodes us)"
      using d(1-3) by blast
    then show ?thesis using n(2) d(1,2) by cases (simp_all del: set_concat)
  qed
  then show ?case using n(1,2) one two by (subst anim_list.simps) simp
qed

text \<open>Time turns every node of the universe, each once: \<open>anim\<close> of the root runs, applies the rotation of its angular
  velocity to every node of the tree and leaves everything else, the pointers of the tree among it, as it is; all
  rotations stay of unit length.  \<open>clientUpdate\<close> does the same.\<close>

theorem cs_anim_turns_all:
  assumes "universe_ok h t"
  shows "\<exists>h'. cs_anim scale dt h (csroot t) = Some h' \<and> cs_clientUpdate scale dt h (csroot t) = Some h' \<and> universe_ok h' t
     \<and> (\<forall>x. h' x = (if x \<in> set (tree_nodes t) then map_option (cs_turn scale dt) (h x) else h x))"
proof -
  obtain c ts where t: "t = CSNode c ts" by (cases t)
  let ?h' = "\<lambda>x. if x \<in> set (tree_nodes t) then map_option (cs_turn scale dt) (h x) else h x"
  have u: "universe h t" using assms by (simp add: universe_ok_def)
  have links: "cslinks ?h' x = cslinks h x" for x by (simp add: cslinks_def cs_turn_slinks)
  have s: "sibs h None (Some c) [t]" "distinct (forest_nodes [t])" using u t by (simp_all add: universe_def)
  obtain n where n: "h c = Some n" "cn_next n = None" using s(1) t by (auto split: option.splits)
  have "anim_list scale dt (Some c) h = Some ?h'" using anim_list_ok [OF s] by simp
  then have "anim_list scale dt (cn_children n) (h(c \<mapsto> cs_turn scale dt n)) = Some ?h'"
    using n by (subst (asm) anim_list.simps) (auto simp: anim_list.simps [of _ _ None] split: bind_splits)
  then have run: "cs_anim scale dt h (csroot t) = Some ?h'" "cs_clientUpdate scale dt h (csroot t) = Some ?h'"
    using n(1) by (simp_all add: cs_anim_def cs_clientUpdate_def t)
  have "sibs ?h' None (Some c) [t]" using s(1) by (rule sibs_cong) (rule links)
  then have "universe ?h' t" using u t by (simp add: universe_def)
  moreover have "unit_node (the (?h' x))" if "x \<in> set (tree_nodes t)" for x
  proof -
    have "\<exists>m. h x = Some m" using u that by (rule universe_member)
    moreover have "unit_node (the (h x))" using assms that by (simp add: universe_ok_def)
    ultimately show ?thesis using that cs_turn_unit by auto
  qed
  ultimately have "universe_ok ?h' t" by (simp add: universe_ok_def)
  then show ?thesis using run by blast
qed

theorem cs_anim_turns_all_witness: "\<exists>h'. cs_anim 1 2 sample_heap 0 = Some h' \<and> universe_ok h' sample_tree"
  using cs_anim_turns_all [OF sample_ok, of 1 2] by (auto simp: sample_tree_def)

section \<open>Defects\<close>

text \<open>\<open>findparentb\<close> tests the parent with the coordinates of the child: a position 5 beyond the centre of a child that is at
  100 is given to the parent of radius 10, at 105.\<close>

definition far_heap :: csheap where
  "far_heap =
     [0 \<mapsto> csnode_blank\<lparr>cn_children := Some 1\<rparr>,
      1 \<mapsto> csnode_blank\<lparr>cn_parent := Some 0, cn_csrad := 10, cn_children := Some 2\<rparr>,
      2 \<mapsto> csnode_blank\<lparr>cn_parent := Some 1, cn_csrad := 1, cn_pos := Vec3 100 0 0\<rparr>]"

lemma belongcs_wrong:
  "belongcs far_heap 2 (Vec3 5 0 0) = Some (1, Some (Vec3 105 0 0)) \<and> \<not> cs_belongs (the (far_heap 1)) (Vec3 105 0 0)"
  by (simp add: belongcs_def far_heap_def csnode_blank_def findchildb.simps [of _ _ None] findparentb.simps cs_belongs_def
      findchildb.simps [of _ _ "Some _"] pos_up_def quat_u_def plus_Vec3_def)

text \<open>A component of a path of \<open>findcsppath\<close> matches a longer name, and an empty one the first child.\<close>

lemma findcsppath_prefix: "findcsppath sample_heap 1 [] = Some (Some 1)" "findcsppath sample_heap 0 [47, 99] = Some (Some 3)"
  by (simp_all add: findcsppath.simps until_slash_def sample_heap_def csnode_blank_def child_beginning.simps name_begins_def)

text \<open>A relative path has the names in the wrong order.\<close>

lemma getrpath_reversed: "getrpath sample_heap 3 0 = Some (cn_name (the (sample_heap 3)) @ [47] @ cn_name (the (sample_heap 1)) @ [47] @ [])"
  by (simp add: getrpath_def sample_heap_def csnode_blank_def findcsrpath_list.simps)

text \<open>The buffer version writes past the end of a buffer that is too small, whatever size it is told.\<close>

lemma getpath_overflow: "getpath_buf sample_heap 3 [0, 0, 0, 0] 4 = None"
  by (simp add: getpath_buf_def getpathint_buf.simps sample_heap_def csnode_blank_def awrite_def write_at_def)

text \<open>\<open>find\<close> visits a node again from each of its ancestors, goes on in the siblings of a node whose descendant
  stopped the search, and returns false also when no call did.\<close>

lemma cs_find_repeats:
  "cs_find (\<lambda>c s. (True, s @ [c])) sample_heap 3 [] = Some (False, [3, 3, 1, 1, 3, 2, 0])"
  by (simp add: cs_find_def tempFindParent.simps tempFindChild.simps sample_heap_def csnode_blank_def)

end
