(* ===== verification/Judge.thy ===== *)
theory Judge
  imports Cppquat Vecmath
begin

text \<open>
  Hit tests (\<open>src/judge.cpp\<close>, \<open>include/judge.h\<close>): whether a ray \<open>src + t * dir\<close> meets a sphere, a convex
  polygon, a box, a cylinder or a triangle at a time \<open>t\<close> of an interval, and the side of a plane that the
  corners of a box are on.  A function that stores results through pointers returns a \<open>hit\<close>, in which
  \<open>None\<close> is a result that was not stored; a caller that passes a null pointer for a result does not see
  it.  Divisions by zero, which give infinities and NaNs in the code, occur only where the text says so.
\<close>

record hit =
  ht_ret :: bool
  ht_f :: "real option"
  ht_pos :: "real Vec3 option"
  ht_norm :: "real Vec3 option"
  ht_dist :: "real option"

definition no_hit :: hit where
  "no_hit = \<lparr>ht_ret = False, ht_f = None, ht_pos = None, ht_norm = None, ht_dist = None\<rparr>"

text \<open>\<open>operator[]\<close> and \<open>Mat4::vec3\<close> with an index that is in range.\<close>

fun at3 :: "real Vec3 \<Rightarrow> nat \<Rightarrow> real" where
  "at3 (Vec3 x y z) i = (if i = 0 then x else if i = 1 then y else z)"

definition mat_axis :: "real Mat4 \<Rightarrow> nat \<Rightarrow> real Vec3" where
  "mat_axis m i = (case Mat4_vec3 m (int i) of Inr v \<Rightarrow> v | Inl _ \<Rightarrow> 0)"

section \<open>Spheres\<close>

text \<open>\<open>want\<close> is whether the argument \<open>dist\<close> is a pointer; then a direction of length zero is divided by.\<close>

definition jHitSpherePos :: "real Vec3 \<Rightarrow> real \<Rightarrow> real Vec3 \<Rightarrow> real Vec3 \<Rightarrow> real \<Rightarrow> bool \<Rightarrow> hit" where
  "jHitSpherePos obj radius src dir dt want =
     (let del = src - obj;
          b = Vec3_sp dir del;
          dirslen = Vec3_slen dir;
          c = dirslen * (Vec3_slen del - radius * radius);
          near = del - Vec3_scale dir (b / dirslen);
          out = (if want then no_hit\<lparr>ht_dist := Some (Vec3_len near), ht_pos := Some near\<rparr> else no_hit);
          D = b * b - c
      in if D \<le> 0 then out
         else let d = sqrt D
              in if dirslen = 0 then out
                 else let t0 = (- b - d) / dirslen; t1 = (- b + d) / dirslen
                      in if 0 \<le> t1 \<and> t0 < dt then
                           if t0 < 0 then out\<lparr>ht_ret := True, ht_pos := Some (0 + src), ht_f := Some 0\<rparr>
                           else out\<lparr>ht_ret := True, ht_pos := Some (Vec3_scale dir t0 + src), ht_f := Some t0\<rparr>
                         else out)"

definition jHitSphere :: "real Vec3 \<Rightarrow> real \<Rightarrow> real Vec3 \<Rightarrow> real Vec3 \<Rightarrow> real \<Rightarrow> bool" where
  "jHitSphere obj radius src dir dt = ht_ret (jHitSpherePos obj radius src dir dt False)"

section \<open>Polygons\<close>

text \<open>The loop over the edges of the polygon from \<open>i\<close> on; \<open>None\<close> is a stray index.\<close>

function polygon_sides :: "vec3 list \<Rightarrow> nat list \<Rightarrow> nat \<Rightarrow> vec3 \<Rightarrow> vec3 \<Rightarrow> nat \<Rightarrow> bool option" where
  "polygon_sides vb vi nv n p i =
     (if nv \<le> i then Some True
      else do {
        i0 \<leftarrow> aread vi i; v0 \<leftarrow> aread vb i0;
        i1 \<leftarrow> aread vi ((i + 1) mod nv); v1 \<leftarrow> aread vb i1;
        let v0p = VECSUB v0 p;
        let v01 = VECSUB v0 v1;
        let vp = VECVP v01 v0p;
        (if VECSP vp n < 0 then Some False else polygon_sides vb vi nv n p (i + 1)) })"
  by pat_completeness auto
termination by (relation "measure (\<lambda>(vb, vi, nv, n, p, i). nv - i)") auto

declare polygon_sides.simps [simp del]

text \<open>The result is 0, here \<open>None\<close>, or 1 with the parameter, the point and the normal vector.\<close>

definition jHitPolygon ::
    "vec3 list \<Rightarrow> nat list \<Rightarrow> nat \<Rightarrow> vec3 \<Rightarrow> vec3 \<Rightarrow> real \<Rightarrow> real \<Rightarrow> (real \<times> vec3 \<times> vec3) option option" where
  "jHitPolygon vb vi nv src dir mint maxt =
     (if nv < 3 then Some None
      else do {
        i0 \<leftarrow> aread vi 0; a \<leftarrow> aread vb i0;
        i1 \<leftarrow> aread vi 1; b \<leftarrow> aread vb i1;
        i2 \<leftarrow> aread vi 2; c \<leftarrow> aread vb i2;
        let n = VECVP (VECSUB b a) (VECSUB c a);
        let dn = VECSP dir n;
        (if dn \<le> 0 then Some None
         else do {
           let nl = VECLEN n;
           let dn = dn / nl;
           let n = VECSCALE n (1 / nl);
           let sa = VECSUB src a;
           let t = - VECSP sa n / dn;
           (if t < mint \<or> maxt < t then Some None
            else do {
              let p = VECSADD src dir t;
              ok \<leftarrow> polygon_sides vb vi nv n p 0;
              Some (if ok then Some (t, p, n) else None) }) }) })"

section \<open>Boxes\<close>

text \<open>
  \<open>org\<close>, \<open>scale\<close> and \<open>rot\<close> are the centre, the half edges and the orientation of the box.  From inside, the nearest face
  is searched; the first best distance \<open>HUGE_VAL\<close> is \<open>None\<close>.  The outer \<open>None\<close> is the early return.
\<close>

fun box_nearest :: "(nat \<Rightarrow> real) \<Rightarrow> nat list \<Rightarrow> (nat \<times> real) option \<Rightarrow> (nat \<times> real) option option" where
  "box_nearest dists [] best = Some best"
| "box_nearest dists (i # is) best =
     (if dists i < 0 then None
      else box_nearest dists is
        (case best of None \<Rightarrow> Some (i, dists i) | Some (j, d) \<Rightarrow> if dists i < d then Some (i, dists i) else best))"

definition box_step ::
    "real Vec3 \<Rightarrow> real Vec3 \<Rightarrow> real Vec3 \<Rightarrow> real Mat4 \<Rightarrow> real Vec3 \<Rightarrow> real Vec3 \<Rightarrow> real \<Rightarrow> nat \<Rightarrow> hit \<times> real \<Rightarrow> hit \<times> real" where
  "box_step scale lsrc ldir mat src dir mint i hb =
     (let (out, best) = hb;
          s = (if at3 ldir i < 0 then -1 else 1 :: real)
      in if at3 ldir i = 0 then (out, best)
         else let f = (- at3 lsrc i - s * at3 scale i) / at3 ldir i
              in if \<not> (mint \<le> f \<and> f < best) then (out, best)
                 else let h = Vec3_scale ldir f + lsrc; j = (i + 1) mod 3; k = (i + 2) mod 3
                      in if - at3 scale j < at3 h j \<and> at3 h j < at3 scale j \<and> - at3 scale k < at3 h k \<and> at3 h k < at3 scale k
                         then (out\<lparr>ht_ret := True, ht_f := Some f, ht_pos := Some (Vec3_scale dir f + src),
                                 ht_norm := Some (Vec3_scale (Vec3_norm (mat_axis mat i)) (- s))\<rparr>, f)
                         else (out, best))"

definition jHitBox ::
    "real Vec3 \<Rightarrow> real Vec3 \<Rightarrow> real Quat \<Rightarrow> real Vec3 \<Rightarrow> real Vec3 \<Rightarrow> real \<Rightarrow> real \<Rightarrow> hit" where
  "jHitBox org scale rot src dir mint maxt =
     (let imat = Quat_tomat4 (Quat_cnj rot);
          mat = Quat_tomat4 rot;
          dr = src - org;
          lsrc = Mat4_dvp3 imat dr;
          ldir = Mat4_dvp3 imat dir
      in if at3 ldir 0 = 0 \<and> at3 ldir 1 = 0 \<and> at3 ldir 2 = 0
           \<or> \<bar>at3 lsrc 0\<bar> < at3 scale 0 \<and> \<bar>at3 lsrc 1\<bar> < at3 scale 1 \<and> \<bar>at3 lsrc 2\<bar> < at3 scale 2
         then (case box_nearest (\<lambda>i. at3 scale i - \<bar>at3 lsrc i\<bar>) [0, 1, 2] None of
                 None \<Rightarrow> no_hit
               | Some None \<Rightarrow> no_hit
               | Some (Some (i, _)) \<Rightarrow>
                   no_hit\<lparr>ht_ret := True, ht_f := Some mint, ht_pos := Some src,
                     ht_norm := Some (if at3 lsrc i \<noteq> 0
                       then Vec3_scale (Vec3_norm (mat_axis mat i)) (at3 lsrc i / \<bar>at3 lsrc i\<bar>) else Vec3 0 0 0)\<rparr>)
         else fst (fold (box_step scale lsrc ldir mat src dir mint) [0, 1, 2] (no_hit, maxt)))"

record hitbox =
  hb_org :: "real Vec3"
  hb_rot :: "real Quat"
  hb_sc :: "real Vec3"

definition corner_below :: "hitbox \<Rightarrow> real Vec3 \<Rightarrow> real Vec3 \<Rightarrow> nat \<times> nat \<times> nat \<Rightarrow> bool" where
  "corner_below hb planeorg planenorm ixyz =
     (let (ix, iy, iz) = ixyz;
          org = Vec3 ((real ix * 2 - 1) * at3 (hb_sc hb) 0) ((real iy * 2 - 1) * at3 (hb_sc hb) 1) ((real iz * 2 - 1) * at3 (hb_sc hb) 2);
          org = Quat_trans (hb_rot hb) org;
          worldpos = org + hb_org hb
      in Vec3_sp (worldpos - planeorg) planenorm < 0)"

definition box_corners :: "(nat \<times> nat \<times> nat) list" where
  "box_corners = [(ix, iy, iz). ix \<leftarrow> [0, 1], iy \<leftarrow> [0, 1], iz \<leftarrow> [0, 1]]"

definition jHitBoxPlane :: "hitbox \<Rightarrow> real Vec3 \<Rightarrow> real Vec3 \<Rightarrow> uint32" where
  "jHitBoxPlane hb planeorg planenorm =
     fold (\<lambda>(ix, iy, iz) ret. or ret (push_bit (ix * 4 + iy * 2 + iz) (if corner_below hb planeorg planenorm (ix, iy, iz) then 1 else 0)))
       box_corners 0"

section \<open>Cylinders\<close>

definition projectPlane :: "real Vec3 \<Rightarrow> real Vec3 \<Rightarrow> real Vec3" where
  "projectPlane axis v = v - Vec3_scale axis (Vec3_sp v axis)"

datatype hit_face = HitNone | HitSide | HitNegative | HitPositive

text \<open>The two faces at the ends.\<close>

definition cylinder_end ::
    "real Vec3 \<Rightarrow> real \<Rightarrow> real Vec3 \<Rightarrow> real Vec3 \<Rightarrow> real \<Rightarrow> hit_face \<times> real \<Rightarrow> hit_face \<times> real" where
  "cylinder_end axis radius del dir sign ft =
     (let (hitFace, t) = ft;
          tpn = Vec3_sp (del - Vec3_scale axis sign) axis / Vec3_sp dir axis;
          dist = Vec3_len (projectPlane (Vec3_norm axis) (Vec3_scale dir tpn + del))
      in if dist < radius \<and> 0 \<le> tpn \<and> tpn < t then (if sign < 0 then HitNegative else HitPositive, tpn) else ft)"

text \<open>\<open>None\<close> is the failed assertion for an axis of length zero.\<close>

definition jHitCylinderPos ::
    "real Vec3 \<Rightarrow> real Vec3 \<Rightarrow> real \<Rightarrow> real Vec3 \<Rightarrow> real Vec3 \<Rightarrow> real \<Rightarrow> bool \<Rightarrow> hit option" where
  "jHitCylinderPos org axis radius src dir dt want =
     (if Vec3_slen axis \<le> 0 then None
      else Some
        (let del = src - org;
             naxis = Vec3_norm axis;
             plray = del - Vec3_scale naxis (Vec3_sp del naxis);
             b = Vec3_sp dir plray;
             dirslen = Vec3_slen plray;
             c = dirslen * (Vec3_slen plray - radius * radius);
             near = plray - Vec3_scale plray (b / dirslen);
             out = (if want then no_hit\<lparr>ht_dist := Some (Vec3_len near), ht_pos := Some near\<rparr> else no_hit);
             D = b * b - c
         in if D \<le> 0 then out
            else let d = sqrt D
                 in if dirslen = 0 then out
                    else
                      let t0 = (- b - d) / dirslen;
                          t1 = (- b + d) / dirslen;
                          t0 = (if t0 < 0 then 0 else t0);
                          ft = (if 0 < t1 \<and> t0 < dt \<and> \<bar>Vec3_sp naxis (Vec3_scale dir t0 + del)\<bar> < Vec3_len axis
                                then (HitSide, t0) else (HitNone, dt));
                          ft = (if fst ft \<noteq> HitSide \<and> Vec3_sp dir axis \<noteq> 0
                                then cylinder_end axis radius del dir 1 (cylinder_end axis radius del dir (-1) ft) else ft);
                          t = snd ft
                      in if t < dt then
                           out\<lparr>ht_ret := True, ht_pos := Some (Vec3_scale dir t + src), ht_f := Some t,
                             ht_norm := Some (case fst ft of
                                 HitSide \<Rightarrow> Vec3_norm (projectPlane naxis (Vec3_scale dir t + del))
                               | HitPositive \<Rightarrow> naxis
                               | _ \<Rightarrow> - naxis),
                             ht_dist := Some (Vec3_len (projectPlane naxis (Vec3_scale dir t + del)))\<rparr>
                         else out))"

definition jHitCylinder :: "real Vec3 \<Rightarrow> real Vec3 \<Rightarrow> real \<Rightarrow> real Vec3 \<Rightarrow> real Vec3 \<Rightarrow> real \<Rightarrow> hit option" where
  "jHitCylinder org axis radius src dir dt = jHitCylinderPos org axis radius src dir dt False"

section \<open>Triangles and moving lines\<close>

text \<open>
  The triangle has the corners 0, \<open>b\<close> and \<open>c\<close>, and the line goes from \<open>org\<close> to \<open>end'\<close>.  The coordinates are stored only on a
  hit, and the parameter returned; it is 0 otherwise.  A line in the plane of the triangle gives 0 / 0, with
  which no comparison holds.
\<close>

definition jHitTriangle :: "real Vec3 \<Rightarrow> real Vec3 \<Rightarrow> real Vec3 \<Rightarrow> real Vec3 \<Rightarrow> real \<times> (real \<times> real) option" where
  "jHitTriangle b c org end' =
     (let bvpc = Vec3_vp b c;
          orgz = Vec3_sp org bvpc;
          endz = Vec3_sp end' bvpc
      in if 0 < orgz * endz then (0, None)
         else
           let caxis = Vec3_vp bvpc b;
               baxis = Vec3_vp c bvpc;
               caxis = Vec3_div caxis (Vec3_sp caxis c);
               baxis = Vec3_div baxis (Vec3_sp baxis b);
               lpos = Vec3 (Vec3_sp org baxis) (Vec3_sp org caxis) orgz;
               ldir = Vec3 (Vec3_sp end' baxis) (Vec3_sp end' caxis) endz - lpos;
               f = - at3 lpos 2 / (endz - at3 lpos 2);
               lhit = lpos + Vec3_scale ldir f
           in if endz \<noteq> at3 lpos 2 \<and> 0 < at3 lhit 0 \<and> 0 < at3 lhit 1 \<and> at3 lhit 0 + at3 lhit 1 < 1
              then (f, Some (at3 lhit 0, at3 lhit 1)) else (0, None))"

text \<open>Two line segments, one of them moving: the result and the time.\<close>

definition jHitLines ::
    "real Vec3 \<Rightarrow> real Quat \<Rightarrow> real Vec3 \<Rightarrow> real Vec3 \<Rightarrow> real \<Rightarrow> real \<Rightarrow> real \<Rightarrow> bool \<times> real option" where
  "jHitLines apos arot avelo aomg alen blen dt =
     (let apose = apos + Quat_trans arot (Vec3_scale vec3_001 alen);
          apos1 = apos + Vec3_scale avelo dt;
          apos1e = apos1 + Quat_trans (Quat_quatrotquat arot (Vec3_scale aomg dt)) (Vec3_scale vec3_001 alen);
          (t, cs) = jHitTriangle (apose - apos) (apos1 - apos) (Vec3 0 0 0 - apos) (Vec3 0 0 blen - apos)
      in if t \<noteq> 0 then (True, map_option (\<lambda>(bc, cc). (1 - bc) * cc) cs)
         else
           let (t, cs) = jHitTriangle (apos1 - apos1e) (apose - apos1e) (Vec3 0 0 0 - apos1e) (Vec3 0 0 blen - apos1e)
           in if t \<noteq> 0 then (True, map_option (\<lambda>(bc, cc). (1 - bc) * (1 - cc)) cs) else (False, None))"

end
