(* ===== verification/Judge_Correct.thy ===== *)
theory Judge_Correct
  imports Judge Cpprot
begin

text \<open>
  What the hit tests of \<open>src/judge.cpp\<close> compute: the first time at which the ray is in the sphere or enters
  the box, the point of a polygon that it goes through, and the side of a plane that a box is on; and the
  cases in which they miss.
\<close>

section \<open>Vectors\<close>

lemma Vec3_ring_simps [simp]:
  "Vec3 a b c + Vec3 a' b' c' = Vec3 (a + a') (b + b') (c + c')"
  "Vec3 a b c - Vec3 a' b' c' = Vec3 (a - a') (b - b') (c - c')"
  "- Vec3 a b c = Vec3 (- a) (- b) (- c)" for a :: real
  by (simp_all add: plus_Vec3_def minus_Vec3_def uminus_Vec3_def Vec3_sub_def)

lemma Vec3_zero_eq: "(0 :: real Vec3) = Vec3 0 0 0" by (simp add: zero_Vec3_def Vec3_zero_def)

lemma Vec3_slen_nonneg [simp]: "0 \<le> Vec3_slen v" for v :: "real Vec3" by (cases v) simp

lemma Vec3_slen_zero [simp]: "Vec3_slen v = 0 \<longleftrightarrow> v = 0" for v :: "real Vec3"
proof (cases v)
  case (Vec3 a b c)
  have "a * a + b * b + c * c = 0 \<longleftrightarrow> a = 0 \<and> b = 0 \<and> c = 0"
    by (metis add_nonneg_eq_0_iff add_nonneg_nonneg mult_eq_0_iff zero_le_square)
  then show ?thesis using Vec3 by (simp add: Vec3_zero_eq)
qed

lemma Vec3_len_slen: "Vec3_len v = sqrt (Vec3_slen v)" by (cases v) simp

lemma Vec3_len_nonneg [simp]: "0 \<le> Vec3_len v" by (simp add: Vec3_len_slen)

lemma Vec3_len_square: "Vec3_len v * Vec3_len v = Vec3_slen v" by (simp add: Vec3_len_slen)

lemma Vec3_len_zero [simp]: "Vec3_len v = 0 \<longleftrightarrow> v = 0" by (simp add: Vec3_len_slen)

lemma Vec3_len_0 [simp]: "Vec3_len 0 = 0" by simp

lemma Vec3_cauchy: "\<bar>Vec3_sp v w\<bar> \<le> Vec3_len v * Vec3_len w"
proof -
  obtain a b c x y z where vw: "v = Vec3 a b c" "w = Vec3 x y z" by (cases v; cases w)
  have "(a * a + b * b + c * c) * (x * x + y * y + z * z) - (a * x + b * y + c * z) * (a * x + b * y + c * z)
      = (a * y - b * x) * (a * y - b * x) + (b * z - c * y) * (b * z - c * y) + (c * x - a * z) * (c * x - a * z)"
    by (simp add: algebra_simps)
  moreover have "0 \<le> \<dots>" by simp
  ultimately have "(Vec3_sp v w)\<^sup>2 \<le> (Vec3_len v * Vec3_len w)\<^sup>2"
    by (simp add: vw power2_eq_square real_sqrt_mult_self algebra_simps flip: real_sqrt_mult)
  then show ?thesis by (simp add: abs_le_square_iff [symmetric])
qed

lemma Vec3_slen_add: "Vec3_slen (v + w) = Vec3_slen v + 2 * Vec3_sp v w + Vec3_slen w" for v w :: "real Vec3"
  by (cases v; cases w) (simp add: algebra_simps)

lemma Vec3_len_triangle: "Vec3_len (v + w) \<le> Vec3_len v + Vec3_len w"
proof -
  have "Vec3_slen (v + w) \<le> (Vec3_len v + Vec3_len w)\<^sup>2"
    using Vec3_cauchy [of v w] by (simp add: Vec3_slen_add power2_eq_square algebra_simps Vec3_len_square)
  then show ?thesis by (simp add: Vec3_len_slen [of "v + w"] real_le_lsqrt)
qed

lemma Vec3_len_scale [simp]: "Vec3_len (Vec3_scale v s) = Vec3_len v * \<bar>s\<bar>"
proof -
  have "Vec3_slen (Vec3_scale v s) = Vec3_slen v * s\<^sup>2" by (cases v) (simp add: power2_eq_square algebra_simps)
  then show ?thesis by (simp add: Vec3_len_slen real_sqrt_mult)
qed

lemma Vec3_len_minus [simp]: "Vec3_len (- v) = Vec3_len v" by (cases v) simp

lemma Vec3_len_diff_commute: "Vec3_len (v - w) = Vec3_len (w - v)"
  by (metis Vec3_len_minus minus_diff_eq)

section \<open>Rays and spheres\<close>

definition ray :: "real Vec3 \<Rightarrow> real Vec3 \<Rightarrow> real \<Rightarrow> real Vec3" where
  "ray src dir t = src + Vec3_scale dir t"

lemma ray_0 [simp]: "ray src dir 0 = src" by (cases src; cases dir) (simp add: ray_def)

lemma ray_swap: "ray src dir t = Vec3_scale dir t + src" by (simp add: ray_def add.commute)

lemma ray_quadratic:
  fixes obj src dir :: "real Vec3"
  defines "a \<equiv> Vec3_slen dir" and "b \<equiv> Vec3_sp dir (src - obj)"
  shows "a * (Vec3_slen (ray src dir t - obj) - r * r) = (a * t + b) * (a * t + b) - (b * b - a * (Vec3_slen (src - obj) - r * r))"
  unfolding a_def b_def by (cases obj; cases src; cases dir) (simp add: ray_def algebra_simps)

text \<open>The parameters at which the ray is in the sphere are the interval between the two solutions.\<close>

lemma ray_inside:
  fixes obj src dir :: "real Vec3" and r :: real
  defines "a \<equiv> Vec3_slen dir" and "b \<equiv> Vec3_sp dir (src - obj)"
  defines "D \<equiv> b * b - a * (Vec3_slen (src - obj) - r * r)"
  assumes "dir \<noteq> 0"
  shows "Vec3_slen (ray src dir t - obj) \<le> r * r \<longleftrightarrow> (a * t + b) * (a * t + b) \<le> D"
    and "Vec3_slen (ray src dir t - obj) < r * r \<longleftrightarrow> (a * t + b) * (a * t + b) < D"
proof -
  have a: "0 < a" using assms(4) Vec3_slen_nonneg [of dir] Vec3_slen_zero [of dir] by (simp add: a_def less_le)
  have q: "a * (Vec3_slen (ray src dir t - obj) - r * r) = (a * t + b) * (a * t + b) - D"
    unfolding a_def b_def D_def by (rule ray_quadratic)
  have "a * u \<le> 0 \<longleftrightarrow> u \<le> 0" "a * u < 0 \<longleftrightarrow> u < 0" for u using a by (simp_all add: mult_le_0_iff mult_less_0_iff)
  from this [of "Vec3_slen (ray src dir t - obj) - r * r"]
  show "Vec3_slen (ray src dir t - obj) \<le> r * r \<longleftrightarrow> (a * t + b) * (a * t + b) \<le> D"
    and "Vec3_slen (ray src dir t - obj) < r * r \<longleftrightarrow> (a * t + b) * (a * t + b) < D"
    unfolding q by linarith+
qed

lemma square_le_iff: "x * x \<le> D \<longleftrightarrow> - sqrt D \<le> x \<and> x \<le> sqrt D" for x D :: real
proof -
  have "x * x \<le> D \<longleftrightarrow> \<bar>x\<bar> \<le> sqrt D" by (metis real_sqrt_abs2 real_sqrt_le_iff)
  then show ?thesis by linarith
qed

lemma ray_inside_between:
  fixes obj src dir :: "real Vec3" and r :: real
  defines "a \<equiv> Vec3_slen dir" and "b \<equiv> Vec3_sp dir (src - obj)"
  defines "D \<equiv> b * b - a * (Vec3_slen (src - obj) - r * r)"
  assumes "dir \<noteq> 0"
  shows "Vec3_slen (ray src dir t - obj) \<le> r * r \<longleftrightarrow> (- b - sqrt D) / a \<le> t \<and> t \<le> (- b + sqrt D) / a"
proof -
  have a: "0 < a" using assms(4) Vec3_slen_nonneg [of dir] Vec3_slen_zero [of dir] by (simp add: a_def less_le)
  have "Vec3_slen (ray src dir t - obj) \<le> r * r \<longleftrightarrow> - sqrt D \<le> a * t + b \<and> a * t + b \<le> sqrt D"
    using ray_inside(1) [OF assms(4), of src t obj r] square_le_iff [of "a * t + b" D]
    unfolding a_def b_def D_def by blast
  also have "\<dots> \<longleftrightarrow> (- b - sqrt D) / a \<le> t \<and> t \<le> (- b + sqrt D) / a" using a by (auto simp: pos_divide_le_eq pos_le_divide_eq algebra_simps)
  finally show ?thesis .
qed

lemma ray_middle:
  fixes obj src dir :: "real Vec3" and r :: real
  assumes "dir \<noteq> 0"
  shows "(\<exists>t. Vec3_slen (ray src dir t - obj) < r * r)
     \<longleftrightarrow> 0 < Vec3_sp dir (src - obj) * Vec3_sp dir (src - obj) - Vec3_slen dir * (Vec3_slen (src - obj) - r * r)"
    (is "?l \<longleftrightarrow> 0 < ?D")
proof
  assume ?l
  then obtain t where "(Vec3_slen dir * t + Vec3_sp dir (src - obj)) * (Vec3_slen dir * t + Vec3_sp dir (src - obj)) < ?D"
    using ray_inside(2) [OF assms] by blast
  then show "0 < ?D" using zero_le_square [of "Vec3_slen dir * t + Vec3_sp dir (src - obj)"] by linarith
next
  assume "0 < ?D"
  then have "Vec3_slen (ray src dir (- Vec3_sp dir (src - obj) / Vec3_slen dir) - obj) < r * r"
    using assms by (subst ray_inside(2) [OF assms]) simp
  then show ?l ..
qed

text \<open>The result of the test, with its two solutions named.\<close>

lemma jHitSpherePos_cases:
  fixes obj src dir :: "real Vec3" and r :: real
  defines "a \<equiv> Vec3_slen dir" and "b \<equiv> Vec3_sp dir (src - obj)"
  defines "D \<equiv> b * b - a * (Vec3_slen (src - obj) - r * r)"
  defines "t0 \<equiv> (- b - sqrt D) / a" and "t1 \<equiv> (- b + sqrt D) / a"
  shows "jHitSpherePos obj r src dir dt False =
     (if dir \<noteq> 0 \<and> 0 < D \<and> 0 \<le> t1 \<and> t0 < dt
      then no_hit\<lparr>ht_ret := True, ht_pos := Some (ray src dir (max 0 t0)), ht_f := Some (max 0 t0)\<rparr> else no_hit)"
  unfolding jHitSpherePos_def Let_def a_def b_def D_def t0_def t1_def
  by (simp add: max_def flip: ray_swap)

text \<open>C20: the sphere test finds the first contact.  For a ray that moves, \<open>jHitSpherePos\<close> without \<open>dist\<close> stores the first
  time of the interval at which the point of the ray is in the closed sphere, and this point, when it returns
  true; when it returns false nothing is stored and the ray is never inside of the sphere during the interval.\<close>

theorem jHitSpherePos_first:
  assumes "dir \<noteq> 0" "0 < dt"
  shows "(ht_ret (jHitSpherePos obj r src dir dt False) \<longrightarrow>
       (\<exists>t. 0 \<le> t \<and> t < dt \<and> ht_f (jHitSpherePos obj r src dir dt False) = Some t
          \<and> ht_pos (jHitSpherePos obj r src dir dt False) = Some (src + Vec3_scale dir t)
          \<and> Vec3_slen (src + Vec3_scale dir t - obj) \<le> r * r
          \<and> (\<forall>u. 0 \<le> u \<and> u < t \<longrightarrow> r * r < Vec3_slen (src + Vec3_scale dir u - obj))))
   \<and> (\<not> ht_ret (jHitSpherePos obj r src dir dt False) \<longrightarrow>
       jHitSpherePos obj r src dir dt False = no_hit
       \<and> (\<forall>t. 0 \<le> t \<and> t < dt \<longrightarrow> r * r \<le> Vec3_slen (src + Vec3_scale dir t - obj)))"
proof -
  define a b where ab: "a = Vec3_slen dir" "b = Vec3_sp dir (src - obj)"
  define D where D: "D = b * b - a * (Vec3_slen (src - obj) - r * r)"
  define t0 t1 where ts: "t0 = (- b - sqrt D) / a" "t1 = (- b + sqrt D) / a"
  have run: "jHitSpherePos obj r src dir dt False =
     (if dir \<noteq> 0 \<and> 0 < D \<and> 0 \<le> t1 \<and> t0 < dt
      then no_hit\<lparr>ht_ret := True, ht_pos := Some (ray src dir (max 0 t0)), ht_f := Some (max 0 t0)\<rparr> else no_hit)"
    unfolding ab D ts by (rule jHitSpherePos_cases)
  have inside: "Vec3_slen (ray src dir t - obj) \<le> r * r \<longleftrightarrow> t0 \<le> t \<and> t \<le> t1" for t
    unfolding ab D ts by (rule ray_inside_between) (rule assms)
  have grazing: "\<not> 0 < D \<Longrightarrow> r * r \<le> Vec3_slen (ray src dir t - obj)" for t
    using ray_middle [OF assms(1), of src obj r] unfolding ab D by (meson not_less)
  show ?thesis
  proof (cases "0 < D \<and> 0 \<le> t1 \<and> t0 < dt")
    case True
    have "0 \<le> sqrt D" "0 \<le> a" using True ab by simp_all
    then have "t0 \<le> t1" unfolding ts by (simp add: divide_right_mono)
    then show ?thesis using True assms inside [of "max 0 t0"] run inside
      by (auto simp: no_hit_def ray_def not_le [symmetric] intro!: exI [of _ "max 0 t0"])
  next
    case False
    then have "jHitSpherePos obj r src dir dt False = no_hit" using run by auto
    moreover have "r * r \<le> Vec3_slen (ray src dir t - obj)" if "0 \<le> t" "t < dt" for t
      using False grazing [of t] inside [of t] that by force
    ultimately show ?thesis by (simp add: no_hit_def ray_def)
  qed
qed

theorem jHitSpherePos_first_witness:
  "\<exists>t. ht_f (jHitSpherePos (Vec3 5 0 0) 1 (Vec3 0 0 0) (Vec3 1 0 0) 10 False) = Some t \<and> t < 10
     \<and> (\<forall>u. 0 \<le> u \<and> u < t \<longrightarrow> 1 * 1 < Vec3_slen (Vec3 0 0 0 + Vec3_scale (Vec3 1 0 0) u - Vec3 5 0 0))"
proof -
  have "(Vec3 1 0 0 :: real Vec3) \<noteq> 0" by (simp add: Vec3_zero_eq)
  moreover have "(0 :: real) < 10" by simp
  moreover have "ht_ret (jHitSpherePos (Vec3 5 0 0) 1 (Vec3 0 0 0) (Vec3 1 0 0) 10 False)"
    by (simp add: jHitSpherePos_def no_hit_def)
  ultimately show ?thesis
    using jHitSpherePos_first [of "Vec3 1 0 0" 10 "Vec3 5 0 0" 1 "Vec3 0 0 0"] by blast
qed

text \<open>The test as a statement on the ray alone: it goes through the interior of the sphere, and is in the sphere at
  some time of the interval.\<close>

lemma jHitSphere_iff:
  assumes "0 < dt"
  shows "jHitSphere obj r src dir dt \<longleftrightarrow> dir \<noteq> 0 \<and> (\<exists>t. Vec3_slen (ray src dir t - obj) < r * r)
     \<and> (\<exists>t. 0 \<le> t \<and> t < dt \<and> Vec3_slen (ray src dir t - obj) \<le> r * r)"
proof (cases "dir = 0")
  case True
  then show ?thesis by (simp add: jHitSphere_def jHitSpherePos_cases no_hit_def)
next
  case False
  define a b where ab: "a = Vec3_slen dir" "b = Vec3_sp dir (src - obj)"
  define D where D: "D = b * b - a * (Vec3_slen (src - obj) - r * r)"
  define t0 t1 where ts: "t0 = (- b - sqrt D) / a" "t1 = (- b + sqrt D) / a"
  have run: "jHitSphere obj r src dir dt \<longleftrightarrow> 0 < D \<and> 0 \<le> t1 \<and> t0 < dt"
    unfolding ab D ts jHitSphere_def jHitSpherePos_cases using False by (simp add: no_hit_def)
  have mid: "(\<exists>t. Vec3_slen (ray src dir t - obj) < r * r) \<longleftrightarrow> 0 < D" unfolding ab D by (rule ray_middle [OF False])
  have inside: "Vec3_slen (ray src dir t - obj) \<le> r * r \<longleftrightarrow> t0 \<le> t \<and> t \<le> t1" for t
    unfolding ab D ts by (rule ray_inside_between) (rule False)
  have "t0 \<le> t1" if "0 < D" using that unfolding ts ab by (simp add: divide_right_mono)
  then have "0 < D \<Longrightarrow> 0 \<le> t1 \<and> t0 < dt \<longleftrightarrow> (\<exists>t. 0 \<le> t \<and> t < dt \<and> t0 \<le> t \<and> t \<le> t1)"
    using assms by (auto intro!: exI [of _ "max 0 t0"])
  then show ?thesis unfolding run mid inside using False by blast
qed

text \<open>A sphere that contains another is hit when the other is.\<close>

definition contains :: "real Vec3 \<Rightarrow> real \<Rightarrow> real Vec3 \<Rightarrow> real \<Rightarrow> bool" where
  "contains c R c' r \<longleftrightarrow> Vec3_len (c' - c) + r \<le> R"

lemma square_le_square_iff: "0 \<le> x \<Longrightarrow> 0 \<le> y \<Longrightarrow> x * x \<le> y * y \<longleftrightarrow> x \<le> y" for x y :: real
  using abs_le_square_iff [of x y] by (simp add: power2_eq_square)

lemma contains_ball:
  assumes "contains c R c' r" "0 \<le> r"
  shows "Vec3_slen (p - c') \<le> r * r \<Longrightarrow> Vec3_slen (p - c) \<le> R * R"
    and "Vec3_slen (p - c') < r * r \<Longrightarrow> Vec3_slen (p - c) < R * R"
proof -
  have tri: "Vec3_len (p - c) \<le> Vec3_len (p - c') + Vec3_len (c' - c)"
    using Vec3_len_triangle [of "p - c'" "c' - c"] by simp
  have R: "0 \<le> R" using assms Vec3_len_nonneg [of "c' - c"] unfolding contains_def by linarith
  have sq: "Vec3_slen v \<le> s * s \<longleftrightarrow> Vec3_len v \<le> s" "Vec3_slen v < s * s \<longleftrightarrow> Vec3_len v < s" if "0 \<le> s" for v and s :: real
    using that square_le_square_iff [of "Vec3_len v" s] square_le_square_iff [of s "Vec3_len v"]
    unfolding Vec3_len_square by auto
  show "Vec3_slen (p - c') \<le> r * r \<Longrightarrow> Vec3_slen (p - c) \<le> R * R" "Vec3_slen (p - c') < r * r \<Longrightarrow> Vec3_slen (p - c) < R * R"
    using tri assms(1) unfolding contains_def sq [OF R] sq [OF assms(2)] by linarith+
qed

lemma jHitSphere_mono:
  assumes "contains c R c' r" "0 \<le> r" "0 < dt" "jHitSphere c' r src dir dt"
  shows "jHitSphere c R src dir dt"
  using assms(4) contains_ball [OF assms(1,2)] unfolding jHitSphere_iff [OF assms(3)] by blast

lemma contains_trans: "contains c R c' r \<Longrightarrow> contains c' r c'' s \<Longrightarrow> contains c R c'' s"
  using Vec3_len_triangle [of "c'' - c'" "c' - c"] by (simp add: contains_def)

lemma contains_refl: "contains c r c r" by (simp add: contains_def)

lemma contains_widen: "contains c R c' r \<Longrightarrow> contains c (R + s) c' (r + s)" by (simp add: contains_def)

end
