(* ===== verification/Judge_Box.thy ===== *)
theory Judge_Box
  imports Judge_Correct
begin

text \<open>
  The box tests of \<open>src/judge.cpp\<close>: \<open>jHitBox\<close> finds the time at which the ray enters the box, unless it enters
  through an edge, and \<open>jHitBoxPlane\<close> says on which side of a plane the corners are.
\<close>

section \<open>Intervals\<close>

text \<open>One coordinate of the ray is \<open>p + q * t\<close>; it enters the slab of half width \<open>s\<close> at the time \<open>slab_entry\<close>.\<close>

definition slab_entry :: "real \<Rightarrow> real \<Rightarrow> real \<Rightarrow> real" where
  "slab_entry p q s = (- p - (if q < 0 then -1 else 1) * s) / q"

lemma slab_on: "q \<noteq> 0 \<Longrightarrow> 0 \<le> s \<Longrightarrow> \<bar>p + q * slab_entry p q s\<bar> = s"
  by (simp add: slab_entry_def)

lemma slab_before: "q \<noteq> 0 \<Longrightarrow> 0 \<le> s \<Longrightarrow> \<bar>p + q * t\<bar> \<le> s \<Longrightarrow> slab_entry p q s \<le> t"
  by (auto simp: slab_entry_def divide_simps mult.commute abs_le_iff split: if_splits)

lemma slab_before_strict: "q \<noteq> 0 \<Longrightarrow> 0 \<le> s \<Longrightarrow> \<bar>p + q * t\<bar> < s \<Longrightarrow> slab_entry p q s < t"
  by (auto simp: slab_entry_def divide_simps mult.commute abs_less_iff split: if_splits)

lemma slab_between:
  assumes "q \<noteq> 0" "0 \<le> s" "\<bar>p + q * t\<bar> < s" "slab_entry p q s < u" "u \<le> t"
  shows "\<bar>p + q * u\<bar> < s"
proof (cases "q < 0")
  case True
  have "q * u < - p + s" using assms(4) True by (simp add: slab_entry_def pos_divide_less_eq neg_divide_less_eq mult.commute)
  moreover have "q * t \<le> q * u" using True assms(5) by simp
  ultimately show ?thesis using assms(3) by linarith
next
  case False
  have "- p - s < q * u" using assms(1,4) False by (simp add: slab_entry_def pos_divide_less_eq mult.commute)
  moreover have "q * u \<le> q * t" using False assms(1,5) by simp
  ultimately show ?thesis using assms(3) by linarith
qed

section \<open>The box\<close>

definition box_local :: "real Vec3 \<Rightarrow> real Quat \<Rightarrow> real Vec3 \<Rightarrow> nat \<Rightarrow> real" where
  "box_local org rot p i = at3 (Quat_itrans rot (p - org)) i"

definition in_box :: "real Vec3 \<Rightarrow> real Vec3 \<Rightarrow> real Quat \<Rightarrow> real Vec3 \<Rightarrow> bool" where
  "in_box org scale rot p \<longleftrightarrow> (\<forall>i<3. \<bar>box_local org rot p i\<bar> \<le> at3 scale i)"

definition inside_box :: "real Vec3 \<Rightarrow> real Vec3 \<Rightarrow> real Quat \<Rightarrow> real Vec3 \<Rightarrow> bool" where
  "inside_box org scale rot p \<longleftrightarrow> (\<forall>i<3. \<bar>box_local org rot p i\<bar> < at3 scale i)"

definition on_edge :: "real Vec3 \<Rightarrow> real Vec3 \<Rightarrow> real Quat \<Rightarrow> real Vec3 \<Rightarrow> bool" where
  "on_edge org scale rot p \<longleftrightarrow>
     (\<exists>i<3. \<exists>j<3. i \<noteq> j \<and> \<bar>box_local org rot p i\<bar> = at3 scale i \<and> \<bar>box_local org rot p j\<bar> = at3 scale j)"

lemma all_below_3: "(\<forall>i<3. P i) \<longleftrightarrow> P 0 \<and> P 1 \<and> P (2 :: nat)"
  by (simp add: numeral_3_eq_3 All_less_Suc numeral_2_eq_2 conj_ac)

lemma below_3_cases: "i < 3 \<Longrightarrow> i = 0 \<or> i = 1 \<or> i = (2 :: nat)" by auto

lemma at3_simps [simp]:
  "at3 (v + w) i = at3 v i + at3 w i" "at3 (v - w) i = at3 v i - at3 w i" "at3 (Vec3_scale v s) i = at3 v i * s"
  by (cases v; cases w; simp)+

lemma box_local_ray: "box_local org rot (ray src dir t) i = box_local org rot src i + at3 (Quat_itrans rot dir) i * t"
proof -
  have "Quat_itrans rot (src + Vec3_scale dir t - org) = Quat_itrans rot (src - org) + Vec3_scale (Quat_itrans rot dir) t"
    using Quat_trans_lin(1) [of "Quat_cnj rot" "src - org" "Vec3_scale dir t"] Quat_trans_lin(3) [of "Quat_cnj rot" dir t]
    by (simp add: Quat_itrans_def algebra_simps)
  then show ?thesis by (simp add: box_local_def ray_def)
qed

section \<open>The faces\<close>

text \<open>The ray enters through the inner part of the face \<open>i\<close>.\<close>

definition face_hit :: "real Vec3 \<Rightarrow> real Vec3 \<Rightarrow> real Vec3 \<Rightarrow> real \<Rightarrow> real \<Rightarrow> nat \<Rightarrow> bool" where
  "face_hit scale lsrc ldir mint maxt i \<longleftrightarrow>
     at3 ldir i \<noteq> 0 \<and> (let f = slab_entry (at3 lsrc i) (at3 ldir i) (at3 scale i)
       in mint \<le> f \<and> f < maxt \<and> (\<forall>j<3. j \<noteq> i \<longrightarrow> \<bar>at3 lsrc j + at3 ldir j * f\<bar> < at3 scale j))"

definition face_result :: "real Vec3 \<Rightarrow> real Vec3 \<Rightarrow> real Vec3 \<Rightarrow> real Mat4 \<Rightarrow> real Vec3 \<Rightarrow> real Vec3 \<Rightarrow> nat \<Rightarrow> hit" where
  "face_result scale lsrc ldir mat src dir i =
     (let f = slab_entry (at3 lsrc i) (at3 ldir i) (at3 scale i)
      in no_hit\<lparr>ht_ret := True, ht_f := Some f, ht_pos := Some (Vec3_scale dir f + src),
           ht_norm := Some (Vec3_scale (Vec3_norm (mat_axis mat i)) (- (if at3 ldir i < 0 then -1 else 1)))\<rparr>)"

lemma abs_less_iff': "\<bar>x\<bar> < (a :: real) \<longleftrightarrow> - a < x \<and> x < a" by auto

lemma box_step_face:
  assumes "i < 3"
  shows "box_step scale lsrc ldir mat src dir mint i (out, best) =
     (if face_hit scale lsrc ldir mint best i
      then (out\<lparr>ht_ret := True, ht_f := ht_f (face_result scale lsrc ldir mat src dir i), ht_pos := ht_pos (face_result scale lsrc ldir mat src dir i),
              ht_norm := ht_norm (face_result scale lsrc ldir mat src dir i)\<rparr>, slab_entry (at3 lsrc i) (at3 ldir i) (at3 scale i))
      else (out, best))"
proof -
  have "i = 0 \<or> i = 1 \<or> i = 2" using assms by (rule below_3_cases)
  then show ?thesis
    by (elim disjE) (simp_all add: box_step_def face_hit_def face_result_def slab_entry_def Let_def all_below_3 abs_less_iff'
        add.commute mult.commute numeral_2_eq_2)
qed

lemma face_hit_less: "face_hit scale lsrc ldir mint best i \<Longrightarrow> best \<le> maxt \<Longrightarrow> face_hit scale lsrc ldir mint maxt i"
  by (auto simp: face_hit_def Let_def)

text \<open>The loop over the faces ends with the result of a face that is hit, if there is one.\<close>

lemma box_fold:
  assumes "set is \<subseteq> {..<3}"
  shows "fold (box_step scale lsrc ldir mat src dir mint) is (no_hit, maxt) = (no_hit, maxt)
        \<and> (\<forall>i\<in>set is. \<not> face_hit scale lsrc ldir mint maxt i)
     \<or> (\<exists>i\<in>set is. face_hit scale lsrc ldir mint maxt i
        \<and> fst (fold (box_step scale lsrc ldir mat src dir mint) is (no_hit, maxt)) = face_result scale lsrc ldir mat src dir i
        \<and> snd (fold (box_step scale lsrc ldir mat src dir mint) is (no_hit, maxt)) \<le> maxt)"
  using assms
proof (induction "is" rule: rev_induct)
  case Nil
  then show ?case by simp
next
  case (snoc i "is")
  let ?r = "fold (box_step scale lsrc ldir mat src dir mint) is (no_hit, maxt)"
  have i: "i < 3" "set is \<subseteq> {..<3}" using snoc.prems by auto
  have step: "fold (box_step scale lsrc ldir mat src dir mint) (is @ [i]) (no_hit, maxt)
      = box_step scale lsrc ldir mat src dir mint i (fst ?r, snd ?r)" by simp
  consider "?r = (no_hit, maxt)" "\<forall>i\<in>set is. \<not> face_hit scale lsrc ldir mint maxt i"
    | j where "j \<in> set is" "face_hit scale lsrc ldir mint maxt j" "fst ?r = face_result scale lsrc ldir mat src dir j" "snd ?r \<le> maxt"
    using snoc.IH [OF i(2)] by blast
  then show ?case
  proof cases
    case 1
    then show ?thesis unfolding step box_step_face [OF i(1)]
      by (auto simp: face_result_def face_hit_def no_hit_def Let_def)
  next
    case 2
    show ?thesis
    proof (cases "face_hit scale lsrc ldir mint (snd ?r) i")
      case True
      then have "face_hit scale lsrc ldir mint maxt i" using 2(4) by (rule face_hit_less)
      moreover have "slab_entry (at3 lsrc i) (at3 ldir i) (at3 scale i) \<le> maxt"
        using calculation by (simp add: face_hit_def Let_def)
      ultimately show ?thesis using True 2 unfolding step box_step_face [OF i(1)]
        by (auto simp: face_result_def no_hit_def Let_def)
    next
      case False
      then show ?thesis using 2 unfolding step box_step_face [OF i(1)] by auto
    qed
  qed
qed

lemma box_fold_3:
  "(ht_ret (fst (fold (box_step scale lsrc ldir mat src dir mint) [0, 1, 2] (no_hit, maxt))) \<longleftrightarrow> (\<exists>i<3. face_hit scale lsrc ldir mint maxt i))
   \<and> (ht_ret (fst (fold (box_step scale lsrc ldir mat src dir mint) [0, 1, 2] (no_hit, maxt))) \<longrightarrow>
        (\<exists>i<3. face_hit scale lsrc ldir mint maxt i
          \<and> fst (fold (box_step scale lsrc ldir mat src dir mint) [0, 1, 2] (no_hit, maxt)) = face_result scale lsrc ldir mat src dir i))"
proof -
  have s: "i \<in> set [0, 1, 2] \<longleftrightarrow> i < 3" for i :: nat by auto
  have "set [0, 1, 2 :: nat] \<subseteq> {..<3}" by simp
  from box_fold [OF this, of scale lsrc ldir mat src dir mint maxt] show ?thesis
    unfolding Ball_def Bex_def s by (elim disjE exE conjE) (auto simp: no_hit_def face_result_def Let_def)
qed

section \<open>Entering the box\<close>

lemma face_hit_entry:
  assumes "face_hit scale lsrc ldir mint maxt i" "i < 3" "\<forall>i<3. 0 \<le> at3 scale i"
  defines "f \<equiv> slab_entry (at3 lsrc i) (at3 ldir i) (at3 scale i)"
  shows "mint \<le> f" "f < maxt" "j < 3 \<Longrightarrow> \<bar>at3 lsrc j + at3 ldir j * f\<bar> \<le> at3 scale j"
    "u < f \<Longrightarrow> at3 scale i < \<bar>at3 lsrc i + at3 ldir i * u\<bar>"
proof -
  have q: "at3 ldir i \<noteq> 0" "0 \<le> at3 scale i" using assms(1-3) by (auto simp: face_hit_def)
  show "mint \<le> f" "f < maxt" using assms(1) by (simp_all add: face_hit_def f_def Let_def)
  show "\<bar>at3 lsrc j + at3 ldir j * f\<bar> \<le> at3 scale j" if "j < 3"
    using assms(1) that slab_on [OF q] by (cases "j = i") (auto simp: face_hit_def f_def Let_def less_imp_le)
  show "at3 scale i < \<bar>at3 lsrc i + at3 ldir i * u\<bar>" if "u < f"
    using slab_before [OF q, of "at3 lsrc i" u] that by (fastforce simp: f_def)
qed

lemma face_hit_exists:
  assumes pos: "\<forall>i<3. 0 \<le> at3 scale i" and moves: "\<exists>i<3. at3 ldir i \<noteq> 0"
    and t: "mint < t" "t < maxt" "\<forall>i<3. \<bar>at3 lsrc i + at3 ldir i * t\<bar> < at3 scale i"
    and out: "\<not> (\<forall>i<3. \<bar>at3 lsrc i + at3 ldir i * mint\<bar> \<le> at3 scale i)"
    and edge: "\<forall>u<t. \<not> (\<exists>i<3. \<exists>j<3. i \<noteq> j \<and> \<bar>at3 lsrc i + at3 ldir i * u\<bar> = at3 scale i \<and> \<bar>at3 lsrc j + at3 ldir j * u\<bar> = at3 scale j)"
  shows "\<exists>i<3. face_hit scale lsrc ldir mint maxt i"
proof -
  let ?e = "\<lambda>i. slab_entry (at3 lsrc i) (at3 ldir i) (at3 scale i)"
  let ?I = "{i. i < 3 \<and> at3 ldir i \<noteq> 0}"
  have fin: "finite ?I" "?I \<noteq> {}" using moves by auto
  obtain i where i: "i < 3" "at3 ldir i \<noteq> 0" and greatest: "\<And>j. j < 3 \<Longrightarrow> at3 ldir j \<noteq> 0 \<Longrightarrow> ?e j \<le> ?e i"
  proof -
    have "Max (?e ` ?I) \<in> ?e ` ?I" using fin by simp
    then obtain i where "i \<in> ?I" "Max (?e ` ?I) = ?e i" by auto
    moreover have "?e j \<le> Max (?e ` ?I)" if "j \<in> ?I" for j using that fin(1) by simp
    ultimately show ?thesis using that by force
  qed
  have between: "\<bar>at3 lsrc j + at3 ldir j * u\<bar> < at3 scale j" if "j < 3" "at3 ldir j \<noteq> 0 \<Longrightarrow> ?e j < u" "u \<le> t" for j u
    using that slab_between [of "at3 ldir j" "at3 scale j" "at3 lsrc j" t u] t(3) pos by (cases "at3 ldir j = 0") auto
  have before: "?e i < t" using slab_before_strict [OF i(2)] i(1) pos t(3) by simp
  have late: "mint \<le> ?e i"
  proof (rule ccontr)
    assume "\<not> mint \<le> ?e i"
    then have "\<bar>at3 lsrc j + at3 ldir j * mint\<bar> < at3 scale j" if "j < 3" for j
      using between [OF that, of mint] greatest [OF that] t(1) by fastforce
    then show False using out by (meson less_imp_le)
  qed
  have "\<bar>at3 lsrc j + at3 ldir j * ?e i\<bar> < at3 scale j" if "j < 3" "j \<noteq> i" for j
  proof (cases "at3 ldir j = 0")
    case True
    then show ?thesis using between [OF that(1), of t] by simp
  next
    case False
    have "?e j \<noteq> ?e i"
    proof
      assume e: "?e j = ?e i"
      have "\<bar>at3 lsrc i + at3 ldir i * ?e i\<bar> = at3 scale i" using slab_on i pos by blast
      moreover have "\<bar>at3 lsrc j + at3 ldir j * ?e i\<bar> = at3 scale j"
        unfolding e [symmetric] using slab_on False that(1) pos by blast
      ultimately show False using edge before i(1) that by blast
    qed
    then show ?thesis using between [OF that(1), of "?e i"] greatest [OF that(1) False] before by simp
  qed
  then show ?thesis using i late before t(2) by (auto simp: face_hit_def Let_def intro!: exI [of _ i])
qed

lemma jHitBox_local:
  fixes src dir org :: "real Vec3"
  assumes "Quat_slen rot = 1" "dir \<noteq> 0"
  defines "lsrc \<equiv> Quat_itrans rot (src - org)" and "ldir \<equiv> Quat_itrans rot dir"
  shows "jHitBox org scale rot src dir mint maxt =
     (if inside_box org scale rot src
      then (case box_nearest (\<lambda>i. at3 scale i - \<bar>at3 lsrc i\<bar>) [0, 1, 2] None of
              None \<Rightarrow> no_hit
            | Some None \<Rightarrow> no_hit
            | Some (Some (i, _)) \<Rightarrow>
                no_hit\<lparr>ht_ret := True, ht_f := Some mint, ht_pos := Some src,
                  ht_norm := Some (if at3 lsrc i \<noteq> 0
                    then Vec3_scale (Vec3_norm (mat_axis (Quat_tomat4 rot) i)) (at3 lsrc i / \<bar>at3 lsrc i\<bar>) else Vec3 0 0 0)\<rparr>)
      else fst (fold (box_step scale lsrc ldir (Quat_tomat4 rot) src dir mint) [0, 1, 2] (no_hit, maxt)))"
    and "\<exists>i<3. at3 ldir i \<noteq> 0"
proof -
  have "ldir \<noteq> 0"
  proof
    assume "ldir = 0"
    then have "Quat_trans rot ldir = 0" by (cases rot) (simp add: Quat_trans_def zero_Vec3_def Vec3_zero_def)
    then show False using assms(1,2) trans_itrans [of rot dir] by (simp add: ldir_def)
  qed
  then have some: "\<not> (at3 ldir 0 = 0 \<and> at3 ldir 1 = 0 \<and> at3 ldir 2 = 0)"
    by (cases ldir) (simp add: Vec3_zero_eq)
  then show "\<exists>i<3. at3 ldir i \<noteq> 0" using all_below_3 [of "\<lambda>i. at3 ldir i = 0"] by blast
  show "jHitBox org scale rot src dir mint maxt =
     (if inside_box org scale rot src
      then (case box_nearest (\<lambda>i. at3 scale i - \<bar>at3 lsrc i\<bar>) [0, 1, 2] None of
              None \<Rightarrow> no_hit
            | Some None \<Rightarrow> no_hit
            | Some (Some (i, _)) \<Rightarrow>
                no_hit\<lparr>ht_ret := True, ht_f := Some mint, ht_pos := Some src,
                  ht_norm := Some (if at3 lsrc i \<noteq> 0
                    then Vec3_scale (Vec3_norm (mat_axis (Quat_tomat4 rot) i)) (at3 lsrc i / \<bar>at3 lsrc i\<bar>) else Vec3 0 0 0)\<rparr>)
      else fst (fold (box_step scale lsrc ldir (Quat_tomat4 rot) src dir mint) [0, 1, 2] (no_hit, maxt)))"
    using some unfolding jHitBox_def Let_def Mat4_dvp3_tomat4 Quat_itrans_def [symmetric] lsrc_def ldir_def inside_box_def
      box_local_def all_below_3 by (simp only: simp_thms)
qed

lemma box_nearest_inside:
  "\<forall>i\<in>set is. 0 \<le> dists i \<Longrightarrow> best \<noteq> None \<or> is \<noteq> [] \<Longrightarrow> \<exists>i d. box_nearest dists is best = Some (Some (i, d))"
  by (induction "is" arbitrary: best) (auto split: option.splits)

text \<open>C21: the box test finds the entry into the box.  For a moving ray and a turned box: from inside the box the
  hit is at once, at the source; from elsewhere, a hit that is reported is in the interval, is the point of
  the ray at the time that is stored, and is the first point of the whole ray that is in the box; and a ray
  that is outside at \<open>mint\<close>, is inside the box at some time of the interval and before that meets no edge is reported.\<close>

theorem jHitBox_enters:
  assumes "Quat_slen rot = 1" "dir \<noteq> 0" "\<forall>i<3. 0 \<le> at3 scale i"
  shows "(inside_box org scale rot src \<longrightarrow>
        ht_ret (jHitBox org scale rot src dir mint maxt) \<and> ht_f (jHitBox org scale rot src dir mint maxt) = Some mint
        \<and> ht_pos (jHitBox org scale rot src dir mint maxt) = Some src)
   \<and> (\<not> inside_box org scale rot src \<and> ht_ret (jHitBox org scale rot src dir mint maxt) \<longrightarrow>
        (\<exists>f. mint \<le> f \<and> f < maxt \<and> ht_f (jHitBox org scale rot src dir mint maxt) = Some f
           \<and> ht_pos (jHitBox org scale rot src dir mint maxt) = Some (ray src dir f)
           \<and> in_box org scale rot (ray src dir f) \<and> (\<forall>u<f. \<not> in_box org scale rot (ray src dir u))))
   \<and> (\<not> inside_box org scale rot src \<and> \<not> in_box org scale rot (ray src dir mint)
        \<and> (\<exists>t. mint < t \<and> t < maxt \<and> inside_box org scale rot (ray src dir t)
             \<and> (\<forall>u<t. \<not> on_edge org scale rot (ray src dir u)))
        \<longrightarrow> ht_ret (jHitBox org scale rot src dir mint maxt))"
proof -
  let ?lsrc = "Quat_itrans rot (src - org)" and ?ldir = "Quat_itrans rot dir" and ?h = "jHitBox org scale rot src dir mint maxt"
  note local = jHitBox_local [OF assms(1,2)]
  note coords = box_local_ray [of org rot src dir, unfolded box_local_def [of org rot src]]
  have one: "ht_ret ?h \<and> ht_f ?h = Some mint \<and> ht_pos ?h = Some src" if "inside_box org scale rot src"
  proof -
    have "\<forall>i\<in>set [0, 1, 2]. 0 \<le> at3 scale i - \<bar>at3 ?lsrc i\<bar>"
      using that by (simp add: inside_box_def box_local_def all_below_3)
    then obtain i d where "box_nearest (\<lambda>i. at3 scale i - \<bar>at3 ?lsrc i\<bar>) [0, 1, 2] None = Some (Some (i, d))"
      using box_nearest_inside [of "[0, 1, 2]" "\<lambda>i. at3 scale i - \<bar>at3 ?lsrc i\<bar>" None] by blast
    then show ?thesis unfolding local(1) if_P [OF that] by (simp del: box_nearest.simps)
  qed
  have two: "\<exists>f. mint \<le> f \<and> f < maxt \<and> ht_f ?h = Some f \<and> ht_pos ?h = Some (ray src dir f)
      \<and> in_box org scale rot (ray src dir f) \<and> (\<forall>u<f. \<not> in_box org scale rot (ray src dir u))"
    if out: "\<not> inside_box org scale rot src" and ret: "ht_ret ?h"
  proof -
    obtain i where i: "i < 3" "face_hit scale ?lsrc ?ldir mint maxt i"
        "?h = face_result scale ?lsrc ?ldir (Quat_tomat4 rot) src dir i"
      using ret out box_fold_3 [of scale ?lsrc ?ldir "Quat_tomat4 rot" src dir mint maxt] unfolding local(1) if_not_P [OF out] by blast
    note entry = face_hit_entry [OF i(2,1) assms(3)]
    show ?thesis unfolding i(3)
      by (rule exI [of _ "slab_entry (at3 ?lsrc i) (at3 ?ldir i) (at3 scale i)"])
        (use entry i(1) in \<open>auto simp: face_result_def Let_def ray_swap [symmetric] in_box_def coords not_le\<close>)
  qed
  have three: "ht_ret ?h"
    if "\<not> inside_box org scale rot src" "\<not> in_box org scale rot (ray src dir mint)" "mint < t" "t < maxt"
      "inside_box org scale rot (ray src dir t)" "\<forall>u<t. \<not> on_edge org scale rot (ray src dir u)" for t
  proof -
    have "\<exists>i<3. face_hit scale ?lsrc ?ldir mint maxt i"
      using face_hit_exists [OF assms(3) local(2) that(3,4)] that(2,5,6)
      unfolding in_box_def inside_box_def on_edge_def coords by blast
    then show ?thesis using box_fold_3 that(1) unfolding local(1) by auto
  qed
  show ?thesis using one two three by blast
qed

theorem jHitBox_enters_witness:
  "ht_ret (jHitBox (Vec3 0 0 0) (Vec3 1 1 1) (Quat 0 0 0 1) (Vec3 (-3) 0 0) (Vec3 1 0 0) 0 10)"
proof -
  have "Quat_slen (Quat 0 0 0 1) = (1 :: real)" "(Vec3 1 0 0 :: real Vec3) \<noteq> 0" "\<forall>i<3. 0 \<le> at3 (Vec3 1 1 1) i"
    by (simp_all add: Vec3_zero_eq)
  note it = jHitBox_enters [OF this, of "Vec3 0 0 0" "Vec3 (-3) 0 0" 0 10]
  have "box_local (Vec3 0 0 0) (Quat 0 0 0 1) (ray (Vec3 (-3) 0 0) (Vec3 1 0 0) u) i = (if i = 0 then u - 3 else 0)" for u i
    by (simp add: box_local_def ray_def Quat_itrans_def)
  then have "inside_box (Vec3 0 0 0) (Vec3 1 1 1) (Quat 0 0 0 1) (ray (Vec3 (-3) 0 0) (Vec3 1 0 0) 3)"
    "\<not> in_box (Vec3 0 0 0) (Vec3 1 1 1) (Quat 0 0 0 1) (ray (Vec3 (-3) 0 0) (Vec3 1 0 0) 0)"
    "\<not> inside_box (Vec3 0 0 0) (Vec3 1 1 1) (Quat 0 0 0 1) (Vec3 (-3) 0 0)"
    "\<not> on_edge (Vec3 0 0 0) (Vec3 1 1 1) (Quat 0 0 0 1) (ray (Vec3 (-3) 0 0) (Vec3 1 0 0) u)" for u
    by (auto simp: inside_box_def in_box_def on_edge_def box_local_def Quat_itrans_def ray_def all_below_3 Vec3_zero_eq split: if_splits)
  moreover have "(0 :: real) < 3" "(3 :: real) < 10" by simp_all
  ultimately show ?thesis using it by blast
qed

text \<open>A ray that enters through an edge is missed: both faces that meet there leave it out, and no other face is tried.\<close>

lemma jHitBox_edge_missed:
  "\<not> ht_ret (jHitBox (Vec3 0 0 0) (Vec3 1 1 1) (Quat 0 0 0 1) (Vec3 (-3) (-3) 0) (Vec3 1 1 0) 0 10)
   \<and> inside_box (Vec3 0 0 0) (Vec3 1 1 1) (Quat 0 0 0 1) (ray (Vec3 (-3) (-3) 0) (Vec3 1 1 0) 3)"
proof -
  have "Quat_slen (Quat 0 0 0 1) = (1 :: real)" "(Vec3 1 1 0 :: real Vec3) \<noteq> 0" by (simp_all add: Vec3_zero_eq)
  note local = jHitBox_local(1) [OF this]
  have "box_local (Vec3 0 0 0) (Quat 0 0 0 1) p i = at3 p i" for p i
    by (cases p) (simp add: box_local_def Quat_itrans_def)
  then have out: "\<not> inside_box (Vec3 0 0 0) (Vec3 1 1 1) (Quat 0 0 0 1) (Vec3 (-3) (-3) 0)"
    and reached: "inside_box (Vec3 0 0 0) (Vec3 1 1 1) (Quat 0 0 0 1) (ray (Vec3 (-3) (-3) 0) (Vec3 1 1 0) 3)"
    by (simp_all add: inside_box_def all_below_3 ray_def)
  have "\<not> (\<exists>i<3. face_hit (Vec3 1 1 1) (Vec3 (-3) (-3) 0) (Vec3 1 1 0) 0 10 i)"
    by (auto dest!: below_3_cases simp: face_hit_def slab_entry_def all_below_3 Let_def)
  then show ?thesis using reached unfolding local if_not_P [OF out] box_fold_3 [THEN conjunct1]
    by (simp add: Quat_itrans_def)
qed

section \<open>Planes\<close>

lemma fold_or_bit: "bit (fold (\<lambda>x r. or r (g x)) xs a) k \<longleftrightarrow> bit a k \<or> (\<exists>x\<in>set xs. bit (g x) k)" for a :: "'w::len word"
  by (induction xs arbitrary: a) (auto simp: bit_or_iff)

lemma jHitBoxPlane_bit:
  "bit (jHitBoxPlane hb planeorg planenorm) k \<longleftrightarrow>
     (\<exists>(ix, iy, iz)\<in>set box_corners. corner_below hb planeorg planenorm (ix, iy, iz) \<and> k = ix * 4 + iy * 2 + iz)"
proof -
  let ?g = "\<lambda>(ix, iy, iz). push_bit (ix * 4 + iy * 2 + iz) (if corner_below hb planeorg planenorm (ix, iy, iz) then 1 else 0) :: uint32"
  have one: "bit (push_bit m (if c then 1 else 0 :: uint32)) k \<longleftrightarrow> c \<and> k = m" if "m < 8" for m c
    using that by (auto simp: bit_push_bit_iff bit_1_iff)
  have g: "bit (?g (ix, iy, iz)) k \<longleftrightarrow> corner_below hb planeorg planenorm (ix, iy, iz) \<and> k = ix * 4 + iy * 2 + iz"
    if "(ix, iy, iz) \<in> set box_corners" for ix iy iz
  proof -
    have "ix * 4 + iy * 2 + iz < 8" using that by (auto simp: box_corners_def)
    then show ?thesis unfolding prod.case by (rule one)
  qed
  have run: "jHitBoxPlane hb planeorg planenorm = fold (\<lambda>x r. or r (?g x)) box_corners 0"
    unfolding jHitBoxPlane_def by (simp add: case_prod_unfold)
  have "bit (jHitBoxPlane hb planeorg planenorm) k \<longleftrightarrow> (\<exists>x\<in>set box_corners. bit (?g x) k)"
    unfolding run fold_or_bit by simp
  also have "\<dots> \<longleftrightarrow> (\<exists>(ix, iy, iz)\<in>set box_corners. corner_below hb planeorg planenorm (ix, iy, iz) \<and> k = ix * 4 + iy * 2 + iz)"
    using g by (intro bex_cong refl) auto
  finally show ?thesis .
qed

lemma corner_below_linear:
  fixes hb :: hitbox and planeorg planenorm :: "real Vec3"
  defines "f \<equiv> \<lambda>v. Vec3_sp (hb_org hb + Quat_trans (hb_rot hb) v - planeorg) planenorm"
  shows "f (Vec3 x y z) = x * (f (Vec3 1 0 0) - f (Vec3 0 0 0)) + y * (f (Vec3 0 1 0) - f (Vec3 0 0 0)) + z * (f (Vec3 0 0 1) - f (Vec3 0 0 0)) + f (Vec3 0 0 0)"
  unfolding f_def
  by (cases "hb_rot hb"; cases "hb_org hb"; cases planeorg; cases planenorm) (simp add: Quat_trans_def algebra_simps)

lemma linear_nonneg_corners:
  fixes a b c e :: real
  assumes "0 \<le> sx" "0 \<le> sy" "0 \<le> sz"
    and corners: "\<And>i j k. i \<in> {-1, 1} \<Longrightarrow> j \<in> {-1, 1} \<Longrightarrow> k \<in> {-1, 1} \<Longrightarrow> 0 \<le> i * sx * a + j * sy * b + k * sz * c + e"
    and "\<bar>x\<bar> \<le> sx" "\<bar>y\<bar> \<le> sy" "\<bar>z\<bar> \<le> sz"
  shows "0 \<le> x * a + y * b + z * c + e"
proof -
  have least: "\<exists>i\<in>{-1, 1}. i * s * u \<le> v * u" if "\<bar>v\<bar> \<le> s" for s u v :: real
  proof (cases "0 \<le> u")
    case True
    then have "(- s) * u \<le> v * u" using that by (intro mult_right_mono) auto
    then show ?thesis by (intro bexI [of _ "-1"]) simp_all
  next
    case False
    then have "s * u \<le> v * u" using that by (intro mult_right_mono_neg) auto
    then show ?thesis by (intro bexI [of _ 1]) simp_all
  qed
  obtain i j k where "i \<in> {-1, 1}" "i * sx * a \<le> x * a" "j \<in> {-1, 1}" "j * sy * b \<le> y * b" "k \<in> {-1, 1}" "k * sz * c \<le> z * c"
    using least [OF assms(5), of a] least [OF assms(6), of b] least [OF assms(7), of c] by blast
  then show ?thesis using corners [of i j k] by linarith
qed

text \<open>Which corners of a box are behind a plane.  The bit of a corner in the result of \<open>jHitBoxPlane\<close> is set when the
  corner is on the negative side, and the result is 0 exactly when no point of the box is.\<close>

theorem jHitBoxPlane_side:
  assumes "0 \<le> at3 (hb_sc hb) 0" "0 \<le> at3 (hb_sc hb) 1" "0 \<le> at3 (hb_sc hb) 2"
  shows "(\<forall>ix\<in>{0, 1}. \<forall>iy\<in>{0, 1}. \<forall>iz\<in>{0, 1}.
        bit (jHitBoxPlane hb planeorg planenorm) (ix * 4 + iy * 2 + iz) \<longleftrightarrow> corner_below hb planeorg planenorm (ix, iy, iz))
   \<and> (jHitBoxPlane hb planeorg planenorm = 0 \<longleftrightarrow>
        (\<forall>x y z. \<bar>x\<bar> \<le> at3 (hb_sc hb) 0 \<and> \<bar>y\<bar> \<le> at3 (hb_sc hb) 1 \<and> \<bar>z\<bar> \<le> at3 (hb_sc hb) 2 \<longrightarrow>
           0 \<le> Vec3_sp (hb_org hb + Quat_trans (hb_rot hb) (Vec3 x y z) - planeorg) planenorm))"
proof
  show "\<forall>ix\<in>{0, 1}. \<forall>iy\<in>{0, 1}. \<forall>iz\<in>{0, 1}.
        bit (jHitBoxPlane hb planeorg planenorm) (ix * 4 + iy * 2 + iz) \<longleftrightarrow> corner_below hb planeorg planenorm (ix, iy, iz)"
    unfolding jHitBoxPlane_bit by (auto simp: box_corners_def)
next
  let ?s = "at3 (hb_sc hb)"
  define f where "f v = Vec3_sp (hb_org hb + Quat_trans (hb_rot hb) v - planeorg) planenorm" for v
  have corner: "corner_below hb planeorg planenorm (ix, iy, iz)
      \<longleftrightarrow> f (Vec3 ((real ix * 2 - 1) * ?s 0) ((real iy * 2 - 1) * ?s 1) ((real iz * 2 - 1) * ?s 2)) < 0" for ix iy iz
    by (simp add: corner_below_def f_def add.commute)
  obtain a b c e where lin: "\<And>x y z. f (Vec3 x y z) = x * a + y * b + z * c + e"
    using corner_below_linear [of hb _ _ _ planeorg planenorm] unfolding f_def by blast
  have "jHitBoxPlane hb planeorg planenorm = 0 \<longleftrightarrow> (\<forall>k. \<not> bit (jHitBoxPlane hb planeorg planenorm) k)"
    by (auto intro: bit_word_eqI)
  also have "\<dots> \<longleftrightarrow> (\<forall>(ix, iy, iz)\<in>set box_corners. \<not> corner_below hb planeorg planenorm (ix, iy, iz))"
    unfolding jHitBoxPlane_bit by blast
  also have "\<dots> \<longleftrightarrow> (\<forall>x y z. \<bar>x\<bar> \<le> ?s 0 \<and> \<bar>y\<bar> \<le> ?s 1 \<and> \<bar>z\<bar> \<le> ?s 2 \<longrightarrow> 0 \<le> f (Vec3 x y z))"
  proof
    assume none: "\<forall>(ix, iy, iz)\<in>set box_corners. \<not> corner_below hb planeorg planenorm (ix, iy, iz)"
    have ok: "0 \<le> f (Vec3 (i * ?s 0) (j * ?s 1) (k * ?s 2))" if "i \<in> {-1, 1}" "j \<in> {-1, 1}" "k \<in> {-1, 1}" for i j k
      using none that unfolding corner by (auto simp: box_corners_def not_less)
    show "\<forall>x y z. \<bar>x\<bar> \<le> ?s 0 \<and> \<bar>y\<bar> \<le> ?s 1 \<and> \<bar>z\<bar> \<le> ?s 2 \<longrightarrow> 0 \<le> f (Vec3 x y z)"
    proof (intro allI impI, elim conjE)
      fix x y z assume "\<bar>x\<bar> \<le> ?s 0" "\<bar>y\<bar> \<le> ?s 1" "\<bar>z\<bar> \<le> ?s 2"
      with ok show "0 \<le> f (Vec3 x y z)" unfolding lin by (rule linear_nonneg_corners [OF assms])
    qed
  next
    assume all: "\<forall>x y z. \<bar>x\<bar> \<le> ?s 0 \<and> \<bar>y\<bar> \<le> ?s 1 \<and> \<bar>z\<bar> \<le> ?s 2 \<longrightarrow> 0 \<le> f (Vec3 x y z)"
    have in_range: "\<bar>(real i * 2 - 1) * s\<bar> \<le> s" if "i \<in> {0, 1}" "0 \<le> s" for i :: nat and s using that by auto
    have "\<not> corner_below hb planeorg planenorm (ix, iy, iz)" if "ix \<in> {0, 1}" "iy \<in> {0, 1}" "iz \<in> {0, 1}" for ix iy iz
      unfolding corner not_less using all in_range [OF that(1) assms(1)] in_range [OF that(2) assms(2)] in_range [OF that(3) assms(3)]
      by blast
    then show "\<forall>(ix, iy, iz)\<in>set box_corners. \<not> corner_below hb planeorg planenorm (ix, iy, iz)"
      by (auto simp: box_corners_def)
  qed
  finally show "jHitBoxPlane hb planeorg planenorm = 0 \<longleftrightarrow>
        (\<forall>x y z. \<bar>x\<bar> \<le> ?s 0 \<and> \<bar>y\<bar> \<le> ?s 1 \<and> \<bar>z\<bar> \<le> ?s 2 \<longrightarrow>
           0 \<le> Vec3_sp (hb_org hb + Quat_trans (hb_rot hb) (Vec3 x y z) - planeorg) planenorm)"
    unfolding f_def .
qed

theorem jHitBoxPlane_side_witness:
  "jHitBoxPlane \<lparr>hb_org = Vec3 0 0 5, hb_rot = Quat 0 0 0 1, hb_sc = Vec3 1 2 3\<rparr> (Vec3 0 0 0) (Vec3 0 0 1) = 0"
proof -
  let ?hb = "\<lparr>hb_org = Vec3 0 0 5, hb_rot = Quat 0 0 0 1, hb_sc = Vec3 1 2 3\<rparr> :: hitbox"
  have "0 \<le> at3 (hb_sc ?hb) 0" "0 \<le> at3 (hb_sc ?hb) 1" "0 \<le> at3 (hb_sc ?hb) 2" by simp_all
  note it = jHitBoxPlane_side [OF this, of "Vec3 0 0 0" "Vec3 0 0 1", THEN conjunct2]
  show ?thesis by (rule it [THEN iffD2]) auto
qed

end
