(* ===== verification/Judge_Shapes.thy ===== *)
theory Judge_Shapes
  imports Judge_Box
begin

text \<open>
  Triangles, polygons and cylinders in \<open>src/judge.cpp\<close>.  \<open>jHitTriangle\<close> and \<open>jHitPolygon\<close> decide whether a line goes
  through a triangle, by its barycentric coordinates and by its edges; the test of cylinders does neither
  find the rays that meet one nor pass the rays that do not.
\<close>

section \<open>Coordinates in a plane\<close>

lemma Vec3_sp_lin:
  "Vec3_sp (u + v) w = Vec3_sp u w + Vec3_sp v w" "Vec3_sp (u - v) w = Vec3_sp u w - Vec3_sp v w"
  "Vec3_sp (Vec3_scale u s) w = s * Vec3_sp u w" "Vec3_sp u (Vec3_div w s) = Vec3_sp u w / s"
  for u v w :: "real Vec3"
  by (cases u; cases v; cases w; simp add: algebra_simps add_divide_distrib)+

text \<open>Cramer's rule.\<close>

lemma Vec3_cramer:
  "Vec3_scale v (Vec3_sp n (Vec3_vp b c)) =
     Vec3_scale b (Vec3_sp v (Vec3_vp c n)) + Vec3_scale c (Vec3_sp v (Vec3_vp n b)) + Vec3_scale n (Vec3_sp v (Vec3_vp b c))"
  for v b c n :: "real Vec3"
  by (cases v; cases b; cases c; cases n) (simp add: algebra_simps)

lemma Vec3_triple:
  "Vec3_sp (Vec3_vp n b) c = Vec3_sp n (Vec3_vp b c)" "Vec3_sp (Vec3_vp c n) b = Vec3_sp n (Vec3_vp b c)"
  "Vec3_sp b (Vec3_vp c n) = Vec3_sp n (Vec3_vp b c)" "Vec3_sp c (Vec3_vp c n) = 0"
  "Vec3_sp b (Vec3_vp n b) = 0" "Vec3_sp c (Vec3_vp n b) = Vec3_sp n (Vec3_vp b c)"
  "Vec3_sp b (Vec3_vp b c) = 0" "Vec3_sp c (Vec3_vp b c) = 0"
  for b c n :: "real Vec3"
  by (cases b; cases c; cases n; simp add: algebra_simps)+

lemma Vec3_scale_scale: "Vec3_scale (Vec3_scale v r) s = Vec3_scale v (r * s)" for v :: "real Vec3"
  by (cases v) simp

lemma Vec3_scale_1 [simp]: "Vec3_scale v 1 = v" for v :: "real Vec3" by (cases v) simp

lemma plane_coordinates:
  fixes b c v :: "real Vec3"
  defines "n \<equiv> Vec3_vp b c"
  assumes "n \<noteq> 0" "Vec3_sp v n = 0"
  shows "v = Vec3_scale b (Vec3_sp v (Vec3_vp c n) / Vec3_sp n n) + Vec3_scale c (Vec3_sp v (Vec3_vp n b) / Vec3_sp n n)"
proof -
  have N: "Vec3_sp n n \<noteq> 0" using assms(2) Vec3_slen_zero [of n] by (cases n) simp
  have "Vec3_scale n 0 = 0" by (cases n) (simp add: Vec3_zero_eq)
  then have "Vec3_scale v (Vec3_sp n n) = Vec3_scale b (Vec3_sp v (Vec3_vp c n)) + Vec3_scale c (Vec3_sp v (Vec3_vp n b))"
    using Vec3_cramer [of v n b c] assms(3) by (simp add: n_def)
  from arg_cong [OF this, of "\<lambda>w. Vec3_scale w (1 / Vec3_sp n n)"] show ?thesis
    using N by (cases b; cases c) (simp add: Vec3_scale_scale add_divide_distrib)
qed

text \<open>The triangle test.  For corners 0, \<open>b\<close>, \<open>c\<close> that are not on a line, \<open>jHitTriangle\<close> stores coordinates \<open>(x, y)\<close> and
  returns \<open>f\<close> exactly when the line that is not parallel to the triangle goes, at the part \<open>f\<close> of the way, through
  the point \<open>x b + y c\<close> inside of the triangle.\<close>

theorem jHitTriangle_correct:
  assumes "Vec3_vp b c \<noteq> 0"
  shows "jHitTriangle b c src end' = (f, Some (x, y)) \<longleftrightarrow>
     Vec3_sp src (Vec3_vp b c) \<noteq> Vec3_sp end' (Vec3_vp b c) \<and> 0 \<le> f \<and> f \<le> 1 \<and> 0 < x \<and> 0 < y \<and> x + y < 1
     \<and> src + Vec3_scale (end' - src) f = Vec3_scale b x + Vec3_scale c y"
proof -
  let ?n = "Vec3_vp b c"
  let ?N = "Vec3_sp ?n ?n" and ?o = "Vec3_sp src ?n" and ?e = "Vec3_sp end' ?n"
  have N: "0 < ?N" using assms Vec3_slen_nonneg [of ?n] Vec3_slen_zero [of ?n] by (cases ?n) (simp add: less_le)
  define h where "h f = src + Vec3_scale (end' - src) f" for f
  define X where "X f = Vec3_sp (h f) (Vec3_vp c ?n) / ?N" for f
  define Y where "Y f = Vec3_sp (h f) (Vec3_vp ?n b) / ?N" for f
  let ?f = "- ?o / (?e - ?o)"
  have XY: "X f = Vec3_sp src (Vec3_vp c ?n) / ?N + (Vec3_sp end' (Vec3_vp c ?n) / ?N - Vec3_sp src (Vec3_vp c ?n) / ?N) * f"
    "Y f = Vec3_sp src (Vec3_vp ?n b) / ?N + (Vec3_sp end' (Vec3_vp ?n b) / ?N - Vec3_sp src (Vec3_vp ?n b) / ?N) * f" for f
    using N by (simp_all add: X_def Y_def h_def Vec3_sp_lin field_simps)
  have run: "jHitTriangle b c src end' =
     (if \<not> 0 < ?o * ?e \<and> ?e \<noteq> ?o \<and> 0 < X ?f \<and> 0 < Y ?f \<and> X ?f + Y ?f < 1 then (?f, Some (X ?f, Y ?f)) else (0, None))"
    unfolding jHitTriangle_def Let_def XY by (simp add: Vec3_triple Vec3_sp_lin)
  have plane: "Vec3_sp (h f) ?n = ?o + f * (?e - ?o)" for f by (simp add: h_def Vec3_sp_lin)
  note sides = Vec3_triple(3) [of b c ?n] Vec3_triple(4) [of c ?n] Vec3_triple(5) [of b ?n]
    Vec3_triple(6) [of c ?n b] Vec3_triple(7) [of b c] Vec3_triple(8) [of c b]
  have inv: "X f = x \<and> Y f = y \<and> Vec3_sp (h f) ?n = 0" if "h f = Vec3_scale b x + Vec3_scale c y" for f x y
    using N unfolding X_def Y_def that Vec3_sp_lin sides by simp
  have point: "h f = Vec3_scale b (X f) + Vec3_scale c (Y f)" if "Vec3_sp (h f) ?n = 0" for f
    unfolding X_def Y_def by (rule plane_coordinates [OF assms that])
  have zero: "Vec3_sp (h f) ?n = 0 \<longleftrightarrow> f = ?f" if "?e \<noteq> ?o" for f using that unfolding plane by (auto simp: field_simps)
  have between: "\<not> 0 < ?o * ?e \<longleftrightarrow> 0 \<le> ?f \<and> ?f \<le> 1" if "?e \<noteq> ?o"
    using that by (cases "?o < ?e") (auto simp: field_simps zero_less_mult_iff not_less)
  show ?thesis
  proof (cases "?e = ?o")
    case False
    define g where "g = ?f"
    have zero: "Vec3_sp (h f) ?n = 0 \<longleftrightarrow> f = g" for f unfolding g_def using False by (rule zero)
    have "jHitTriangle b c src end' = (f, Some (x, y)) \<longleftrightarrow> 0 \<le> g \<and> g \<le> 1 \<and> 0 < X g \<and> 0 < Y g \<and> X g + Y g < 1 \<and> f = g \<and> x = X g \<and> y = Y g"
      unfolding run between [OF False] g_def [symmetric] using False by auto
    also have "\<dots> \<longleftrightarrow> 0 \<le> f \<and> f \<le> 1 \<and> 0 < x \<and> 0 < y \<and> x + y < 1 \<and> h f = Vec3_scale b x + Vec3_scale c y"
    proof -
      have "h f = Vec3_scale b x + Vec3_scale c y \<longleftrightarrow> f = g \<and> x = X g \<and> y = Y g" using inv point zero by metis
      then show ?thesis by auto
    qed
    finally show ?thesis using False unfolding h_def by auto
  qed (auto simp: run)
qed

theorem jHitTriangle_correct_witness:
  "jHitTriangle (Vec3 1 0 0) (Vec3 0 1 0) (Vec3 (1/4) (1/4) 1) (Vec3 (1/4) (1/4) (-1)) = (1/2, Some (1/4, 1/4))"
proof -
  have "Vec3_vp (Vec3 1 0 0) (Vec3 0 1 0 :: real Vec3) \<noteq> 0" by (simp add: Vec3_zero_eq)
  from jHitTriangle_correct [OF this, of "Vec3 (1/4) (1/4) 1" "Vec3 (1/4) (1/4) (-1)" "1/2" "1/4" "1/4"]
  show ?thesis by simp
qed

text \<open>A line that starts on the triangle meets it at the parameter 0, which \<open>jHitLines\<close> takes for no hit.\<close>

lemma jHitTriangle_start:
  "jHitTriangle (Vec3 1 0 0) (Vec3 0 1 0) (Vec3 (1/4) (1/4) 0) (Vec3 (1/4) (1/4) 1) = (0, Some (1/4, 1/4))"
  by (simp add: jHitTriangle_def)

section \<open>Polygons\<close>

lemma VECSP_sub: "VECSP (VECSUB u v) w = VECSP u w - VECSP v w"
  by (cases u; cases v; cases w) (simp add: algebra_simps)

lemma VEC_cramer:
  fixes u w q :: vec3
  defines "n \<equiv> VECVP u w"
  assumes "VECSP q n = 0"
  shows "VECSCALE q (VECSP n n) = VECADD (VECSCALE u (VECSP (VECVP q w) n)) (VECSCALE w (VECSP (VECVP u q) n))"
proof -
  have "VECSCALE q (VECSP n n) = VECADD (VECADD (VECSCALE u (VECSP (VECVP q w) n)) (VECSCALE w (VECSP (VECVP u q) n))) (VECSCALE n (VECSP q n))"
    unfolding n_def by (cases u; cases w; cases q) (simp add: algebra_simps)
  moreover have "VECADD v (VECSCALE n 0) = v" for v by (cases v; cases n) simp
  ultimately show ?thesis using assms(2) by simp
qed

text \<open>A point \<open>p\<close> of the plane of the triangle is on the inner side of its edges when it is a convex combination of the corners.\<close>

lemma triangle_sides:
  fixes a b c p :: vec3
  defines "n \<equiv> VECVP (VECSUB b a) (VECSUB c a)"
  assumes n: "0 < VECSP n n" and p: "VECSP (VECSUB p a) n = 0"
  shows "0 \<le> VECSP (VECVP (VECSUB a b) (VECSUB a p)) n \<and> 0 \<le> VECSP (VECVP (VECSUB b c) (VECSUB b p)) n
       \<and> 0 \<le> VECSP (VECVP (VECSUB c a) (VECSUB c p)) n
     \<longleftrightarrow> (\<exists>x y. 0 \<le> x \<and> 0 \<le> y \<and> x + y \<le> 1 \<and> p = VECADD a (VECADD (VECSCALE (VECSUB b a) x) (VECSCALE (VECSUB c a) y)))"
proof -
  let ?u = "VECSUB b a" and ?w = "VECSUB c a" and ?q = "VECSUB p a"
  let ?N = "VECSP n n"
  define X Y where XY: "X = VECSP (VECVP ?q ?w) n / ?N" "Y = VECSP (VECVP ?u ?q) n / ?N"
  have "VECVP (VECSUB a b) (VECSUB a p) = VECVP ?u ?q" "VECVP (VECSUB c a) (VECSUB c p) = VECVP ?q ?w"
    "VECVP (VECSUB b c) (VECSUB b p) = VECSUB (VECSUB (VECVP ?u ?w) (VECVP ?q ?w)) (VECVP ?u ?q)"
    by (cases a; cases b; cases c; cases p; simp add: algebra_simps)+
  then have "VECSP (VECVP (VECSUB a b) (VECSUB a p)) n = Y * ?N" "VECSP (VECVP (VECSUB c a) (VECSUB c p)) n = X * ?N"
    "VECSP (VECVP (VECSUB b c) (VECSUB b p)) n = (1 - X - Y) * ?N"
    using n unfolding XY by (simp_all add: VECSP_sub n_def left_diff_distrib)
  then have sides: "0 \<le> VECSP (VECVP (VECSUB a b) (VECSUB a p)) n \<and> 0 \<le> VECSP (VECVP (VECSUB b c) (VECSUB b p)) n
       \<and> 0 \<le> VECSP (VECVP (VECSUB c a) (VECSUB c p)) n \<longleftrightarrow> 0 \<le> X \<and> 0 \<le> Y \<and> X + Y \<le> 1"
    using n by (auto simp: zero_le_mult_iff)
  have "VECSCALE ?q ?N = VECADD (VECSCALE ?u (VECSP (VECVP ?q ?w) n)) (VECSCALE ?w (VECSP (VECVP ?u ?q) n))"
    using VEC_cramer [of ?q ?u ?w] p unfolding n_def by blast
  from arg_cong [OF this, of "\<lambda>v. VECSCALE v (1 / ?N)"]
  have "?q = VECADD (VECSCALE ?u X) (VECSCALE ?w Y)"
    using n unfolding XY by (cases ?q; cases ?u; cases ?w) (simp add: add_divide_distrib)
  then have here: "p = VECADD a (VECADD (VECSCALE ?u X) (VECSCALE ?w Y))"
    by (cases a; cases b; cases c; cases p) (simp add: algebra_simps)
  have unique: "x = X \<and> y = Y" if "p = VECADD a (VECADD (VECSCALE ?u x) (VECSCALE ?w y))" for x y
  proof -
    have "?q = VECADD (VECSCALE ?u x) (VECSCALE ?w y)" unfolding that by (cases a; cases b; cases c) (simp add: algebra_simps)
    then have "VECVP ?q ?w = VECSCALE n x" "VECVP ?u ?q = VECSCALE n y"
      unfolding n_def by (cases ?u; cases ?w; simp add: algebra_simps)+
    then have "VECSP (VECVP ?q ?w) n = x * ?N" "VECSP (VECVP ?u ?q) n = y * ?N" by (cases n; simp add: algebra_simps)+
    then show ?thesis using n by (simp add: XY)
  qed
  show ?thesis unfolding sides using here unique by blast
qed

definition in_triangle :: "vec3 \<Rightarrow> vec3 \<Rightarrow> vec3 \<Rightarrow> vec3 \<Rightarrow> bool" where
  "in_triangle a b c p \<longleftrightarrow>
     (\<exists>x y. 0 \<le> x \<and> 0 \<le> y \<and> x + y \<le> 1 \<and> p = VECADD a (VECADD (VECSCALE (VECSUB b a) x) (VECSCALE (VECSUB c a) y)))"

lemma VECSP_scale: "VECSP v (VECSCALE n s) = VECSP v n * s" by (cases v; cases n) (simp add: algebra_simps)

lemma VECSP_ray: "VECSP (VECSUB (VECSADD src dir t) a) n = VECSP (VECSUB src a) n + t * VECSP dir n"
  by (cases src; cases dir; cases a; cases n) (simp add: algebra_simps)

lemma VECLEN_pos: "0 < VECSP v n \<Longrightarrow> 0 < VECLEN n \<and> 0 < VECSP n n"
proof -
  assume v: "0 < VECSP v n"
  obtain x y z where n: "n = V3 x y z" by (cases n)
  have "\<not> (x = 0 \<and> y = 0 \<and> z = 0)" using v n by (cases v) auto
  then have "x * x + y * y + z * z \<noteq> 0" by (metis add_nonneg_eq_0_iff add_nonneg_nonneg mult_eq_0_iff zero_le_square)
  moreover have "0 \<le> x * x + y * y + z * z" by simp
  ultimately have "0 < x * x + y * y + z * z" by linarith
  then show ?thesis using n by simp
qed

lemma polygon_sides_3:
  assumes "i0 < length vb" "i1 < length vb" "i2 < length vb" "0 < s"
  shows "polygon_sides vb [i0, i1, i2] 3 (VECSCALE n s) p 0 =
     Some (0 \<le> VECSP (VECVP (VECSUB (vb ! i0) (vb ! i1)) (VECSUB (vb ! i0) p)) n
       \<and> 0 \<le> VECSP (VECVP (VECSUB (vb ! i1) (vb ! i2)) (VECSUB (vb ! i1) p)) n
       \<and> 0 \<le> VECSP (VECVP (VECSUB (vb ! i2) (vb ! i0)) (VECSUB (vb ! i2) p)) n)"
proof -
  let ?P = "polygon_sides vb [i0, i1, i2] 3 (VECSCALE n s) p"
  let ?s = "\<lambda>a b. 0 \<le> VECSP (VECVP (VECSUB a b) (VECSUB a p)) n"
  have neg: "VECSP v (VECSCALE n s) < 0 \<longleftrightarrow> \<not> 0 \<le> VECSP v n" for v
    using assms(4) by (simp add: VECSP_scale mult_less_0_iff not_le)
  have three: "?P 3 = Some True" by (subst polygon_sides.simps) simp
  have two: "?P 2 = Some (?s (vb ! i2) (vb ! i0))"
    using assms(1-3) three by (subst polygon_sides.simps) (simp add: aread_def neg Let_def)
  have one: "?P 1 = Some (?s (vb ! i1) (vb ! i2) \<and> ?s (vb ! i2) (vb ! i0))"
    using assms(1-3) two by (subst polygon_sides.simps) (simp add: aread_def neg Let_def numeral_2_eq_2)
  show ?thesis
    using assms(1-3) one by (subst polygon_sides.simps) (simp add: aread_def neg Let_def)
qed

lemma jHitPolygon_3:
  assumes "i0 < length vb" "i1 < length vb" "i2 < length vb"
    and n: "VECVP (VECSUB (vb ! i1) (vb ! i0)) (VECSUB (vb ! i2) (vb ! i0)) = n" "0 < VECSP dir n"
    and t: "- VECSP (VECSUB src (vb ! i0)) (VECSCALE n (1 / VECLEN n)) / (VECSP dir n / VECLEN n) = t"
  shows "jHitPolygon vb [i0, i1, i2] 3 src dir mint maxt =
     (if t < mint \<or> maxt < t then Some None
      else Option.bind (polygon_sides vb [i0, i1, i2] 3 (VECSCALE n (1 / VECLEN n)) (VECSADD src dir t) 0)
        (\<lambda>ok. Some (if ok then Some (t, VECSADD src dir t, VECSCALE n (1 / VECLEN n)) else None)))"
proof -
  have reads: "aread [i0, i1, i2] 0 = Some i0" "aread [i0, i1, i2] 1 = Some i1" "aread [i0, i1, i2] 2 = Some i2"
    "aread vb i0 = Some (vb ! i0)" "aread vb i1 = Some (vb ! i1)" "aread vb i2 = Some (vb ! i2)"
    using assms(1-3) by (simp_all add: aread_def)
  have "\<not> (3 :: nat) < 3" "\<not> VECSP dir n \<le> 0" using n(2) by simp_all
  then show ?thesis unfolding jHitPolygon_def Let_def by (simp only: reads bind.bind_lunit n(1) t if_False)
qed

text \<open>The polygon test on a triangle.  \<open>jHitPolygon\<close> with three indices of the vertex array reports the time and the point at
  which the ray goes through the triangle, edges and corners included, from the side that the normal vector of
  the corners points away from; it reports nothing when there is no such time between \<open>mint\<close> and \<open>maxt\<close>.\<close>

theorem jHitPolygon_triangle:
  assumes "i0 < length vb" "i1 < length vb" "i2 < length vb"
  shows "\<exists>r. jHitPolygon vb [i0, i1, i2] 3 src dir mint maxt = Some r
     \<and> (case r of
          Some (t, p, n) \<Rightarrow> mint \<le> t \<and> t \<le> maxt \<and> p = VECSADD src dir t \<and> in_triangle (vb ! i0) (vb ! i1) (vb ! i2) p
            \<and> 0 < VECSP dir (VECVP (VECSUB (vb ! i1) (vb ! i0)) (VECSUB (vb ! i2) (vb ! i0)))
        | None \<Rightarrow> VECSP dir (VECVP (VECSUB (vb ! i1) (vb ! i0)) (VECSUB (vb ! i2) (vb ! i0))) \<le> 0
            \<or> \<not> (\<exists>t. mint \<le> t \<and> t \<le> maxt \<and> in_triangle (vb ! i0) (vb ! i1) (vb ! i2) (VECSADD src dir t)))"
proof -
  let ?a = "vb ! i0" and ?b = "vb ! i1" and ?c = "vb ! i2"
  let ?n = "VECVP (VECSUB ?b ?a) (VECSUB ?c ?a)"
  show ?thesis
  proof (cases "0 < VECSP dir ?n")
    case False
    then show ?thesis using assms by (simp add: jHitPolygon_def aread_def Let_def)
  next
    case True
    define l where "l = VECLEN ?n"
    have l: "0 < l" "0 < VECSP ?n ?n" using VECLEN_pos [OF True] by (simp_all add: l_def)
    define t where "t = - VECSP (VECSUB src ?a) ?n / VECSP dir ?n"
    have time: "- VECSP (VECSUB src ?a) (VECSCALE ?n (1 / l)) / (VECSP dir ?n / l) = t"
      using l(1) by (simp add: VECSP_scale t_def)
    have plane: "VECSP (VECSUB (VECSADD src dir s) ?a) ?n = 0 \<longleftrightarrow> s = t" for s
      unfolding VECSP_ray t_def using True by (auto simp: field_simps)
    have inside: "in_triangle ?a ?b ?c (VECSADD src dir t)
        \<longleftrightarrow> 0 \<le> VECSP (VECVP (VECSUB ?a ?b) (VECSUB ?a (VECSADD src dir t))) ?n
          \<and> 0 \<le> VECSP (VECVP (VECSUB ?b ?c) (VECSUB ?b (VECSADD src dir t))) ?n
          \<and> 0 \<le> VECSP (VECVP (VECSUB ?c ?a) (VECSUB ?c (VECSADD src dir t))) ?n"
      unfolding in_triangle_def using triangle_sides [OF l(2)] plane by blast
    have once: "s = t" if "in_triangle ?a ?b ?c (VECSADD src dir s)" for s
    proof -
      have "VECSP (VECSUB (VECADD ?a (VECADD (VECSCALE (VECSUB ?b ?a) x) (VECSCALE (VECSUB ?c ?a) y))) ?a) ?n = 0" for x y
        by (cases ?a; cases ?b; cases ?c) (simp add: algebra_simps)
      then show ?thesis using that unfolding in_triangle_def plane [symmetric] by auto
    qed
    have sides: "polygon_sides vb [i0, i1, i2] 3 (VECSCALE ?n (1 / l)) (VECSADD src dir t) 0
        = Some (in_triangle ?a ?b ?c (VECSADD src dir t))"
      unfolding inside using assms l(1) by (intro polygon_sides_3) simp_all
    have "jHitPolygon vb [i0, i1, i2] 3 src dir mint maxt =
       (if t < mint \<or> maxt < t then Some None
        else Some (if in_triangle ?a ?b ?c (VECSADD src dir t) then Some (t, VECSADD src dir t, VECSCALE ?n (1 / l)) else None))"
      unfolding jHitPolygon_3 [OF assms refl True time [unfolded l_def]] l_def [symmetric] sides bind.bind_lunit ..
    note run = this
    show ?thesis
    proof (cases "t < mint \<or> maxt < t \<or> \<not> in_triangle ?a ?b ?c (VECSADD src dir t)")
      case True
      then have "jHitPolygon vb [i0, i1, i2] 3 src dir mint maxt = Some None" unfolding run by auto
      moreover have "\<not> (\<exists>s. mint \<le> s \<and> s \<le> maxt \<and> in_triangle ?a ?b ?c (VECSADD src dir s))"
      proof
        assume "\<exists>s. mint \<le> s \<and> s \<le> maxt \<and> in_triangle ?a ?b ?c (VECSADD src dir s)"
        then obtain s where s: "mint \<le> s" "s \<le> maxt" "in_triangle ?a ?b ?c (VECSADD src dir s)" by blast
        with True once [OF s(3)] show False by auto
      qed
      ultimately show ?thesis by (intro exI [of _ None] conjI) (simp_all only: option.case disjI2 simp_thms)
    next
      case False
      then have "jHitPolygon vb [i0, i1, i2] 3 src dir mint maxt = Some (Some (t, VECSADD src dir t, VECSCALE ?n (1 / l)))"
        unfolding run by simp
      then show ?thesis using False True by (simp only: option.case prod.case option.inject ex_simps simp_thms not_le de_Morgan_disj not_less)
    qed
  qed
qed

theorem jHitPolygon_triangle_witness:
  "\<exists>p n. jHitPolygon [V3 0 0 0, V3 1 0 0, V3 0 1 0] [0, 1, 2] 3 (V3 (1/4) (1/4) (-1)) (V3 0 0 1) 0 5 = Some (Some (1, p, n))"
proof -
  have "in_triangle (V3 0 0 0) (V3 1 0 0) (V3 0 1 0) (V3 (1/4) (1/4) (t - 1)) \<longleftrightarrow> t = 1" for t
  proof
    assume "t = 1"
    then show "in_triangle (V3 0 0 0) (V3 1 0 0) (V3 0 1 0) (V3 (1/4) (1/4) (t - 1))"
      unfolding in_triangle_def by (intro exI [of _ "1/4"]) simp
  qed (auto simp: in_triangle_def)
  then show ?thesis
    using jHitPolygon_triangle [of 0 "[V3 0 0 0, V3 1 0 0, V3 0 1 0]" 1 2 "V3 (1/4) (1/4) (-1)" "V3 0 0 1" 0 5]
    by (auto split: option.splits)
qed

section \<open>Cylinders\<close>

text \<open>
  The coefficient of the square in the equation is the length of the projected source, not of the projected direction; and the
  times at which the planes of the ends are reached have the wrong sign.  So a ray straight through the axis is
  missed, one towards an end is missed, and one that leaves is reported.
\<close>

lemma jHitCylinder_misses:
  "map_option ht_ret (jHitCylinderPos (Vec3 0 0 0) (Vec3 0 0 1) 1 (Vec3 (-2) 0 0) (Vec3 1 0 0) 10 False) = Some False"
  by (simp add: jHitCylinderPos_def no_hit_def Let_def)

lemma jHitCylinder_ends:
  "map_option ht_ret (jHitCylinderPos (Vec3 0 0 0) (Vec3 0 0 1) 1 (Vec3 (1/2) 0 5) (Vec3 0 0 (-1)) 10 False) = Some False
   \<and> map_option ht_f (jHitCylinderPos (Vec3 0 0 0) (Vec3 0 0 1) 1 (Vec3 (1/2) 0 5) (Vec3 0 0 1) 10 False) = Some (Some 4)"
  by (simp add: jHitCylinderPos_def cylinder_end_def projectPlane_def no_hit_def Let_def)

end
