(* ===== verification/Objtree.thy ===== *)
theory Objtree
  imports Judge_Correct Prelude
begin

text \<open>
  The object tree of \<open>src/judge.cpp\<close>: spheres around pairs of entities and of smaller spheres, kept in the array
  \<open>ot\<close> of a \<open>WarSpace\<close>, by which a ray or a point finds the entities that it hits without trying all of them.
  Entities are numbers; \<open>ents\<close> gives the members of the living ones that the tree reads and changes.  The
  pointers to entities in the list \<open>el\<close> and in the nodes are null or point to living entities, which the
  destructor of an entity sees to, and those to nodes are indices of the array.  Reading a null pointer or
  outside of the array is \<open>None\<close>.
\<close>

section \<open>Data\<close>

definition OT_PAIRED :: uint32 where "OT_PAIRED = 0x80"

text \<open>\<open>en_rad\<close> is the result of the virtual \<open>getHitRadius\<close>, and \<open>en_w\<close> the field that the entity is in.\<close>

record ent =
  en_pos :: "real Vec3"
  en_rad :: real
  en_w :: "nat option"
  en_otflag :: uint32

record unode =
  un_t :: "nat option"
  un_n :: "nat option"

record otnt =
  ot_pos :: "real Vec3"
  ot_rad :: real
  ot_leaf :: uint32
  ot_a0 :: unode
  ot_a1 :: unode

definition ot_a :: "otnt \<Rightarrow> nat \<Rightarrow> unode" where
  "ot_a n i = (if i = 0 then ot_a0 n else ot_a1 n)"

text \<open>\<open>leaf & (1 << i)\<close>\<close>

definition leaf_bit :: "otnt \<Rightarrow> nat \<Rightarrow> bool" where "leaf_bit n i \<longleftrightarrow> bit (ot_leaf n) i"

definition unode_blank :: unode where "unode_blank = \<lparr>un_t = None, un_n = None\<rparr>"

definition otnt_blank :: otnt where
  "otnt_blank = \<lparr>ot_pos = 0, ot_rad = 0, ot_leaf = 0, ot_a0 = unode_blank, ot_a1 = unode_blank\<rparr>"

text \<open>The members of \<open>WarSpace\<close>; \<open>ots\<close> is the length of the array.\<close>

record warspace =
  ws_el :: "nat option list"
  ws_ot :: "otnt list"
  ws_oti :: nat
  ws_otroot :: "nat option"

type_synonym ents = "nat \<Rightarrow> ent"

section \<open>Searching\<close>

text \<open>
  \<open>otjHitSphere_in\<close>, \<open>otjEnumHitSphere_in\<close> and \<open>otjEnumPointHitSphere_in\<close> are the same recursion: a node whose sphere fails a
  test, here \<open>culled\<close>, is left, and each of its two children is a pointer to an entity, for which \<open>leaf\<close> says whether it
  is the result, or to another node.  The state is what the search changes: the variable \<open>pos\<close> and what the callback does.
\<close>

partial_function (option) tree_search ::
    "(real Vec3 \<Rightarrow> real \<Rightarrow> bool) \<Rightarrow> (nat option \<Rightarrow> 's \<Rightarrow> (nat option \<times> 's) option) \<Rightarrow> otnt list \<Rightarrow> nat option \<Rightarrow> 's \<Rightarrow> (nat option \<times> 's) option" where
  "tree_search culled leaf ot p s =
     (case p of
        None \<Rightarrow> None
      | Some i \<Rightarrow>
          Option.bind (aread ot i) (\<lambda>n.
            if culled (ot_pos n) (ot_rad n) then Some (None, s)
            else
              Option.bind (if leaf_bit n 0 then leaf (un_t (ot_a n 0)) s else tree_search culled leaf ot (un_n (ot_a n 0)) s)
                (\<lambda>r. if fst r \<noteq> None then Some r
                     else if leaf_bit n 1 then leaf (un_t (ot_a n 1)) (snd r)
                     else tree_search culled leaf ot (un_n (ot_a n 1)) (snd r))))"

declare tree_search.simps [code]

definition hit_leaf ::
    "ents \<Rightarrow> real Vec3 \<Rightarrow> real Vec3 \<Rightarrow> real \<Rightarrow> real \<Rightarrow> nat option \<Rightarrow> real Vec3 option \<Rightarrow> (nat option \<times> real Vec3 option) option" where
  "hit_leaf ents src dir dt rad t pos =
     (case t of
        None \<Rightarrow> None
      | Some e \<Rightarrow>
          let r = jHitSpherePos (en_pos (ents e)) (en_rad (ents e) + rad) src dir dt False
          in Some (if ht_ret r then (Some e, ht_pos r) else (None, pos)))"

definition otjHitSphere ::
    "ents \<Rightarrow> otnt list \<Rightarrow> nat option \<Rightarrow> real Vec3 \<Rightarrow> real Vec3 \<Rightarrow> real \<Rightarrow> real \<Rightarrow> real Vec3 option \<Rightarrow> (nat option \<times> real Vec3 option) option" where
  "otjHitSphere ents ot rt src dir dt rad pos =
     (if rt = None then Some (None, pos)
      else tree_search (\<lambda>c R. \<not> jHitSphere c (R + rad) src dir dt) (hit_leaf ents src dir dt rad) ot rt pos)"

definition OTJ_CALLBACK :: uint32 where "OTJ_CALLBACK = 1"
definition OTJ_IGLIST :: uint32 where "OTJ_IGLIST = 2"
definition OTJ_IGVFT :: uint32 where "OTJ_IGVFT = 4"

text \<open>
  The members of \<open>otjEnumHitSphereParam\<close> but the callback, a function of the entity, of the variable \<open>pos\<close> and of a
  state of the caller.
\<close>

record otjparam =
  pa_root :: "nat option"
  pa_src :: "real Vec3"
  pa_dir :: "real Vec3"
  pa_dt :: real
  pa_rad :: real
  pa_flags :: uint32
  pa_iglist :: "nat option list"

definition pa_ignored :: "otjparam \<Rightarrow> nat option \<Rightarrow> bool" where
  "pa_ignored param t \<longleftrightarrow> and (pa_flags param) OTJ_IGLIST \<noteq> 0 \<and> t \<in> set (pa_iglist param)"

definition pa_callback ::
    "otjparam \<Rightarrow> (nat \<Rightarrow> real Vec3 option \<Rightarrow> 's \<Rightarrow> bool \<times> 's) \<Rightarrow> nat \<Rightarrow> real Vec3 option \<times> 's \<Rightarrow> nat option \<times> real Vec3 option \<times> 's" where
  "pa_callback param call e ps =
     (if and (pa_flags param) OTJ_CALLBACK = 0 then (Some e, ps)
      else let (ok, s) = call e (fst ps) (snd ps) in (if ok then Some e else None, fst ps, s))"

definition enum_leaf ::
    "ents \<Rightarrow> otjparam \<Rightarrow> (nat \<Rightarrow> real Vec3 option \<Rightarrow> 's \<Rightarrow> bool \<times> 's) \<Rightarrow> nat option \<Rightarrow> real Vec3 option \<times> 's
       \<Rightarrow> (nat option \<times> real Vec3 option \<times> 's) option" where
  "enum_leaf ents param call t ps = Some
     (if pa_ignored param t then (None, ps)
      else case t of
        None \<Rightarrow> (None, ps)
      | Some e \<Rightarrow>
          let r = jHitSpherePos (en_pos (ents e)) (en_rad (ents e) + pa_rad param) (pa_src param) (pa_dir param) (pa_dt param) False
          in if ht_ret r then pa_callback param call e (ht_pos r, snd ps) else (None, ps))"

definition otjEnumHitSphere ::
    "ents \<Rightarrow> otnt list \<Rightarrow> otjparam \<Rightarrow> (nat \<Rightarrow> real Vec3 option \<Rightarrow> 's \<Rightarrow> bool \<times> 's) \<Rightarrow> real Vec3 option \<times> 's
       \<Rightarrow> (nat option \<times> real Vec3 option \<times> 's) option" where
  "otjEnumHitSphere ents ot param call ps =
     (if pa_root param = None then Some (None, ps)
      else tree_search (\<lambda>c R. \<not> jHitSphere c (R + pa_rad param) (pa_src param) (pa_dir param) (pa_dt param))
        (enum_leaf ents param call) ot (pa_root param) ps)"

definition point_culled :: "otjparam \<Rightarrow> real Vec3 \<Rightarrow> real \<Rightarrow> bool" where
  "point_culled param c R \<longleftrightarrow> (R + pa_rad param) * (R + pa_rad param) < Vec3_slen (c - pa_src param)"

definition point_leaf ::
    "ents \<Rightarrow> otjparam \<Rightarrow> (nat \<Rightarrow> real Vec3 option \<Rightarrow> 's \<Rightarrow> bool \<times> 's) \<Rightarrow> nat option \<Rightarrow> real Vec3 option \<times> 's
       \<Rightarrow> (nat option \<times> real Vec3 option \<times> 's) option" where
  "point_leaf ents param call t ps = Some
     (case t of
        None \<Rightarrow> (None, ps)
      | Some e \<Rightarrow>
          if pa_ignored param t then (None, ps)
          else
            let radi = en_rad (ents e) + pa_rad param
            in if Vec3_slen (en_pos (ents e) - pa_src param) < radi * radi then pa_callback param call e ps else (None, ps))"

definition otjEnumPointHitSphere ::
    "ents \<Rightarrow> otnt list \<Rightarrow> otjparam \<Rightarrow> (nat \<Rightarrow> real Vec3 option \<Rightarrow> 's \<Rightarrow> bool \<times> 's) \<Rightarrow> real Vec3 option \<times> 's
       \<Rightarrow> (nat option \<times> real Vec3 option \<times> 's) option" where
  "otjEnumPointHitSphere ents ot param call ps =
     (if pa_root param = None then Some (None, ps)
      else tree_search (point_culled param) (point_leaf ents param call) ot (pa_root param) ps)"

text \<open>The position of a child, for the searches that go to the nearer child first.\<close>

definition child_pos :: "ents \<Rightarrow> otnt list \<Rightarrow> otnt \<Rightarrow> nat \<Rightarrow> real Vec3 option" where
  "child_pos ents ot n i =
     (if leaf_bit n i then map_option (\<lambda>e. en_pos (ents e)) (un_t (ot_a n i))
      else do { k \<leftarrow> un_n (ot_a n i); m \<leftarrow> aread ot k; Some (ot_pos m) })"

text \<open>
  \<open>otjEnumNearestPoint_in\<close> tests the bit of the child \<open>i\<close> of the loop and then reads the child \<open>(i + s) % 2\<close>; it starts with the
  child that is farther away.  The flag of \<open>nearest_child\<close> is whether it returns; the callback does not get null pointers.
\<close>

definition nearest_child ::
    "otjparam \<Rightarrow> (nat \<Rightarrow> real Vec3 option \<Rightarrow> 's \<Rightarrow> bool \<times> 's) \<Rightarrow> nat option \<Rightarrow> real Vec3 option \<times> 's
       \<Rightarrow> (bool \<times> nat option \<times> real Vec3 option \<times> 's) option" where
  "nearest_child param call t ps =
     (if pa_ignored param t then Some (False, None, ps)
      else if and (pa_flags param) OTJ_CALLBACK = 0 then Some (True, t, ps)
      else case t of
        None \<Rightarrow> None
      | Some e \<Rightarrow> Some (fst (pa_callback param call e ps) \<noteq> None, pa_callback param call e ps))"

partial_function (option) otjEnumNearestPoint_in ::
    "ents \<Rightarrow> otnt list \<Rightarrow> otjparam \<Rightarrow> (nat \<Rightarrow> real Vec3 option \<Rightarrow> 's \<Rightarrow> bool \<times> 's) \<Rightarrow> nat option \<Rightarrow> real Vec3 option \<times> 's
       \<Rightarrow> (nat option \<times> real Vec3 option \<times> 's) option" where
  "otjEnumNearestPoint_in ents ot param call p ps =
     (case p of
        None \<Rightarrow> None
      | Some k \<Rightarrow>
          Option.bind (aread ot k) (\<lambda>n.
          Option.bind (child_pos ents ot n 0) (\<lambda>p0.
          Option.bind (child_pos ents ot n 1) (\<lambda>p1.
            let s = (if Vec3_slen (p0 - pa_src param) < Vec3_slen (p1 - pa_src param) then 1 else 0 :: nat)
            in Option.bind
                 (if leaf_bit n 0 then nearest_child param call (un_t (ot_a n s)) ps
                  else Option.bind (otjEnumNearestPoint_in ents ot param call (un_n (ot_a n s)) ps) (\<lambda>r. Some (fst r \<noteq> None, r)))
                 (\<lambda>r. if fst r then Some (snd r)
                      else if leaf_bit n 1 then
                        Option.bind (nearest_child param call (un_t (ot_a n ((1 + s) mod 2))) (snd (snd r)))
                          (\<lambda>r. Some (if fst r then snd r else (None, snd (snd r))))
                      else otjEnumNearestPoint_in ents ot param call (un_n (ot_a n ((1 + s) mod 2))) (snd (snd r)))))))"

declare otjEnumNearestPoint_in.simps [code]

definition otjEnumNearestPoint ::
    "ents \<Rightarrow> otnt list \<Rightarrow> otjparam \<Rightarrow> (nat \<Rightarrow> real Vec3 option \<Rightarrow> 's \<Rightarrow> bool \<times> 's) \<Rightarrow> real Vec3 option \<times> 's
       \<Rightarrow> (nat option \<times> real Vec3 option \<times> 's) option" where
  "otjEnumNearestPoint ents ot param call ps =
     (if pa_root param = None then Some (None, ps) else otjEnumNearestPoint_in ents ot param call (pa_root param) ps)"

text \<open>\<open>otEnumNearestPoint_in\<close> starts with the nearer child; \<open>ignore\<close> and the paired entities are left out.\<close>

definition unpaired_leaf :: "ents \<Rightarrow> nat option \<Rightarrow> nat option \<Rightarrow> nat option option" where
  "unpaired_leaf ents ignore t =
     (if t = ignore then Some None
      else do { e \<leftarrow> t; Some (if and (en_otflag (ents e)) 2 \<noteq> 0 then None else Some e) })"

partial_function (option) otEnumNearestPoint_in ::
    "ents \<Rightarrow> otnt list \<Rightarrow> real Vec3 \<Rightarrow> nat option \<Rightarrow> nat option \<Rightarrow> nat option option" where
  "otEnumNearestPoint_in ents ot src ignore p =
     (case p of
        None \<Rightarrow> None
      | Some k \<Rightarrow>
          Option.bind (aread ot k) (\<lambda>n.
          Option.bind (child_pos ents ot n 0) (\<lambda>p0.
          Option.bind (child_pos ents ot n 1) (\<lambda>p1.
            let s = (if Vec3_slen (p1 - src) < Vec3_slen (p0 - src) then 1 else 0 :: nat); i = s; j = (1 + s) mod 2
            in Option.bind
                 (if leaf_bit n i then unpaired_leaf ents ignore (un_t (ot_a n i)) else otEnumNearestPoint_in ents ot src ignore (un_n (ot_a n i)))
                 (\<lambda>r. if r \<noteq> None then Some r
                      else if leaf_bit n j then unpaired_leaf ents ignore (un_t (ot_a n j))
                      else otEnumNearestPoint_in ents ot src ignore (un_n (ot_a n j)))))))"

declare otEnumNearestPoint_in.simps [code]

section \<open>The sphere of a node\<close>

text \<open>\<open>ot_update_int\<close>: the inner \<open>None\<close> is a return of \<open>NULL\<close> for an entity that is gone or in another field.\<close>

definition ot_child :: "ents \<Rightarrow> nat \<Rightarrow> otnt list \<Rightarrow> otnt \<Rightarrow> nat \<Rightarrow> (real Vec3 \<times> real) option option" where
  "ot_child ents w ot n i =
     (if leaf_bit n i then
        (case un_t (ot_a n i) of
           None \<Rightarrow> Some None
         | Some e \<Rightarrow> Some (if en_w (ents e) \<noteq> Some w then None else Some (en_pos (ents e), en_rad (ents e))))
      else do { k \<leftarrow> un_n (ot_a n i); m \<leftarrow> aread ot k; Some (Some (ot_pos m, ot_rad m)) })"

definition ot_merge :: "real Vec3 \<times> real \<Rightarrow> real Vec3 \<times> real \<Rightarrow> real Vec3 \<times> real" where
  "ot_merge a b =
     (let (p0, r0) = a; (p1, r1) = b; delta = p0 - p1; len = Vec3_len delta
      in if len + r1 < r0 then (p0, r0)
         else if len + r0 < r1 then (p1, r1)
         else if len \<noteq> 0 then
           let dn = Vec3_div delta len; len = len + (r0 + r1); newrad = len / 2; len = newrad - r1; delta = Vec3_scale dn len
           in (delta + p1, newrad)
         else (p0, max r0 r1))"

definition ot_update_int :: "ents \<Rightarrow> nat \<Rightarrow> nat \<Rightarrow> otnt list \<Rightarrow> (bool \<times> otnt list) option" where
  "ot_update_int ents w i ot = do {
     n \<leftarrow> aread ot i;
     a \<leftarrow> ot_child ents w ot n 0;
     (case a of
        None \<Rightarrow> Some (False, ot)
      | Some a \<Rightarrow> do {
          b \<leftarrow> ot_child ents w ot n 1;
          (case b of
             None \<Rightarrow> Some (False, ot)
           | Some b \<Rightarrow> do {
               ot \<leftarrow> awrite ot i (n\<lparr>ot_pos := fst (ot_merge a b), ot_rad := snd (ot_merge a b)\<rparr>);
               Some (True, ot) }) }) }"

text \<open>\<open>ot_updatesub\<close>; the result \<open>NULL\<close> is \<open>False\<close>.\<close>

partial_function (option) ot_updatesub :: "ents \<Rightarrow> nat \<Rightarrow> nat option \<Rightarrow> otnt list \<Rightarrow> (bool \<times> otnt list) option" where
  "ot_updatesub ents w p ot =
     (case p of
        None \<Rightarrow> Some (False, ot)
      | Some i \<Rightarrow>
          Option.bind (aread ot i) (\<lambda>n.
          Option.bind (if un_n (ot_a n 0) \<noteq> None \<and> \<not> leaf_bit n 0 then ot_updatesub ents w (un_n (ot_a n 0)) ot else Some (True, ot)) (\<lambda>r.
            if \<not> fst r then Some (False, snd r)
            else
              Option.bind (aread (snd r) i) (\<lambda>n.
              Option.bind (if un_n (ot_a n 1) \<noteq> None \<and> \<not> leaf_bit n 1 then ot_updatesub ents w (un_n (ot_a n 1)) (snd r) else Some (True, snd r))
                (\<lambda>r. if \<not> fst r then Some (False, snd r) else ot_update_int ents w i (snd r))))))"

declare ot_updatesub.simps [code]

section \<open>Building the tree\<close>

text \<open>
  \<open>otiterator\<close> walks over the entities of the list that are in the field \<open>w\<close> and then over the nodes made so far: a position in the
  list and an index of a node.
\<close>

record otit =
  oi_p :: nat
  oi_i :: nat

definition in_field :: "ents \<Rightarrow> nat \<Rightarrow> nat option \<Rightarrow> bool" where
  "in_field ents w t \<longleftrightarrow> (case t of None \<Rightarrow> False | Some e \<Rightarrow> en_w (ents e) = Some w)"

function oi_skip :: "ents \<Rightarrow> nat \<Rightarrow> nat option list \<Rightarrow> nat \<Rightarrow> nat" where
  "oi_skip ents w el p = (if p < length el \<and> \<not> in_field ents w (el ! p) then oi_skip ents w el (p + 1) else p)"
  by pat_completeness auto
termination by (relation "measure (\<lambda>(ents, w, el, p). length el - p)") auto

declare oi_skip.simps [simp del]

definition oi_start :: "ents \<Rightarrow> nat \<Rightarrow> nat option list \<Rightarrow> otit" where
  "oi_start ents w el = \<lparr>oi_p = oi_skip ents w el 0, oi_i = 0\<rparr>"

definition oi_next :: "ents \<Rightarrow> nat \<Rightarrow> nat option list \<Rightarrow> otit \<Rightarrow> otit" where
  "oi_next ents w el it =
     (if oi_p it < length el then it\<lparr>oi_p := oi_skip ents w el (oi_p it + 1)\<rparr> else it\<lparr>oi_i := oi_i it + 1\<rparr>)"

text \<open>The conversion to \<open>bool\<close>; \<open>n\<close> is the number of nodes.\<close>

definition oi_more :: "nat option list \<Rightarrow> nat \<Rightarrow> otit \<Rightarrow> bool" where
  "oi_more el n it \<longleftrightarrow> oi_p it < length el \<and> el ! oi_p it \<noteq> None \<or> oi_i it \<noteq> n"

definition oi_sphere :: "ents \<Rightarrow> nat option list \<Rightarrow> otnt list \<Rightarrow> otit \<Rightarrow> (real Vec3 \<times> real) option" where
  "oi_sphere ents el ot it =
     (if oi_p it < length el then
        Some (case el ! oi_p it of None \<Rightarrow> (Vec3 0 0 0, 0) | Some e \<Rightarrow> (en_pos (ents e), en_rad (ents e)))
      else do { n \<leftarrow> aread ot (oi_i it); Some (ot_pos n, ot_rad n) })"

definition oi_paired :: "ents \<Rightarrow> nat option list \<Rightarrow> otnt list \<Rightarrow> otit \<Rightarrow> bool option" where
  "oi_paired ents el ot it =
     (if oi_p it < length el then
        Some (case el ! oi_p it of None \<Rightarrow> False | Some e \<Rightarrow> and (en_otflag (ents e)) 2 \<noteq> 0)
      else do { n \<leftarrow> aread ot (oi_i it); Some (and (ot_leaf n) OT_PAIRED \<noteq> 0) })"

definition oi_get :: "nat option list \<Rightarrow> otit \<Rightarrow> unode \<Rightarrow> bool \<times> unode" where
  "oi_get el it u =
     (if oi_p it < length el then (True, u\<lparr>un_t := el ! oi_p it\<rparr>) else (False, u\<lparr>un_n := Some (oi_i it)\<rparr>))"

definition oi_pair :: "nat option list \<Rightarrow> otit \<Rightarrow> ents \<times> otnt list \<Rightarrow> (ents \<times> otnt list) option" where
  "oi_pair el it st =
     (let (ents, ot) = st
      in if oi_p it < length el then
           (case el ! oi_p it of
              None \<Rightarrow> None
            | Some e \<Rightarrow> Some (ents(e := (ents e)\<lparr>en_otflag := or (en_otflag (ents e)) 2\<rparr>), ot))
         else do {
           n \<leftarrow> aread ot (oi_i it);
           ot \<leftarrow> awrite ot (oi_i it) (n\<lparr>ot_leaf := or (ot_leaf n) OT_PAIRED\<rparr>);
           Some (ents, ot) })"

text \<open>The loop that looks for the best partner from \<open>it\<close> on.\<close>

partial_function (option) best_pair ::
    "ents \<Rightarrow> nat \<Rightarrow> nat option list \<Rightarrow> otnt list \<Rightarrow> nat \<Rightarrow> real Vec3 \<times> real \<Rightarrow> otit \<Rightarrow> real \<Rightarrow> otit option \<Rightarrow> otit option option" where
  "best_pair ents w el ot n a it best found =
     (if \<not> oi_more el n it then Some found
      else
        Option.bind (oi_paired ents el ot it) (\<lambda>paired.
          if paired then best_pair ents w el ot n a (oi_next ents w el it) best found
          else
            Option.bind (oi_sphere ents el ot it) (\<lambda>b.
              let slen = Vec3_slen (fst a - fst b) + snd a * snd a + snd b * snd b
              in if slen < best then best_pair ents w el ot n a (oi_next ents w el it) slen (Some it)
                 else best_pair ents w el ot n a (oi_next ents w el it) best found)))"

declare best_pair.simps [code]

text \<open>A new node, the number \<open>o'\<close>, for the items at \<open>it\<close> and \<open>it3\<close>; there are \<open>n\<close> entities.\<close>

definition make_pair ::
    "nat \<Rightarrow> nat option list \<Rightarrow> nat \<Rightarrow> otit \<Rightarrow> otit \<Rightarrow> nat \<Rightarrow> ents \<times> otnt list \<Rightarrow> (ents \<times> otnt list) option" where
  "make_pair w el n it it3 o' st = do {
     let (ents, ot) = st;
     (if o' < n then do {
        m \<leftarrow> aread ot o';
        let (l0, a0) = oi_get el it (ot_a0 m);
        let (l1, a1) = oi_get el it3 (ot_a1 m);
        ot \<leftarrow> awrite ot o' (m\<lparr>ot_a0 := a0, ot_a1 := a1, ot_leaf := or (if l0 then 1 else 0) (if l1 then 2 else 0)\<rparr>);
        r \<leftarrow> ot_update_int ents w o' ot;
        st \<leftarrow> oi_pair el it (ents, snd r);
        oi_pair el it3 st }
      else None) }"

partial_function (option) pair_loop ::
    "nat \<Rightarrow> nat option list \<Rightarrow> nat \<Rightarrow> otit \<Rightarrow> ents \<Rightarrow> otnt list \<Rightarrow> nat \<Rightarrow> (ents \<times> otnt list \<times> nat) option" where
  "pair_loop w el n it ents ot o' =
     (if \<not> oi_more el o' it then Some (ents, ot, o')
      else
        Option.bind (oi_paired ents el ot it) (\<lambda>paired.
          if paired then pair_loop w el n (oi_next ents w el it) ents ot o'
          else
            Option.bind (oi_sphere ents el ot it) (\<lambda>a.
            Option.bind (best_pair ents w el ot o' a (oi_next ents w el it) 1000000000000000 None) (\<lambda>b.
              case b of
                None \<Rightarrow> pair_loop w el n (oi_next ents w el it) ents ot o'
              | Some it3 \<Rightarrow>
                  Option.bind (make_pair w el n it it3 o' (ents, ot)) (\<lambda>st.
                    pair_loop w el n (oi_next (fst st) w el it) (fst st) (snd st) (o' + 1))))))"

declare pair_loop.simps [code]

text \<open>\<open>otflag &= ~2\<close> for the entities of the list that \<open>P\<close> selects.\<close>

definition clear_flags :: "(nat \<Rightarrow> bool) \<Rightarrow> nat option list \<Rightarrow> ents \<Rightarrow> ents" where
  "clear_flags P el ents =
     fold (\<lambda>t ents. case t of None \<Rightarrow> ents
       | Some e \<Rightarrow> if P e then ents(e := (ents e)\<lparr>en_otflag := and (en_otflag (ents e)) (NOT 2)\<rparr>) else ents) el ents"

text \<open>The array grown to \<open>m\<close> nodes; the pointers in the copies lead to the old array, which is freed.\<close>

definition grow_ot :: "nat \<Rightarrow> otnt list \<Rightarrow> otnt list" where
  "grow_ot m ot =
     (if length ot < m
      then List.map (\<lambda>n. n\<lparr>ot_a0 := (ot_a0 n)\<lparr>un_n := None\<rparr>, ot_a1 := (ot_a1 n)\<lparr>un_n := None\<rparr>\<rparr>) ot
        @ replicate (m - length ot) otnt_blank
      else ot)"

definition fmod2 :: "real \<Rightarrow> real" where
  "fmod2 x = (if 0 \<le> x then x - 2 * \<lfloor>x / 2\<rfloor> else x - 2 * \<lceil>x / 2\<rceil>)"

text \<open>
  \<open>ot_build\<close>, with \<open>war_time\<close> the time of the field.  Within two seconds the tree is only updated, and the first node of the
  array is returned; a tree that cannot be updated is built anew.  The root is the last node.  The handler for
  access violations that surrounds the code is left out.
\<close>

definition ot_rebuild :: "nat \<Rightarrow> ents \<times> warspace \<Rightarrow> (nat option \<times> ents \<times> warspace) option" where
  "ot_rebuild w st = do {
     let (ents, ws) = st;
     let ents = clear_flags (\<lambda>e. en_w (ents e) = Some w) (ws_el ws) ents;
     let n = length (filter (in_field ents w) (ws_el ws));
     (if n \<le> 1 then Some (None, ents, ws\<lparr>ws_oti := 0, ws_otroot := None\<rparr>)
      else do {
        let ot = grow_ot (n * n) (ws_ot ws);
        r \<leftarrow> pair_loop w (ws_el ws) n (oi_start ents w (ws_el ws)) ents ot 0;
        let (ents, ot, o') = r;
        let ents = clear_flags (\<lambda>_. True) (ws_el ws) ents;
        (if o' = 0 then None
         else Some (Some (o' - 1), ents, ws\<lparr>ws_ot := ot, ws_oti := o', ws_otroot := Some (o' - 1)\<rparr>)) }) }"

definition ot_build :: "nat \<Rightarrow> real \<Rightarrow> real \<Rightarrow> ents \<times> warspace \<Rightarrow> (nat option \<times> ents \<times> warspace) option" where
  "ot_build w war_time dt st = do {
     let (ents, ws) = st;
     (if ws_otroot ws \<noteq> None \<and> fmod2 war_time < fmod2 (war_time + dt) then do {
        r \<leftarrow> ot_updatesub ents w (ws_otroot ws) (ws_ot ws);
        (if fst r then Some (Some 0, ents, ws\<lparr>ws_ot := snd r\<rparr>) else ot_rebuild w (ents, ws\<lparr>ws_ot := snd r\<rparr>)) }
      else ot_rebuild w (ents, ws)) }"

text \<open>\<open>ot_check\<close> builds when an entity of the list is in another field.  The array may not have been allocated.\<close>

definition ot_check :: "nat \<Rightarrow> real \<Rightarrow> real \<Rightarrow> ents \<times> warspace \<Rightarrow> (nat option \<times> ents \<times> warspace) option" where
  "ot_check w war_time dt st =
     (let (ents, ws) = st
      in if \<exists>e. Some e \<in> set (ws_el ws) \<and> en_w (ents e) \<noteq> Some w then ot_build w war_time dt st
         else Some (if ws_ot ws = [] then None else Some 0, ents, ws))"

end
