(* ===== verification/Objtree_Search.thy ===== *)
theory Objtree_Search
  imports Objtree
begin

text \<open>
  Searches in the object tree are as good as trying all entities.  \<open>otree\<close> is the shape of a tree in the array, and a
  tree is \<open>bounded\<close> when the sphere of every node contains the spheres of its children.
\<close>

section \<open>Trees in the array\<close>

datatype otree = OLeaf nat | ONode nat otree otree

fun leaves :: "otree \<Rightarrow> nat list" where
  "leaves (OLeaf e) = [e]"
| "leaves (ONode k l r) = leaves l @ leaves r"

fun nodes :: "otree \<Rightarrow> nat list" where
  "nodes (OLeaf e) = []"
| "nodes (ONode k l r) = k # nodes l @ nodes r"

fun linked :: "otnt \<Rightarrow> nat \<Rightarrow> otree \<Rightarrow> bool" where
  "linked n i (OLeaf e) \<longleftrightarrow> leaf_bit n i \<and> un_t (ot_a n i) = Some e"
| "linked n i (ONode k l r) \<longleftrightarrow> \<not> leaf_bit n i \<and> un_n (ot_a n i) = Some k"

fun tree_in :: "otnt list \<Rightarrow> otree \<Rightarrow> bool" where
  "tree_in ot (OLeaf e) \<longleftrightarrow> True"
| "tree_in ot (ONode k l r) \<longleftrightarrow> k < length ot \<and> linked (ot ! k) 0 l \<and> linked (ot ! k) 1 r \<and> tree_in ot l \<and> tree_in ot r"

fun sphere :: "ents \<Rightarrow> otnt list \<Rightarrow> otree \<Rightarrow> real Vec3 \<times> real" where
  "sphere ents ot (OLeaf e) = (en_pos (ents e), en_rad (ents e))"
| "sphere ents ot (ONode k l r) = (ot_pos (ot ! k), ot_rad (ot ! k))"

definition sphere_in :: "real Vec3 \<times> real \<Rightarrow> real Vec3 \<times> real \<Rightarrow> bool" where
  "sphere_in a b \<longleftrightarrow> contains (fst b) (snd b) (fst a) (snd a)"

fun bounded :: "ents \<Rightarrow> otnt list \<Rightarrow> otree \<Rightarrow> bool" where
  "bounded ents ot (OLeaf e) \<longleftrightarrow> True"
| "bounded ents ot (ONode k l r) \<longleftrightarrow>
     sphere_in (sphere ents ot l) (sphere ents ot (ONode k l r)) \<and> sphere_in (sphere ents ot r) (sphere ents ot (ONode k l r))
     \<and> bounded ents ot l \<and> bounded ents ot r"

lemma sphere_in_trans: "sphere_in a b \<Longrightarrow> sphere_in b c \<Longrightarrow> sphere_in a c"
  unfolding sphere_in_def using contains_trans by blast

lemma sphere_in_refl [simp]: "sphere_in a a" by (simp add: sphere_in_def contains_refl)

lemma bounded_leaves: "bounded ents ot t \<Longrightarrow> e \<in> set (leaves t) \<Longrightarrow> sphere_in (sphere ents ot (OLeaf e)) (sphere ents ot t)"
  by (induction t) (auto intro: sphere_in_trans simp del: sphere.simps(1))

section \<open>Trying all entities\<close>

fun visit_all :: "(nat option \<Rightarrow> 's \<Rightarrow> (nat option \<times> 's) option) \<Rightarrow> nat list \<Rightarrow> 's \<Rightarrow> (nat option \<times> 's) option" where
  "visit_all leaf [] s = Some (None, s)"
| "visit_all leaf (e # es) s = Option.bind (leaf (Some e) s) (\<lambda>r. if fst r \<noteq> None then Some r else visit_all leaf es (snd r))"

lemma visit_all_append:
  "visit_all leaf (es @ fs) s = Option.bind (visit_all leaf es s) (\<lambda>r. if fst r \<noteq> None then Some r else visit_all leaf fs (snd r))"
proof (induction es arbitrary: s)
  case (Cons e es)
  then show ?case by (cases "leaf (Some e) s") auto
qed simp

lemma visit_all_none: "(\<And>e s. e \<in> set es \<Longrightarrow> leaf (Some e) s = Some (None, s)) \<Longrightarrow> visit_all leaf es s = Some (None, s)"
  by (induction es) auto

text \<open>
  What a search relies on: when the test leaves a sphere out, no entity in the sphere is a result, or changes the state.
  \<open>ok\<close> is the condition on the query under which this holds.
\<close>

locale culling =
  fixes ents :: ents and ok :: bool and culled :: "real Vec3 \<Rightarrow> real \<Rightarrow> bool"
    and leaf :: "nat option \<Rightarrow> 's \<Rightarrow> (nat option \<times> 's) option"
  assumes culled_leaf:
    "ok \<Longrightarrow> 0 \<le> en_rad (ents e) \<Longrightarrow> culled c R \<Longrightarrow> contains c R (en_pos (ents e)) (en_rad (ents e)) \<Longrightarrow> leaf (Some e) s = Some (None, s)"
begin

lemma search_all:
  "ok \<Longrightarrow> tree_in ot t \<Longrightarrow> bounded ents ot t \<Longrightarrow> \<forall>e\<in>set (leaves t). 0 \<le> en_rad (ents e) \<Longrightarrow>
     (case t of OLeaf e \<Rightarrow> leaf (Some e) s | ONode k l r \<Rightarrow> tree_search culled leaf ot (Some k) s) = visit_all leaf (leaves t) s"
proof (induction t arbitrary: s)
  case (OLeaf e)
  show ?case by (cases "leaf (Some e) s") (auto simp: prod_eq_iff)
next
  case (ONode k l r)
  let ?n = "ot ! k"
  have k: "aread ot k = Some ?n" using ONode.prems(2) by (simp add: aread_def)
  show ?case
  proof (cases "culled (ot_pos ?n) (ot_rad ?n)")
    case True
    have "leaf (Some e) s = Some (None, s)" if "e \<in> set (leaves (ONode k l r))" for e s
      using culled_leaf [OF ONode.prems(1) _ True] bounded_leaves [OF ONode.prems(3) that] ONode.prems(4) that by (simp add: sphere_in_def)
    then have "visit_all leaf (leaves (ONode k l r)) s = Some (None, s)" by (rule visit_all_none)
    then show ?thesis using True k by (simp add: tree_search.simps)
  next
    case False
    have sub: "(if leaf_bit ?n i then leaf (un_t (ot_a ?n i)) s else tree_search culled leaf ot (un_n (ot_a ?n i)) s)
        = (case t of OLeaf e \<Rightarrow> leaf (Some e) s | ONode k l r \<Rightarrow> tree_search culled leaf ot (Some k) s)" if "linked ?n i t" for i t s
      using that by (cases t) auto
    have "linked ?n 0 l" "linked ?n 1 r" using ONode.prems(2) by simp_all
    note subs = sub [OF this(1)] sub [OF this(2)]
    have below: "(case l of OLeaf e \<Rightarrow> leaf (Some e) s | ONode k l r \<Rightarrow> tree_search culled leaf ot (Some k) s) = visit_all leaf (leaves l) s"
      "(case r of OLeaf e \<Rightarrow> leaf (Some e) s | ONode k l r \<Rightarrow> tree_search culled leaf ot (Some k) s) = visit_all leaf (leaves r) s" for s
      using ONode.IH ONode.prems by simp_all
    show ?thesis
      by (subst otree.case, subst tree_search.simps) (simp only: option.case k bind.bind_lunit False if_False subs below leaves.simps visit_all_append)
  qed
qed

lemma search_root:
  "ok \<Longrightarrow> tree_in ot (ONode k l r) \<Longrightarrow> bounded ents ot (ONode k l r) \<Longrightarrow> \<forall>e\<in>set (leaves (ONode k l r)). 0 \<le> en_rad (ents e) \<Longrightarrow>
     tree_search culled leaf ot (Some k) s = visit_all leaf (leaves (ONode k l r)) s"
  using search_all [of ot "ONode k l r"] by simp

end

interpretation rays: culling ents "0 < dt \<and> 0 \<le> rad" "\<lambda>c R. \<not> jHitSphere c (R + rad) src dir dt" "hit_leaf ents src dir dt rad"
  for ents src dir dt rad
proof
  fix e c R s
  assume "0 < dt \<and> 0 \<le> rad" "0 \<le> en_rad (ents e)" "\<not> jHitSphere c (R + rad) src dir dt" "contains c R (en_pos (ents e)) (en_rad (ents e))"
  then have "\<not> jHitSphere (en_pos (ents e)) (en_rad (ents e) + rad) src dir dt"
    using jHitSphere_mono [OF contains_widen [of c R "en_pos (ents e)" "en_rad (ents e)" rad]] by auto
  then show "hit_leaf ents src dir dt rad (Some e) s = Some (None, s)" by (simp add: hit_leaf_def jHitSphere_def Let_def)
qed

interpretation ray_enum: culling ents "0 < pa_dt param \<and> 0 \<le> pa_rad param"
    "\<lambda>c R. \<not> jHitSphere c (R + pa_rad param) (pa_src param) (pa_dir param) (pa_dt param)" "enum_leaf ents param call"
  for ents param and call :: "nat \<Rightarrow> real Vec3 option \<Rightarrow> 's \<Rightarrow> bool \<times> 's"
proof
  fix e c R and s :: "real Vec3 option \<times> 's"
  assume "0 < pa_dt param \<and> 0 \<le> pa_rad param" "0 \<le> en_rad (ents e)"
    "\<not> jHitSphere c (R + pa_rad param) (pa_src param) (pa_dir param) (pa_dt param)" "contains c R (en_pos (ents e)) (en_rad (ents e))"
  then have "\<not> jHitSphere (en_pos (ents e)) (en_rad (ents e) + pa_rad param) (pa_src param) (pa_dir param) (pa_dt param)"
    using jHitSphere_mono [OF contains_widen [of c R "en_pos (ents e)" "en_rad (ents e)" "pa_rad param"]] by auto
  then show "enum_leaf ents param call (Some e) s = Some (None, s)" by (simp add: enum_leaf_def jHitSphere_def Let_def)
qed

interpretation point_enum: culling ents "0 \<le> pa_rad param" "point_culled param" "point_leaf ents param call"
  for ents param and call :: "nat \<Rightarrow> real Vec3 option \<Rightarrow> 's \<Rightarrow> bool \<times> 's"
proof
  fix e c R and s :: "real Vec3 option \<times> 's"
  assume *: "0 \<le> pa_rad param" "0 \<le> en_rad (ents e)" "point_culled param c R" "contains c R (en_pos (ents e)) (en_rad (ents e))"
  have "Vec3_slen (pa_src param - v) = Vec3_slen (v - pa_src param)" for v
    by (cases v; cases "pa_src param") (simp add: algebra_simps)
  then have "\<not> Vec3_slen (en_pos (ents e) - pa_src param) < (en_rad (ents e) + pa_rad param) * (en_rad (ents e) + pa_rad param)"
    using contains_ball(2) [OF contains_widen [OF *(4), of "pa_rad param"], of "pa_src param"] *(1-3) by (auto simp: point_culled_def)
  then show "point_leaf ents param call (Some e) s = Some (None, s)" by (simp add: point_leaf_def Let_def)
qed

section \<open>The results\<close>

lemma visit_all_hits:
  "visit_all (hit_leaf ents src dir dt rad) es pos =
     Some (case find (\<lambda>e. jHitSphere (en_pos (ents e)) (en_rad (ents e) + rad) src dir dt) es of
       None \<Rightarrow> (None, pos)
     | Some e \<Rightarrow> (Some e, ht_pos (jHitSpherePos (en_pos (ents e)) (en_rad (ents e) + rad) src dir dt False)))"
  by (induction es) (simp_all add: hit_leaf_def jHitSphere_def Let_def)

text \<open>The search for a hit misses nothing.  In a tree whose spheres bound what is below them, \<open>otjHitSphere\<close> returns the first entity
  of the leaves that the ray hits, with the point of the hit stored, and null, with nothing stored, only if the ray
  hits none: it agrees with trying all entities.\<close>

theorem otjHitSphere_all:
  assumes "tree_in ot (ONode k l r)" "bounded ents ot (ONode k l r)" "\<forall>e\<in>set (leaves (ONode k l r)). 0 \<le> en_rad (ents e)"
    and "0 < dt" "0 \<le> rad"
  shows "otjHitSphere ents ot (Some k) src dir dt rad pos =
     Some (case find (\<lambda>e. jHitSphere (en_pos (ents e)) (en_rad (ents e) + rad) src dir dt) (leaves (ONode k l r)) of
       None \<Rightarrow> (None, pos)
     | Some e \<Rightarrow> (Some e, ht_pos (jHitSpherePos (en_pos (ents e)) (en_rad (ents e) + rad) src dir dt False)))"
  using rays.search_root [OF _ assms(1-3), of dt rad src dir pos] assms(4,5)
  by (simp add: otjHitSphere_def visit_all_hits del: leaves.simps)

text \<open>Two entities in a tree of one node, for examples.\<close>

definition pair_ents :: ents where
  "pair_ents = (\<lambda>e. \<lparr>en_pos = Vec3 (4 * real e) 0 0, en_rad = 1, en_w = Some 0, en_otflag = 0\<rparr>)"

definition pair_tree :: "otnt list" where
  "pair_tree = [\<lparr>ot_pos = Vec3 2 0 0, ot_rad = 3, ot_leaf = 3, ot_a0 = \<lparr>un_t = Some 0, un_n = None\<rparr>, ot_a1 = \<lparr>un_t = Some 1, un_n = None\<rparr>\<rparr>]"

lemma pair_tree_ok:
  "tree_in pair_tree (ONode 0 (OLeaf 0) (OLeaf 1))" "bounded pair_ents pair_tree (ONode 0 (OLeaf 0) (OLeaf 1))"
  "\<forall>e\<in>set (leaves (ONode 0 (OLeaf 0) (OLeaf 1))). 0 \<le> en_rad (pair_ents e)"
  by (simp_all add: pair_tree_def pair_ents_def leaf_bit_def ot_a_def sphere_in_def contains_def)

theorem otjHitSphere_all_witness:
  "otjHitSphere pair_ents pair_tree (Some 0) (Vec3 4 (-5) 0) (Vec3 0 1 0) 10 0 None = Some (Some 1, Some (Vec3 4 (-1) 0))"
  using otjHitSphere_all [OF pair_tree_ok, of 10 0 "Vec3 4 (-5) 0" "Vec3 0 1 0" None]
  by (simp add: jHitSphere_def jHitSpherePos_def no_hit_def pair_ents_def)

text \<open>Asking the callback about the entities that are hit, one after the other.\<close>

fun ask_hits ::
    "otjparam \<Rightarrow> (nat \<Rightarrow> real Vec3 option \<Rightarrow> 's \<Rightarrow> bool \<times> 's) \<Rightarrow> (nat \<Rightarrow> real Vec3 option \<Rightarrow> real Vec3 option) \<Rightarrow> nat list
       \<Rightarrow> real Vec3 option \<times> 's \<Rightarrow> nat option \<times> real Vec3 option \<times> 's" where
  "ask_hits param call stored [] ps = (None, ps)"
| "ask_hits param call stored (e # es) ps =
     (let r = pa_callback param call e (stored e (fst ps), snd ps) in if fst r \<noteq> None then r else ask_hits param call stored es (snd r))"

lemma visit_all_enum:
  "visit_all (enum_leaf ents param call) es ps =
     Some (ask_hits param call
       (\<lambda>e _. ht_pos (jHitSpherePos (en_pos (ents e)) (en_rad (ents e) + pa_rad param) (pa_src param) (pa_dir param) (pa_dt param) False))
       (filter (\<lambda>e. \<not> pa_ignored param (Some e)
          \<and> jHitSphere (en_pos (ents e)) (en_rad (ents e) + pa_rad param) (pa_src param) (pa_dir param) (pa_dt param)) es) ps)"
  by (induction es arbitrary: ps) (simp_all add: enum_leaf_def jHitSphere_def Let_def)

lemma visit_all_points:
  "visit_all (point_leaf ents param call) es ps =
     Some (ask_hits param call (\<lambda>_ pos. pos)
       (filter (\<lambda>e. \<not> pa_ignored param (Some e)
          \<and> Vec3_slen (en_pos (ents e) - pa_src param) < (en_rad (ents e) + pa_rad param) * (en_rad (ents e) + pa_rad param)) es) ps)"
  by (induction es arbitrary: ps) (simp_all add: point_leaf_def Let_def)

text \<open>C22: the enumerations offer every hit to the callback.  In a tree whose spheres bound what is below them, \<open>otjEnumHitSphere\<close> and
  \<open>otjEnumPointHitSphere\<close> call it for the entities that the ray, or the point, hits and that are not on the list to ignore, in
  the order of the leaves, each once, until it accepts one, which is the result; the ray's hit point is stored before.\<close>

theorem otjEnum_all:
  assumes "pa_root param = Some k" "tree_in ot (ONode k l r)" "bounded ents ot (ONode k l r)"
    and "\<forall>e\<in>set (leaves (ONode k l r)). 0 \<le> en_rad (ents e)" "0 < pa_dt param" "0 \<le> pa_rad param"
  shows "otjEnumHitSphere ents ot param call ps =
       Some (ask_hits param call
         (\<lambda>e _. ht_pos (jHitSpherePos (en_pos (ents e)) (en_rad (ents e) + pa_rad param) (pa_src param) (pa_dir param) (pa_dt param) False))
         (filter (\<lambda>e. \<not> pa_ignored param (Some e)
            \<and> jHitSphere (en_pos (ents e)) (en_rad (ents e) + pa_rad param) (pa_src param) (pa_dir param) (pa_dt param)) (leaves (ONode k l r))) ps)
   \<and> otjEnumPointHitSphere ents ot param call ps =
       Some (ask_hits param call (\<lambda>_ pos. pos)
         (filter (\<lambda>e. \<not> pa_ignored param (Some e)
            \<and> Vec3_slen (en_pos (ents e) - pa_src param) < (en_rad (ents e) + pa_rad param) * (en_rad (ents e) + pa_rad param))
            (leaves (ONode k l r))) ps)"
proof -
  have "0 < pa_dt param \<and> 0 \<le> pa_rad param" using assms by simp
  note ray = ray_enum.search_root [OF this assms(2-4), of call ps]
    and point = point_enum.search_root [OF assms(6,2-4), of call ps]
  show ?thesis using ray point assms(1)
    by (simp add: otjEnumHitSphere_def otjEnumPointHitSphere_def visit_all_enum visit_all_points del: leaves.simps)
qed

theorem otjEnum_all_witness:
  "otjEnumHitSphere pair_ents pair_tree
       \<lparr>pa_root = Some 0, pa_src = Vec3 (-5) 0 0, pa_dir = Vec3 1 0 0, pa_dt = 20, pa_rad = 0, pa_flags = OTJ_CALLBACK, pa_iglist = []\<rparr>
       (\<lambda>e pos es. (False, es @ [e])) (None, []) = Some (None, Some (Vec3 3 0 0), [0, 1])
   \<and> otjEnumPointHitSphere pair_ents pair_tree
       \<lparr>pa_root = Some 0, pa_src = Vec3 4 0 0, pa_dir = 0, pa_dt = 1, pa_rad = 0, pa_flags = 0, pa_iglist = []\<rparr>
       (\<lambda>e pos es. (False, es @ [e])) (None, []) = Some (Some 1, None, [])"
proof -
  let ?ray = "\<lparr>pa_root = Some 0, pa_src = Vec3 (-5) 0 0, pa_dir = Vec3 1 0 0, pa_dt = 20, pa_rad = 0, pa_flags = OTJ_CALLBACK, pa_iglist = []\<rparr>"
  let ?point = "\<lparr>pa_root = Some 0, pa_src = Vec3 4 0 0, pa_dir = 0, pa_dt = 1, pa_rad = 0, pa_flags = 0, pa_iglist = []\<rparr>"
  have "otjEnumHitSphere pair_ents pair_tree ?ray (\<lambda>e pos es. (False, es @ [e])) (None, []) = Some (None, Some (Vec3 3 0 0), [0, 1])"
    using otjEnum_all [OF _ pair_tree_ok, of ?ray "\<lambda>e pos es. (False, es @ [e])" "(None, [])"]
    by (simp add: jHitSphere_def jHitSpherePos_def no_hit_def pair_ents_def pa_ignored_def pa_callback_def OTJ_CALLBACK_def)
  moreover have "otjEnumPointHitSphere pair_ents pair_tree ?point (\<lambda>e pos es. (False, es @ [e])) (None, []) = Some (Some 1, None, [])"
    using otjEnum_all [OF _ pair_tree_ok, of ?point "\<lambda>e pos es. (False, es @ [e])" "(None, [])"]
    by (simp add: pair_ents_def pa_ignored_def pa_callback_def)
  ultimately show ?thesis by blast
qed

section \<open>Spheres around spheres\<close>

lemma Vec3_div_scale: "s \<noteq> 0 \<Longrightarrow> Vec3_scale (Vec3_div v s) s = v" for s :: real
  by (cases v) simp

lemma ot_merge_encloses: "sphere_in a (ot_merge a b) \<and> sphere_in b (ot_merge a b)"
proof -
  obtain p0 r0 p1 r1 where ab: "a = (p0, r0)" "b = (p1, r1)" by (cases a; cases b)
  define len where "len = Vec3_len (p0 - p1)"
  show ?thesis
  proof (cases "len + r1 < r0 \<or> len + r0 < r1 \<or> len = 0")
    case True
    then show ?thesis using Vec3_len_diff_commute [of p0 p1]
      by (auto simp: ab ot_merge_def Let_def sphere_in_def contains_def len_def [symmetric] max_def)
  next
    case False
    define dn where "dn = Vec3_div (p0 - p1) len"
    define l where "l = (len + (r0 + r1)) / 2 - r1"
    have "len \<noteq> 0" using False by blast
    then have d: "p0 - p1 = Vec3_scale dn len" unfolding dn_def by (rule Vec3_div_scale [symmetric])
    have "0 \<le> len" by (simp add: len_def)
    moreover have "Vec3_len dn * \<bar>len\<bar> = len" unfolding Vec3_len_scale [symmetric] d [symmetric] by (rule len_def [symmetric])
    ultimately have "Vec3_len dn = 1" using False by simp
    moreover have "p1 - (Vec3_scale dn l + p1) = - Vec3_scale dn l" by simp
    moreover have "p0 - (Vec3_scale dn l + p1) = Vec3_scale dn (len - l)"
    proof -
      have "p0 - (Vec3_scale dn l + p1) = p0 - p1 - Vec3_scale dn l" by (simp add: algebra_simps)
      also have "\<dots> = Vec3_scale dn len - Vec3_scale dn l" by (simp only: d)
      also have "\<dots> = Vec3_scale dn (len - l)" by (cases dn) (simp add: algebra_simps)
      finally show ?thesis .
    qed
    moreover have "0 \<le> l" "0 \<le> len - l" using False by (simp_all add: l_def field_simps)
    moreover have "ot_merge a b = (Vec3_scale dn l + p1, (len + (r0 + r1)) / 2)"
      using False by (simp add: ab ot_merge_def Let_def len_def dn_def l_def)
    ultimately show ?thesis by (simp add: ab sphere_in_def contains_def l_def field_simps)
  qed
qed

end
