(* ===== verification/Objtree_Update.thy ===== *)
theory Objtree_Update
  imports Objtree_Search
begin

text \<open>
  Updating the spheres of the object tree: \<open>ot_updatesub\<close> follows entities that have moved, keeps the tree, and
  fails exactly when an entity is not in the field any more.
\<close>

section \<open>What a tree depends on\<close>

definition same_links :: "otnt \<Rightarrow> otnt \<Rightarrow> bool" where
  "same_links n m \<longleftrightarrow> ot_a0 n = ot_a0 m \<and> ot_a1 n = ot_a1 m \<and> leaf_bit n 0 = leaf_bit m 0 \<and> leaf_bit n 1 = leaf_bit m 1"

definition same_sphere :: "otnt \<Rightarrow> otnt \<Rightarrow> bool" where
  "same_sphere n m \<longleftrightarrow> ot_pos n = ot_pos m \<and> ot_rad n = ot_rad m"

lemma same_refl [simp]: "same_links n n" "same_sphere n n" by (simp_all add: same_links_def same_sphere_def)

lemma same_links_trans: "same_links a b \<Longrightarrow> same_links b c \<Longrightarrow> same_links a c" by (simp add: same_links_def)

lemma same_links_linked: "same_links n m \<Longrightarrow> i < 2 \<Longrightarrow> linked n i t \<longleftrightarrow> linked m i t"
  by (cases t) (auto simp: same_links_def ot_a_def less_2_cases_iff)

lemma tree_in_frame:
  "tree_in ot t \<Longrightarrow> length ot \<le> length ot' \<Longrightarrow> \<forall>k\<in>set (nodes t). same_links (ot ! k) (ot' ! k) \<Longrightarrow> tree_in ot' t"
  by (induction t) (auto simp: same_links_linked)

definition same_body :: "ents \<Rightarrow> ents \<Rightarrow> nat \<Rightarrow> bool" where
  "same_body ents ents' e \<longleftrightarrow> en_pos (ents e) = en_pos (ents' e) \<and> en_rad (ents e) = en_rad (ents' e)"

lemma same_body_refl [simp]: "same_body ents ents e" by (simp add: same_body_def)

lemma sphere_frame:
  "\<forall>k\<in>set (nodes t). same_sphere (ot ! k) (ot' ! k) \<Longrightarrow> \<forall>e\<in>set (leaves t). same_body ents ents' e \<Longrightarrow> sphere ents ot t = sphere ents' ot' t"
  by (cases t) (auto simp: same_sphere_def same_body_def)

lemma bounded_frame:
  "bounded ents ot t \<Longrightarrow> \<forall>k\<in>set (nodes t). same_sphere (ot ! k) (ot' ! k) \<Longrightarrow> \<forall>e\<in>set (leaves t). same_body ents ents' e
     \<Longrightarrow> bounded ents' ot' t"
proof (induction t)
  case (ONode k l r)
  have "sphere ents ot l = sphere ents' ot' l" "sphere ents ot r = sphere ents' ot' r"
    "sphere ents ot (ONode k l r) = sphere ents' ot' (ONode k l r)"
    using ONode.prems(2,3) by (auto intro!: sphere_frame simp del: sphere.simps)
  then show ?case using ONode by (simp del: sphere.simps)
qed simp

section \<open>One node\<close>

fun staying :: "ents \<Rightarrow> nat \<Rightarrow> otree \<Rightarrow> bool" where
  "staying ents w (OLeaf e) \<longleftrightarrow> en_w (ents e) = Some w"
| "staying ents w (ONode k l r) \<longleftrightarrow> True"

lemma ot_child_linked:
  "linked n i t \<Longrightarrow> tree_in ot t \<Longrightarrow> ot_child ents w ot n i = Some (if staying ents w t then Some (sphere ents ot t) else None)"
  by (cases t) (auto simp: ot_child_def aread_def)

lemma ot_update_int_linked:
  assumes "k < length ot" "linked (ot ! k) 0 l" "linked (ot ! k) 1 r" "tree_in ot l" "tree_in ot r"
  shows "ot_update_int ents w k ot = Some
     (if staying ents w l \<and> staying ents w r
      then (True, ot[k := (ot ! k)\<lparr>ot_pos := fst (ot_merge (sphere ents ot l) (sphere ents ot r)), ot_rad := snd (ot_merge (sphere ents ot l) (sphere ents ot r))\<rparr>])
      else (False, ot))"
  using assms by (simp add: ot_update_int_def ot_child_linked aread_def awrite_def del: linked.simps)

lemma ot_merged_bounded:
  assumes "k < length ot" "k \<notin> set (nodes l)" "k \<notin> set (nodes r)" "bounded ents ot l" "bounded ents ot r"
  defines "m \<equiv> ot_merge (sphere ents ot l) (sphere ents ot r)"
  shows "bounded ents (ot[k := (ot ! k)\<lparr>ot_pos := fst m, ot_rad := snd m\<rparr>]) (ONode k l r)"
proof -
  let ?ot = "ot[k := (ot ! k)\<lparr>ot_pos := fst m, ot_rad := snd m\<rparr>]"
  have same: "\<forall>j\<in>set (nodes l). same_sphere (ot ! j) (?ot ! j)" "\<forall>j\<in>set (nodes r). same_sphere (ot ! j) (?ot ! j)"
    using assms(2,3) by (metis nth_list_update_neq same_refl(2))+
  have "sphere ents ?ot l = sphere ents ot l" "sphere ents ?ot r = sphere ents ot r"
    using same by (auto intro!: sphere_frame [symmetric])
  moreover have "sphere ents ?ot (ONode k l r) = m" using assms(1) by simp
  moreover have "bounded ents ?ot l" "bounded ents ?ot r" using assms(4,5) same by (auto intro: bounded_frame)
  ultimately show ?thesis using ot_merge_encloses [of "sphere ents ot l" "sphere ents ot r"]
    by (simp add: m_def del: sphere.simps)
qed

section \<open>The whole tree\<close>

text \<open>What an update of the nodes of \<open>t\<close> with the result \<open>ok\<close> does to the array.\<close>

definition updated :: "ents \<Rightarrow> otnt list \<Rightarrow> otree \<Rightarrow> bool \<Rightarrow> otnt list \<Rightarrow> bool" where
  "updated ents ot t ok ot' \<longleftrightarrow>
     length ot' = length ot \<and> (\<forall>j. j \<notin> set (nodes t) \<longrightarrow> ot' ! j = ot ! j) \<and> (\<forall>j<length ot. same_links (ot ! j) (ot' ! j)) \<and> (ok \<longrightarrow> bounded ents ot' t)"

definition update_child :: "ents \<Rightarrow> nat \<Rightarrow> otnt \<Rightarrow> nat \<Rightarrow> otnt list \<Rightarrow> (bool \<times> otnt list) option" where
  "update_child ents w n i ot =
     (if un_n (ot_a n i) \<noteq> None \<and> \<not> leaf_bit n i then ot_updatesub ents w (un_n (ot_a n i)) ot else Some (True, ot))"

lemma ot_updatesub_children:
  "ot_updatesub ents w (Some i) ot =
     Option.bind (aread ot i) (\<lambda>n. Option.bind (update_child ents w n 0 ot) (\<lambda>r.
       if \<not> fst r then Some (False, snd r)
       else Option.bind (aread (snd r) i) (\<lambda>n. Option.bind (update_child ents w n 1 (snd r))
         (\<lambda>r. if \<not> fst r then Some (False, snd r) else ot_update_int ents w i (snd r)))))"
  by (subst ot_updatesub.simps) (simp only: update_child_def option.case)

fun all_staying :: "ents \<Rightarrow> nat \<Rightarrow> otree \<Rightarrow> bool" where
  "all_staying ents w (OLeaf e) \<longleftrightarrow> True"
| "all_staying ents w (ONode k l r) \<longleftrightarrow> (\<forall>e\<in>set (leaves (ONode k l r)). en_w (ents e) = Some w)"

lemma all_staying_node: "all_staying ents w (ONode k l r) \<longleftrightarrow> all_staying ents w l \<and> all_staying ents w r \<and> staying ents w l \<and> staying ents w r"
  by (cases l; cases r) auto

lemma tree_in_nodes: "tree_in ot t \<Longrightarrow> j \<in> set (nodes t) \<Longrightarrow> j < length ot"
  by (induction t) auto

lemma ot_updatesub_tree:
  "tree_in ot (ONode k l r) \<Longrightarrow> distinct (nodes (ONode k l r)) \<Longrightarrow>
     \<exists>ot'. ot_updatesub ents w (Some k) ot = Some (all_staying ents w (ONode k l r), ot') \<and> updated ents ot (ONode k l r) (all_staying ents w (ONode k l r)) ot'"
proof (induction "ONode k l r" arbitrary: k l r ot)
  case (ONode k l r)
  have child: "\<exists>ot'. update_child ents w n i ot = Some (all_staying ents w t, ot') \<and> updated ents ot t (all_staying ents w t) ot'"
    if "t = l \<or> t = r" "linked n i t" "tree_in ot t" for n i t ot
  proof (cases t)
    case (OLeaf e)
    then show ?thesis using that by (simp add: update_child_def updated_def)
  next
    case n: (ONode k' l' r')
    have "distinct (nodes t)" using ONode.prems(2) that(1) by auto
    then show ?thesis using that ONode.hyps(1) [of k' l' r' ot] ONode.hyps(2) [of k' l' r' ot] by (auto simp: n update_child_def)
  qed
  have k: "k < length ot" "linked (ot ! k) 0 l" "linked (ot ! k) 1 r" "tree_in ot l" "tree_in ot r" using ONode.prems(1) by simp_all
  have d: "k \<notin> set (nodes l)" "k \<notin> set (nodes r)" "set (nodes l) \<inter> set (nodes r) = {}" using ONode.prems(2) by auto
  obtain o1 where o1: "update_child ents w (ot ! k) 0 ot = Some (all_staying ents w l, o1)" "updated ents ot l (all_staying ents w l) o1"
    using child [of l "ot ! k" 0 ot] k by blast
  have k1: "k < length o1" "o1 ! k = ot ! k" "tree_in o1 l" "tree_in o1 r"
    using k d o1(2) tree_in_nodes [of ot l] tree_in_nodes [of ot r] by (auto simp: updated_def intro!: tree_in_frame [of ot])
  obtain o2 where o2: "update_child ents w (o1 ! k) 1 o1 = Some (all_staying ents w r, o2)" "updated ents o1 r (all_staying ents w r) o2"
    using child [of r "o1 ! k" 1 o1] k(3) k1 by (auto simp: k1(2))
  have k2: "k < length o2" "o2 ! k = ot ! k" "tree_in o2 l" "tree_in o2 r"
    using k1 d o2(2) tree_in_nodes [of o1 l] tree_in_nodes [of o1 r] by (auto simp: updated_def intro!: tree_in_frame [of o1])
  have run: "ot_updatesub ents w (Some k) ot =
      (if \<not> all_staying ents w l then Some (False, o1)
       else if \<not> all_staying ents w r then Some (False, o2) else ot_update_int ents w k o2)"
    using k(1) k1(1) o1(1) o2(1) by (simp add: ot_updatesub_children aread_def del: One_nat_def)
  have links: "\<forall>j<length ot. same_links (ot ! j) (o2 ! j)" "length o1 = length ot" "length o2 = length ot"
    using o1(2) o2(2) unfolding updated_def by (auto intro: same_links_trans)
  have frame: "j \<notin> set (nodes (ONode k l r)) \<Longrightarrow> o1 ! j = ot ! j \<and> o2 ! j = ot ! j" for j
    using o1(2) o2(2) by (simp add: updated_def)
  show ?case
  proof (cases "all_staying ents w (ONode k l r)")
    case False
    then show ?thesis unfolding run
      using o1(2) links frame ot_update_int_linked [of k o2 l r ents w] k k2 all_staying_node [of ents w k l r]
      by (auto simp: updated_def simp del: all_staying.simps)
  next
    case True
    then have all: "all_staying ents w l" "all_staying ents w r" "staying ents w l" "staying ents w r"
      by (simp_all add: all_staying_node del: all_staying.simps)
    have "bounded ents o2 l" using o1(2) o2(2) all(1) d(3) unfolding updated_def
      by (auto intro!: bounded_frame [of ents o1 l o2])
    moreover have "bounded ents o2 r" using o2(2) all(2) by (simp add: updated_def)
    ultimately show ?thesis
      using all k k2 links frame d ot_merged_bounded [of k o2 l r ents]
      by (simp add: run True ot_update_int_linked updated_def nth_list_update same_links_def leaf_bit_def
          del: all_staying.simps bounded.simps linked.simps)
  qed
qed

text \<open>C23: the tree follows its entities.  When entities have moved, \<open>ot_updatesub\<close> of the root ends without a stray access and keeps the
  tree; it succeeds exactly when every entity is still in the field, and then the sphere of every node contains the spheres
  below it again.\<close>

theorem ot_updatesub_follows:
  assumes "tree_in ot (ONode k l r)" "distinct (nodes (ONode k l r))"
  shows "\<exists>ok ot'. ot_updatesub ents w (Some k) ot = Some (ok, ot') \<and> length ot' = length ot \<and> tree_in ot' (ONode k l r)
     \<and> (ok \<longleftrightarrow> (\<forall>e\<in>set (leaves (ONode k l r)). en_w (ents e) = Some w)) \<and> (ok \<longrightarrow> bounded ents ot' (ONode k l r))"
proof -
  obtain ot' where run: "ot_updatesub ents w (Some k) ot = Some (all_staying ents w (ONode k l r), ot')"
      "updated ents ot (ONode k l r) (all_staying ents w (ONode k l r)) ot'"
    using ot_updatesub_tree [OF assms] by blast
  have "tree_in ot' (ONode k l r)"
    using run(2) tree_in_nodes [OF assms(1)] by (intro tree_in_frame [OF assms(1)]) (auto simp: updated_def)
  then show ?thesis using run by (auto simp: updated_def)
qed

theorem ot_updatesub_follows_witness:
  "\<exists>ok ot'. ot_updatesub (pair_ents(1 := (pair_ents 1)\<lparr>en_pos := Vec3 9 9 9\<rparr>)) 0 (Some 0) pair_tree = Some (ok, ot') \<and> length ot' = length pair_tree
     \<and> tree_in ot' (ONode 0 (OLeaf 0) (OLeaf 1)) \<and> ok
     \<and> bounded (pair_ents(1 := (pair_ents 1)\<lparr>en_pos := Vec3 9 9 9\<rparr>)) ot' (ONode 0 (OLeaf 0) (OLeaf 1))"
proof -
  have "\<forall>e\<in>set (leaves (ONode 0 (OLeaf 0) (OLeaf 1))). en_w ((pair_ents(1 := (pair_ents 1)\<lparr>en_pos := Vec3 9 9 9\<rparr>)) e) = Some 0"
    by (simp add: pair_ents_def)
  then show ?thesis using ot_updatesub_follows [OF pair_tree_ok(1), of "pair_ents(1 := (pair_ents 1)\<lparr>en_pos := Vec3 9 9 9\<rparr>)" 0]
    by (simp del: tree_in.simps bounded.simps leaves.simps) blast
qed

end
