(* ===== verification/Objtree_Build.thy ===== *)
theory Objtree_Build
  imports Objtree_Update "HOL-Library.Multiset"
begin

text \<open>
  Building the object tree: \<open>ot_build\<close> joins all entities of the field into one tree with bounding spheres, which the searches
  need.  The loop keeps a forest: one tree for every entity or node that has no partner yet.
\<close>

section \<open>Items\<close>

datatype oitem = Ent nat | Nod nat

fun item :: "otree \<Rightarrow> oitem" where
  "item (OLeaf e) = Ent e"
| "item (ONode k l r) = Nod k"

fun item_sphere :: "ents \<Rightarrow> otnt list \<Rightarrow> oitem \<Rightarrow> real Vec3 \<times> real" where
  "item_sphere ents ot (Ent e) = (en_pos (ents e), en_rad (ents e))"
| "item_sphere ents ot (Nod k) = (ot_pos (ot ! k), ot_rad (ot ! k))"

fun item_paired :: "ents \<Rightarrow> otnt list \<Rightarrow> oitem \<Rightarrow> bool" where
  "item_paired ents ot (Ent e) \<longleftrightarrow> and (en_otflag (ents e)) 2 \<noteq> 0"
| "item_paired ents ot (Nod k) \<longleftrightarrow> and (ot_leaf (ot ! k)) OT_PAIRED \<noteq> 0"

lemma sphere_item: "sphere ents ot t = item_sphere ents ot (item t)" by (cases t) simp_all

section \<open>The iterator\<close>

definition items_from :: "ents \<Rightarrow> nat \<Rightarrow> nat option list \<Rightarrow> nat \<Rightarrow> otit \<Rightarrow> oitem list" where
  "items_from ents w el n it =
     List.map (\<lambda>t. Ent (the t)) (filter (in_field ents w) (drop (oi_p it) el)) @ List.map Nod [oi_i it..<n]"

definition oi_wf :: "ents \<Rightarrow> nat \<Rightarrow> nat option list \<Rightarrow> nat \<Rightarrow> otit \<Rightarrow> bool" where
  "oi_wf ents w el n it \<longleftrightarrow>
     oi_p it \<le> length el \<and> oi_i it \<le> n \<and> (oi_p it < length el \<longrightarrow> in_field ents w (el ! oi_p it) \<and> oi_i it = 0)"

definition oi_item :: "nat option list \<Rightarrow> otit \<Rightarrow> oitem" where
  "oi_item el it = (if oi_p it < length el then Ent (the (el ! oi_p it)) else Nod (oi_i it))"

lemma oi_skip_ok:
  "p \<le> length el \<Longrightarrow> p \<le> oi_skip ents w el p \<and> oi_skip ents w el p \<le> length el
     \<and> (oi_skip ents w el p < length el \<longrightarrow> in_field ents w (el ! oi_skip ents w el p))
     \<and> filter (in_field ents w) (drop (oi_skip ents w el p) el) = filter (in_field ents w) (drop p el)"
proof (induction ents w el p rule: oi_skip.induct)
  case (1 ents w el p)
  show ?case
  proof (cases "p < length el \<and> \<not> in_field ents w (el ! p)")
    case True
    then have "filter (in_field ents w) (drop p el) = filter (in_field ents w) (drop (p + 1) el)"
      by (simp add: Cons_nth_drop_Suc [symmetric])
    moreover have "oi_skip ents w el p = oi_skip ents w el (p + 1)" using True by (subst oi_skip.simps) simp
    ultimately show ?thesis using 1 True by simp
  next
    case False
    then have "oi_skip ents w el p = p" by (subst oi_skip.simps) auto
    then show ?thesis using False 1(2) by auto
  qed
qed

lemma oi_more_items: "oi_wf ents w el n it \<Longrightarrow> oi_more el n it \<longleftrightarrow> items_from ents w el n it \<noteq> []"
proof (cases "oi_p it < length el")
  case True
  then show "oi_wf ents w el n it \<Longrightarrow> ?thesis"
    by (simp add: oi_wf_def oi_more_def items_from_def Cons_nth_drop_Suc [symmetric]) (auto simp: in_field_def split: option.splits)
qed (auto simp: oi_wf_def oi_more_def items_from_def)

lemma oi_step:
  assumes "oi_wf ents w el n it" "oi_more el n it"
  shows "items_from ents w el n it = oi_item el it # items_from ents w el n (oi_next ents w el it)"
    "oi_wf ents w el n (oi_next ents w el it)"
proof -
  have "items_from ents w el n it = oi_item el it # items_from ents w el n (oi_next ents w el it) \<and> oi_wf ents w el n (oi_next ents w el it)"
  proof (cases "oi_p it < length el")
    case True
    then show ?thesis using assms oi_skip_ok [of "oi_p it + 1" el ents w]
      by (auto simp: oi_wf_def items_from_def oi_item_def oi_next_def Cons_nth_drop_Suc [symmetric])
  next
    case False
    then have "oi_i it < n" using assms by (auto simp: oi_wf_def oi_more_def)
    then show ?thesis using False assms(1) by (auto simp: oi_wf_def items_from_def oi_item_def oi_next_def upt_conv_Cons)
  qed
  then show "items_from ents w el n it = oi_item el it # items_from ents w el n (oi_next ents w el it)"
    "oi_wf ents w el n (oi_next ents w el it)" by simp_all
qed

lemma oi_start_ok:
  "oi_wf ents w el n (oi_start ents w el)"
  "items_from ents w el 0 (oi_start ents w el) = List.map (\<lambda>t. Ent (the t)) (filter (in_field ents w) el)"
  using oi_skip_ok [of 0 el ents w] by (simp_all add: oi_wf_def items_from_def oi_start_def)

lemma items_from_grow: "oi_wf ents w el n it \<Longrightarrow> items_from ents w el (Suc n) it = items_from ents w el n it @ [Nod n]"
  by (simp add: items_from_def oi_wf_def)

lemma oi_wf_grow: "oi_wf ents w el n it \<Longrightarrow> oi_wf ents w el (Suc n) it" by (auto simp: oi_wf_def)

lemma oi_item_range:
  assumes "oi_wf ents w el n it" "oi_more el n it"
  shows "oi_item el it \<in> set (items_from ents w el n it)"
    "oi_p it < length el \<Longrightarrow> \<exists>e. el ! oi_p it = Some e \<and> en_w (ents e) = Some w"
    "\<not> oi_p it < length el \<Longrightarrow> oi_i it < n"
  using assms oi_step [OF assms] by (auto simp: oi_wf_def oi_more_def in_field_def split: option.splits)

lemma oi_views:
  assumes "oi_wf ents w el n it" "oi_more el n it" "n \<le> length ot"
  shows "oi_sphere ents el ot it = Some (item_sphere ents ot (oi_item el it))"
    "oi_paired ents el ot it = Some (item_paired ents ot (oi_item el it))"
  using oi_item_range [OF assms(1,2)] assms(3)
  by (cases "oi_p it < length el"; auto simp: oi_sphere_def oi_paired_def oi_item_def aread_def)+

section \<open>The partner\<close>

definition pair_dist :: "real Vec3 \<times> real \<Rightarrow> real Vec3 \<times> real \<Rightarrow> real" where
  "pair_dist a b = Vec3_slen (fst a - fst b) + snd a * snd a + snd b * snd b"

lemma best_pair_ok:
  "items_from ents w el n it = xs \<Longrightarrow> oi_wf ents w el n it \<Longrightarrow> n \<le> length ot \<Longrightarrow>
     \<exists>res. best_pair ents w el ot n a it best found = Some res
       \<and> (res = found \<or> (\<exists>it3. res = Some it3 \<and> oi_wf ents w el n it3 \<and> oi_more el n it3 \<and> oi_item el it3 \<in> set xs \<and> \<not> item_paired ents ot (oi_item el it3)))
       \<and> (found \<noteq> None \<or> (\<exists>x\<in>set xs. \<not> item_paired ents ot x \<and> pair_dist a (item_sphere ents ot x) < best) \<longrightarrow> res \<noteq> None)"
proof (induction xs arbitrary: it best found)
  case Nil
  then show ?case by (subst best_pair.simps) (simp add: oi_more_items)
next
  case (Cons x xs)
  have more: "oi_more el n it" using Cons.prems by (simp add: oi_more_items)
  note step = oi_step [OF Cons.prems(2) more] and views = oi_views [OF Cons.prems(2) more Cons.prems(3)]
  have x: "x = oi_item el it" "items_from ents w el n (oi_next ents w el it) = xs" using step(1) Cons.prems(1) by simp_all
  note IH = Cons.IH [OF x(2) step(2) Cons.prems(3)]
  show ?case
  proof (cases "item_paired ents ot x")
    case True
    then have "best_pair ents w el ot n a it best found = best_pair ents w el ot n a (oi_next ents w el it) best found"
      using more views by (subst best_pair.simps) (simp add: x(1))
    then show ?thesis using IH [of best found] True by auto
  next
    case False
    let ?d = "pair_dist a (item_sphere ents ot x)"
    have "best_pair ents w el ot n a it best found =
        (if ?d < best then best_pair ents w el ot n a (oi_next ents w el it) ?d (Some it) else best_pair ents w el ot n a (oi_next ents w el it) best found)"
      using more views False by (subst best_pair.simps) (simp add: x(1) pair_dist_def Let_def)
    then show ?thesis using IH [of ?d "Some it"] IH [of best found] False x(1) more Cons.prems(2) by (auto split: if_splits)
  qed
qed

section \<open>Marking items\<close>

definition same_ents :: "ents \<Rightarrow> ents \<Rightarrow> bool" where
  "same_ents ents ents' \<longleftrightarrow> (\<forall>e. en_pos (ents e) = en_pos (ents' e) \<and> en_rad (ents e) = en_rad (ents' e) \<and> en_w (ents e) = en_w (ents' e))"

lemma same_ents_refl [simp]: "same_ents ents ents" by (simp add: same_ents_def)

lemma same_ents_trans: "same_ents a b \<Longrightarrow> same_ents b c \<Longrightarrow> same_ents a c" by (simp add: same_ents_def)

lemma same_ents_field: "same_ents ents ents' \<Longrightarrow> in_field ents' w = in_field ents w"
  by (auto simp: fun_eq_iff in_field_def same_ents_def split: option.splits)

lemma same_ents_skip: "same_ents ents ents' \<Longrightarrow> oi_skip ents' w el p = oi_skip ents w el p"
proof (induction ents w el p rule: oi_skip.induct)
  case (1 ents w el p)
  then show ?case
    by (subst (1 2) oi_skip.simps) (simp add: same_ents_field)
qed

lemma same_ents_items:
  assumes "same_ents ents ents'"
  shows "items_from ents' w el n it = items_from ents w el n it" "oi_wf ents' w el n it = oi_wf ents w el n it"
    "oi_next ents' w el it = oi_next ents w el it"
  using assms by (simp_all add: items_from_def oi_wf_def oi_next_def same_ents_field same_ents_skip)

lemma same_ents_body: "same_ents ents ents' \<Longrightarrow> same_body ents ents' e" by (simp add: same_ents_def same_body_def)

fun pair_item :: "oitem \<Rightarrow> ents \<times> otnt list \<Rightarrow> ents \<times> otnt list" where
  "pair_item (Ent e) (ents, ot) = (ents(e := (ents e)\<lparr>en_otflag := or (en_otflag (ents e)) 2\<rparr>), ot)"
| "pair_item (Nod k) (ents, ot) = (ents, ot[k := (ot ! k)\<lparr>ot_leaf := or (ot_leaf (ot ! k)) OT_PAIRED\<rparr>])"

lemma oi_pair_item:
  assumes "oi_wf ents w el n it" "oi_more el n it" "n \<le> length ot"
  shows "oi_pair el it (ents', ot) = Some (pair_item (oi_item el it) (ents', ot))"
  using oi_item_range [OF assms(1,2)] assms(3)
  by (cases "oi_p it < length el") (auto simp: oi_pair_def oi_item_def aread_def awrite_def)

lemma or_and_absorb [simp]: "and (or x y) y = y" for x y :: uint32
  by (rule bit_word_eqI) (auto simp: bit_simps)

lemma flag_bits [simp]: "OT_PAIRED \<noteq> 0" "bit (or x OT_PAIRED) 0 = bit x 0" "bit (or x OT_PAIRED) (Suc 0) = bit x (Suc 0)"
proof -
  have "\<not> bit OT_PAIRED 0" "\<not> bit OT_PAIRED (Suc 0)" by (simp_all add: OT_PAIRED_def)
  then show "bit (or x OT_PAIRED) 0 = bit x 0" "bit (or x OT_PAIRED) (Suc 0) = bit x (Suc 0)" by (simp_all add: bit_simps)
qed (simp add: OT_PAIRED_def)

lemma pair_item_ok:
  fixes ents :: ents
  assumes "\<And>k. x = Nod k \<Longrightarrow> k < length ot"
  defines "st \<equiv> pair_item x (ents, ot)"
  shows "same_ents ents (fst st)" "length (snd st) = length ot"
    "same_links (ot ! k) (snd st ! k)" "same_sphere (ot ! k) (snd st ! k)"
    "item_paired (fst st) (snd st) y \<longleftrightarrow> y = x \<or> item_paired ents ot y"
proof -
  show "same_ents ents (fst st)" "length (snd st) = length ot" by (cases x; auto simp: st_def same_ents_def)+
  show "same_links (ot ! k) (snd st ! k)" "same_sphere (ot ! k) (snd st ! k)"
    using assms(1) by (cases x; cases "x = Nod k"; auto simp: st_def same_links_def same_sphere_def leaf_bit_def nth_list_update)+
  show "item_paired (fst st) (snd st) y \<longleftrightarrow> y = x \<or> item_paired ents ot y"
    using assms(1) by (cases x; cases y) (auto simp: st_def nth_list_update)
qed

section \<open>A new node\<close>

lemma item_staying: "item t = oi_item el it \<Longrightarrow> oi_wf ents w el n it \<Longrightarrow> oi_more el n it \<Longrightarrow> staying ents w t"
  using oi_item_range(2) [of ents w el n it] by (cases t) (auto simp: oi_item_def split: if_splits)

lemma oi_get_linked:
  assumes "item t = oi_item el it" "oi_wf ents w el n it" "oi_more el n it" "oi_get el it (ot_a m i) = (l, u)"
    and "ot_a m' i = u" "leaf_bit m' i = l"
  shows "linked m' i t"
  using assms(1,4,6) oi_item_range(2) [OF assms(2,3)] by (cases t) (auto simp: oi_item_def oi_get_def assms(5) split: if_splits)

text \<open>The array with the links of the new node set.\<close>

lemma new_node_linked:
  assumes items: "item A = oi_item el it" "item B = oi_item el it3"
    and it: "oi_wf ents w el k it" "oi_more el k it" and it3: "oi_wf ents w el k it3" "oi_more el k it3"
    and gets: "oi_get el it (ot_a0 m) = (l0, a0)" "oi_get el it3 (ot_a1 m) = (l1, a1)"
  defines "m' \<equiv> m\<lparr>ot_a0 := a0, ot_a1 := a1, ot_leaf := or (if l0 then 1 else 0) (if l1 then 2 else 0)\<rparr>"
  shows "linked m' 0 A" "linked m' 1 B" "and (ot_leaf m') OT_PAIRED = 0"
proof -
  have bits: "leaf_bit m' 0 = l0" "leaf_bit m' 1 = l1" by (cases l0; cases l1; simp add: m'_def leaf_bit_def)+
  show "linked m' 0 A" by (rule oi_get_linked [OF items(1) it, of m 0 l0 a0]) (simp_all add: gets ot_a_def bits, simp add: m'_def)
  show "linked m' 1 B" by (rule oi_get_linked [OF items(2) it3, of m 1 l1 a1]) (simp_all add: gets ot_a_def bits [simplified], simp add: m'_def)
  show "and (ot_leaf m') OT_PAIRED = 0" by (cases l0; cases l1; simp add: m'_def OT_PAIRED_def)
qed

lemma make_pair_ok:
  assumes items: "item A = oi_item el it" "item B = oi_item el it3"
    and it: "oi_wf ents w el k it" "oi_more el k it" and it3: "oi_wf ents w el k it3" "oi_more el k it3"
    and k: "k < n" "k < length ot" "\<forall>j\<in>set (nodes A @ nodes B). j < k"
    and trees: "tree_in ot A" "tree_in ot B" "bounded ents ot A" "bounded ents ot B"
  shows "\<exists>ents' ot'. make_pair w el n it it3 k (ents, ot) = Some (ents', ot') \<and> same_ents ents ents' \<and> length ot' = length ot
     \<and> (\<forall>j. j \<noteq> k \<longrightarrow> same_links (ot ! j) (ot' ! j) \<and> same_sphere (ot ! j) (ot' ! j))
     \<and> tree_in ot' (ONode k A B) \<and> bounded ents' ot' (ONode k A B)
     \<and> sphere ents' ot' (ONode k A B) = ot_merge (sphere ents ot A) (sphere ents ot B)
     \<and> (\<forall>x. x \<noteq> Nod k \<longrightarrow> item_paired ents' ot' x = (x = item A \<or> x = item B \<or> item_paired ents ot x))
     \<and> \<not> item_paired ents' ot' (Nod k)"
proof -
  obtain l0 a0 l1 a1 where gets: "oi_get el it (ot_a0 (ot ! k)) = (l0, a0)" "oi_get el it3 (ot_a1 (ot ! k)) = (l1, a1)"
    by (metis surj_pair)
  define m where "m = (ot ! k)\<lparr>ot_a0 := a0, ot_a1 := a1, ot_leaf := or (if l0 then 1 else 0) (if l1 then 2 else 0)\<rparr>"
  note new = new_node_linked [OF items it it3 gets, folded m_def]
  define o1 where "o1 = ot[k := m]"
  have same1: "\<And>j. j \<noteq> k \<Longrightarrow> o1 ! j = ot ! j" "length o1 = length ot" "o1 ! k = m" using k(2) by (simp_all add: o1_def)
  have below: "j \<noteq> k" if "j \<in> set (nodes A) \<or> j \<in> set (nodes B)" for j using that k(3) by auto
  have in1: "tree_in o1 A" "tree_in o1 B" using trees(1,2) below same1 by (auto intro!: tree_in_frame [of ot])
  have sph1: "sphere ents o1 A = sphere ents ot A" "sphere ents o1 B = sphere ents ot B"
    using below same1 by (auto intro!: sphere_frame)
  have bnd1: "bounded ents o1 A" "bounded ents o1 B" using trees(3,4) below same1 by (auto intro!: bounded_frame [of ents ot])
  define s where "s = ot_merge (sphere ents o1 A) (sphere ents o1 B)"
  define o2 where "o2 = o1[k := (o1 ! k)\<lparr>ot_pos := fst s, ot_rad := snd s\<rparr>]"
  have upd: "ot_update_int ents w k o1 = Some (True, o2)"
    using ot_update_int_linked [of k o1 A B ents w] k(2) same1 new in1 item_staying [OF items(1) it] item_staying [OF items(2) it3]
    by (simp add: o2_def s_def)
  have bnd2: "bounded ents o2 (ONode k A B)"
    unfolding o2_def s_def using k(2) same1 below bnd1 by (intro ot_merged_bounded) auto
  have same2: "\<And>j. j \<noteq> k \<Longrightarrow> o2 ! j = ot ! j" "length o2 = length ot" "o2 ! k = m\<lparr>ot_pos := fst s, ot_rad := snd s\<rparr>"
    using k(2) same1 by (simp_all add: o2_def)
  have in2: "tree_in o2 (ONode k A B)"
  proof -
    have "tree_in o2 A" "tree_in o2 B" using trees(1,2) below same2 by (auto intro!: tree_in_frame [of ot])
    moreover have "same_links m (o2 ! k)" by (simp add: same2 same_links_def leaf_bit_def)
    ultimately show ?thesis using new k(2) same2(2) same_links_linked [of m "o2 ! k" 0 A] same_links_linked [of m "o2 ! k" 1 B] by simp
  qed
  define st1 where "st1 = pair_item (oi_item el it) (ents, o2)"
  define st2 where "st2 = pair_item (oi_item el it3) st1"
  have range: "j < k" if "oi_item el it = Nod j \<or> oi_item el it3 = Nod j" for j
    using that oi_item_range(3) [OF it] oi_item_range(3) [OF it3] by (auto simp: oi_item_def split: if_splits)
  have range': "j < length o2" if "oi_item el it = Nod j \<or> oi_item el it3 = Nod j" for j
    using range [OF that] k(2) same2(2) by simp
  note p1 = pair_item_ok [where x = "oi_item el it" and ot = o2 and ents = ents, folded st1_def]
  have r1: "j < length o2" if "oi_item el it = Nod j" for j using range' that by simp
  note p1 = p1 [OF r1]
  have st1: "st1 = (fst st1, snd st1)" by simp
  note p2 = pair_item_ok [where x = "oi_item el it3" and ot = "snd st1" and ents = "fst st1", unfolded prod.collapse, folded st2_def]
  have r3: "j < length (snd st1)" if "oi_item el it3 = Nod j" for j using range' that p1(2) by simp
  note p2 = p2 [OF r3]
  have same3: "same_ents ents (fst st2)" "length (snd st2) = length ot"
    "same_links (o2 ! j) (snd st2 ! j)" "same_sphere (o2 ! j) (snd st2 ! j)" for j
    using same_ents_trans [OF p1(1) p2(1)] same_links_trans [OF p1(3) p2(3)] p1(2,4) p2(2,4) same2(2)
    by (simp_all add: same_sphere_def)
  have "make_pair w el n it it3 k (ents, ot) = Some st2"
    using k gets upd oi_pair_item [OF it, of o2 ents] oi_pair_item [OF it3, of "snd st1" "fst st1"] p1(2) same2(2)
    by (simp add: make_pair_def aread_def awrite_def m_def [symmetric] o1_def [symmetric] st1_def [symmetric] st2_def [symmetric] prod.split)
  moreover have "tree_in (snd st2) (ONode k A B)"
    using in2 same3 same2(2) by (intro tree_in_frame [OF in2]) auto
  moreover have "bounded (fst st2) (snd st2) (ONode k A B)"
    using same3 same_ents_body [OF same3(1)] by (intro bounded_frame [OF bnd2]) auto
  moreover have "sphere (fst st2) (snd st2) (ONode k A B) = ot_merge (sphere ents ot A) (sphere ents ot B)"
    using same3(4) [of k] same2(3) by (simp add: same_sphere_def s_def sph1 prod_eq_iff)
  moreover have "item_paired (fst st2) (snd st2) x = (x = item A \<or> x = item B \<or> item_paired ents ot x)" if "x \<noteq> Nod k" for x
  proof -
    have "item_paired ents o2 x = item_paired ents ot x" using that same2(1) by (cases x) auto
    then show ?thesis using p1(5) [of x] p2(5) [of x] items by auto
  qed
  moreover have "oi_item el it \<noteq> Nod k" "oi_item el it3 \<noteq> Nod k" using range by blast+
  then have "\<not> item_paired (fst st2) (snd st2) (Nod k)"
    using p1(5) [of "Nod k"] p2(5) [of "Nod k"] new(3) same2(3) by auto
  moreover have "same_links (ot ! j) (snd st2 ! j) \<and> same_sphere (ot ! j) (snd st2 ! j)" if "j \<noteq> k" for j
    using same3(3,4) [of j] same2(1) [OF that] by simp
  ultimately show ?thesis using same3(1,2) by (metis prod.collapse)
qed

end
