(* ===== verification/Objtree_Correct.thy ===== *)
theory Objtree_Correct
  imports Objtree_Build
begin

text \<open>
  \<open>ot_build\<close> makes one tree of all the entities of the field, as long as they are not too far from each other for the loop
  that looks for partners.
\<close>

section \<open>Bounds on the spheres\<close>

text \<open>The centre stays within \<open>P\<close> of the origin and the radius within \<open>P\<close> for every entity below.\<close>

definition near :: "real \<Rightarrow> ents \<Rightarrow> otnt list \<Rightarrow> otree \<Rightarrow> bool" where
  "near P ents ot t \<longleftrightarrow> Vec3_len (fst (sphere ents ot t)) \<le> P \<and> 0 \<le> snd (sphere ents ot t)
     \<and> snd (sphere ents ot t) \<le> real (length (leaves t)) * P"

lemma ot_merge_near:
  assumes "Vec3_len (fst a) \<le> P" "Vec3_len (fst b) \<le> P" "0 \<le> snd a" "0 \<le> snd b"
  shows "Vec3_len (fst (ot_merge a b)) \<le> P" "0 \<le> snd (ot_merge a b)"
    "snd (ot_merge a b) \<le> snd a \<or> snd (ot_merge a b) \<le> snd b \<or> 2 * snd (ot_merge a b) \<le> 2 * P + snd a + snd b"
proof -
  obtain p0 r0 p1 r1 where ab: "a = (p0, r0)" "b = (p1, r1)" by (cases a; cases b)
  define len where "len = Vec3_len (p0 - p1)"
  have len: "0 \<le> len" "len \<le> 2 * P"
    using Vec3_len_triangle [of p0 "- p1"] assms(1,2) by (simp_all add: len_def ab)
  have "Vec3_len (fst (ot_merge a b)) \<le> P \<and> 0 \<le> snd (ot_merge a b)
      \<and> (snd (ot_merge a b) \<le> snd a \<or> snd (ot_merge a b) \<le> snd b \<or> 2 * snd (ot_merge a b) \<le> 2 * P + snd a + snd b)"
  proof (cases "len + r1 < r0 \<or> len + r0 < r1 \<or> len = 0")
    case True
    then show ?thesis using assms by (auto simp: ab ot_merge_def Let_def len_def [symmetric] max_def)
  next
    case False
    define l where "l = (len + (r0 + r1)) / 2 - r1"
    have l: "0 \<le> l" "l \<le> len" using False by (simp_all add: l_def field_simps)
    have m: "ot_merge a b = (Vec3_scale (Vec3_div (p0 - p1) len) l + p1, (len + (r0 + r1)) / 2)"
      using False by (simp add: ab ot_merge_def Let_def len_def l_def)
    have "Vec3_scale (Vec3_div (p0 - p1) len) l + p1 = Vec3_scale p0 (l / len) + Vec3_scale p1 (1 - l / len)"
      by (cases p0; cases p1) (simp add: field_simps diff_divide_distrib)
    then have "Vec3_len (fst (ot_merge a b)) \<le> Vec3_len p0 * (l / len) + Vec3_len p1 * (1 - l / len)"
      using Vec3_len_triangle [of "Vec3_scale p0 (l / len)" "Vec3_scale p1 (1 - l / len)"] l len False by (simp add: m)
    also have "\<dots> \<le> P * (l / len) + P * (1 - l / len)"
      using assms(1,2) l len False by (intro add_mono mult_right_mono) (simp_all add: ab)
    also have "\<dots> = P" by (simp add: algebra_simps)
    finally show ?thesis using m len assms(3,4) by (auto simp: ab field_simps)
  qed
  then show "Vec3_len (fst (ot_merge a b)) \<le> P" "0 \<le> snd (ot_merge a b)"
    "snd (ot_merge a b) \<le> snd a \<or> snd (ot_merge a b) \<le> snd b \<or> 2 * snd (ot_merge a b) \<le> 2 * P + snd a + snd b" by simp_all
qed

lemma leaves_pos: "1 \<le> length (leaves t)" by (induction t) auto

lemma near_node:
  assumes "near P ents ot A" "near P ents ot B" "sphere ents' ot' (ONode k A B) = ot_merge (sphere ents ot A) (sphere ents ot B)" "0 \<le> P"
  shows "near P ents' ot' (ONode k A B)"
proof -
  let ?a = "sphere ents ot A" and ?b = "sphere ents ot B"
  let ?m = "real (length (leaves A))" and ?n = "real (length (leaves B))"
  have mn: "1 \<le> ?m" "1 \<le> ?n" using leaves_pos [of A] leaves_pos [of B] by linarith+
  have r: "snd ?a \<le> ?m * P" "snd ?b \<le> ?n * P" using assms(1,2) by (simp_all add: near_def)
  note merge = ot_merge_near [of ?a P ?b]
  have "snd (ot_merge ?a ?b) \<le> snd ?a \<or> snd (ot_merge ?a ?b) \<le> snd ?b \<or> 2 * snd (ot_merge ?a ?b) \<le> 2 * P + snd ?a + snd ?b"
    using assms(1,2) by (intro merge(3)) (simp_all add: near_def)
  moreover have "?m * P \<le> (?m + ?n) * P" "?n * P \<le> (?m + ?n) * P" using assms(4) by (intro mult_right_mono; simp)+
  moreover have "2 * P \<le> (?m + ?n) * P" using mn assms(4) by (intro mult_right_mono) simp_all
  moreover have "(?m + ?n) * P = ?m * P + ?n * P" by (simp add: distrib_right)
  ultimately have "snd (ot_merge ?a ?b) \<le> (?m + ?n) * P" using r by linarith
  then show ?thesis using merge(1,2) assms(1,2) unfolding near_def assms(3) by simp
qed

text \<open>So two trees are always near enough to be partners.\<close>

lemma near_dist:
  assumes "near P ents ot A" "near P ents ot B" "0 \<le> P" "length (leaves A) + length (leaves B) \<le> n" "real n * P \<le> 10000000"
  shows "pair_dist (sphere ents ot A) (sphere ents ot B) < 1000000000000000"
proof -
  let ?a = "sphere ents ot A" and ?b = "sphere ents ot B"
  let ?N = "real n * P"
  have n2: "2 \<le> n" using assms(4) leaves_pos [of A] leaves_pos [of B] by linarith
  have le: "real (length (leaves A)) * P \<le> ?N" "real (length (leaves B)) * P \<le> ?N" "2 * P \<le> ?N"
    using assms(3,4) n2 by (intro mult_right_mono; simp)+
  have "Vec3_len (fst ?a - fst ?b) \<le> Vec3_len (fst ?a) + Vec3_len (fst ?b)" using Vec3_len_triangle [of "fst ?a" "- fst ?b"] by simp
  then have d: "Vec3_len (fst ?a - fst ?b) \<le> ?N" using assms(1,2) le(3) by (simp add: near_def)
  have sq: "x * x \<le> 10000000 * 10000000" if "0 \<le> x" "x \<le> ?N" for x
    using mult_mono [of x 10000000 x 10000000] that assms(5) by simp
  have "Vec3_slen (fst ?a - fst ?b) \<le> 10000000 * 10000000" using sq [OF Vec3_len_nonneg d] by (simp add: Vec3_len_square)
  moreover have "snd ?a * snd ?a \<le> 10000000 * 10000000" "snd ?b * snd ?b \<le> 10000000 * 10000000"
    using assms(1,2) le by (intro sq; simp add: near_def)+
  ultimately show ?thesis by (simp add: pair_dist_def)
qed

section \<open>The forest\<close>

definition forest :: "real \<Rightarrow> nat list \<Rightarrow> ents \<Rightarrow> otnt list \<Rightarrow> nat \<Rightarrow> otree list \<Rightarrow> bool" where
  "forest P es ents ot n F \<longleftrightarrow>
     distinct (List.map item F) \<and> mset (concat (List.map leaves F)) = mset es
     \<and> (\<forall>t\<in>set F. tree_in ot t \<and> bounded ents ot t \<and> near P ents ot t)
     \<and> distinct (concat (List.map nodes F)) \<and> (\<forall>j\<in>set (concat (List.map nodes F)). j < n)
     \<and> length F + n = length es \<and> (0 < n \<longrightarrow> Nod (n - 1) \<in> item ` set F)"

text \<open>What the loop leaves to do: the items without a partner are among those that are still to come.\<close>

definition to_come :: "ents \<Rightarrow> otnt list \<Rightarrow> otree list \<Rightarrow> oitem list \<Rightarrow> bool" where
  "to_come ents ot F xs \<longleftrightarrow> item ` set F \<subseteq> set xs \<and> (\<forall>x\<in>set xs. item_paired ents ot x \<longleftrightarrow> x \<notin> item ` set F)"

lemma forest_leaves_le:
  assumes "forest P es ents ot n F" "A \<in> set F" "B \<in> set F" "A \<noteq> B"
  shows "length (leaves A) + length (leaves B) \<le> length es"
proof -
  have "length es = sum_list (List.map (\<lambda>t. length (leaves t)) F)"
    using assms(1) mset_eq_length [of es "concat (List.map leaves F)"] by (simp add: forest_def length_concat o_def)
  moreover have "sum_list (List.map (\<lambda>t. length (leaves t)) F) = length (leaves A) + sum_list (List.map (\<lambda>t. length (leaves t)) (remove1 A F))"
    using assms(2) by (simp add: sum_list_map_remove1)
  moreover have "length (leaves B) \<le> sum_list (List.map (\<lambda>t. length (leaves t)) (remove1 A F))"
    using assms(3,4) by (intro member_le_sum_list) (auto simp: in_set_remove1)
  ultimately show ?thesis by linarith
qed

lemma mset_concat_map: "mset (concat (List.map f F)) = (\<Sum>t\<in>#mset F. mset (f t))"
  by (induction F) simp_all

lemma forest_perm:
  assumes "mset F = mset G"
  shows "forest P es ents ot n F \<longleftrightarrow> forest P es ents ot n G"
proof -
  have "mset (concat (List.map f F)) = mset (concat (List.map f G))" for f :: "otree \<Rightarrow> nat list"
    unfolding mset_concat_map assms ..
  note c = this [of leaves] mset_eq_imp_distinct_iff [OF this [of nodes]] mset_eq_setD [OF this [of nodes]]
  have "distinct (List.map item F) \<longleftrightarrow> distinct (List.map item G)"
    using assms by (intro mset_eq_imp_distinct_iff) simp
  then show ?thesis unfolding forest_def c mset_eq_setD [OF assms] mset_eq_length [OF assms] by simp
qed

lemma item_node: "item t = Nod j \<Longrightarrow> j \<in> set (nodes t)" by (cases t) auto

text \<open>Two trees become one.\<close>

lemma forest_join:
  assumes F: "forest P es ents ot k (A # B # G)" and P: "0 \<le> P"
    and same: "same_ents ents ents'" "length ot' = length ot"
      "\<forall>j. j \<noteq> k \<longrightarrow> same_links (ot ! j) (ot' ! j) \<and> same_sphere (ot ! j) (ot' ! j)"
    and new: "tree_in ot' (ONode k A B)" "bounded ents' ot' (ONode k A B)"
      "sphere ents' ot' (ONode k A B) = ot_merge (sphere ents ot A) (sphere ents ot B)"
  shows "forest P es ents' ot' (Suc k) (ONode k A B # G)"
proof -
  have G: "\<forall>t\<in>set G. tree_in ot t \<and> bounded ents ot t \<and> near P ents ot t" "\<forall>t\<in>set G. \<forall>j\<in>set (nodes t). j < k"
    using F by (auto simp: forest_def)
  have "tree_in ot' t \<and> bounded ents' ot' t \<and> near P ents' ot' t" if t: "t \<in> set G" for t
  proof -
    have ne: "\<forall>j\<in>set (nodes t). j \<noteq> k" using G(2) t by blast
    have "tree_in ot' t" using G(1) t ne same by (intro tree_in_frame [of ot t ot']) auto
    moreover have "bounded ents' ot' t" using G(1) t ne same same_ents_body [OF same(1)] by (intro bounded_frame [of ents ot t ot']) auto
    moreover have "sphere ents' ot' t = sphere ents ot t"
      using ne same same_ents_body [OF same(1)] by (intro sphere_frame [symmetric]) auto
    ultimately show ?thesis using G(1) t by (simp add: near_def)
  qed
  moreover have "near P ents' ot' (ONode k A B)" using F by (intro near_node [OF _ _ new(3) P]) (simp_all add: forest_def)
  moreover have "Nod k \<notin> item ` set G" using G(2) item_node by fastforce
  ultimately have trees: "\<forall>t\<in>set (ONode k A B # G). tree_in ot' t \<and> bounded ents' ot' t \<and> near P ents' ot' t"
    and fresh: "Nod k \<notin> item ` set G" using new(1,2) by (auto simp del: tree_in.simps bounded.simps)
  have "distinct (List.map item (ONode k A B # G))" using F fresh by (simp add: forest_def)
  moreover have "mset (concat (List.map leaves (ONode k A B # G))) = mset es" using F by (simp add: forest_def)
  moreover have N: "concat (List.map nodes (ONode k A B # G)) = k # concat (List.map nodes (A # B # G))" by simp
  have "distinct (concat (List.map nodes (A # B # G)))" "\<forall>j\<in>set (concat (List.map nodes (A # B # G))). j < k"
    using F unfolding forest_def by blast+
  then have "distinct (concat (List.map nodes (ONode k A B # G)))" "\<forall>j\<in>set (concat (List.map nodes (ONode k A B # G))). j < Suc k"
    unfolding N using less_Suc_eq by (auto simp del: concat.simps list.map)
  moreover have "length (ONode k A B # G) + Suc k = length es" using F by (simp add: forest_def)
  ultimately show ?thesis unfolding forest_def using trees by (simp del: concat.simps list.map tree_in.simps bounded.simps)
qed

section \<open>The loop\<close>

lemma pair_loop_ends:
  "items_from ents w el k it = xs \<Longrightarrow> oi_wf ents w el k it \<Longrightarrow> k \<le> length ot \<Longrightarrow> \<forall>x\<in>set xs. item_paired ents ot x
     \<Longrightarrow> pair_loop w el n it ents ot k = Some (ents, ot, k)"
proof (induction xs arbitrary: it)
  case Nil
  then show ?case by (subst pair_loop.simps) (simp add: oi_more_items)
next
  case (Cons x xs)
  have more: "oi_more el k it" using Cons.prems by (simp add: oi_more_items)
  note step = oi_step [OF Cons.prems(2) more]
  have x: "x = oi_item el it" "items_from ents w el k (oi_next ents w el it) = xs" using step(1) Cons.prems(1) by simp_all
  have "pair_loop w el n it ents ot k = pair_loop w el n (oi_next ents w el it) ents ot k"
    using more oi_views [OF Cons.prems(2) more Cons.prems(3)] Cons.prems(4) by (subst pair_loop.simps) (simp add: x(1))
  then show ?case using Cons.IH [OF x(2) step(2) Cons.prems(3)] Cons.prems(4) by simp
qed

lemma distinct_single: "set F = {A} \<Longrightarrow> distinct F \<Longrightarrow> F = [A]"
  by (cases F; cases "tl F") auto

lemma Nod_not_to_come: "Nod k \<notin> set (items_from ents w el k it)" by (auto simp: items_from_def)

lemma to_come_join:
  assumes "to_come ents ot F (item A # ys)" "distinct (item A # ys)" "Nod k \<notin> set ys" "set F = set (A # B # G)"
    and "item A \<notin> item ` set G" "item B \<notin> item ` set G"
    and "\<forall>x. x \<noteq> Nod k \<longrightarrow> item_paired ents' ot' x = (x = item A \<or> x = item B \<or> item_paired ents ot x)"
      "\<not> item_paired ents' ot' (Nod k)"
  shows "to_come ents' ot' (ONode k A B # G) (ys @ [Nod k])"
proof -
  define I where "I = item ` set G"
  have F: "item ` set F = insert (item A) (insert (item B) I)" using assms(4) by (simp add: I_def)
  have "I \<subseteq> set ys" using assms(1,5) by (auto simp: to_come_def F I_def [symmetric])
  moreover have "item_paired ents' ot' y \<longleftrightarrow> y \<notin> I" if y: "y \<in> set ys" for y
  proof -
    have "y \<noteq> Nod k" "y \<noteq> item A" using y assms(2,3) by auto
    then have "item_paired ents' ot' y \<longleftrightarrow> y = item B \<or> item_paired ents ot y" using assms(7) by blast
    moreover have "item_paired ents ot y \<longleftrightarrow> y \<noteq> item B \<and> y \<notin> I" using assms(1) y \<open>y \<noteq> item A\<close> by (simp add: to_come_def F)
    ultimately show ?thesis using assms(6) by (auto simp: I_def)
  qed
  moreover have "item ` set (ONode k A B # G) = insert (Nod k) I" by (simp add: I_def)
  ultimately show ?thesis using assms(3,8) unfolding to_come_def by auto
qed

lemma pair_loop_ok:
  assumes "items_from ents w el k it = xs" "oi_wf ents w el k it" "distinct xs" "forest P es ents ot k F" "to_come ents ot F xs"
    and "length es \<le> length ot" "0 \<le> P" "real (length es) * P \<le> 10000000" "es \<noteq> []"
  shows "\<exists>ents' ot' k' T. pair_loop w el (length es) it ents ot k = Some (ents', ot', k') \<and> same_ents ents ents'
     \<and> length ot' = length ot \<and> forest P es ents' ot' k' [T]"
  using assms(1-6)
proof (induction "length xs + length F" arbitrary: xs it ents ot k F rule: less_induct)
  case less
  note items = less.prems(1) and wf = less.prems(2) and forest = less.prems(4) and come = less.prems(5)
  have k: "k \<le> length ot" "length F + k = length es" using forest less.prems(6) by (auto simp: forest_def)
  show ?case
  proof (cases xs)
    case Nil
    then have "F = []" using come by (simp add: to_come_def)
    then show ?thesis using forest assms(9) by (simp add: forest_def)
  next
    case (Cons x ys)
    have more: "oi_more el k it" using items wf Cons by (simp add: oi_more_items)
    note step = oi_step [OF wf more] and views = oi_views [OF wf more k(1)]
    have x: "x = oi_item el it" "items_from ents w el k (oi_next ents w el it) = ys" using step(1) items Cons by simp_all
    show ?thesis
    proof (cases "item_paired ents ot x")
      case True
      have "pair_loop w el (length es) it ents ot k = pair_loop w el (length es) (oi_next ents w el it) ents ot k"
        using more views True by (subst pair_loop.simps) (simp add: x(1))
      moreover have "to_come ents ot F ys" using come True by (auto simp: to_come_def Cons)
      ultimately show ?thesis
        using less.hyps [OF _ x(2) step(2) _ forest _ less.prems(6)] less.prems(3) by (simp add: Cons)
    next
      case False
      obtain A where A: "A \<in> set F" "item A = x" using come False by (auto simp: to_come_def Cons)
      obtain res where res: "best_pair ents w el ot k (item_sphere ents ot x) (oi_next ents w el it) 1000000000000000 None = Some res"
          "res = None \<or> (\<exists>it3. res = Some it3 \<and> oi_wf ents w el k it3 \<and> oi_more el k it3 \<and> oi_item el it3 \<in> set ys \<and> \<not> item_paired ents ot (oi_item el it3))"
          "(\<exists>y\<in>set ys. \<not> item_paired ents ot y \<and> pair_dist (item_sphere ents ot x) (item_sphere ents ot y) < 1000000000000000) \<Longrightarrow> res \<noteq> None"
        using best_pair_ok [OF x(2) step(2) k(1), of "item_sphere ents ot x" 1000000000000000 None] by blast
      have run: "pair_loop w el (length es) it ents ot k =
          (case res of
             None \<Rightarrow> pair_loop w el (length es) (oi_next ents w el it) ents ot k
           | Some it3 \<Rightarrow> Option.bind (make_pair w el (length es) it it3 k (ents, ot))
               (\<lambda>st. pair_loop w el (length es) (oi_next (fst st) w el it) (fst st) (snd st) (Suc k)))"
        using more views False res(1) by (subst pair_loop.simps) (simp add: x(1))
      have partner: "\<exists>B\<in>set F. B \<noteq> A \<and> item B = y" if "y \<in> set ys" "\<not> item_paired ents ot y" for y
        using come that less.prems(3) A(2) by (force simp: to_come_def Cons)
      show ?thesis
      proof (cases res)
        case None
        have "B = A" if B: "B \<in> set F" for B
        proof (rule ccontr)
          assume "B \<noteq> A"
          then have "item B \<noteq> x" using A B forest by (auto simp: forest_def distinct_map dest: inj_onD)
          then have "item B \<in> set ys" "\<not> item_paired ents ot (item B)" using come B by (auto simp: to_come_def Cons)
          moreover have "pair_dist (item_sphere ents ot x) (item_sphere ents ot (item B)) < 1000000000000000"
            using near_dist [of P ents ot A B "length es"] forest A B forest_leaves_le [OF forest A(1) B] \<open>B \<noteq> A\<close> assms(7,8)
            by (simp add: forest_def sphere_item)
          ultimately show False using res(3) None by blast
        qed
        then have "set F = {A}" using A(1) by blast
        moreover have "distinct F" using forest by (simp add: forest_def distinct_map)
        ultimately have "F = [A]" by (rule distinct_single)
        moreover have "\<forall>y\<in>set ys. item_paired ents ot y" using partner \<open>F = [A]\<close> by fastforce
        then have "pair_loop w el (length es) (oi_next ents w el it) ents ot k = Some (ents, ot, k)"
          by (rule pair_loop_ends [OF x(2) step(2) k(1)])
        ultimately show ?thesis using forest by (auto simp: run None)
      next
        case (Some it3)
        then have it3: "oi_wf ents w el k it3" "oi_more el k it3" "oi_item el it3 \<in> set ys" "\<not> item_paired ents ot (oi_item el it3)"
          using res(2) by auto
        obtain B where B: "B \<in> set F" "B \<noteq> A" "item B = oi_item el it3" using partner [OF it3(3,4)] by blast
        define G where "G = remove1 B (remove1 A F)"
        have "B \<in> set (remove1 A F)" using A(1) B(1,2) by (simp add: in_set_remove1)
        then have "B \<in># mset F - {#A#}" by (metis mset_remove1 set_mset_mset)
        then have "mset F = mset (A # B # G)" using A(1) by (simp add: G_def) (metis insert_DiffM set_mset_mset diff_union_single_conv insert_noteq_member add_mset_add_single diff_diff_add)
        note perm = this
        have ABG: "forest P es ents ot k (A # B # G)" "set F = set (A # B # G)" "length F = Suc (Suc (length G))"
          using iffD1 [OF forest_perm [OF perm] forest] mset_eq_setD [OF perm] mset_eq_length [OF perm] by simp_all
        have kn: "k < length es" "k < length ot" using k ABG(3) less.prems(6) by linarith+
        have below: "\<forall>j\<in>set (nodes A @ nodes B). j < k" using ABG(1) by (auto simp: forest_def)
        obtain ents' ot' where made: "make_pair w el (length es) it it3 k (ents, ot) = Some (ents', ot')" "same_ents ents ents'"
            "length ot' = length ot" "\<forall>j. j \<noteq> k \<longrightarrow> same_links (ot ! j) (ot' ! j) \<and> same_sphere (ot ! j) (ot' ! j)"
            "tree_in ot' (ONode k A B)" "bounded ents' ot' (ONode k A B)"
            "sphere ents' ot' (ONode k A B) = ot_merge (sphere ents ot A) (sphere ents ot B)"
            "\<forall>x. x \<noteq> Nod k \<longrightarrow> item_paired ents' ot' x = (x = item A \<or> x = item B \<or> item_paired ents ot x)"
            "\<not> item_paired ents' ot' (Nod k)"
          using make_pair_ok [of A el it B it3 ents w k "length es" ot] A(2) B(3) x(1) wf more it3(1,2) kn below ABG(1)
          by (auto simp: forest_def simp del: tree_in.simps bounded.simps)
        have forest': "forest P es ents' ot' (Suc k) (ONode k A B # G)"
          using forest_join [OF ABG(1) assms(7) made(2-7)] .
        have wf': "oi_wf ents' w el (Suc k) (oi_next ents' w el it)"
          using step(2) by (simp add: same_ents_items [OF made(2)] oi_wf_grow)
        have items': "items_from ents' w el (Suc k) (oi_next ents' w el it) = ys @ [Nod k]"
          using step(2) x(2) by (simp add: same_ents_items [OF made(2)] items_from_grow)
        have fresh: "Nod k \<notin> set ys" using x(2) Nod_not_to_come by blast
        have "item B \<noteq> item A" "item A \<notin> item ` set G" "item B \<notin> item ` set G" using ABG(1) by (auto simp: forest_def)
        then have "to_come ents' ot' (ONode k A B # G) (ys @ [Nod k])"
          using come less.prems(3) fresh ABG(2) made(8,9) by (intro to_come_join [of ents ot F A ys k B G]) (simp_all add: Cons A(2))
        moreover have "distinct (ys @ [Nod k])" using less.prems(3) fresh by (simp add: Cons)
        moreover have "length (ys @ [Nod k]) + length (ONode k A B # G) < length xs + length F" using ABG(3) by (simp add: Cons)
        ultimately obtain ents2 ot2 k2 T where "pair_loop w el (length es) (oi_next ents' w el it) ents' ot' (Suc k) = Some (ents2, ot2, k2)"
            "same_ents ents' ents2" "length ot2 = length ot'" "forest P es ents2 ot2 k2 [T]"
          using less.hyps [OF _ items' wf' _ forest'] less.prems(6) made(3) by metis
        then show ?thesis using made(1-3) same_ents_trans [OF made(2)] by (auto simp: run Some)
      qed
    qed
  qed
qed

section \<open>The built tree\<close>

definition unflag :: "nat \<Rightarrow> ents \<Rightarrow> ents" where
  "unflag e ents = ents(e := (ents e)\<lparr>en_otflag := and (en_otflag (ents e)) (NOT 2)\<rparr>)"

lemma clear_flag: "and (and x (NOT 2)) 2 = 0" for x :: uint32
  by (rule bit_word_eqI) (auto simp: bit_simps)

lemma unflag_ok:
  "same_ents ents (unflag e ents)" "and (en_otflag (unflag e ents e)) 2 = 0"
  "and (en_otflag (ents d)) 2 = 0 \<Longrightarrow> and (en_otflag (unflag e ents d)) 2 = 0"
  using clear_flag [of "en_otflag (ents e)"] by (simp_all add: same_ents_def unflag_def)

lemma clear_flags_simps:
  "clear_flags S [] ents = ents"
  "clear_flags S (t # el) ents = clear_flags S el (case t of None \<Rightarrow> ents | Some e \<Rightarrow> if S e then unflag e ents else ents)"
  unfolding clear_flags_def unflag_def fold_simps by (simp_all only: id_apply)

lemma clear_flags_same: "same_ents ents (clear_flags S el ents)"
  by (induction el arbitrary: ents)
    (auto simp: clear_flags_simps split: option.split intro: same_ents_trans [OF unflag_ok(1)])

lemma clear_flags_stays: "and (en_otflag (ents e)) 2 = 0 \<Longrightarrow> and (en_otflag (clear_flags S el ents e)) 2 = 0"
  by (induction el arbitrary: ents) (auto simp: clear_flags_simps unflag_ok split: option.split)

lemma clear_flags_clears: "Some e \<in> set el \<Longrightarrow> S e \<Longrightarrow> and (en_otflag (clear_flags S el ents e)) 2 = 0"
  by (induction el arbitrary: ents) (auto simp: clear_flags_simps clear_flags_stays unflag_ok)

lemma grow_ot_length: "n \<le> length (grow_ot (n * n) ot)" for n :: nat
proof -
  have "n * n \<le> length (grow_ot (n * n) ot)" by (simp add: grow_ot_def)
  moreover have "n \<le> n * n" by (cases n) simp_all
  ultimately show ?thesis by (rule order_trans [rotated])
qed

text \<open>The entities of the field, none of them too far away.\<close>

definition compact :: "real \<Rightarrow> ents \<Rightarrow> nat \<Rightarrow> nat option list \<Rightarrow> nat list \<Rightarrow> bool" where
  "compact P ents w el es \<longleftrightarrow>
     filter (in_field ents w) el = List.map Some es \<and> distinct es \<and> real (length es) * P \<le> 10000000
     \<and> (\<forall>e\<in>set es. Vec3_len (en_pos (ents e)) \<le> P \<and> 0 \<le> en_rad (ents e) \<and> en_rad (ents e) \<le> P)"

lemma compact_pos: "compact P ents w el es \<Longrightarrow> es \<noteq> [] \<Longrightarrow> 0 \<le> P"
  by (cases es) (auto simp: compact_def intro: order_trans)

lemma start_forest:
  assumes "compact P ents w el es" "es \<noteq> []"
  shows "forest P es ents ot 0 (List.map OLeaf es)"
proof -
  have "distinct (List.map item (List.map OLeaf es))" using assms(1) by (simp add: compact_def distinct_map inj_on_def)
  moreover have "concat (List.map leaves (List.map OLeaf es)) = es" by (induction es) simp_all
  moreover have none: "concat (List.map nodes (List.map OLeaf es)) = []" by (induction es) simp_all
  moreover have "near P ents ot (OLeaf e)" if "e \<in> set es" for e using assms(1) that by (simp add: compact_def near_def)
  ultimately show ?thesis unfolding forest_def none by (simp del: map_map)
qed

lemma ot_rebuild_tree:
  assumes "compact P ents w (ws_el ws) es" "2 \<le> length es"
  shows "\<exists>k l r ents' ws'. ot_rebuild w (ents, ws) = Some (Some k, ents', ws') \<and> ws_otroot ws' = Some k \<and> ws_el ws' = ws_el ws
     \<and> same_ents ents ents' \<and> tree_in (ws_ot ws') (ONode k l r) \<and> bounded ents' (ws_ot ws') (ONode k l r)
     \<and> distinct (nodes (ONode k l r)) \<and> mset (leaves (ONode k l r)) = mset es"
proof -
  let ?el = "ws_el ws"
  define ents1 where "ents1 = clear_flags (\<lambda>e. en_w (ents e) = Some w) ?el ents"
  have same1: "same_ents ents ents1" unfolding ents1_def by (rule clear_flags_same)
  have fl: "filter (in_field ents1 w) ?el = List.map Some es" using assms(1) by (simp add: compact_def same_ents_field [OF same1])
  have compact: "compact P ents1 w ?el es" using assms(1) same1 fl by (simp add: compact_def same_ents_def)
  have ne: "es \<noteq> []" using assms(2) by auto
  define ot where "ot = grow_ot (length es * length es) (ws_ot ws)"
  define it where "it = oi_start ents1 w ?el"
  have items: "items_from ents1 w ?el 0 it = List.map Ent es" by (simp add: it_def oi_start_ok fl o_def)
  have wf: "oi_wf ents1 w ?el 0 it" unfolding it_def by (rule oi_start_ok)
  have inf_el: "Some e \<in> set ?el \<and> en_w (ents e) = Some w" if "e \<in> set es" for e
  proof -
    have "Some e \<in> set (filter (in_field ents w) ?el)" using assms(1) that by (simp add: compact_def)
    then show ?thesis by (simp add: in_field_def)
  qed
  have "to_come ents1 ot (List.map OLeaf es) (List.map Ent es)"
    using inf_el clear_flags_clears [where S = "\<lambda>e. en_w (ents e) = Some w"] by (force simp: to_come_def ents1_def)
  moreover have "distinct (List.map Ent es)" using compact by (simp add: compact_def distinct_map inj_on_def)
  moreover have "real (length es) * P \<le> 10000000" using compact by (simp add: compact_def)
  ultimately obtain ents2 ot2 k2 T where loop: "pair_loop w ?el (length es) it ents1 ot 0 = Some (ents2, ot2, k2)" "same_ents ents1 ents2"
      "length ot2 = length ot" "forest P es ents2 ot2 k2 [T]"
    using pair_loop_ok [OF items wf _ start_forest [OF compact ne] _ _ compact_pos [OF compact ne] _ ne, of ot]
      grow_ot_length [of "length es" "ws_ot ws", folded ot_def] by blast
  define ents3 where "ents3 = clear_flags (\<lambda>_. True) ?el ents2"
  have same3: "same_ents ents2 ents3" unfolding ents3_def by (rule clear_flags_same)
  have k2: "0 < k2" "item T = Nod (k2 - 1)" using loop(4) assms(2) by (auto simp: forest_def)
  then obtain l r where T: "T = ONode (k2 - 1) l r" by (cases T) auto
  have tree: "tree_in ot2 T" "bounded ents2 ot2 T" "mset (leaves T) = mset es" "distinct (nodes T)" using loop(4) by (simp_all add: forest_def)
  define ws' where "ws' = ws\<lparr>ws_ot := ot2, ws_oti := k2, ws_otroot := Some (k2 - 1)\<rparr>"
  have ws': "ws_otroot ws' = Some (k2 - 1)" "ws_el ws' = ws_el ws" "ws_ot ws' = ot2" by (simp_all add: ws'_def)
  have "bounded ents3 ot2 T" by (rule bounded_frame [OF tree(2)]) (simp_all add: same_ents_body [OF same3])
  note tree = tree(1) this tree(3,4)
  have "same_ents ents ents3" using same_ents_trans [OF same1 same_ents_trans [OF loop(2) same3]] .
  moreover have "ot_rebuild w (ents, ws) = Some (Some (k2 - 1), ents3, ws')"
    unfolding ot_rebuild_def Let_def prod.case bind.bind_lunit ents1_def [symmetric] fl length_map ot_def [symmetric] it_def [symmetric] loop(1)
      ents3_def [symmetric] ws'_def
    using assms(2) k2(1) by simp
  ultimately show ?thesis using tree [folded ws'(3), unfolded T] ws'(1,2) by blast
qed


text \<open>The two entities of the example, in a list with an entry that is gone.\<close>

definition pair_space :: warspace where
  "pair_space = \<lparr>ws_el = [Some 0, None, Some 1], ws_ot = [], ws_oti = 0, ws_otroot = None\<rparr>"

lemma pair_space_compact: "compact 4 pair_ents 0 (ws_el pair_space) [0, 1]" "ws_otroot pair_space = None"
  by (simp_all add: compact_def pair_space_def pair_ents_def in_field_def)


section \<open>Searching in the built tree\<close>

lemma find_cases: "(case find P xs of None \<Rightarrow> \<forall>x\<in>set xs. \<not> P x | Some x \<Rightarrow> x \<in> set xs \<and> P x)"
  by (auto split: option.split simp: find_None_iff find_Some_iff)

lemma otjHitSphere_ends:
  assumes "tree_in ot (ONode k l r)" "bounded ents ot (ONode k l r)" "\<forall>e\<in>set (leaves (ONode k l r)). 0 \<le> en_rad (ents e)" "0 < dt" "0 \<le> rad"
  shows "\<exists>pos' res. otjHitSphere ents ot (Some k) src dir dt rad pos = Some (res, pos')
     \<and> (case res of
          None \<Rightarrow> \<forall>e\<in>set (leaves (ONode k l r)). \<not> jHitSphere (en_pos (ents e)) (en_rad (ents e) + rad) src dir dt
        | Some e \<Rightarrow> e \<in> set (leaves (ONode k l r)) \<and> jHitSphere (en_pos (ents e)) (en_rad (ents e) + rad) src dir dt)"
  using rays.search_root [OF _ assms(1-3), of dt rad src dir pos] assms(4,5)
    find_cases [where P = "\<lambda>e. jHitSphere (en_pos (ents e)) (en_rad (ents e) + rad) src dir dt" and xs = "leaves (ONode k l r)"]
  by (auto simp: otjHitSphere_def visit_all_hits simp del: leaves.simps split: option.splits)



text \<open>Entities that are too far from each other find no partner: the root is then looked up in front of the array.\<close>

lemma ot_build_far_apart:
  "ot_build 0 1 1 (\<lambda>e. \<lparr>en_pos = Vec3 (100000000 * real e) 0 0, en_rad = 1, en_w = Some 0, en_otflag = 0\<rparr>,
     \<lparr>ws_el = [Some 0, Some 1], ws_ot = [], ws_oti = 0, ws_otroot = None\<rparr>) = None"
  by (simp add: ot_build_def ot_rebuild_def clear_flags_def in_field_def oi_start_def oi_skip.simps pair_loop.simps best_pair.simps
    oi_more_def oi_paired_def oi_sphere_def oi_next_def)

end
