(* ===== verification/Argtok.thy ===== *)
theory Argtok
  imports CString
begin

text \<open>
  Splitting a command line into arguments, the function \<open>argtok\<close> of \<open>src/cmd.cpp\<close>.  It works in the buffer of the line:
  the arguments are pointers into it, ends of arguments become NULs, and the text behind an escaped
  character moves down.  The reference is a function on lists, \<open>lexer\<close>.
\<close>

section \<open>The code\<close>

text \<open>\<open>isspace\<close> in the locale \<open>"C"\<close>.\<close>

definition c_isspace :: "byte \<Rightarrow> bool" where "c_isspace c \<longleftrightarrow> c = 32 \<or> 9 \<le> c \<and> c \<le> 13"

text \<open>A pointer in \<open>argv\<close>: null, into the buffer, or to the literal \<open>"\0"\<close>.\<close>

datatype argp = ANull | AAt nat | AEmpty

record tok =
  tk_blk :: "byte list"
  tk_argv :: "argp list"
  tk_ret :: nat
  tk_inquote :: bool
  tk_escape :: bool
  tk_head :: bool

text \<open>\<open>argv[ret++] = p; head = 1\<close>\<close>

definition push_arg :: "argp \<Rightarrow> tok \<Rightarrow> tok option" where
  "push_arg p st = do {
     argv \<leftarrow> awrite (tk_argv st) (tk_ret st) p;
     Some (st\<lparr>tk_argv := argv, tk_ret := tk_ret st + 1, tk_head := True\<rparr>) }"

text \<open>The text from \<open>s\<close> on moves one character down.\<close>

definition memmove_down :: "byte list \<Rightarrow> nat \<Rightarrow> byte list option" where
  "memmove_down blk s = do {
     len \<leftarrow> c_strlen (drop s blk);
     (if s = 0 then None
      else do {
        blk \<leftarrow> write_at blk (s - 1) (take len (drop s blk));
        awrite blk (s + len - 1) 0 }) }"

text \<open>The loop from the position \<open>s\<close> on: whether it returns from the function, the value of \<open>*post\<close>, and the state.\<close>

partial_function (option) argtok_loop :: "nat \<Rightarrow> nat \<Rightarrow> tok \<Rightarrow> (bool \<times> nat option \<times> tok) option" where
  "argtok_loop maxargs s st =
     Option.bind (aread (tk_blk st) s) (\<lambda>c.
       if c = 0 then Some (False, None, st)
       else if tk_escape st then
         Option.bind (memmove_down (tk_blk st) s) (\<lambda>blk. argtok_loop maxargs s (st\<lparr>tk_escape := False, tk_blk := blk\<rparr>))
       else if c = 92 then
         (if tk_head st then argtok_loop maxargs (s + 1) (st\<lparr>tk_escape := True\<rparr>)
          else if maxargs \<le> tk_ret st + 1 then
            Option.bind (awrite (tk_argv st) (tk_ret st) AEmpty) (\<lambda>argv. Some (True, None, st\<lparr>tk_escape := True, tk_argv := argv\<rparr>))
          else Option.bind (push_arg (AAt s) st) (\<lambda>st. argtok_loop maxargs (s + 1) (st\<lparr>tk_escape := True\<rparr>)))
       else if c = 34 then
         (if \<not> tk_inquote st then
            (if maxargs \<le> tk_ret st then Some (True, None, st\<lparr>tk_inquote := True\<rparr>)
             else Option.bind (push_arg (AAt (s + 1)) st) (\<lambda>st. argtok_loop maxargs (s + 1) (st\<lparr>tk_inquote := True\<rparr>)))
          else Option.bind (awrite (tk_blk st) s 0) (\<lambda>blk.
            argtok_loop maxargs (s + 1) (st\<lparr>tk_blk := blk, tk_head := False, tk_inquote := False\<rparr>)))
       else if tk_inquote st then argtok_loop maxargs (s + 1) st
       else if c = 35 then Option.bind (awrite (tk_blk st) s 0) (\<lambda>blk. Some (False, None, st\<lparr>tk_blk := blk\<rparr>))
       else if c = 59 then Option.bind (awrite (tk_blk st) s 0) (\<lambda>blk. Some (False, Some (s + 1), st\<lparr>tk_blk := blk\<rparr>))
       else if c_isspace c then
         Option.bind (awrite (tk_blk st) s 0) (\<lambda>blk. argtok_loop maxargs (s + 1) (st\<lparr>tk_blk := blk, tk_head := False\<rparr>))
       else if \<not> tk_head st then
         (if maxargs \<le> tk_ret st then Some (True, None, st)
          else Option.bind (push_arg (AAt s) st) (\<lambda>st. argtok_loop maxargs (s + 1) st))
       else argtok_loop maxargs (s + 1) st)"

declare argtok_loop.simps [code]

text \<open>The result: \<open>ret\<close>, \<open>*post\<close>, the buffer, \<open>argv\<close>, and whether the message on quotes is printed.\<close>

definition argtok :: "argp list \<Rightarrow> byte list option \<Rightarrow> nat \<Rightarrow> (nat \<times> nat option \<times> byte list \<times> argp list \<times> bool) option" where
  "argtok argv s maxargs =
     (case s of
        None \<Rightarrow> Some (0, None, [], argv, False)
      | Some blk \<Rightarrow> do {
          r \<leftarrow> argtok_loop maxargs 0 \<lparr>tk_blk = blk, tk_argv = argv, tk_ret = 0, tk_inquote = False, tk_escape = False, tk_head = False\<rparr>;
          let (returned, post, st) = r;
          (if returned then Some (tk_ret st, None, tk_blk st, tk_argv st, False)
           else do {
             argv \<leftarrow> awrite (tk_argv st) (tk_ret st) ANull;
             Some (tk_ret st, post, tk_blk st, argv, tk_inquote st) }) })"

text \<open>The string that an argument points to.\<close>

fun arg_text :: "byte list \<Rightarrow> argp \<Rightarrow> byte list option" where
  "arg_text blk ANull = None"
| "arg_text blk (AAt p) = Some (takeWhile (\<lambda>c. c \<noteq> 0) (drop p blk))"
| "arg_text blk AEmpty = Some []"

section \<open>The reference\<close>

text \<open>
  Tokens with a flag, whether they are still open: each character goes to all that are.  A quote that starts
  in the middle of a word opens a second token without closing the first.
\<close>

definition add_char :: "byte \<Rightarrow> (bool \<times> byte list) list \<Rightarrow> (bool \<times> byte list) list" where
  "add_char c = map (\<lambda>(open', w). (open', if open' then w @ [c] else w))"

definition close_all :: "(bool \<times> byte list) list \<Rightarrow> (bool \<times> byte list) list" where
  "close_all = map (\<lambda>(open', w). (False, w))"

fun lexer :: "bool \<Rightarrow> bool \<Rightarrow> bool \<Rightarrow> (bool \<times> byte list) list \<Rightarrow> byte list \<Rightarrow> (bool \<times> byte list) list \<times> byte list option \<times> bool" where
  "lexer quoted escaped word ts [] = ((if escaped then add_char 92 ts else ts), None, quoted)"
| "lexer quoted escaped word ts (c # cs) =
     (if escaped then lexer quoted False word (add_char c ts) cs
      else if c = 92 then lexer quoted True True (if word then ts else ts @ [(True, [])]) cs
      else if c = 34 then
        (if quoted then lexer False False False (close_all ts) cs else lexer True False True (add_char 34 ts @ [(True, [])]) cs)
      else if quoted then lexer True False word (add_char c ts) cs
      else if c = 35 then (ts, None, False)
      else if c = 59 then (ts, Some cs, False)
      else if c_isspace c then lexer False False False (close_all ts) cs
      else lexer False False True (add_char c (if word then ts else ts @ [(True, [])])) cs)"

definition tokens :: "byte list \<Rightarrow> byte list list" where
  "tokens t = map snd (fst (lexer False False False [] t))"

definition remainder :: "byte list \<Rightarrow> byte list option" where
  "remainder t = fst (snd (lexer False False False [] t))"

definition unmatched :: "byte list \<Rightarrow> bool" where
  "unmatched t = snd (snd (lexer False False False [] t))"

lemma length_add_char [simp]: "length (add_char c ts) = length ts" "length (close_all ts) = length ts"
  by (simp_all add: add_char_def close_all_def)

lemma lex_grows: "length ts \<le> length (fst (lexer quoted escaped word ts cs))"
proof (induction cs arbitrary: quoted escaped word ts)
  case (Cons c cs)
  have "length ts \<le> length (fst (lexer q e w ts' cs))" if "length ts \<le> length ts'" for q e w ts'
    using Cons.IH [of ts' q e w] that by linarith
  then show ?case by simp
qed simp

end
