(* ===== verification/Cmdtab.thy ===== *)
theory Cmdtab
  imports Dstring_Correct
begin

text \<open>
  The tables of the console of \<open>src/cmd.cpp\<close>: commands and aliases in binary trees, variables in a hash table with
  buckets.  A name is a list of bytes without NUL.  Trees are not shared, so the pointers in their nodes are the trees.
\<close>

section \<open>Names\<close>

definition strcmp :: "byte list \<Rightarrow> byte list \<Rightarrow> int" where
  "strcmp a b = (case c_strcmp (a @ [0]) (b @ [0]) of None \<Rightarrow> 0 | Some r \<Rightarrow> r)"

section \<open>Trees\<close>

text \<open>Names that are behind that of the node are on the left.\<close>

datatype 'a ntree = NLeaf | NNode "byte list" 'a "'a ntree" "'a ntree"

fun tree_find :: "'a ntree \<Rightarrow> byte list \<Rightarrow> 'a option" where
  "tree_find NLeaf name = None"
| "tree_find (NNode n d l r) name =
     (if strcmp n name = 0 then Some d else if strcmp n name < 0 then tree_find l name else tree_find r name)"

text \<open>The loop over \<open>pp\<close> in \<open>CmdAdd\<close>: the new node, without children, takes the place of a node with the same name.\<close>

fun tree_put :: "byte list \<Rightarrow> 'a \<Rightarrow> 'a ntree \<Rightarrow> 'a ntree" where
  "tree_put name d NLeaf = NNode name d NLeaf NLeaf"
| "tree_put name d (NNode n e l r) =
     (if strcmp n name = 0 then NNode name d NLeaf NLeaf
      else if strcmp n name < 0 then NNode n e (tree_put name d l) r else NNode n e l (tree_put name d r))"

text \<open>The loop in \<open>CmdAliasAdd\<close>: the node is reallocated with its children.\<close>

fun tree_set :: "byte list \<Rightarrow> 'a \<Rightarrow> 'a ntree \<Rightarrow> 'a ntree" where
  "tree_set name d NLeaf = NNode name d NLeaf NLeaf"
| "tree_set name d (NNode n e l r) =
     (if strcmp n name = 0 then NNode name d l r
      else if strcmp n name < 0 then NNode n e (tree_set name d l) r else NNode n e l (tree_set name d r))"

section \<open>Variables\<close>

datatype cvartype = cvar_int | cvar_float | cvar_double | cvar_string

text \<open>\<open>cv_v\<close> is the address of the variable, and \<open>cv_vrc\<close> the number of the function that checks its range.\<close>

record cvar =
  cv_type :: cvartype
  cv_name :: "byte list"
  cv_v :: nat
  cv_vrc :: "nat option"

definition CVAR_BUCKETS :: nat where "CVAR_BUCKETS = 53"

text \<open>
  \<open>hashfunc\<close>, with \<open>char\<close> signed and \<open>unsigned long\<close> of 32 bits.  The shift to the right by 32, for the first character, is undefined in C;
  the processor takes the distance modulo 32.
\<close>

definition hash_char :: "nat \<Rightarrow> byte \<Rightarrow> uint32" where
  "hash_char i c =
     (let x = scast c :: uint32; k = (7 * i) mod 32 in or (push_bit k x) (signed_drop_bit ((32 - k) mod 32) x))"

fun hash_from :: "nat \<Rightarrow> uint32 \<Rightarrow> byte list \<Rightarrow> uint32" where
  "hash_from i ret [] = ret"
| "hash_from i ret (c # s) = hash_from (i + 1) (xor ret (hash_char i c)) s"

definition hashfunc :: "byte list \<Rightarrow> uint32" where "hashfunc s = hash_from 0 0 s"

definition bucket :: "byte list \<Rightarrow> nat" where "bucket name = unat (hashfunc name mod word_of_nat CVAR_BUCKETS)"

text \<open>\<open>cvarlist\<close>, \<open>cvarlinear\<close> and \<open>cvarlists\<close>.\<close>

record cvars =
  cs_list :: "cvar list list"
  cs_linear :: "cvar list"
  cs_count :: nat

definition cvars_empty :: cvars where
  "cvars_empty = \<lparr>cs_list = replicate CVAR_BUCKETS [], cs_linear = [], cs_count = 0\<rparr>"

definition CvarAddVRC :: "byte list \<Rightarrow> nat \<Rightarrow> cvartype \<Rightarrow> nat option \<Rightarrow> cvars \<Rightarrow> cvars option" where
  "CvarAddVRC cvarname v type vrc t = do {
     let cv = \<lparr>cv_type = type, cv_name = cvarname, cv_v = v, cv_vrc = vrc\<rparr>;
     chain \<leftarrow> aread (cs_list t) (bucket cvarname);
     xs \<leftarrow> awrite (cs_list t) (bucket cvarname) (cv # chain);
     Some (t\<lparr>cs_list := xs, cs_linear := cv # cs_linear t, cs_count := cs_count t + 1\<rparr>) }"

definition CvarAdd :: "byte list \<Rightarrow> nat \<Rightarrow> cvartype \<Rightarrow> cvars \<Rightarrow> cvars option" where
  "CvarAdd cvarname v type t = CvarAddVRC cvarname v type None t"

definition CvarFind :: "cvars \<Rightarrow> byte list \<Rightarrow> cvar option option" where
  "CvarFind t cvarname = map_option (find (\<lambda>cv. strcmp (cv_name cv) cvarname = 0)) (aread (cs_list t) (bucket cvarname))"

section \<open>The order of names\<close>

definition before :: "byte list \<Rightarrow> byte list \<Rightarrow> bool" where "before a b \<longleftrightarrow> (a, b) \<in> lexord {(x, y). x < y}"

lemma strcmp_order:
  assumes "0 \<notin> set a" "0 \<notin> set b"
  shows "strcmp a b = 0 \<longleftrightarrow> a = b" "strcmp a b < 0 \<longleftrightarrow> before a b"
  using c_strcmp_text [of a b "[]" "[]"] assms by (auto simp: strcmp_def before_def split: option.splits)

lemma before_trans: "before a b \<Longrightarrow> before b c \<Longrightarrow> before a c"
  unfolding before_def by (rule lexord_trans) (auto simp: trans_def)

lemma before_irrefl [simp]: "\<not> before a a"
  unfolding before_def by (rule lexord_irreflexive) simp

lemma before_linear: "before a b \<or> a = b \<or> before b a"
  unfolding before_def by (rule lexord_linear) (simp add: linorder_less_linear)

section \<open>Tables by name\<close>

text \<open>
  What the console relies on: after an addition the name has the value and all other names have what they had.  \<open>free\<close> is the condition
  under which a name may be added.
\<close>

fun all_free :: "('t \<Rightarrow> byte list \<Rightarrow> bool) \<Rightarrow> (byte list \<Rightarrow> 'v \<Rightarrow> 't \<Rightarrow> 't) \<Rightarrow> (byte list \<times> 'v) list \<Rightarrow> 't \<Rightarrow> bool" where
  "all_free free add [] t \<longleftrightarrow> True"
| "all_free free add ((n, v) # xs) t \<longleftrightarrow> 0 \<notin> set n \<and> free t n \<and> all_free free add xs (add n v t)"

definition add_all :: "(byte list \<Rightarrow> 'v \<Rightarrow> 't \<Rightarrow> 't) \<Rightarrow> (byte list \<times> 'v) list \<Rightarrow> 't \<Rightarrow> 't" where
  "add_all add xs t = fold (\<lambda>(n, v). add n v) xs t"

locale name_table =
  fixes good :: "'t \<Rightarrow> bool" and look :: "'t \<Rightarrow> byte list \<Rightarrow> 'v option" and add :: "byte list \<Rightarrow> 'v \<Rightarrow> 't \<Rightarrow> 't"
    and free :: "'t \<Rightarrow> byte list \<Rightarrow> bool"
  assumes add_good: "good t \<Longrightarrow> 0 \<notin> set n \<Longrightarrow> free t n \<Longrightarrow> good (add n v t)"
    and look_add: "good t \<Longrightarrow> 0 \<notin> set n \<Longrightarrow> 0 \<notin> set m \<Longrightarrow> free t n \<Longrightarrow> look (add n v t) m = (if m = n then Some v else look t m)"
begin

lemma look_all:
  "good t \<Longrightarrow> all_free free add xs t \<Longrightarrow> 0 \<notin> set m \<Longrightarrow>
     good (add_all add xs t) \<and> look (add_all add xs t) m = (case map_of (rev xs) m of None \<Rightarrow> look t m | Some v \<Rightarrow> Some v)"
proof (induction xs arbitrary: t)
  case (Cons x xs)
  obtain n v where x: "x = (n, v)" by (cases x)
  have "good (add n v t)" using Cons.prems x by (simp add: add_good)
  then show ?case using Cons.IH [of "add n v t"] Cons.prems x look_add [of t n m v]
    by (auto simp: add_all_def map_add_def split: option.split)
qed (simp add: add_all_def)

end

fun tree_names :: "'a ntree \<Rightarrow> byte list set" where
  "tree_names NLeaf = {}"
| "tree_names (NNode n d l r) = insert n (tree_names l \<union> tree_names r)"

fun tree_ok :: "'a ntree \<Rightarrow> bool" where
  "tree_ok NLeaf \<longleftrightarrow> True"
| "tree_ok (NNode n d l r) \<longleftrightarrow>
     0 \<notin> set n \<and> (\<forall>m\<in>tree_names l. before n m) \<and> (\<forall>m\<in>tree_names r. before m n) \<and> tree_ok l \<and> tree_ok r"

lemma tree_put_names: "tree_names (tree_put n d t) \<subseteq> insert n (tree_names t)" "tree_names (tree_set n d t) \<subseteq> insert n (tree_names t)"
  by (induction t) auto

lemma not_before: "\<not> before a b \<Longrightarrow> a \<noteq> b \<Longrightarrow> before b a" using before_linear by blast

lemma tree_put_ok:
  assumes "0 \<notin> set n" "tree_ok t"
  shows "tree_ok (tree_put n d t)"
  using assms(2)
proof (induction t)
  case (NNode m e l r)
  have "before n m" if "strcmp m n \<noteq> 0" "\<not> strcmp m n < 0" using that NNode.prems assms(1) not_before [of m n] by (simp add: strcmp_order)
  then show ?case using NNode assms(1) subsetD [OF tree_put_names(1) [of n d l]] subsetD [OF tree_put_names(1) [of n d r]]
    by (auto simp: strcmp_order)
qed (simp add: assms(1))

lemma tree_set_ok:
  assumes "0 \<notin> set n" "tree_ok t"
  shows "tree_ok (tree_set n d t)"
  using assms(2)
proof (induction t)
  case (NNode m e l r)
  have "before n m" if "strcmp m n \<noteq> 0" "\<not> strcmp m n < 0" using that NNode.prems assms(1) not_before [of m n] by (simp add: strcmp_order)
  then show ?case using NNode assms(1) subsetD [OF tree_put_names(2) [of n d l]] subsetD [OF tree_put_names(2) [of n d r]]
    by (auto simp: strcmp_order)
qed (simp add: assms(1))

lemma tree_find_set:
  "0 \<notin> set n \<Longrightarrow> 0 \<notin> set m \<Longrightarrow> tree_ok t \<Longrightarrow> tree_find (tree_set n d t) m = (if m = n then Some d else tree_find t m)"
  by (induction t) (auto simp: strcmp_order)

lemma tree_find_put:
  "0 \<notin> set n \<Longrightarrow> 0 \<notin> set m \<Longrightarrow> tree_ok t \<Longrightarrow> tree_find t n = None \<Longrightarrow> tree_find (tree_put n d t) m = (if m = n then Some d else tree_find t m)"
  by (induction t) (auto simp: strcmp_order split: if_splits)

interpretation commands: name_table tree_ok tree_find tree_put "\<lambda>t n. tree_find t n = None"
  by unfold_locales (simp_all add: tree_put_ok tree_set_ok tree_find_put)

interpretation aliases: name_table tree_ok tree_find tree_set "\<lambda>t n. True"
  by unfold_locales (simp_all add: tree_put_ok tree_set_ok tree_find_set)

text \<open>A command that is added again takes the commands below it out of the tree.\<close>

lemma tree_put_loses:
  "tree_find (tree_put [98] (2::nat) (tree_put [97] 1 (tree_put [98] 0 NLeaf))) [97] = None"
  by (simp add: strcmp_def)

section \<open>The hash table\<close>

lemma bucket_less: "bucket name < CVAR_BUCKETS"
  by (simp add: bucket_def CVAR_BUCKETS_def unat_mod)

definition cvars_ok :: "cvars \<Rightarrow> bool" where
  "cvars_ok t \<longleftrightarrow> length (cs_list t) = CVAR_BUCKETS \<and> (\<forall>chain\<in>set (cs_list t). \<forall>cv\<in>set chain. 0 \<notin> set (cv_name cv))"

definition cvar_look :: "cvars \<Rightarrow> byte list \<Rightarrow> (cvartype \<times> nat \<times> nat option) option" where
  "cvar_look t name = map_option (\<lambda>cv. (cv_type cv, cv_v cv, cv_vrc cv)) (Option.bind (CvarFind t name) id)"

definition cvar_put :: "byte list \<Rightarrow> cvartype \<times> nat \<times> nat option \<Rightarrow> cvars \<Rightarrow> cvars" where
  "cvar_put name v t = (case v of (type, a, vrc) \<Rightarrow> the (CvarAddVRC name a type vrc t))"

lemma CvarAddVRC_ok:
  assumes "cvars_ok t" "0 \<notin> set n"
  shows "\<exists>t'. CvarAddVRC n a ty vrc t = Some t' \<and> cvars_ok t' \<and> cs_count t' = Suc (cs_count t)
     \<and> (\<forall>m. 0 \<notin> set m \<longrightarrow> CvarFind t' m = (if m = n then Some (Some \<lparr>cv_type = ty, cv_name = n, cv_v = a, cv_vrc = vrc\<rparr>) else CvarFind t m))"
proof -
  have b: "bucket n < length (cs_list t)" using assms(1) bucket_less by (simp add: cvars_ok_def)
  let ?cv = "\<lparr>cv_type = ty, cv_name = n, cv_v = a, cv_vrc = vrc\<rparr>"
  let ?t = "t\<lparr>cs_list := (cs_list t)[bucket n := ?cv # cs_list t ! bucket n], cs_linear := ?cv # cs_linear t, cs_count := cs_count t + 1\<rparr>"
  have "CvarAddVRC n a ty vrc t = Some ?t" using b by (simp add: CvarAddVRC_def aread_def awrite_def Let_def)
  moreover have "\<forall>cv\<in>set (cs_list t ! bucket n). 0 \<notin> set (cv_name cv)" using assms(1) nth_mem [OF b] by (auto simp: cvars_ok_def)
  then have "cvars_ok ?t" using assms by (auto simp: cvars_ok_def dest!: subsetD [OF set_update_subset_insert])
  moreover have "CvarFind ?t m = (if m = n then Some (Some ?cv) else CvarFind t m)" if "0 \<notin> set m" for m
  proof (cases "bucket m = bucket n")
    case True
    then show ?thesis using b strcmp_order(1) [OF assms(2) that] by (simp add: CvarFind_def aread_def)
  next
    case False
    then have "m \<noteq> n" by blast
    then show ?thesis using False by (simp add: CvarFind_def aread_def)
  qed
  ultimately show ?thesis by (intro exI [of _ ?t]) auto
qed

lemma cvars_empty_ok [simp]: "cvars_ok cvars_empty" by (simp add: cvars_ok_def cvars_empty_def)

lemma CvarFind_ok: "cvars_ok t \<Longrightarrow> \<exists>r. CvarFind t n = Some r"
  using bucket_less [of n] by (simp add: CvarFind_def cvars_ok_def aread_def)

interpretation variables: name_table cvars_ok cvar_look cvar_put "\<lambda>t n. True"
proof
  fix t :: cvars and n m :: "byte list" and v :: "cvartype \<times> nat \<times> nat option"
  assume *: "cvars_ok t" "0 \<notin> set n"
  obtain ty a vrc where v: "v = (ty, a, vrc)" by (cases v)
  show "cvars_ok (cvar_put n v t)" using CvarAddVRC_ok [OF *, of a ty vrc] by (auto simp: cvar_put_def v)
  assume "0 \<notin> set m"
  then show "cvar_look (cvar_put n v t) m = (if m = n then Some v else cvar_look t m)"
    using CvarAddVRC_ok [OF *, of a ty vrc] by (auto simp: cvar_put_def cvar_look_def v)
qed

end
