(* ===== verification/Cmd.thy ===== *)
theory Cmd
  imports Argtok Cmdtab Complex_Main
begin

text \<open>
  The console of \<open>src/cmd.cpp\<close>: lines of commands, aliases and variables.  What is not in the file is in \<open>cmdenv\<close>: the functions of commands
  that other parts register, the script interpreter, range checks, files, the clock, and how floating numbers are printed and read.  The
  log, the standard output and the code for Windows only are left out.  Strings (\<open>dstring\<close>) are lists of bytes without NUL.
\<close>

section \<open>State\<close>

definition ascii :: "string \<Rightarrow> byte list" where "ascii s = map of_char s"

datatype builtin = Echo | Cmdlist | Cvarlist | Toggle | Inc | Dec | Mul | Set | Exec | Time | Alias | Memory

text \<open>\<open>struct command\<close>: the function, one of this file or the number of another, and the members \<open>type\<close> and \<open>param\<close>.\<close>

datatype cmdproc = Builtin builtin | Foreign nat

record command =
  cm_proc :: cmdproc
  cm_type :: nat
  cm_param :: "nat option"

text \<open>The memory of a variable, and the constants of \<open>cmd_int.h\<close>.\<close>

datatype cval = VInt uint32 | VFloat real | VDouble real | VString "byte list"

definition CB_LINES :: nat where "CB_LINES = 256"
definition MAX_ALIAS_NESTS :: nat where "MAX_ALIAS_NESTS = 32"
definition MAX_COMMAND_HISTORY :: nat where "MAX_COMMAND_HISTORY = 32"
definition MAX_ARGC :: nat where "MAX_ARGC = 64"

text \<open>\<open>co_heap\<close> holds the variables by address, from \<open>co_next\<close> on there are none.  \<open>co_height\<close> is \<open>gvp.h\<close>.\<close>

record console =
  co_cmds :: "command ntree"
  co_cmdlists :: nat
  co_aliases :: "byte list ntree"
  co_cvars :: cvars
  co_heap :: "nat \<Rightarrow> cval option"
  co_next :: nat
  co_buffer :: "byte list list"
  co_curline :: nat
  co_displine :: int
  co_hist :: "byte list list"
  co_curhist :: nat
  co_selhist :: nat
  co_cmdline :: "byte list"
  co_aliasnest :: nat
  co_height :: int

record cmdenv =
  ev_call :: "nat \<Rightarrow> byte list option list \<Rightarrow> nat option \<Rightarrow> console \<Rightarrow> int \<times> console"
  ev_script :: "byte list option list \<Rightarrow> console \<Rightarrow> int option \<times> console"
  ev_calc :: "byte list \<Rightarrow> console \<Rightarrow> real \<times> console"
  ev_vrc :: "nat \<Rightarrow> nat \<Rightarrow> console \<Rightarrow> console"
  ev_file :: "byte list \<Rightarrow> byte list option"
  ev_lap :: real
  ev_atof :: "byte list \<Rightarrow> real"
  ev_show :: "real \<Rightarrow> byte list"
  ev_printf :: "real \<Rightarrow> byte list"
  ev_circut :: nat
  ev_build :: "byte list"
  ev_junk :: "nat \<Rightarrow> byte"

text \<open>The static variables that are console variables too are at the first addresses.\<close>

definition a_cvar_echo :: nat where "a_cvar_echo = 0"
definition a_cmd_echo :: nat where "a_cmd_echo = 1"
definition a_mousewheelskip :: nat where "a_mousewheelskip = 2"
definition a_pageskip :: nat where "a_pageskip = 3"
definition a_undefinedecho :: nat where "a_undefinedecho = 4"
definition a_cmdlog :: nat where "a_cmdlog = 5"

definition co_int :: "console \<Rightarrow> nat \<Rightarrow> uint32 option" where
  "co_int s a = (case co_heap s a of Some (VInt i) \<Rightarrow> Some i | _ \<Rightarrow> None)"

definition co_put :: "nat \<Rightarrow> cval \<Rightarrow> console \<Rightarrow> console" where
  "co_put a v s = s\<lparr>co_heap := (co_heap s)(a \<mapsto> v)\<rparr>"

section \<open>Printing\<close>

definition next_line :: "console \<Rightarrow> console" where
  "next_line s = s\<lparr>co_curline := (co_curline s + 1) mod CB_LINES\<rparr>"

definition CmdPrint :: "byte list \<Rightarrow> console \<Rightarrow> console option" where
  "CmdPrint str s = do {
     xs \<leftarrow> awrite (co_buffer s) (co_curline s) str;
     Some (next_line (s\<lparr>co_buffer := xs\<rparr>)) }"

text \<open>A string of the library in a new block of the given size.\<close>

definition new_text :: "cmdenv \<Rightarrow> byte list \<Rightarrow> nat \<Rightarrow> byte list option" where
  "new_text env t n = c_strcpy (c_malloc (ev_junk env) n) (t @ [0])"

text \<open>\<open>atoi\<close>\<close>

definition is_digit :: "byte \<Rightarrow> bool" where "is_digit c \<longleftrightarrow> 48 \<le> c \<and> c \<le> 57"

definition c_digits :: "byte list \<Rightarrow> int" where
  "c_digits t = foldl (\<lambda>v c. 10 * v + (uint c - 48)) 0 (takeWhile is_digit t)"

definition c_atoi :: "byte list \<Rightarrow> int" where
  "c_atoi t =
     (let t = dropWhile c_isspace t
      in case t of [] \<Rightarrow> 0 | c # u \<Rightarrow> if c = 45 then - c_digits u else if c = 43 then c_digits u else c_digits t)"

section \<open>Tables\<close>

definition CmdAdd :: "byte list \<Rightarrow> cmdproc \<Rightarrow> console \<Rightarrow> console" where
  "CmdAdd cmdname proc s =
     s\<lparr>co_cmdlists := co_cmdlists s + 1, co_cmds := tree_put cmdname \<lparr>cm_proc = proc, cm_type = 0, cm_param = None\<rparr> (co_cmds s)\<rparr>"

definition CmdAddParam :: "byte list \<Rightarrow> cmdproc \<Rightarrow> nat option \<Rightarrow> console \<Rightarrow> console" where
  "CmdAddParam cmdname proc param s =
     s\<lparr>co_cmdlists := co_cmdlists s + 1, co_cmds := tree_put cmdname \<lparr>cm_proc = proc, cm_type = 1, cm_param = param\<rparr> (co_cmds s)\<rparr>"

definition ServerCmdAdd :: "byte list \<Rightarrow> cmdproc \<Rightarrow> console \<Rightarrow> console" where
  "ServerCmdAdd cmdname proc s =
     s\<lparr>co_cmdlists := co_cmdlists s + 1, co_cmds := tree_put cmdname \<lparr>cm_proc = proc, cm_type = 2, cm_param = None\<rparr> (co_cmds s)\<rparr>"

definition CmdFind :: "console \<Rightarrow> byte list \<Rightarrow> command option" where "CmdFind s name = tree_find (co_cmds s) name"

definition CmdAliasAdd :: "byte list \<Rightarrow> byte list \<Rightarrow> console \<Rightarrow> console" where
  "CmdAliasAdd name str s = s\<lparr>co_aliases := tree_set name str (co_aliases s)\<rparr>"

definition CmdAliasFind :: "console \<Rightarrow> byte list \<Rightarrow> byte list option" where "CmdAliasFind s name = tree_find (co_aliases s) name"

definition co_cvar_add :: "byte list \<Rightarrow> nat \<Rightarrow> cvartype \<Rightarrow> console \<Rightarrow> console option" where
  "co_cvar_add name v type s = map_option (\<lambda>t. s\<lparr>co_cvars := t\<rparr>) (CvarAdd name v type (co_cvars s))"

text \<open>The value of a variable as \<open>dstring\<close> and as \<open>sprintf\<close> print it.  A value of another type than the variable's cannot be read.\<close>

fun cval_show :: "(real \<Rightarrow> byte list) \<Rightarrow> cvartype \<Rightarrow> cval \<Rightarrow> byte list option" where
  "cval_show pr cvar_int (VInt i) = Some (c_decimal (sint i))"
| "cval_show pr cvar_float (VFloat x) = Some (pr x)"
| "cval_show pr cvar_double (VDouble x) = Some (pr x)"
| "cval_show pr cvar_string (VString t) = Some t"
| "cval_show pr _ _ = None"

definition cvar_text :: "(real \<Rightarrow> byte list) \<Rightarrow> console \<Rightarrow> cvar \<Rightarrow> byte list option" where
  "cvar_text pr s cv = do { v \<leftarrow> co_heap s (cv_v cv); cval_show pr (cv_type cv) v }"

text \<open>\<open>CvarGetString\<close>: the buffer for numbers has 64 bytes.\<close>

definition CvarGetString :: "cmdenv \<Rightarrow> console \<Rightarrow> byte list \<Rightarrow> byte list option option" where
  "CvarGetString env s cvarname = do {
     r \<leftarrow> CvarFind (co_cvars s) cvarname;
     (case r of
        None \<Rightarrow> Some None
      | Some cv \<Rightarrow> do {
          t \<leftarrow> cvar_text (ev_printf env) s cv;
          (if cv_type cv \<noteq> cvar_string \<and> 64 \<le> length t then None else Some (Some t)) }) }"

text \<open>The assignment of a text, as \<open>cmd_set\<close> and the name of a variable as a command do it.\<close>

definition cvar_assign :: "cmdenv \<Rightarrow> cvar \<Rightarrow> byte list \<Rightarrow> console \<Rightarrow> console" where
  "cvar_assign env cv t s =
     (case cv_type cv of
        cvar_int \<Rightarrow> co_put (cv_v cv) (VInt (word_of_int (c_atoi t))) s
      | cvar_float \<Rightarrow> (let (x, s) = ev_calc env t s in co_put (cv_v cv) (VFloat x) s)
      | cvar_double \<Rightarrow> (let (x, s) = ev_calc env t s in co_put (cv_v cv) (VDouble x) s)
      | cvar_string \<Rightarrow> co_put (cv_v cv) (VString t) s)"

definition cvar_check :: "cmdenv \<Rightarrow> cvar \<Rightarrow> console \<Rightarrow> console" where
  "cvar_check env cv s = (case cv_vrc cv of None \<Rightarrow> s | Some f \<Rightarrow> ev_vrc env f (cv_v cv) s)"

section \<open>Commands\<close>

text \<open>The arguments are \<open>argv[0]\<close> to \<open>argv[argc]\<close>; the null pointer is \<open>None\<close>.\<close>

definition echo_line :: "byte list option list \<Rightarrow> byte list" where
  "echo_line args = concat (map (\<lambda>a. the a @ [32]) (takeWhile (\<lambda>a. a \<noteq> None) args))"

definition cmd_echo :: "nat \<Rightarrow> byte list option list \<Rightarrow> console \<Rightarrow> console option" where
  "cmd_echo argc argv s =
     (if argc \<le> 1 then Some s
      else CmdPrint (echo_line (take (argc - 1) (tl argv))) s)"

definition has_prefix :: "byte list option \<Rightarrow> byte list \<Rightarrow> bool" where
  "has_prefix pattern name \<longleftrightarrow> (case pattern of None \<Rightarrow> True | Some p \<Rightarrow> take (length p) name = p)"

fun cmd_cmdlist_int :: "command ntree \<Rightarrow> byte list option \<Rightarrow> console \<Rightarrow> (nat \<times> console) option" where
  "cmd_cmdlist_int NLeaf pattern s = Some (0, s)"
| "cmd_cmdlist_int (NNode name c left right) pattern s = do {
     (n, s) \<leftarrow> cmd_cmdlist_int right pattern s;
     (m, s) \<leftarrow> (if has_prefix pattern name then map_option (\<lambda>s. (1, s)) (CmdPrint name s) else Some (0, s));
     (k, s) \<leftarrow> cmd_cmdlist_int left pattern s;
     Some (n + m + k, s) }"

definition cmd_cmdlist :: "nat \<Rightarrow> byte list option list \<Rightarrow> console \<Rightarrow> console option" where
  "cmd_cmdlist argc argv s = do {
     pattern \<leftarrow> (if 2 \<le> argc then aread argv 1 else Some None);
     (c, s) \<leftarrow> (if co_cmds s = NLeaf then None else cmd_cmdlist_int (co_cmds s) pattern s);
     CmdPrint (c_decimal (int c) @ ascii '' commands listed'') s }"

fun typechar :: "cvartype \<Rightarrow> byte" where
  "typechar cvar_int = 105" | "typechar cvar_float = 102" | "typechar cvar_double = 100" | "typechar cvar_string = 115"

fun print_cvars :: "byte list option \<Rightarrow> cvar list \<Rightarrow> nat \<Rightarrow> console \<Rightarrow> (nat \<times> console) option" where
  "print_cvars pattern [] c s = Some (c, s)"
| "print_cvars pattern (cv # cvs) c s =
     (if has_prefix pattern (cv_name cv)
      then do { s \<leftarrow> CmdPrint (typechar (cv_type cv) # ascii '': '' @ cv_name cv) s; print_cvars pattern cvs (c + 1) s }
      else print_cvars pattern cvs c s)"

definition cmd_cvarlist :: "nat \<Rightarrow> byte list option list \<Rightarrow> console \<Rightarrow> console option" where
  "cmd_cvarlist argc argv s = do {
     pattern \<leftarrow> (if argc < 2 then Some None else aread argv 1);
     (c, s) \<leftarrow> print_cvars pattern (cs_linear (co_cvars s)) 0 s;
     CmdPrint (c_decimal (int c) @ ascii '' cvars listed'') s }"

text \<open>\<open>toggle\<close>, \<open>inc\<close> and \<open>dec\<close> differ in the message and in what they do.\<close>

definition cmd_change :: "cmdenv \<Rightarrow> byte list \<Rightarrow> (uint32 \<Rightarrow> uint32) \<Rightarrow> byte list option list \<Rightarrow> console \<Rightarrow> console option" where
  "cmd_change env usage f argv s = do {
     arg \<leftarrow> aread argv 1;
     (case arg of
        None \<Rightarrow> CmdPrint usage s
      | Some name \<Rightarrow> do {
          r \<leftarrow> CvarFind (co_cvars s) name;
          (case r of
             None \<Rightarrow> CmdPrint (ascii ''Specified variable is either not a integer nor existing.'') s
           | Some cv \<Rightarrow>
               if cv_type cv = cvar_int
               then do { i \<leftarrow> co_int s (cv_v cv); Some (cvar_check env cv (co_put (cv_v cv) (VInt (f i)) s)) }
               else CmdPrint (ascii ''Specified variable is either not a integer nor existing.'') s) }) }"

definition cmd_toggle :: "cmdenv \<Rightarrow> byte list option list \<Rightarrow> console \<Rightarrow> console option" where
  "cmd_toggle env = cmd_change env (ascii ''Specify a integer cvar to toggle it, assuming flag-like usage.'') (\<lambda>i. if i = 0 then 1 else 0)"

definition cmd_inc :: "cmdenv \<Rightarrow> byte list option list \<Rightarrow> console \<Rightarrow> console option" where
  "cmd_inc env = cmd_change env (ascii ''Specify a integer cvar to increment by 1.'') (\<lambda>i. i + 1)"

definition cmd_dec :: "cmdenv \<Rightarrow> byte list option list \<Rightarrow> console \<Rightarrow> console option" where
  "cmd_dec env = cmd_change env (ascii ''Specify a integer cvar to decrement by 1.'') (\<lambda>i. i - 1)"

text \<open>The conversion to \<open>int\<close>; out of range it is undefined.\<close>

definition trunc_int :: "real \<Rightarrow> int option" where
  "trunc_int x =
     (let i = (if 0 \<le> x then \<lfloor>x\<rfloor> else \<lceil>x\<rceil>) in if - (2 ^ 31) \<le> i \<and> i < 2 ^ 31 then Some i else None)"

definition cval_real :: "cvartype \<Rightarrow> cval \<Rightarrow> real option" where
  "cval_real type v =
     (case (type, v) of
        (cvar_int, VInt i) \<Rightarrow> Some (of_int (sint i))
      | (cvar_float, VFloat x) \<Rightarrow> Some x
      | (cvar_double, VDouble x) \<Rightarrow> Some x
      | _ \<Rightarrow> None)"

definition cval_mul :: "cvartype \<Rightarrow> cval \<Rightarrow> real \<Rightarrow> cval option" where
  "cval_mul type v x =
     (case (type, v) of
        (cvar_int, VInt i) \<Rightarrow> map_option (\<lambda>k. VInt (i * word_of_int k)) (trunc_int x)
      | (cvar_float, VFloat y) \<Rightarrow> Some (VFloat (y * x))
      | (cvar_double, VDouble y) \<Rightarrow> Some (VDouble (y * x))
      | (cvar_string, VString t) \<Rightarrow> Some (VString t)
      | _ \<Rightarrow> None)"

text \<open>A second variable that is a string leaves \<open>val\<close> without a value.\<close>

definition cmd_mul :: "cmdenv \<Rightarrow> nat \<Rightarrow> byte list option list \<Rightarrow> console \<Rightarrow> console option" where
  "cmd_mul env argc argv s =
     (if argc \<le> 2 then CmdPrint (ascii ''Specify an arithmetic cvar and a constant or 2 cvars to multiply.'') s
      else do {
        a1 \<leftarrow> aread argv 1; name \<leftarrow> a1; a2 \<leftarrow> aread argv 2; factor \<leftarrow> a2;
        r \<leftarrow> CvarFind (co_cvars s) name;
        (case r of
           None \<Rightarrow> CmdPrint (ascii ''Specified variable is either not a integer nor existing.'') s
         | Some cv \<Rightarrow> do {
             r2 \<leftarrow> CvarFind (co_cvars s) factor;
             x \<leftarrow> (case r2 of None \<Rightarrow> Some (ev_atof env factor) | Some cv2 \<Rightarrow> do { v2 \<leftarrow> co_heap s (cv_v cv2); cval_real (cv_type cv2) v2 });
             v \<leftarrow> co_heap s (cv_v cv);
             v \<leftarrow> cval_mul (cv_type cv) v x;
             Some (cvar_check env cv (co_put (cv_v cv) v s)) }) })"

text \<open>\<open>cmd_set\<close>; \<open>stringdup\<close> is a new variable.\<close>

definition cmd_set :: "cmdenv \<Rightarrow> nat \<Rightarrow> byte list option list \<Rightarrow> console \<Rightarrow> console option" where
  "cmd_set env argc argv s =
     (if argc \<le> 1 then CmdPrint (ascii ''Specify a cvar to set it.'') s
      else if argc \<le> 2 then CmdPrint (ascii ''Specify a value to set.'') s
      else do {
        a1 \<leftarrow> aread argv 1; thekey \<leftarrow> a1; a2 \<leftarrow> aread argv 2; thevalue \<leftarrow> a2;
        r \<leftarrow> CvarFind (co_cvars s) thekey;
        (case r of
           Some cv \<Rightarrow> Some (cvar_assign env cv thevalue s)
         | None \<Rightarrow> co_cvar_add thekey (co_next s) cvar_string (co_put (co_next s) (VString thevalue) (s\<lparr>co_next := co_next s + 1\<rparr>))) })"

text \<open>The arguments from \<open>i\<close> on with spaces between them, for \<open>time\<close> and \<open>alias\<close>.\<close>

fun join_args :: "byte list list \<Rightarrow> byte list" where
  "join_args [] = []"
| "join_args [a] = a"
| "join_args (a # as) = a @ 32 # join_args as"

definition args_from :: "nat \<Rightarrow> nat \<Rightarrow> byte list option list \<Rightarrow> byte list option" where
  "args_from i argc argv =
     (if length argv < argc \<or> None \<in> set (take argc argv) then None else Some (join_args (map the (drop i (take argc argv)))))"

fun listalias :: "byte list ntree \<Rightarrow> console \<Rightarrow> (nat \<times> console) option" where
  "listalias NLeaf s = Some (0, s)"
| "listalias (NNode name str left right) s = do {
     (n, s) \<leftarrow> listalias right s;
     s \<leftarrow> CmdPrint (name @ ascii '': '' @ str) s;
     (k, s) \<leftarrow> listalias left s;
     Some (n + k + 1, s) }"

definition cmd_alias :: "nat \<Rightarrow> byte list option list \<Rightarrow> console \<Rightarrow> (int \<times> console) option" where
  "cmd_alias argc argv s =
     (if argc \<le> 1 then do {
        (n, s) \<leftarrow> listalias (co_aliases s) s;
        s \<leftarrow> CmdPrint (c_decimal (int n) @ ascii '' aliases listed'') s;
        Some (0, s) }
      else do {
        a \<leftarrow> aread argv 1;
        thekey \<leftarrow> a;
        (if argc = 2 then
           (case CmdAliasFind s thekey of
              Some str \<Rightarrow> map_option (\<lambda>s. (0, s)) (CmdPrint (thekey @ ascii '': '' @ str) s)
            | None \<Rightarrow> map_option (\<lambda>s. (-1, s)) (CmdPrint (ascii ''no aliase named '' @ thekey @ ascii '' is found.'') s))
         else do {
           thevalue \<leftarrow> args_from 2 argc argv;
           Some (1, CmdAliasAdd thekey thevalue s) }) })"

text \<open>\<open>cmd_memory_alias\<close>, with the sizes of the structures as arguments.\<close>

fun cmd_memory_alias :: "nat \<Rightarrow> byte list ntree \<Rightarrow> nat" where
  "cmd_memory_alias sz NLeaf = 0"
| "cmd_memory_alias sz (NNode name str left right) =
     sz + length name + length str + cmd_memory_alias sz left + cmd_memory_alias sz right"

section \<open>Variables in lines\<close>

definition is_word :: "byte \<Rightarrow> bool" where
  "is_word c \<longleftrightarrow> is_digit c \<or> 65 \<le> c \<and> c \<le> 90 \<or> 97 \<le> c \<and> c \<le> 122 \<or> c = 95"

text \<open>The name behind the dollar sign is replaced in the buffer.\<close>

definition preprocess_name :: "cmdenv \<Rightarrow> console \<Rightarrow> nat \<Rightarrow> nat \<Rightarrow> byte list \<Rightarrow> (nat \<times> nat option \<times> byte list) option" where
  "preprocess_name env s d out buf = do {
     buf \<leftarrow> awrite buf out 0;
     r \<leftarrow> CvarFind (co_cvars s) (takeWhile (\<lambda>c. c \<noteq> 0) (drop (d + 1) buf));
     buf \<leftarrow> (case r of None \<Rightarrow> Some buf | Some cv \<Rightarrow> do { t \<leftarrow> cvar_text (ev_printf env) s cv; write_at buf d (t @ [0]) });
     n \<leftarrow> c_strlen (drop d buf);
     Some (d + n, None, buf) }"

text \<open>
  \<open>cmd_preprocess\<close>, with \<open>out\<close> as an index of the buffer, and \<open>dollar\<close> too.  The input ends with its NUL.
\<close>

fun preprocess_loop :: "cmdenv \<Rightarrow> console \<Rightarrow> byte list \<Rightarrow> nat \<Rightarrow> nat option \<Rightarrow> byte list \<Rightarrow> byte list option" where
  "preprocess_loop env s [] out dollar buf = None"
| "preprocess_loop env s (c # rest) out dollar buf = do {
     let dollar = (if c = 36 then Some out else dollar);
     (out, dollar, buf) \<leftarrow>
       (case dollar of
          None \<Rightarrow> Some (out, dollar, buf)
        | Some d \<Rightarrow>
            if out \<noteq> d \<and> \<not> is_word c then preprocess_name env s d out buf
            else Some (out, dollar, buf));
     buf \<leftarrow> awrite buf out c;
     (if c = 0 then awrite buf (out + 1) 0 else preprocess_loop env s rest (out + 1) dollar buf) }"

definition cmd_preprocess :: "cmdenv \<Rightarrow> console \<Rightarrow> byte list \<Rightarrow> byte list \<Rightarrow> byte list option" where
  "cmd_preprocess env s buf t = preprocess_loop env s (t @ [0]) 0 None buf"

text \<open>\<open>cmd_memory\<close>, with the sizes of the structures on the 32 bit target.\<close>

definition kilobytes :: "nat \<Rightarrow> nat \<Rightarrow> byte list" where
  "kilobytes sz up = c_decimal (int sz) @ ascii '' bytes = '' @ c_decimal (int ((sz + up) div 1024)) @ ascii '' kilobytes used''"

definition cmd_memory :: "cmdenv \<Rightarrow> console \<Rightarrow> console option" where
  "cmd_memory env s = do {
     s \<leftarrow> CmdPrint (ascii ''cmdbuf: '' @ kilobytes (sum_list (map length (co_buffer s)) + 4 * CB_LINES + 4 * MAX_COMMAND_HISTORY) 1023) s;
     s \<leftarrow> CmdPrint (ascii ''alias: '' @ kilobytes (cmd_memory_alias 16 (co_aliases s)) 1024) s;
     s \<leftarrow> CmdPrint (ascii ''cvar: '' @ kilobytes (cs_count (co_cvars s) * 24) 0) s;
     CmdPrint (ascii ''circut: '' @ kilobytes (ev_circut env) 1023) s }"

section \<open>Executing lines\<close>

text \<open>What a command leaves to do: nothing, with the value of \<open>ret\<close>, or to run other lines.\<close>

datatype act = Result int | RunAlias "byte list" | RunTime "byte list" | RunFile "byte list"

definition run_builtin :: "cmdenv \<Rightarrow> builtin \<Rightarrow> nat \<Rightarrow> byte list option list \<Rightarrow> console \<Rightarrow> (act \<times> console) option" where
  "run_builtin env b argc argv s =
     (case b of
        Echo \<Rightarrow> map_option (Pair (Result 0)) (cmd_echo argc argv s)
      | Cmdlist \<Rightarrow> map_option (Pair (Result 0)) (cmd_cmdlist argc argv s)
      | Cvarlist \<Rightarrow> map_option (Pair (Result 0)) (cmd_cvarlist argc argv s)
      | Toggle \<Rightarrow> map_option (Pair (Result 0)) (cmd_toggle env argv s)
      | Inc \<Rightarrow> map_option (Pair (Result 0)) (cmd_inc env argv s)
      | Dec \<Rightarrow> map_option (Pair (Result 0)) (cmd_dec env argv s)
      | Mul \<Rightarrow> map_option (Pair (Result 0)) (cmd_mul env argc argv s)
      | Set \<Rightarrow> map_option (Pair (Result 0)) (cmd_set env argc argv s)
      | Alias \<Rightarrow> map_option (\<lambda>(r, s). (Result r, s)) (cmd_alias argc argv s)
      | Memory \<Rightarrow> map_option (Pair (Result 0)) (cmd_memory env s)
      | Exec \<Rightarrow>
          if argc \<le> 1
          then map_option (Pair (Result 0)) (CmdPrint (ascii ''Specify a file as argument to load the file to batch execute commands.'') s)
          else do {
            a \<leftarrow> aread argv 1; name \<leftarrow> a;
            (case ev_file env name of
               None \<Rightarrow> map_option (Pair (Result 0)) (CmdPrint (ascii ''Couldn'' @ 39 # ascii ''t load '' @ name @ ascii ''!'') s)
             | Some t \<Rightarrow> map_option (Pair (RunFile t)) (CmdPrint (ascii ''executing '' @ name) s)) }
      | Time \<Rightarrow>
          if argc \<le> 1 then map_option (Pair (Result 0)) (CmdPrint (ascii ''Measures time elapsed while executing commands.'') s)
          else map_option (\<lambda>t. (RunTime t, s)) (args_from 1 argc argv))"

definition run_command ::
    "cmdenv \<Rightarrow> int \<Rightarrow> command \<Rightarrow> nat \<Rightarrow> byte list option list \<Rightarrow> bool \<Rightarrow> nat option \<Rightarrow> console \<Rightarrow> (act \<times> console) option" where
  "run_command env ret pc argc argv server sc s =
     (if cm_type pc \<noteq> 2 then
        (case cm_proc pc of
           Builtin b \<Rightarrow> run_builtin env b argc argv s
         | Foreign f \<Rightarrow> let (r, s) = ev_call env f argv (if cm_type pc = 0 then None else cm_param pc) s in Some (Result r, s))
      else if server then
        (case cm_proc pc of Builtin b \<Rightarrow> None | Foreign f \<Rightarrow> let (r, s) = ev_call env f argv sc s in Some (Result r, s))
      else Some (Result ret, s))"

text \<open>The name of a variable as a command.\<close>

definition run_cvar :: "cmdenv \<Rightarrow> int \<Rightarrow> byte list \<Rightarrow> byte list option list \<Rightarrow> console \<Rightarrow> (act \<times> console) option" where
  "run_cvar env ret cmd argv s = do {
     r \<leftarrow> CvarFind (co_cvars s) cmd;
     (case r of
        None \<Rightarrow> do {
          u \<leftarrow> co_int s a_undefinedecho;
          s \<leftarrow> (if u \<noteq> 0 then CmdPrint (ascii ''Undefined command: '' @ cmd) s else Some s);
          Some (Result ret, s) }
      | Some cv \<Rightarrow> do {
          arg \<leftarrow> aread argv 1;
          (buf, s) \<leftarrow>
            (case arg of
               None \<Rightarrow> do { t \<leftarrow> cvar_text (ev_show env) s cv; Some (34 # cmd @ ascii ''\" is '' @ t, cvar_check env cv s) }
             | Some a \<Rightarrow> do {
                 let s = cvar_check env cv (cvar_assign env cv a s);
                 t \<leftarrow> cvar_text (ev_show env) s cv;
                 Some (34 # cmd @ ascii ''\" set to '' @ t, s) });
          e \<leftarrow> co_int s a_cvar_echo;
          s \<leftarrow> (if e \<noteq> 0 then CmdPrint buf s else Some s);
          Some (Result 1, s) }) }"

text \<open>The arguments of the first command of the line as texts, and the buffer from \<open>post\<close> on.\<close>

definition line_args :: "byte list \<Rightarrow> (nat \<times> byte list option list \<times> byte list option \<times> bool) option" where
  "line_args blk = do {
     (argc, post, blk, argv, complain) \<leftarrow> argtok (replicate MAX_ARGC ANull) (Some blk) MAX_ARGC;
     Some (argc, map (arg_text blk) (take (argc + 1) argv), map_option (\<lambda>p. drop p blk) post, complain) }"

text \<open>An \<open>@\<close> in front of the command.  When it is on its own, \<open>cmd\<close> remains, and the last argument is there twice.\<close>

definition at_sign :: "byte list \<Rightarrow> nat \<Rightarrow> byte list option list \<Rightarrow> byte list \<times> nat \<times> byte list option list" where
  "at_sign cmd argc argv =
     (if hd cmd \<noteq> 64 then (cmd, argc, argv)
      else if tl cmd \<noteq> [] then (tl cmd, argc, argv[0 := Some (tl cmd)])
      else (cmd, argc - 1, take (argc - 1) (tl argv) @ drop (argc - 1) argv))"

text \<open>One turn of the loop of \<open>CmdExecD\<close>, up to the execution of other lines.\<close>

definition CmdExecD_one ::
    "cmdenv \<Rightarrow> int \<Rightarrow> byte list \<Rightarrow> bool \<Rightarrow> nat option \<Rightarrow> console \<Rightarrow> (act \<times> byte list option \<times> console) option" where
  "CmdExecD_one env ret blk server sc s = do {
     (argc, argv, post, complain) \<leftarrow> line_args blk;
     s \<leftarrow> (if complain then CmdPrint (ascii ''Double quotes(\") doesn'' @ 39 # ascii ''t match.'') s else Some s);
     a0 \<leftarrow> aread argv 0;
     (case a0 of
        None \<Rightarrow> Some (Result ret, post, s)
      | Some cmd \<Rightarrow>
          if cmd = [] \<or> hd cmd = 35 then Some (Result ret, post, s)
          else
            let (cmd, argc, argv) = at_sign cmd argc argv
            in case CmdAliasFind s cmd of
                 Some str \<Rightarrow> do {
                   a1 \<leftarrow> aread argv 1;
                   Some (RunAlias (case a1 of None \<Rightarrow> str | Some t \<Rightarrow> str @ 32 # t), post, s) }
               | None \<Rightarrow> do {
                   (act, s) \<leftarrow>
                     (case CmdFind s cmd of
                        Some pc \<Rightarrow> run_command env ret pc argc argv server sc s
                      | None \<Rightarrow>
                          (case ev_script env argv s of
                             (Some r, s) \<Rightarrow> Some (Result r, s)
                           | (None, s) \<Rightarrow> run_cvar env ret cmd argv s));
                   Some (act, post, s) }) }"

definition prep_line :: "cmdenv \<Rightarrow> console \<Rightarrow> byte list \<Rightarrow> byte list option" where
  "prep_line env s t = do {
     b \<leftarrow> cmd_preprocess env s (c_malloc (ev_junk env) (length t + 2)) t;
     n \<leftarrow> c_strlen b;
     new_text env (take n b) (n + 2) }"

text \<open>
  The loop of \<open>CmdExecD\<close> over the commands of a line, and that of \<open>cmd_exec\<close> over the characters of a file with the line read so far.  A
  result \<open>Some None\<close> is undefined behaviour, \<open>None\<close> is that the execution does not end.
\<close>

datatype job = JLine int "byte list" bool "nat option" | JFile "byte list" "byte list"

partial_function (option) cmd_run :: "cmdenv \<Rightarrow> job \<Rightarrow> console \<Rightarrow> (int \<times> console) option option" where
  "cmd_run env job s =
     (case job of
        JLine ret blk server sc \<Rightarrow>
          (case CmdExecD_one env ret blk server sc s of
             None \<Rightarrow> Some None
           | Some (act, post, s) \<Rightarrow>
               Option.bind
                 (case act of
                    Result r \<Rightarrow> Some (Some (r, s))
                  | RunAlias t \<Rightarrow>
                      if co_aliasnest s < MAX_ALIAS_NESTS then
                        (case new_text env t (length t + 2) of
                           None \<Rightarrow> Some None
                         | Some b \<Rightarrow>
                             Option.bind (cmd_run env (JLine 0 b False None) (s\<lparr>co_aliasnest := co_aliasnest s + 1\<rparr>))
                               (\<lambda>r. Some (map_option (\<lambda>(r, s). (r, s\<lparr>co_aliasnest := co_aliasnest s - 1\<rparr>)) r)))
                      else Some (do {
                        s \<leftarrow> CmdPrint (ascii ''Aliase stack overflow!'') (s\<lparr>co_aliasnest := co_aliasnest s + 1\<rparr>);
                        s \<leftarrow> CmdPrint (ascii ''Infinite loop is likely the case.'') s;
                        Some (-1, s\<lparr>co_aliasnest := co_aliasnest s - 1\<rparr>) })
                  | RunTime t \<Rightarrow>
                      Option.bind (cmd_run env (JLine 0 (t @ [0]) False None) s)
                        (\<lambda>r. Some (do { (r, s) \<leftarrow> r; s \<leftarrow> CmdPrint (ev_show env (ev_lap env) @ ascii '' seconds'') s; Some (0, s) }))
                  | RunFile t \<Rightarrow> cmd_run env (JFile [] t) s)
                 (\<lambda>r. case r of
                        None \<Rightarrow> Some None
                      | Some (ret, s) \<Rightarrow>
                          (case post of None \<Rightarrow> Some (Some (ret, s)) | Some blk \<Rightarrow> cmd_run env (JLine ret blk server sc) s)))
      | JFile buf rest \<Rightarrow>
          (case rest of
             c # cs \<Rightarrow>
               if c = 92 \<and> cs \<noteq> [] then
                 cmd_run env (JFile (if hd cs \<noteq> 10 then buf @ [92, hd cs] else buf) (tl cs)) s
               else if c \<noteq> 92 \<and> c \<noteq> 10 then cmd_run env (JFile (buf @ [c]) cs) s
               else
                 (case prep_line env s buf of
                    None \<Rightarrow> Some None
                  | Some b \<Rightarrow>
                      Option.bind (cmd_run env (JLine 0 b False None) s)
                        (\<lambda>r. case r of
                               None \<Rightarrow> Some None
                             | Some (ret, s) \<Rightarrow> if c = 92 then Some (Some (0, s)) else cmd_run env (JFile [] cs) s))
           | [] \<Rightarrow>
               (case prep_line env s buf of
                  None \<Rightarrow> Some None
                | Some b \<Rightarrow>
                    Option.bind (cmd_run env (JLine 0 b False None) s)
                      (\<lambda>r. Some (map_option (\<lambda>(ret, s). (0, s)) r)))))"

declare cmd_run.simps [code]

definition CmdExec :: "cmdenv \<Rightarrow> byte list \<Rightarrow> console \<Rightarrow> (int \<times> console) option option" where
  "CmdExec env cmdstring s =
     (case new_text env cmdstring (length cmdstring + 2) of None \<Rightarrow> Some None | Some b \<Rightarrow> cmd_run env (JLine 0 b False None) s)"

definition ServerCmdExec :: "cmdenv \<Rightarrow> byte list \<Rightarrow> nat option \<Rightarrow> console \<Rightarrow> (int \<times> console) option option" where
  "ServerCmdExec env cmdstring sc s =
     (case new_text env cmdstring (length cmdstring + 2) of None \<Rightarrow> Some None | Some b \<Rightarrow> cmd_run env (JLine 0 b True sc) s)"

section \<open>Starting\<close>

text \<open>The static variables before the program starts.\<close>

definition console_static :: console where
  "console_static =
     \<lparr>co_cmds = NLeaf, co_cmdlists = 0, co_aliases = NLeaf, co_cvars = cvars_empty,
      co_heap = [a_cvar_echo \<mapsto> VInt 0, a_cmd_echo \<mapsto> VInt 1, a_mousewheelskip \<mapsto> VInt 4, a_pageskip \<mapsto> VInt 8,
        a_undefinedecho \<mapsto> VInt 0, a_cmdlog \<mapsto> VInt 0],
      co_next = 6, co_buffer = replicate CB_LINES [], co_curline = 2, co_displine = 0,
      co_hist = replicate MAX_COMMAND_HISTORY [], co_curhist = 0, co_selhist = 0, co_cmdline = [], co_aliasnest = 0, co_height = 0\<rparr>"

definition builtins :: "(byte list \<times> builtin) list" where
  "builtins =
     [(ascii ''echo'', Echo), (ascii ''cmdlist'', Cmdlist), (ascii ''cvarlist'', Cvarlist), (ascii ''toggle'', Toggle), (ascii ''inc'', Inc),
      (ascii ''dec'', Dec), (ascii ''mul'', Mul), (ascii ''set'', Set), (ascii ''exec'', Exec), (ascii ''time'', Time), (ascii ''alias'', Alias),
      (ascii ''memory'', Memory)]"

definition CmdInit :: "cmdenv \<Rightarrow> int \<Rightarrow> console \<Rightarrow> console option" where
  "CmdInit env height s = do {
     let s = fold (\<lambda>(n, b). CmdAdd n (Builtin b)) builtins (s\<lparr>co_height := height\<rparr>);
     s \<leftarrow> co_cvar_add (ascii ''cvar_echo'') a_cvar_echo cvar_int s;
     s \<leftarrow> co_cvar_add (ascii ''cmd_echo'') a_cmd_echo cvar_int s;
     s \<leftarrow> co_cvar_add (ascii ''console_mousewheelskip'') a_mousewheelskip cvar_int s;
     s \<leftarrow> co_cvar_add (ascii ''console_pageskip'') a_pageskip cvar_int s;
     s \<leftarrow> co_cvar_add (ascii ''console_undefinedecho'') a_undefinedecho cvar_int s;
     s \<leftarrow> co_cvar_add (ascii ''cmdlog'') a_cmdlog cvar_int s;
     s \<leftarrow> CmdPrint (ascii ''gltestplus running.'') s;
     CmdPrint (ascii ''build: '' @ ev_build env) s }"

section \<open>Keys and the mouse\<close>

text \<open>\<open>CmdInput\<close>.  The variable \<open>last\<close> is left out: a newline returns before it is read.\<close>

definition CmdInput :: "cmdenv \<Rightarrow> byte \<Rightarrow> console \<Rightarrow> (int \<times> console) option option" where
  "CmdInput env key s =
     (if key = 0x7f then Some (Some (1, s))
      else if key = 8 then Some (Some (0, s\<lparr>co_cmdline := take (length (co_cmdline s) - 1) (co_cmdline s)\<rparr>))
      else if key = 10 then Some (Some (0, s))
      else if key = 13 then
        (if co_cmdline s = [] then Some (Some (0, s))
         else
           (case do {
              hist \<leftarrow> awrite (co_hist s) (co_curhist s) (co_cmdline s);
              let next = (co_curhist s + 1) mod MAX_COMMAND_HISTORY;
              let s = s\<lparr>co_hist := hist, co_curhist := next, co_selhist := next\<rparr>;
              e \<leftarrow> co_int s a_cmd_echo;
              s \<leftarrow> (if e \<noteq> 0 \<and> hd (co_cmdline s) \<noteq> 64 then CmdPrint (co_cmdline s) s else Some s);
              b \<leftarrow> cmd_preprocess env s (c_malloc (ev_junk env) (length (co_cmdline s) + 2)) (co_cmdline s);
              Some (b, s) } of
              None \<Rightarrow> Some None
            | Some (b, s) \<Rightarrow>
                Option.bind (cmd_run env (JLine 0 b False None) s) (\<lambda>r. Some (map_option (\<lambda>(ret, s). (0, s\<lparr>co_cmdline := []\<rparr>)) r))))
      else Some (Some (0, s\<lparr>co_cmdline := (if key = 0 then co_cmdline s else co_cmdline s @ [key])\<rparr>)))"

text \<open>Arithmetic on \<open>int\<close> that must not overflow, and the last line to scroll to.\<close>

definition c_int :: "int \<Rightarrow> int option" where
  "c_int x = (if - (2 ^ 31) \<le> x \<and> x < 2 ^ 31 then Some x else None)"

definition scroll_top :: "console \<Rightarrow> int option" where
  "scroll_top s = do { n \<leftarrow> trunc_int (real_of_int (co_height s) * 0.8 * 2 / 30); c_int (int CB_LINES - n) }"

definition scroll_up :: "nat \<Rightarrow> console \<Rightarrow> console option" where
  "scroll_up a s = do {
     skip \<leftarrow> co_int s a;
     line \<leftarrow> c_int (co_displine s + sint skip);
     top \<leftarrow> scroll_top s;
     Some (s\<lparr>co_displine := (if line \<le> top then line else top)\<rparr>) }"

definition scroll_down :: "nat \<Rightarrow> console \<Rightarrow> console option" where
  "scroll_down a s = do {
     skip \<leftarrow> co_int s a;
     line \<leftarrow> c_int (co_displine s - sint skip);
     Some (s\<lparr>co_displine := (if 0 \<le> line then line else 0)\<rparr>) }"

definition CmdMouseInput :: "int \<Rightarrow> int \<Rightarrow> console \<Rightarrow> (int \<times> console) option" where
  "CmdMouseInput button state s =
     (if state \<noteq> 1 then Some (0, s)
      else do {
        s \<leftarrow> (if button = 3 then scroll_up a_mousewheelskip s else Some s);
        s \<leftarrow> (if button = 4 then scroll_down a_mousewheelskip s else Some s);
        Some (0, s) })"

definition CmdSpecialInput :: "int \<Rightarrow> console \<Rightarrow> (int \<times> console) option" where
  "CmdSpecialInput key s = do {
     s \<leftarrow> (if key = 101 \<or> key = 103 then do {
             let i = nat ((int (co_selhist s) + (if key = 101 then - 1 else 1) + int MAX_COMMAND_HISTORY) mod int MAX_COMMAND_HISTORY);
             line \<leftarrow> aread (co_hist s) i;
             Some (s\<lparr>co_selhist := i, co_cmdline := line\<rparr>) }
           else Some s);
     s \<leftarrow> (if key = 104 then scroll_up a_pageskip s else Some s);
     s \<leftarrow> (if key = 105 then scroll_down a_pageskip s else Some s);
     Some (0, s) }"

end
