(* ===== verification/Argtok_Correct.thy ===== *)
theory Argtok_Correct
  imports Argtok
begin

text \<open>
  \<open>argtok\<close> finds the tokens of the lexer, in its buffer; arguments that have been quoted come back as they were.
\<close>

section \<open>Tokens in the buffer\<close>

text \<open>A token in the part \<open>pre\<close> of the buffer that the loop has passed: it ends with the part, or with a NUL in it.\<close>

definition tok_at :: "byte list \<Rightarrow> argp \<Rightarrow> bool \<times> byte list \<Rightarrow> bool" where
  "tok_at pre a t \<longleftrightarrow> (\<exists>p. a = AAt p \<and> p \<le> length pre \<and> 0 \<notin> set (snd t)
     \<and> (if fst t then drop p pre = snd t else \<exists>r. drop p pre = snd t @ 0 # r))"

lemma tok_at_char: "tok_at pre a t \<Longrightarrow> c \<noteq> 0 \<Longrightarrow> tok_at (pre @ [c]) a (fst t, if fst t then snd t @ [c] else snd t)"
  by (cases t) (auto simp: tok_at_def)

lemma tok_at_end: "tok_at pre a t \<Longrightarrow> tok_at (pre @ [0]) a (False, snd t)"
  by (cases t) (auto simp: tok_at_def split: if_splits)

lemma tok_at_text: "tok_at pre a t \<Longrightarrow> arg_text (pre @ 0 # r) a = Some (snd t)"
  by (cases t) (auto simp: tok_at_def takeWhile_zero split: if_splits)

definition toks_at :: "byte list \<Rightarrow> argp list \<Rightarrow> (bool \<times> byte list) list \<Rightarrow> bool" where
  "toks_at pre argv ts \<longleftrightarrow> length ts \<le> length argv \<and> (\<forall>k<length ts. tok_at pre (argv ! k) (ts ! k))"

lemma toks_at_char: "toks_at pre argv ts \<Longrightarrow> c \<noteq> 0 \<Longrightarrow> toks_at (pre @ [c]) argv (add_char c ts)"
  using tok_at_char [of pre _ _ c] by (auto simp: toks_at_def add_char_def split_beta)

lemma toks_at_close: "toks_at pre argv ts \<Longrightarrow> toks_at (pre @ [0]) argv (close_all ts)"
  using tok_at_end [of pre] by (auto simp: toks_at_def close_all_def split_beta)

lemma toks_at_push:
  assumes "toks_at pre argv ts" "length ts < length argv"
  shows "toks_at pre (argv[length ts := AAt (length pre)]) (ts @ [(True, [])])"
proof -
  have "tok_at pre (AAt (length pre)) (True, [])" by (simp add: tok_at_def)
  then show ?thesis using assms by (auto simp: toks_at_def nth_append less_Suc_eq)
qed

lemma toks_at_texts:
  assumes "toks_at pre argv ts"
  shows "map (\<lambda>k. arg_text (pre @ 0 # r) (argv ! k)) [0..<length ts] = map Some (map snd ts)"
proof (rule nth_equalityI)
  fix k assume "k < length (map (\<lambda>k. arg_text (pre @ 0 # r) (argv ! k)) [0..<length ts])"
  then show "map (\<lambda>k. arg_text (pre @ 0 # r) (argv ! k)) [0..<length ts] ! k = map Some (map snd ts) ! k"
    using assms tok_at_text [of pre "argv ! k" "ts ! k" r] by (simp add: toks_at_def)
qed simp

lemma memmove_down_text:
  assumes "0 \<notin> set cs" "c \<noteq> 0"
  shows "memmove_down (pre @ b # c # cs @ 0 # pad) (Suc (length pre)) = Some (pre @ c # cs @ 0 # 0 # pad)"
proof -
  have "c_strlen (drop (Suc (length pre)) (pre @ b # c # cs @ 0 # pad)) = Some (Suc (length cs))"
    using assms c_strlen_text [of "c # cs @ 0 # pad" "c # cs"] by (auto simp: holds_text_def)
  then show ?thesis by (cases cs rule: rev_cases) (simp_all add: memmove_down_def write_at_def awrite_def list_update_append)
qed

section \<open>The loop\<close>

definition mark :: "bool \<Rightarrow> byte list" where "mark escaped = (if escaped then [92] else [])"

lemma mark_simps [simp]: "mark True = [92]" "mark False = []" by (simp_all add: mark_def)

text \<open>What the loop leaves: the tokens of the lexer before a NUL of the buffer, and the rest behind it.\<close>

definition lexed :: "(bool \<times> byte list) list \<times> byte list option \<times> bool \<Rightarrow> nat option \<times> tok \<Rightarrow> bool" where
  "lexed res out \<longleftrightarrow>
     (let (ts, rest, quoted) = res; (post, st) = out
      in tk_ret st = length ts \<and> tk_inquote st = quoted
         \<and> (\<exists>pre x. tk_blk st = pre @ 0 # x \<and> toks_at pre (tk_argv st) ts
              \<and> post = map_option (\<lambda>_. Suc (length pre)) rest \<and> (\<forall>r. rest = Some r \<longrightarrow> holds_text x r)))"

lemma lexedI:
  assumes "tk_ret st = length ts" "tk_inquote st = quoted" "tk_blk st = pre @ 0 # x" "toks_at pre (tk_argv st) ts"
    and "post = map_option (\<lambda>_. Suc (length pre)) rest" "\<And>r. rest = Some r \<Longrightarrow> holds_text x r"
  shows "lexed (ts, rest, quoted) (post, st)"
  using assms by (auto simp: lexed_def)

lemma argtok_loop_lexes:
  assumes "tk_blk st = pre @ mark (tk_escape st) @ cs @ 0 # pad" "s = length pre + length (mark (tk_escape st))" "0 \<notin> set cs"
    and "tk_ret st = length ts" "toks_at pre (tk_argv st) ts" "length (tk_argv st) = maxargs"
    and "length (fst (lexer (tk_inquote st) (tk_escape st) (tk_head st) ts cs)) < maxargs"
  shows "\<exists>out. argtok_loop maxargs s st = Some (False, out) \<and> length (tk_argv (snd out)) = maxargs
     \<and> length (tk_blk (snd out)) = length (tk_blk st)
     \<and> lexed (lexer (tk_inquote st) (tk_escape st) (tk_head st) ts cs) out"
  using assms
proof (induction cs arbitrary: st pre pad s ts)
  case Nil
  have "aread (tk_blk st) s = Some 0" using Nil(1,2) by (simp add: aread_def nth_append)
  then have run: "argtok_loop maxargs s st = Some (False, None, st)" by (simp add: argtok_loop.simps)
  show ?case
  proof (cases "tk_escape st")
    case True
    then have "lexed (add_char 92 ts, None, tk_inquote st) (None, st)"
      using Nil toks_at_char [OF Nil(5), of 92] by (intro lexedI [where pre = "pre @ [92]" and x = pad]) simp_all
    then show ?thesis using run True Nil(6) by simp
  next
    case False
    then have "lexed (ts, None, tk_inquote st) (None, st)" using Nil by (intro lexedI [where pre = pre and x = pad]) simp_all
    then show ?thesis using run False Nil(6) by simp
  qed
next
  case (Cons c cs)
  have c: "c \<noteq> 0" "0 \<notin> set cs" using Cons.prems(3) by auto
  have get: "aread (tk_blk st) s = Some c" using Cons.prems(1,2) by (simp add: aread_def nth_append)
  note goal = Cons.prems(4-7)
  have room: "length ts < maxargs" using lex_grows [of ts] Cons.prems(7) by (rule le_less_trans)
  show ?case
  proof (cases "tk_escape st")
    case True
    have "memmove_down (tk_blk st) s = Some (pre @ c # cs @ 0 # 0 # pad)"
      using memmove_down_text [OF c(2,1), of pre 92 pad] Cons.prems(1,2) True by simp
    then have run: "argtok_loop maxargs s st = argtok_loop maxargs s (st\<lparr>tk_escape := False, tk_blk := pre @ c # cs @ 0 # 0 # pad\<rparr>)"
      using get c(1) True by (subst argtok_loop.simps) simp
    show ?thesis unfolding run
      using Cons.IH [of "st\<lparr>tk_escape := False, tk_blk := pre @ c # cs @ 0 # 0 # pad\<rparr>" "pre @ [c]" "0 # pad" s "add_char c ts"]
        Cons.prems True c toks_at_char [OF goal(2) c(1)]
      by simp
  next
    case plain: False
    have blk: "tk_blk st = pre @ c # cs @ 0 # pad" "length pre = s" using Cons.prems(1,2) plain by simp_all
    have nul: "awrite (tk_blk st) s 0 = Some ((pre @ [0]) @ cs @ 0 # pad)" using blk by (simp add: awrite_def list_update_append)
    have push: "push_arg (AAt p) st = Some (st\<lparr>tk_argv := (tk_argv st)[length ts := AAt p], tk_ret := Suc (length ts), tk_head := True\<rparr>)" for p
      using goal room by (simp add: push_arg_def awrite_def)
    note char = toks_at_char [OF _ c(1), of pre] and run = argtok_loop.simps [of maxargs s st, unfolded get bind.bind_lunit nul]
    note IH = Cons.IH [of _ _ pad "Suc s", OF _ _ c(2)]
    have word: "toks_at (pre @ [c]) ((tk_argv st)[length ts := AAt s]) (add_char c (ts @ [(True, [])]))"
      using toks_at_push [OF goal(2)] room goal(3) by (intro char) (simp add: blk(2))
    consider "c = 92" | "c = 34" "\<not> tk_inquote st" | "c = 34" "tk_inquote st" | "c \<noteq> 92" "c \<noteq> 34" "tk_inquote st"
      | "\<not> tk_inquote st" "c = 35" | "\<not> tk_inquote st" "c = 59" | "\<not> tk_inquote st" "c_isspace c"
      | "c \<noteq> 92" "c \<noteq> 34" "c \<noteq> 35" "c \<noteq> 59" "\<not> tk_inquote st" "\<not> c_isspace c" by blast
    then show ?thesis
    proof cases
      case 1
      show ?thesis
      proof (cases "tk_head st")
        case True
        then show ?thesis using IH [of "st\<lparr>tk_escape := True\<rparr>" pre ts] goal blk plain 1 by (simp add: run)
      next
        case False
        then have "Suc (length ts) < maxargs"
          using lex_grows [of "ts @ [(True, [])]" "tk_inquote st" True True cs] goal(4) plain 1 by simp
        then show ?thesis
          using IH [of "st\<lparr>tk_argv := (tk_argv st)[length ts := AAt s], tk_ret := Suc (length ts), tk_head := True, tk_escape := True\<rparr>" pre "ts @ [(True, [])]"]
            goal blk plain 1 False room toks_at_push [OF goal(2)] by (simp add: run push)
      qed
    next
      case 2
      then show ?thesis
        using IH [of "st\<lparr>tk_argv := (tk_argv st)[length ts := AAt (Suc s)], tk_ret := Suc (length ts), tk_head := True, tk_inquote := True\<rparr>"
              "pre @ [c]" "add_char c ts @ [(True, [])]"]
            goal blk plain room toks_at_push [OF char [OF goal(2)]] by (simp add: run push)
    next
      case 3
      then show ?thesis
        using IH [of "st\<lparr>tk_blk := (pre @ [0]) @ cs @ 0 # pad, tk_head := False, tk_inquote := False\<rparr>" "pre @ [0]" "close_all ts"]
          goal blk plain toks_at_close [OF goal(2)] by (simp add: run)
    next
      case 4
      then show ?thesis using IH [of st "pre @ [c]" "add_char c ts"] goal blk plain char [OF goal(2)] c(1) by (simp add: run)
    next
      case 5
      then have "lexed (ts, None, tk_inquote st) (None, st\<lparr>tk_blk := (pre @ [0]) @ cs @ 0 # pad\<rparr>)"
        using goal blk by (intro lexedI [where pre = pre and x = "cs @ 0 # pad"]) simp_all
      then show ?thesis using 5 goal blk plain by (simp add: run)
    next
      case 6
      then have "lexed (ts, Some cs, tk_inquote st) (Some (Suc s), st\<lparr>tk_blk := (pre @ [0]) @ cs @ 0 # pad\<rparr>)"
        using goal blk c(2) by (intro lexedI [where pre = pre and x = "cs @ 0 # pad"]) (simp_all add: holds_text_alt)
      then show ?thesis using 6 goal blk plain by (simp add: run)
    next
      case 7
      then have "c \<noteq> 92 \<and> c \<noteq> 34 \<and> c \<noteq> 35 \<and> c \<noteq> 59" by (auto simp: c_isspace_def)
      then show ?thesis
        using 7 IH [of "st\<lparr>tk_blk := (pre @ [0]) @ cs @ 0 # pad, tk_head := False\<rparr>" "pre @ [0]" "close_all ts"]
          goal blk plain toks_at_close [OF goal(2)] c(1) by (simp add: run)
    next
      case 8
      show ?thesis
      proof (cases "tk_head st")
        case True
        then show ?thesis using 8 IH [of st "pre @ [c]" "add_char c ts"] goal blk plain char [OF goal(2)] c(1) by (simp add: run)
      next
        case False
        then show ?thesis
          using 8 IH [of "st\<lparr>tk_argv := (tk_argv st)[length ts := AAt s], tk_ret := Suc (length ts), tk_head := True\<rparr>" "pre @ [c]" "add_char c (ts @ [(True, [])])"]
            goal blk plain room word c(1) by (simp add: run push)
      qed
    qed
  qed
qed

section \<open>The arguments\<close>

text \<open>What a call leaves: the texts of the arguments, the null pointer behind them, the rest of the line and whether to complain.\<close>

definition argtok_gives :: "byte list list \<Rightarrow> byte list option \<Rightarrow> bool \<Rightarrow> nat \<times> nat option \<times> byte list \<times> argp list \<times> bool \<Rightarrow> bool" where
  "argtok_gives ts rest quoted out \<longleftrightarrow>
     (let (ret, post, blk, argv, complain) = out
      in ret = length ts \<and> ret < length argv \<and> map (\<lambda>k. arg_text blk (argv ! k)) [0..<ret] = map Some ts \<and> argv ! ret = ANull
         \<and> complain = quoted \<and> (post = None \<longleftrightarrow> rest = None) \<and> (\<forall>p r. post = Some p \<longrightarrow> rest = Some r \<longrightarrow> holds_text (drop p blk) r))"

lemma argtok_lexes:
  assumes "holds_text blk t" "length (tokens t) < length argv"
  shows "\<exists>out. argtok argv (Some blk) (length argv) = Some out \<and> argtok_gives (tokens t) (remainder t) (unmatched t) out"
proof -
  obtain pad where blk: "blk = t @ 0 # pad" "0 \<notin> set t" using assms(1) by (auto simp: holds_text_alt)
  obtain ts rest quoted where lex: "lexer False False False [] t = (ts, rest, quoted)" by (metis surj_pair)
  let ?st = "\<lparr>tk_blk = blk, tk_argv = argv, tk_ret = 0, tk_inquote = False, tk_escape = False, tk_head = False\<rparr>"
  obtain post st where out: "argtok_loop (length argv) 0 ?st = Some (False, post, st)" "length (tk_argv st) = length argv"
      "lexed (ts, rest, quoted) (post, st)"
    using argtok_loop_lexes [of ?st "[]" t pad 0 "[]" "length argv"] blk assms(2) by (auto simp: toks_at_def lex tokens_def)
  have ret: "tk_ret st = length ts" "length ts < length argv" using out(3) assms(2) by (simp_all add: lexed_def lex tokens_def)
  obtain pre x where at: "tk_blk st = pre @ 0 # x" "toks_at pre (tk_argv st) ts" "post = map_option (\<lambda>_. Suc (length pre)) rest"
      "\<forall>r. rest = Some r \<longrightarrow> holds_text x r" and quoted: "tk_inquote st = quoted"
    using out(3) by (auto simp: lexed_def)
  have "map (\<lambda>k. arg_text (tk_blk st) ((tk_argv st)[length ts := ANull] ! k)) [0..<length ts] = map Some (map snd ts)"
    unfolding at(1) toks_at_texts [OF at(2), of x, symmetric] by (rule map_cong) simp_all
  then have "argtok_gives (map snd ts) rest quoted (length ts, post, tk_blk st, (tk_argv st)[length ts := ANull], quoted)"
    using at ret out(2) by (auto simp: argtok_gives_def)
  moreover have "argtok argv (Some blk) (length argv) = Some (length ts, post, tk_blk st, (tk_argv st)[length ts := ANull], quoted)"
    using out ret quoted by (simp add: argtok_def awrite_def)
  ultimately show ?thesis by (auto simp: tokens_def remainder_def unmatched_def lex)
qed

text \<open>The array has to have room for the null pointer: \<open>MAX_ARGC\<close> arguments write behind it.\<close>

lemma argtok_full: "argtok [ANull, ANull] (Some [97, 32, 98, 0]) 2 = None"
  by (simp add: argtok_def argtok_loop.simps aread_def awrite_def push_arg_def c_isspace_def)

text \<open>A quote in the middle of a word starts an argument without ending the word.\<close>

lemma argtok_overlap: "tokens [97, 34, 98, 34] = [[97, 34, 98], [98]]"
  by (simp add: tokens_def add_char_def close_all_def c_isspace_def)

section \<open>Quoting\<close>

text \<open>An argument in quotes, with a backslash before quotes and backslashes.\<close>

definition quote_arg :: "byte list \<Rightarrow> byte list" where
  "quote_arg a = 34 # concat (map (\<lambda>c. if c = 34 \<or> c = 92 then [92, c] else [c]) a) @ [34]"

definition quote_line :: "byte list list \<Rightarrow> byte list" where
  "quote_line args = concat (map (\<lambda>a. quote_arg a @ [32]) args)"

lemma lex_quoted:
  assumes "\<forall>t\<in>set ts. \<not> fst t"
  shows "lexer True False True (ts @ [(True, w)]) (concat (map (\<lambda>c. if c = 34 \<or> c = 92 then [92, c] else [c]) a) @ 34 # cs)
     = lexer False False False (ts @ [(False, w @ a)]) cs"
proof (induction a arbitrary: w)
  case Nil
  have "close_all ts = ts" using assms by (auto simp: close_all_def intro!: map_idI)
  then show ?case by (simp add: close_all_def)
next
  case (Cons c a)
  have "add_char c ts = ts" using assms by (auto simp: add_char_def intro!: map_idI)
  then have "add_char c (ts @ [(True, w)]) = ts @ [(True, w @ [c])]" by (simp add: add_char_def)
  then show ?case using Cons.IH [of "w @ [c]"] by simp
qed

lemma lex_quote_line:
  assumes "\<forall>t\<in>set ts. \<not> fst t"
  shows "lexer False False False ts (quote_line args @ cs) = lexer False False False (ts @ map (\<lambda>a. (False, a)) args) cs"
  using assms
proof (induction args arbitrary: ts)
  case Nil
  then show ?case by (simp add: quote_line_def)
next
  case (Cons a args)
  have closed: "add_char 34 ts = ts" "close_all ts = ts"
    using Cons.prems by (auto simp: add_char_def close_all_def intro!: map_idI)
  have "lexer False False False ts (quote_line (a # args) @ cs)
      = lexer False False False (close_all (ts @ [(False, a)])) (quote_line args @ cs)"
    using lex_quoted [OF Cons.prems, of "[]" a "32 # quote_line args @ cs"] closed
    by (simp add: quote_line_def quote_arg_def c_isspace_def)
  also have "close_all (ts @ [(False, a)]) = ts @ [(False, a)]" using closed by (simp add: close_all_def)
  also have "lexer False False False (ts @ [(False, a)]) (quote_line args @ cs)
      = lexer False False False ((ts @ [(False, a)]) @ map (\<lambda>a. (False, a)) args) cs"
    using Cons.prems by (intro Cons.IH) auto
  finally show ?case by simp
qed

lemma tokens_quoted:
  "tokens (quote_line args) = args" "remainder (quote_line args) = None" "unmatched (quote_line args) = False"
  using lex_quote_line [of "[]" args "[]"] by (simp_all add: tokens_def remainder_def unmatched_def o_def)

text \<open>A line of two commands.\<close>

lemma tokens_sequence:
  "tokens (quote_line args @ 59 # t) = args" "remainder (quote_line args @ 59 # t) = Some t" "unmatched (quote_line args @ 59 # t) = False"
  using lex_quote_line [of "[]" args "59 # t"] by (simp_all add: tokens_def remainder_def unmatched_def o_def)

lemma quote_line_text: "(\<forall>a\<in>set args. 0 \<notin> set a) \<Longrightarrow> 0 \<notin> set (quote_line args)"
  by (auto simp: quote_line_def quote_arg_def)

text \<open>C6: arguments survive quoting.  For every list of arguments that has room in the array, \<open>argtok\<close> of the line that has each of them
  in quotes, with backslashes before quotes and backslashes, ends without a stray access and gives the arguments, with a null pointer
  behind them, no rest and no complaint.\<close>

theorem argtok_quoted:
  assumes "holds_text blk (quote_line args)" "length args < length argv"
  shows "\<exists>post blk' argv'. argtok argv (Some blk) (length argv) = Some (length args, post, blk', argv', False) \<and> post = None
     \<and> map (\<lambda>k. arg_text blk' (argv' ! k)) [0..<length args] = map Some args \<and> argv' ! length args = ANull"
  using argtok_lexes [OF assms(1), of argv] assms(2) by (auto simp: tokens_quoted argtok_gives_def)

theorem argtok_quoted_witness:
  "\<exists>blk' argv'. argtok [ANull, ANull, ANull] (Some [34, 97, 32, 98, 34, 32, 34, 92, 34, 34, 32, 0]) 3 = Some (2, None, blk', argv', False)
     \<and> arg_text blk' (argv' ! 0) = Some [97, 32, 98] \<and> arg_text blk' (argv' ! 1) = Some [34]"
proof -
  have line: "quote_line [[97, 32, 98], [34]] = [34, 97, 32, 98, 34, 32, 34, 92, 34, 34, 32]" by (simp add: quote_line_def quote_arg_def)
  have "holds_text [34, 97, 32, 98, 34, 32, 34, 92, 34, 34, 32, 0] (quote_line [[97, 32, 98], [34]])"
    unfolding line by (simp add: holds_text_def)
  then show ?thesis using argtok_quoted [of "[34, 97, 32, 98, 34, 32, 34, 92, 34, 34, 32, 0]" "[[97, 32, 98], [34]]" "[ANull, ANull, ANull]"] by (auto simp: numeral_2_eq_2 numeral_3_eq_3)
qed

end
