(* ===== verification/Cmd_Correct.thy ===== *)
theory Cmd_Correct
  imports Cmd Argtok_Correct
begin

text \<open>
  The console: variables in lines are replaced by their values, lines run commands with the arguments that were quoted, variables and aliases
  hold what they were set to, and every line ends, also when aliases call themselves.
\<close>

section \<open>Variables in lines\<close>

text \<open>
  The reference: \<open>pending\<close> are the characters since the last dollar sign, when they can still be a name.  A name is not replaced when
  another dollar sign follows.
\<close>

definition replaced :: "(byte list \<Rightarrow> byte list option) \<Rightarrow> byte list \<Rightarrow> byte list" where
  "replaced look w = (case look w of None \<Rightarrow> 36 # w | Some t \<Rightarrow> t)"

fun expand :: "(byte list \<Rightarrow> byte list option) \<Rightarrow> byte list option \<Rightarrow> byte list \<Rightarrow> byte list" where
  "expand look None [] = []"
| "expand look (Some w) [] = replaced look w"
| "expand look None (c # cs) = (if c = 36 then expand look (Some []) cs else c # expand look None cs)"
| "expand look (Some w) (c # cs) =
     (if c = 36 then 36 # w @ expand look (Some []) cs
      else if is_word c then expand look (Some (w @ [c])) cs
      else replaced look w @ c # expand look None cs)"

definition var_text :: "cmdenv \<Rightarrow> console \<Rightarrow> byte list \<Rightarrow> byte list option" where
  "var_text env s name =
     (case CvarFind (co_cvars s) name of Some (Some cv) \<Rightarrow> cvar_text (ev_printf env) s cv | _ \<Rightarrow> None)"

text \<open>Every variable can be read, and its value is not longer than its name with a dollar sign.\<close>

definition short_vars :: "cmdenv \<Rightarrow> console \<Rightarrow> bool" where
  "short_vars env s \<longleftrightarrow> cvars_ok (co_cvars s) \<and> (\<forall>name cv. CvarFind (co_cvars s) name = Some (Some cv) \<longrightarrow>
     (\<exists>t. cvar_text (ev_printf env) s cv = Some t \<and> 0 \<notin> set t \<and> length t \<le> length name + 1))"

lemma is_word_nonzero: "is_word c \<Longrightarrow> c \<noteq> 0" "is_word c \<Longrightarrow> c \<noteq> 36"
  by (auto simp: is_word_def is_digit_def)

lemma short_vars_cases:
  assumes "short_vars env s"
  obtains "CvarFind (co_cvars s) w = Some None" "var_text env s w = None"
  | cv t where "CvarFind (co_cvars s) w = Some (Some cv)" "cvar_text (ev_printf env) s cv = Some t" "var_text env s w = Some t"
      "0 \<notin> set t" "length t \<le> length w + 1"
  using assms CvarFind_ok [of "co_cvars s" w] by (force simp: short_vars_def var_text_def)

lemma preprocess_name_ok:
  assumes "short_vars env s" "take out buf = w @ 36 # v" "out < length buf" "0 \<notin> set v" "out = length w + 1 + length v"
  shows "\<exists>buf'. preprocess_name env s (length w) out buf = Some (length w + length (replaced (var_text env s) v), None, buf')
     \<and> length buf' = length buf \<and> take (length w + length (replaced (var_text env s) v)) buf' = w @ replaced (var_text env s) v
     \<and> length (replaced (var_text env s) v) \<le> length v + 1"
proof -
  obtain pad where buf: "buf[out := 0] = w @ 36 # v @ 0 # pad"
    using assms(2,3) by (metis append.assoc append_Cons upd_conv_take_nth_drop)
  have len: "length buf = length w + length v + 2 + length pad" using arg_cong [OF buf, of length] by simp
  have name: "takeWhile (\<lambda>c. c \<noteq> 0) (drop (length w + 1) (w @ 36 # v @ 0 # pad)) = v" by (simp add: takeWhile_zero assms(4))
  have wr: "awrite buf out 0 = Some (w @ 36 # v @ 0 # pad)" using assms(3) buf by (simp add: awrite_def)
  show ?thesis using assms(1)
  proof (cases rule: short_vars_cases [of env s v])
    case 1
    have "c_strlen (drop (length w) (w @ 36 # v @ 0 # pad)) = Some (length v + 1)"
      using c_strlen_text [of "36 # v @ 0 # pad" "36 # v"] assms(4) by (simp add: holds_text_def)
    then show ?thesis using 1 len by (simp add: preprocess_name_def wr name [simplified] replaced_def)
  next
    case (2 cv t)
    have "write_at (w @ 36 # v @ 0 # pad) (length w) (t @ [0]) = Some (w @ t @ 0 # drop (length t + 1) (36 # v @ 0 # pad))"
      using 2(5) by (simp add: write_at_def)
    moreover have "c_strlen (t @ 0 # drop (length t + 1) (36 # v @ 0 # pad)) = Some (length t)"
      using 2(4) by (intro c_strlen_text) (simp add: holds_text_def)
    ultimately show ?thesis using 2 len by (simp add: preprocess_name_def wr name [simplified] replaced_def)
  qed
qed

fun raw :: "byte list option \<Rightarrow> byte list" where "raw None = []" | "raw (Some v) = 36 # v"

lemma replaced_nonzero: "short_vars env s \<Longrightarrow> 0 \<notin> set v \<Longrightarrow> 0 \<notin> set (replaced (var_text env s) v)"
  by (cases rule: short_vars_cases [of env s v]) (auto simp: replaced_def)

lemma take_write: "take n xs = w \<Longrightarrow> length w = n \<Longrightarrow> n < length xs \<Longrightarrow> take (Suc n) (xs[n := c]) = w @ [c]"
  by (simp add: take_Suc_conv_app_nth)

text \<open>One character; the end of the name is as if the name were not there.\<close>

lemma preprocess_plain:
  "c \<noteq> 36 \<Longrightarrow> c \<noteq> 0 \<Longrightarrow> out < length buf \<Longrightarrow>
     preprocess_loop env s (c # cs) out None buf = preprocess_loop env s cs (Suc out) None (buf[out := c])"
  by (simp add: awrite_def)

lemma preprocess_dollar:
  "out < length buf \<Longrightarrow> preprocess_loop env s (36 # cs) out dollar buf = preprocess_loop env s cs (Suc out) (Some out) (buf[out := 36])"
  by (simp add: awrite_def)

lemma preprocess_word:
  "is_word c \<Longrightarrow> out < length buf \<Longrightarrow>
     preprocess_loop env s (c # cs) out (Some d) buf = preprocess_loop env s cs (Suc out) (Some d) (buf[out := c])"
  using is_word_nonzero [of c] by (simp add: awrite_def)

lemma preprocess_end:
  "preprocess_name env s d out buf = Some (out', None, buf') \<Longrightarrow> d < out \<Longrightarrow> \<not> is_word c \<Longrightarrow> c \<noteq> 36 \<Longrightarrow>
     preprocess_loop env s (c # cs) out (Some d) buf = preprocess_loop env s (c # cs) out' None buf'"
  by simp

lemma preprocess_nul:
  assumes "take out buf = w" "length w = out" "0 \<notin> set w" "out + 2 \<le> length buf"
  shows "\<exists>buf'. preprocess_loop env s [0] out None buf = Some buf' \<and> length buf' = length buf \<and> holds_text buf' w"
  using assms take_write [of out buf w 0] by (simp add: awrite_def holds_text_def)

declare preprocess_loop.simps [simp del]

lemma preprocess_loop_ok:
  assumes "short_vars env s"
  shows "take out buf = w @ raw pend \<Longrightarrow> out = length (w @ raw pend) \<Longrightarrow> 0 \<notin> set w \<Longrightarrow> 0 \<notin> set cs
     \<Longrightarrow> \<forall>v. pend = Some v \<longrightarrow> (\<forall>c\<in>set v. is_word c) \<Longrightarrow> out + length cs + 2 \<le> length buf
     \<Longrightarrow> \<exists>buf'. preprocess_loop env s (cs @ [0]) out (map_option (\<lambda>_. length w) pend) buf = Some buf' \<and> length buf' = length buf
        \<and> holds_text buf' (w @ expand (var_text env s) pend cs)"
proof (induction cs arbitrary: out buf w pend)
  case Nil
  show ?case
  proof (cases pend)
    case None
    have "\<exists>buf'. preprocess_loop env s [0] out None buf = Some buf' \<and> length buf' = length buf \<and> holds_text buf' w"
      using Nil.prems None by (intro preprocess_nul) simp_all
    then show ?thesis using None by simp
  next
    case (Some v)
    have v: "0 \<notin> set v" using Nil.prems(5) Some is_word_nonzero by blast
    obtain buf' where buf': "preprocess_name env s (length w) out buf = Some (length w + length (replaced (var_text env s) v), None, buf')"
        "length buf' = length buf" "take (length w + length (replaced (var_text env s) v)) buf' = w @ replaced (var_text env s) v"
        "length (replaced (var_text env s) v) \<le> length v + 1"
      using preprocess_name_ok [OF assms, of out buf w v] Nil.prems v Some by auto
    have "\<not> is_word 0" using is_word_nonzero by blast
    then have "preprocess_loop env s [0] out (Some (length w)) buf
        = preprocess_loop env s [0] (length w + length (replaced (var_text env s) v)) None buf'"
      using Nil.prems(2) Some by (intro preprocess_end [OF buf'(1)]) simp_all
    then show ?thesis
      using preprocess_nul [OF buf'(3), of env s] Nil.prems Some buf'(2,4) replaced_nonzero [OF assms v] by simp
  qed
next
  case (Cons c cs)
  have c: "c \<noteq> 0" "0 \<notin> set cs" and room: "out < length buf" using Cons.prems(4,6) by auto
  let ?P = "\<lambda>t. \<exists>buf'. t = Some buf' \<and> length buf' = length buf \<and> holds_text buf' (w @ expand (var_text env s) pend (c # cs))"
  have step: "?P (preprocess_loop env s (cs @ [0]) o1 (map_option (\<lambda>_. length w1) pend1) b1)"
    if "take o1 b1 = w1 @ raw pend1" "length (w1 @ raw pend1) = o1" "0 \<notin> set w1" "\<forall>v. pend1 = Some v \<longrightarrow> (\<forall>c\<in>set v. is_word c)"
      "o1 + length cs + 2 \<le> length b1" "length b1 = length buf"
      "w1 @ expand (var_text env s) pend1 cs = w @ expand (var_text env s) pend (c # cs)" for o1 w1 pend1 b1
    using Cons.IH [OF that(1) that(2) [symmetric] that(3) c(2) that(4,5)] that(6,7) by simp
  show ?case
  proof (cases pend)
    case None
    have w: "take out buf = w" "length w = out" using Cons.prems(1,2) None by simp_all
    show ?thesis
    proof (cases "c = 36")
      case True
      have "?P (preprocess_loop env s (cs @ [0]) (Suc out) (map_option (\<lambda>_. length w) (Some ([] :: byte list))) (buf[out := 36]))"
        using take_write [OF w room, of 36] w Cons.prems(3,6) c None True by (intro step) simp_all
      then show ?thesis using None True room w by (simp add: preprocess_dollar)
    next
      case False
      have "?P (preprocess_loop env s (cs @ [0]) (Suc out) (map_option (\<lambda>_. length (w @ [c])) (None :: byte list option)) (buf[out := c]))"
        using take_write [OF w room, of c] w Cons.prems(3,6) c None False by (intro step [of _ _ "w @ [c]"]) simp_all
      then show ?thesis using None False room c by (simp add: preprocess_plain)
    qed
  next
    case (Some v)
    have v: "0 \<notin> set v" using Cons.prems(5) Some is_word_nonzero by blast
    have w: "take out buf = w @ 36 # v" "length (w @ 36 # v) = out" using Cons.prems(1,2) Some by simp_all
    consider "c = 36" | "is_word c" | "c \<noteq> 36" "\<not> is_word c" by blast
    then show ?thesis
    proof cases
      case 1
      have "?P (preprocess_loop env s (cs @ [0]) (Suc out) (map_option (\<lambda>_. length (w @ 36 # v)) (Some ([] :: byte list))) (buf[out := 36]))"
        using take_write [OF w room, of 36] w(2) Cons.prems(3,6) v Some 1 by (intro step) simp_all
      then show ?thesis using Some 1 room w(2) by (simp add: preprocess_dollar)
    next
      case 2
      have "?P (preprocess_loop env s (cs @ [0]) (Suc out) (map_option (\<lambda>_. length w) (Some (v @ [c]))) (buf[out := c]))"
        using take_write [OF w room, of c] w(2) Cons.prems(3,5,6) Some 2 is_word_nonzero(2) [OF 2] by (intro step) simp_all
      then show ?thesis using Some 2 room by (simp add: preprocess_word)
    next
      case 3
      define r where "r = replaced (var_text env s) v"
      define o' where "o' = length w + length r"
      obtain buf' where buf': "preprocess_name env s (length w) out buf = Some (o', None, buf')"
          "length buf' = length buf" "take o' buf' = w @ r" "length r \<le> length v + 1"
        using preprocess_name_ok [OF assms w(1) room v] w(2) by (auto simp: r_def o'_def)
      have o': "length (w @ r) = o'" "o' < length buf'" "o' + length cs + 3 \<le> length buf"
        using buf'(2,4) w(2) Cons.prems(6) by (simp_all add: o'_def)
      have "preprocess_loop env s (c # cs @ [0]) out (Some (length w)) buf = preprocess_loop env s (c # cs @ [0]) o' None buf'"
        using w(2) 3 by (intro preprocess_end [OF buf'(1)]) simp_all
      also have "\<dots> = preprocess_loop env s (cs @ [0]) (Suc o') None (buf'[o' := c])"
        using 3 c o' by (intro preprocess_plain) simp_all
      finally have run: "preprocess_loop env s ((c # cs) @ [0]) out (map_option (\<lambda>_. length w) pend) buf = \<dots>" using Some by simp
      have "0 \<notin> set r" using replaced_nonzero [OF assms v] by (simp add: r_def)
      then have "?P (preprocess_loop env s (cs @ [0]) (Suc o') (map_option (\<lambda>_. length (w @ r @ [c])) (None :: byte list option)) (buf'[o' := c]))"
        using take_write [OF buf'(3) o'(1,2), of c] o' Cons.prems(3) Some 3 c buf'(2) by (intro step) (simp_all add: r_def [symmetric])
      then show ?thesis unfolding run by simp
    qed
  qed
qed

text \<open>C16: variables in lines.  When no value is longer than its variable's name with the dollar sign, \<open>cmd_preprocess\<close> stays in the buffer
  of two bytes more than the line, which its callers allocate, and leaves the line with every \<open>$name\<close> of a variable replaced by its value
  and all else as it was; a name right before another dollar sign is kept.\<close>

theorem cmd_preprocess_expands:
  assumes "short_vars env s" "0 \<notin> set t" "length buf = length t + 2"
  shows "\<exists>buf'. cmd_preprocess env s buf t = Some buf' \<and> length buf' = length buf \<and> holds_text buf' (expand (var_text env s) None t)"
  using preprocess_loop_ok [OF assms(1), of 0 buf "[]" None t] assms(2,3) by (simp add: cmd_preprocess_def)

text \<open>An environment in which nothing happens, for examples, and a console whose variable \<open>a\<close> has the value \<open>7\<close>.\<close>

definition quiet_env :: cmdenv where
  "quiet_env =
     \<lparr>ev_call = (\<lambda>f argv p s. (0, s)), ev_script = (\<lambda>argv s. (None, s)), ev_calc = (\<lambda>t s. (0, s)), ev_vrc = (\<lambda>f a s. s), ev_file = (\<lambda>_. None),
      ev_lap = 0, ev_atof = (\<lambda>_. 0), ev_show = (\<lambda>_. []), ev_printf = (\<lambda>_. []), ev_circut = 0, ev_build = [], ev_junk = (\<lambda>_. 7)\<rparr>"

definition cvar_seven :: cvar where "cvar_seven = \<lparr>cv_type = cvar_string, cv_name = [97], cv_v = 6, cv_vrc = None\<rparr>"

definition console_seven :: console where
  "console_seven = co_put 6 (VString [55]) (console_static\<lparr>co_cvars := the (CvarAdd [97] 6 cvar_string cvars_empty)\<rparr>)"

lemma console_seven:
  "cvars_ok (co_cvars console_seven)" "CvarFind (co_cvars console_seven) [97] = Some (Some cvar_seven)"
  "CvarFind (co_cvars console_seven) n = Some (Some cv) \<Longrightarrow> cv = cvar_seven" "co_heap console_seven 6 = Some (VString [55])"
proof -
  have "cvars_ok cvars_empty" by (simp add: cvars_ok_def cvars_empty_def)
  from CvarAddVRC_ok [OF this, of "[97]" 6 cvar_string None] show
    "cvars_ok (co_cvars console_seven)" "CvarFind (co_cvars console_seven) [97] = Some (Some cvar_seven)"
    by (auto simp: console_seven_def co_put_def CvarAdd_def cvar_seven_def)
  show "co_heap console_seven 6 = Some (VString [55])" by (simp add: console_seven_def co_put_def)
  assume "CvarFind (co_cvars console_seven) n = Some (Some cv)"
  then have "find (\<lambda>cv. strcmp (cv_name cv) n = 0) ((replicate CVAR_BUCKETS [])[bucket [97] := [cvar_seven]] ! bucket n) = Some cv"
    using bucket_less [of "[97]"] bucket_less [of n]
    by (simp add: console_seven_def co_put_def CvarAdd_def CvarAddVRC_def cvars_empty_def aread_def awrite_def CvarFind_def cvar_seven_def Let_def)
  then show "cv = cvar_seven"
    using bucket_less [of "[97]"] bucket_less [of n] by (cases "bucket n = bucket [97]") (simp_all split: if_splits)
qed

text \<open>\<open>$a b\<close> is \<open>7 b\<close>.\<close>

theorem cmd_preprocess_expands_witness:
  "\<exists>buf'. cmd_preprocess quiet_env console_seven [7, 7, 7, 7, 7, 7] [36, 97, 32, 98] = Some buf' \<and> holds_text buf' [55, 32, 98]"
proof -
  have seven: "cvar_text (ev_printf quiet_env) console_seven cvar_seven = Some [55]"
    using console_seven(4) by (simp add: cvar_text_def cvar_seven_def)
  then have "var_text quiet_env console_seven [97] = Some [55]" by (simp add: var_text_def console_seven(2))
  moreover have "short_vars quiet_env console_seven"
    unfolding short_vars_def using console_seven(1,3) seven by force
  ultimately show ?thesis using cmd_preprocess_expands [of quiet_env console_seven "[36, 97, 32, 98]" "[7, 7, 7, 7, 7, 7]"]
    by (auto simp: replaced_def is_word_def is_digit_def)
qed

text \<open>A longer value is written behind the end of the buffer.\<close>

lemma preprocess_words:
  "\<forall>c\<in>set v. is_word c \<Longrightarrow> take out buf = w \<Longrightarrow> length w = out \<Longrightarrow> out + length v \<le> length buf \<Longrightarrow>
     \<exists>buf'. preprocess_loop env s (v @ cs) out (Some d) buf = preprocess_loop env s cs (out + length v) (Some d) buf'
       \<and> length buf' = length buf \<and> take (out + length v) buf' = w @ v"
proof (induction v arbitrary: out buf w)
  case (Cons c v)
  have "\<exists>buf'. preprocess_loop env s (v @ cs) (Suc out) (Some d) (buf[out := c]) = preprocess_loop env s cs (Suc out + length v) (Some d) buf'
      \<and> length buf' = length (buf[out := c]) \<and> take (Suc out + length v) buf' = (w @ [c]) @ v"
    using Cons.prems take_write [of out buf w c] by (intro Cons.IH) simp_all
  then show ?case using Cons.prems by (simp add: preprocess_word)
qed auto

lemma cmd_preprocess_overflow:
  assumes "CvarFind (co_cvars s) w = Some (Some cv)" "cvar_text (ev_printf env) s cv = Some t" "\<forall>c\<in>set w. is_word c"
    and "length buf = length (36 # w) + 2" "length (36 # w) + 2 \<le> length t"
  shows "cmd_preprocess env s buf (36 # w) = None"
proof -
  have nz: "0 \<notin> set w" using assms(3) is_word_nonzero by blast
  have start: "take 1 (buf[0 := 36]) = [36]" using take_write [of 0 buf "[]" 36] assms(4) by simp
  obtain buf' where run: "preprocess_loop env s (w @ [0]) 1 (Some 0) (buf[0 := 36]) = preprocess_loop env s [0] (1 + length w) (Some 0) buf'"
      "length buf' = length buf" "take (1 + length w) buf' = 36 # w"
    using preprocess_words [OF assms(3) start, of env s "[0]" 0] assms(4) by auto
  obtain pad where pad: "buf'[1 + length w := 0] = 36 # w @ 0 # pad"
    using run(2,3) assms(4) by (metis append_Cons upd_conv_take_nth_drop less_add_same_cancel1 length_Cons plus_1_eq_Suc zero_less_numeral)
  have "length pad = 1" using arg_cong [OF pad, of length] run(2) assms(4) by simp
  then have "write_at (36 # w @ 0 # pad) 0 (t @ [0]) = None" using assms(5) by (simp add: write_at_def)
  then have "preprocess_name env s 0 (1 + length w) buf' = None"
    using run(2) assms(1,2,4) by (simp add: preprocess_name_def awrite_def pad [simplified] takeWhile_zero nz)
  moreover have "\<not> is_word 0" using is_word_nonzero by blast
  ultimately have "preprocess_loop env s [0] (1 + length w) (Some 0) buf' = None" by (simp add: preprocess_loop.simps)
  then show ?thesis using assms(4) run(1) by (simp add: cmd_preprocess_def preprocess_dollar)
qed

section \<open>The arguments of a line\<close>

lemma takeWhile_whole: "0 \<notin> set t \<Longrightarrow> takeWhile (\<lambda>c. c \<noteq> 0) t = t" for t :: "byte list"
  by (induction t) auto

lemma new_text_ok:
  assumes "length t < n"
  shows "\<exists>b. new_text env t n = Some b \<and> holds_text b (takeWhile (\<lambda>c. c \<noteq> 0) t)"
proof -
  let ?u = "takeWhile (\<lambda>c. c \<noteq> 0) t"
  have "0 \<notin> set ?u" using set_takeWhileD by fastforce
  moreover have "\<exists>r. t @ [0] = ?u @ 0 # r"
  proof (cases "0 \<in> set t")
    case True
    then obtain y z where "t = y @ 0 # z" "0 \<notin> set y" by (meson split_list_first)
    then show ?thesis by (simp add: takeWhile_zero)
  next
    case False
    then show ?thesis by (simp add: takeWhile_whole)
  qed
  ultimately have "holds_text (t @ [0]) ?u" unfolding holds_text_alt by blast
  moreover have "length ?u < n" using length_takeWhile_le [of "\<lambda>c. c \<noteq> 0" t] assms by linarith
  ultimately show ?thesis using c_strcpy_text [of "t @ [0]" ?u "c_malloc (ev_junk env) n"] by (auto simp: new_text_def)
qed

lemma new_text_text: "0 \<notin> set t \<Longrightarrow> length t < n \<Longrightarrow> \<exists>b. new_text env t n = Some b \<and> holds_text b t"
  using new_text_ok [of t n env] by (simp add: takeWhile_whole)

lemma line_args_lexes:
  assumes "holds_text blk t" "length (tokens t) < MAX_ARGC"
  shows "\<exists>post. line_args blk = Some (length (tokens t), map Some (tokens t) @ [None], post, unmatched t)
     \<and> (post = None \<longleftrightarrow> remainder t = None) \<and> (\<forall>b r. post = Some b \<longrightarrow> remainder t = Some r \<longrightarrow> holds_text b r)"
proof -
  obtain post blk' argv where out: "argtok (replicate MAX_ARGC ANull) (Some blk) MAX_ARGC = Some (length (tokens t), post, blk', argv, unmatched t)"
      "length (tokens t) < length argv" "map (\<lambda>k. arg_text blk' (argv ! k)) [0..<length (tokens t)] = map Some (tokens t)"
      "argv ! length (tokens t) = ANull" "post = None \<longleftrightarrow> remainder t = None"
      "\<forall>p r. post = Some p \<longrightarrow> remainder t = Some r \<longrightarrow> holds_text (drop p blk') r"
    using argtok_lexes [OF assms(1), of "replicate MAX_ARGC ANull"] assms(2) by (auto simp: argtok_gives_def)
  have "take (length (tokens t) + 1) argv = map (\<lambda>k. argv ! k) [0..<length (tokens t)] @ [ANull]"
    using out(2,4) by (intro nth_equalityI) (auto simp: nth_append less_Suc_eq)
  then have "map (arg_text blk') (take (length (tokens t) + 1) argv) = map Some (tokens t) @ [None]"
    using out(3) by (simp add: o_def)
  then show ?thesis using out(1,5,6) by (auto simp: line_args_def)
qed

section \<open>Quoted lines\<close>

definition plain_name :: "byte list \<Rightarrow> bool" where
  "plain_name cmd \<longleftrightarrow> cmd \<noteq> [] \<and> hd cmd \<noteq> 35 \<and> hd cmd \<noteq> 64 \<and> 0 \<notin> set cmd"

lemma CmdExecD_one_quoted:
  assumes "holds_text blk (quote_line (cmd # args))" "length args + 1 < MAX_ARGC" "plain_name cmd"
  shows "CmdExecD_one env ret blk server sc s =
     (case CmdAliasFind s cmd of
        Some str \<Rightarrow> Some (RunAlias (case args of [] \<Rightarrow> str | a # _ \<Rightarrow> str @ 32 # a), None, s)
      | None \<Rightarrow>
          Option.bind
            (case CmdFind s cmd of
               Some pc \<Rightarrow> run_command env ret pc (length args + 1) (map Some (cmd # args) @ [None]) server sc s
             | None \<Rightarrow>
                 (case ev_script env (map Some (cmd # args) @ [None]) s of
                    (Some r, s) \<Rightarrow> Some (Result r, s)
                  | (None, s) \<Rightarrow> run_cvar env ret cmd (map Some (cmd # args) @ [None]) s))
            (\<lambda>(act, s). Some (act, None, s)))"
proof -
  define av n where "av = map Some (cmd # args) @ [None]" and "n = length args + 1"
  have "line_args blk = Some (n, av, None, False)"
    using line_args_lexes [OF assms(1)] assms(2) by (auto simp: tokens_quoted av_def n_def)
  moreover have "at_sign cmd n av = (cmd, n, av)" using assms(3) by (simp add: at_sign_def plain_name_def)
  moreover have "aread av 0 = Some (Some cmd)" by (simp add: aread_def av_def)
  moreover have "aread av 1 = Some (case args of [] \<Rightarrow> None | a # _ \<Rightarrow> Some a)"
    by (simp add: aread_def av_def split: list.split)
  ultimately show ?thesis unfolding av_def [symmetric] n_def [symmetric] using assms(3)
    by (cases "CmdAliasFind s cmd") (simp_all add: CmdExecD_one_def plain_name_def split: list.split)
qed

text \<open>The command of the name is one of this file, and no alias hides it.\<close>

definition runs :: "console \<Rightarrow> byte list \<Rightarrow> builtin \<Rightarrow> bool" where
  "runs s cmd b \<longleftrightarrow> CmdAliasFind s cmd = None \<and> (\<exists>c. CmdFind s cmd = Some c \<and> cm_proc c = Builtin b \<and> cm_type c \<noteq> 2)"

lemma CmdExec_builtin:
  assumes "runs s cmd b" "plain_name cmd" "\<forall>a\<in>set args. 0 \<notin> set a" "length args + 1 < MAX_ARGC"
    and "run_builtin env b (length args + 1) (map Some (cmd # args) @ [None]) s = Some (Result r, s')"
  shows "CmdExec env (quote_line (cmd # args)) s = Some (Some (r, s'))"
proof -
  have "0 \<notin> set (quote_line (cmd # args))" using assms(2,3) by (intro quote_line_text) (auto simp: plain_name_def)
  then obtain blk where blk: "new_text env (quote_line (cmd # args)) (length (quote_line (cmd # args)) + 2) = Some blk"
      "holds_text blk (quote_line (cmd # args))"
    using new_text_text [of "quote_line (cmd # args)" "length (quote_line (cmd # args)) + 2" env] by auto
  have "CmdExecD_one env 0 blk False None s = Some (Result r, None, s')"
    using assms(1,5) by (auto simp: CmdExecD_one_quoted [OF blk(2) assms(4,2)] runs_def run_command_def simp del: list.map)
  then show ?thesis using blk(1) by (simp add: CmdExec_def cmd_run.simps)
qed

lemma names_plain: "plain_name (ascii ''set'')" "plain_name (ascii ''alias'')"
  by (simp_all add: plain_name_def ascii_def)


text \<open>A console with the one command.\<close>

lemma one_command:
  "runs (CmdAdd n (Builtin b) console_static) n b" "cvars_ok (co_cvars (CmdAdd n (Builtin b) console_static))"
  "co_aliasnest (CmdAdd n (Builtin b) console_static) = 0" "tree_ok (co_aliases (CmdAdd n (Builtin b) console_static))"
  "CvarFind (co_cvars (CmdAdd n (Builtin b) console_static)) m = Some None" if "0 \<notin> set n"
  using that bucket_less [of m] strcmp_order(1) [of n n]
  by (simp_all add: runs_def CmdAliasFind_def CmdFind_def CmdAdd_def console_static_def CvarFind_def aread_def)
    (simp_all add: cvars_empty_def)


section \<open>Aliases\<close>

lemma args_from_some: "args_from i (length args) (map Some args @ [None]) = Some (join_args (drop i args))"
proof -
  have "take (length args) (map Some args @ [None]) = map Some args" by simp
  moreover have "map the (drop i (map Some args)) = drop i args" by (simp add: drop_map o_def)
  ultimately show ?thesis by (simp add: args_from_def)
qed

text \<open>C25: an alias stands for its text.  When \<open>alias\<close> is executed with a name and a text in quotes, nothing but the alias changes, and executing
  the name then is executing the text, one level deeper, as long as the aliases are not nested too deeply.\<close>

theorem CmdExec_alias:
  assumes "runs s (ascii ''alias'') Alias" "tree_ok (co_aliases s)" "plain_name name" "0 \<notin> set str" "co_aliasnest s < MAX_ALIAS_NESTS"
  shows "CmdExec env (quote_line [ascii ''alias'', name, str]) s = Some (Some (1, CmdAliasAdd name str s))
     \<and> CmdExec env (quote_line [name]) (CmdAliasAdd name str s) =
         map_option (map_option (\<lambda>(r, s). (r, s\<lparr>co_aliasnest := co_aliasnest s - 1\<rparr>)))
           (CmdExec env str (CmdAliasAdd name str s\<lparr>co_aliasnest := co_aliasnest s + 1\<rparr>))"
proof -
  let ?s = "CmdAliasAdd name str s"
  have nz: "0 \<notin> set name" using assms(3) by (simp add: plain_name_def)
  have "args_from 2 3 [Some (ascii ''alias''), Some name, Some str, None] = Some str"
    using args_from_some [of 2 "[ascii ''alias'', name, str]"] by (simp add: numeral_3_eq_3)
  then have "cmd_alias 3 [Some (ascii ''alias''), Some name, Some str, None] s = Some (1, ?s)" by (simp add: cmd_alias_def aread_def)
  then have "run_builtin env Alias 3 [Some (ascii ''alias''), Some name, Some str, None] s = Some (Result 1, ?s)" by (simp add: run_builtin_def)
  then have first: "CmdExec env (quote_line [ascii ''alias'', name, str]) s = Some (Some (1, ?s))"
    using nz assms(4) by (intro CmdExec_builtin [OF assms(1) names_plain(2)]) (simp_all add: MAX_ARGC_def numeral_3_eq_3)
  have "0 \<notin> set (quote_line [name])" using nz by (intro quote_line_text) simp
  then obtain blk where blk: "new_text env (quote_line [name]) (length (quote_line [name]) + 2) = Some blk" "holds_text blk (quote_line [name])"
    using new_text_text [of "quote_line [name]" "length (quote_line [name]) + 2" env] by auto
  obtain b where b: "new_text env str (length str + 2) = Some b" using new_text_text [OF assms(4), of "length str + 2" env] by auto
  have "CmdAliasFind ?s name = Some str"
    using aliases.look_add [OF assms(2) nz nz, of str] by (simp add: CmdAliasFind_def CmdAliasAdd_def)
  then have one: "CmdExecD_one env 0 blk False None ?s = Some (RunAlias str, None, ?s)"
    using CmdExecD_one_quoted [OF blk(2) _ assms(3)] by (simp add: MAX_ARGC_def)
  have nest: "co_aliasnest ?s = co_aliasnest s" by (simp add: CmdAliasAdd_def)
  let ?run = "cmd_run env (JLine 0 b False None) (?s\<lparr>co_aliasnest := co_aliasnest s + 1\<rparr>)"
  have "cmd_run env (JLine 0 blk False None) ?s = map_option (map_option (\<lambda>(r, s). (r, s\<lparr>co_aliasnest := co_aliasnest s - 1\<rparr>))) ?run"
  proof (cases ?run)
    case None
    then show ?thesis using assms(5) by (subst cmd_run.simps) (simp add: one b [simplified] nest)
  next
    case (Some r)
    then show ?thesis using assms(5) by (subst cmd_run.simps, cases r) (simp_all add: one b [simplified] nest split: prod.split)
  qed
  then show ?thesis using first blk(1) b by (simp add: CmdExec_def nest)
qed

theorem CmdExec_alias_witness:
  "CmdExec quiet_env (quote_line [[97]]) (CmdAliasAdd [97] [98] (CmdAdd (ascii ''alias'') (Builtin Alias) console_static)) =
     map_option (map_option (\<lambda>(r, s). (r, s\<lparr>co_aliasnest := co_aliasnest s - 1\<rparr>)))
       (CmdExec quiet_env [98] (CmdAliasAdd [97] [98] (CmdAdd (ascii ''alias'') (Builtin Alias) console_static)\<lparr>co_aliasnest := 0 + 1\<rparr>))"
proof -
  have n: "0 \<notin> set (ascii ''alias'')" by (simp add: ascii_def)
  have "plain_name [97]" "0 \<notin> set [98 :: byte]" by (simp_all add: plain_name_def)
  then show ?thesis
    using CmdExec_alias [OF one_command(1) [OF n] one_command(4) [OF n], of "[97]" "[98]" quiet_env] one_command(3) [OF n] by (simp add: MAX_ALIAS_NESTS_def)
qed

section \<open>The tables\<close>

lemma all_free_true: "\<forall>x\<in>set xs. 0 \<notin> set (fst x) \<Longrightarrow> all_free (\<lambda>t n. True) add xs t"
  by (induction xs arbitrary: t) auto

lemma all_free_distinct:
  "\<forall>x\<in>set xs. 0 \<notin> set (fst x) \<and> tree_find t (fst x) = None \<Longrightarrow> distinct (map fst xs) \<Longrightarrow> tree_ok t
     \<Longrightarrow> all_free (\<lambda>t n. tree_find t n = None) tree_put xs t"
proof (induction xs arbitrary: t)
  case (Cons x xs)
  obtain n v where x: "x = (n, v)" by (cases x)
  have "tree_ok (tree_put n v t)" using Cons.prems x by (intro tree_put_ok) auto
  moreover have "\<forall>y\<in>set xs. 0 \<notin> set (fst y) \<and> tree_find (tree_put n v t) (fst y) = None"
    using Cons.prems x tree_find_put [of n] by force
  ultimately show ?case using Cons.IH [of "tree_put n v t"] Cons.prems x by simp
qed simp

text \<open>The tables of the console are maps.  Whatever is added, names in any order and with any collisions of the hash, a look-up in the tree of aliases
  and in the table of variables gives what was added last under the name; so it is in the tree of commands as long as no name is added twice.\<close>

theorem console_tables:
  assumes "\<forall>x\<in>set as. 0 \<notin> set (fst x)" "\<forall>x\<in>set vs. 0 \<notin> set (fst x)" "\<forall>x\<in>set cs. 0 \<notin> set (fst x)" "distinct (map fst cs)" "0 \<notin> set m"
  shows "tree_find (add_all tree_set as NLeaf) m = map_of (rev as) m \<and> cvar_look (add_all cvar_put vs cvars_empty) m = map_of (rev vs) m
     \<and> tree_find (add_all tree_put cs NLeaf) m = map_of cs m"
proof -
  have "all_free (\<lambda>t n. tree_find t n = None) tree_put cs NLeaf" using assms(3,4) by (intro all_free_distinct) auto
  then have "tree_find (add_all tree_put cs NLeaf) m = map_of (rev cs) m"
    using commands.look_all [of NLeaf cs m] assms(5) by (auto split: option.split)
  moreover have "map_of (rev cs) = map_of cs" using assms(4) by (intro map_of_inject_set [THEN iffD2]) (auto simp: rev_map [symmetric])
  moreover have "cvar_look cvars_empty m = None"
    using bucket_less [of m] by (simp add: cvar_look_def CvarFind_def cvars_empty_def aread_def)
  moreover have "tree_find (add_all tree_set as NLeaf) m = map_of (rev as) m"
    using aliases.look_all [OF _ all_free_true [OF assms(1)] assms(5), of NLeaf] by (simp split: option.split)
  moreover have "cvar_look (add_all cvar_put vs cvars_empty) m = map_of (rev vs) m"
    using variables.look_all [OF _ all_free_true [OF assms(2)] assms(5), of cvars_empty] calculation(3) by (simp split: option.split)
  ultimately show ?thesis by simp
qed

theorem console_tables_witness:
  "tree_find (add_all tree_set [([97], [1]), ([98], [2]), ([97], [3])] NLeaf) [97] = Some [3 :: byte]
   \<and> cvar_look (add_all cvar_put [([97], cvar_int, 5, None)] cvars_empty) [97] = Some (cvar_int, 5, None)
   \<and> tree_find (add_all tree_put [([98], 0 :: nat), ([97], 1)] NLeaf) [97] = Some 1"
  using console_tables [of "[([97], [1 :: byte]), ([98], [2]), ([97], [3])]" "[([97], cvar_int, 5, None)]" "[([98], 0 :: nat), ([97], 1)]" "[97]"]
  by simp

section \<open>Starting\<close>

lemma CmdPrint_ok: "co_curline s < length (co_buffer s) \<Longrightarrow> length (co_buffer s) = CB_LINES \<Longrightarrow>
    \<exists>s'. CmdPrint t s = Some s' \<and> co_curline s' < length (co_buffer s') \<and> length (co_buffer s') = CB_LINES
      \<and> co_cmds s' = co_cmds s \<and> co_aliases s' = co_aliases s \<and> co_cvars s' = co_cvars s"
  by (simp add: CmdPrint_def awrite_def next_line_def CB_LINES_def)

lemma co_cvar_add_ok:
  "cvars_ok (co_cvars s) \<Longrightarrow> 0 \<notin> set n \<Longrightarrow> \<exists>t. co_cvar_add n a ty s = Some (s\<lparr>co_cvars := t\<rparr>) \<and> cvars_ok t"
  using CvarAddVRC_ok [of "co_cvars s" n a ty None] by (auto simp: co_cvar_add_def CvarAdd_def)

lemma fold_CmdAdd:
  "co_cmds (fold (\<lambda>(n, b). CmdAdd n (Builtin b)) xs s) =
     add_all tree_put (map (\<lambda>(n, b). (n, \<lparr>cm_proc = Builtin b, cm_type = 0, cm_param = None\<rparr>)) xs) (co_cmds s)"
  "co_aliases (fold (\<lambda>(n, b). CmdAdd n (Builtin b)) xs s) = co_aliases s" "co_cvars (fold (\<lambda>(n, b). CmdAdd n (Builtin b)) xs s) = co_cvars s"
  "co_buffer (fold (\<lambda>(n, b). CmdAdd n (Builtin b)) xs s) = co_buffer s" "co_curline (fold (\<lambda>(n, b). CmdAdd n (Builtin b)) xs s) = co_curline s"
  by (induction xs arbitrary: s) (auto simp: add_all_def CmdAdd_def)

text \<open>After \<open>CmdInit\<close> every command of this file runs under its name.\<close>

lemma CmdInit_runs: "\<exists>s. CmdInit env height console_static = Some s \<and> cvars_ok (co_cvars s) \<and> (\<forall>(n, b)\<in>set builtins. runs s n b)"
proof -
  define s0 where "s0 = fold (\<lambda>(n, b). CmdAdd n (Builtin b)) builtins (console_static\<lparr>co_height := height\<rparr>)"
  have s0: "cvars_ok (co_cvars s0)" "co_curline s0 < length (co_buffer s0)" "length (co_buffer s0) = CB_LINES" "co_aliases s0 = NLeaf"
    by (simp_all add: s0_def fold_CmdAdd) (simp_all add: console_static_def CB_LINES_def)
  define cs where "cs = map (\<lambda>(n, b). (n, \<lparr>cm_proc = Builtin b, cm_type = 0, cm_param = None :: nat option\<rparr>)) builtins"
  have names: "map fst cs = map fst builtins" by (simp add: cs_def o_def case_prod_unfold)
  have d: "distinct (map fst cs)" unfolding names by (simp add: builtins_def ascii_def)
  have nz: "\<forall>x\<in>set cs. 0 \<notin> set (fst x)" by (simp add: cs_def builtins_def ascii_def)
  have "all_free (\<lambda>t n. tree_find t n = None) tree_put cs NLeaf" using nz d by (intro all_free_distinct) auto
  then have look: "tree_find (add_all tree_put cs NLeaf) n = map_of (rev cs) n" if "0 \<notin> set n" for n
    using commands.look_all [of NLeaf cs n] that by (auto split: option.split)
  have found: "CmdFind s0 n = Some \<lparr>cm_proc = Builtin b, cm_type = 0, cm_param = None\<rparr>" if "(n, b) \<in> set builtins" for n b
  proof -
    have n: "(n, \<lparr>cm_proc = Builtin b, cm_type = 0, cm_param = None\<rparr>) \<in> set cs" using that by (force simp: cs_def)
    then have "map_of (rev cs) n = Some \<lparr>cm_proc = Builtin b, cm_type = 0, cm_param = None\<rparr>"
      using d by (intro map_of_is_SomeI) (auto simp: rev_map [symmetric])
    moreover have "0 \<notin> set n" using n nz by force
    ultimately show ?thesis using look by (simp add: CmdFind_def s0_def fold_CmdAdd cs_def [symmetric]) (simp add: console_static_def)
  qed
  obtain t1 where 1: "co_cvar_add (ascii ''cvar_echo'') a_cvar_echo cvar_int s0 = Some (s0\<lparr>co_cvars := t1\<rparr>)" "cvars_ok t1"
    using co_cvar_add_ok [OF s0(1)] by (force simp: ascii_def)
  obtain t2 where 2: "co_cvar_add (ascii ''cmd_echo'') a_cmd_echo cvar_int (s0\<lparr>co_cvars := t1\<rparr>) = Some (s0\<lparr>co_cvars := t2\<rparr>)" "cvars_ok t2"
    using co_cvar_add_ok [of "s0\<lparr>co_cvars := t1\<rparr>"] 1(2) by (force simp: ascii_def)
  obtain t3 where 3: "co_cvar_add (ascii ''console_mousewheelskip'') a_mousewheelskip cvar_int (s0\<lparr>co_cvars := t2\<rparr>) = Some (s0\<lparr>co_cvars := t3\<rparr>)" "cvars_ok t3"
    using co_cvar_add_ok [of "s0\<lparr>co_cvars := t2\<rparr>"] 2(2) by (force simp: ascii_def)
  obtain t4 where 4: "co_cvar_add (ascii ''console_pageskip'') a_pageskip cvar_int (s0\<lparr>co_cvars := t3\<rparr>) = Some (s0\<lparr>co_cvars := t4\<rparr>)" "cvars_ok t4"
    using co_cvar_add_ok [of "s0\<lparr>co_cvars := t3\<rparr>"] 3(2) by (force simp: ascii_def)
  obtain t5 where 5: "co_cvar_add (ascii ''console_undefinedecho'') a_undefinedecho cvar_int (s0\<lparr>co_cvars := t4\<rparr>) = Some (s0\<lparr>co_cvars := t5\<rparr>)" "cvars_ok t5"
    using co_cvar_add_ok [of "s0\<lparr>co_cvars := t4\<rparr>"] 4(2) by (force simp: ascii_def)
  obtain t6 where 6: "co_cvar_add (ascii ''cmdlog'') a_cmdlog cvar_int (s0\<lparr>co_cvars := t5\<rparr>) = Some (s0\<lparr>co_cvars := t6\<rparr>)" "cvars_ok t6"
    using co_cvar_add_ok [of "s0\<lparr>co_cvars := t5\<rparr>"] 5(2) by (force simp: ascii_def)
  obtain s1 where s1: "CmdPrint (ascii ''gltestplus running.'') (s0\<lparr>co_cvars := t6\<rparr>) = Some s1" "co_curline s1 < length (co_buffer s1)"
      "length (co_buffer s1) = CB_LINES" "co_cmds s1 = co_cmds s0" "co_aliases s1 = NLeaf" "co_cvars s1 = t6"
    using CmdPrint_ok [of "s0\<lparr>co_cvars := t6\<rparr>" "ascii ''gltestplus running.''"] s0 by auto
  obtain s2 where s2: "CmdPrint (ascii ''build: '' @ ev_build env) s1 = Some s2" "co_cmds s2 = co_cmds s0" "co_aliases s2 = NLeaf" "co_cvars s2 = t6"
    using CmdPrint_ok [OF s1(2,3)] s1(4-6) by metis
  have "CmdInit env height console_static = Some s2"
    by (simp add: CmdInit_def s0_def [symmetric] 1(1) 2(1) 3(1) 4(1) 5(1) 6(1) s1(1) s2(1))
  moreover have "runs s2 n b" if "(n, b) \<in> set builtins" for n b
    using found [OF that] s2 by (simp add: runs_def CmdAliasFind_def CmdFind_def)
  ultimately show ?thesis using s2(4) 6(2) by auto
qed

section \<open>Scrolling\<close>

lemma scroll_in_range:
  assumes "0 \<le> co_displine s" "co_displine s \<le> high" "scroll_top s = Some high" "co_int s a = Some skip" "0 \<le> sint skip"
  shows "scroll_up a s = Some s' \<Longrightarrow> 0 \<le> co_displine s' \<and> co_displine s' \<le> high"
    "scroll_down a s = Some s' \<Longrightarrow> 0 \<le> co_displine s' \<and> co_displine s' \<le> high"
  using assms by (auto simp: scroll_up_def scroll_down_def c_int_def bind_eq_Some_conv split: if_splits)

text \<open>A lone \<open>@\<close> stays the command, and its argument is there twice.\<close>

lemma at_sign_alone: "at_sign [64] 2 [Some [64], Some a, None] = ([64], 1, [Some a, Some a, None])"
  by (simp add: at_sign_def)

end
