(* ===== verification/Cmd_Ends.thy ===== *)
theory Cmd_Ends
  imports Cmd_Correct
begin

text \<open>
  Every line ends: aliases that call themselves, or each other, are cut off, and the commands of a line are finitely many.
\<close>

section \<open>The rest of a line\<close>

lemma push_arg_keeps: "push_arg a st = Some st' \<Longrightarrow> tk_blk st' = tk_blk st \<and> tk_escape st' = tk_escape st"
  by (auto simp: push_arg_def split: bind_splits)

lemma argtok_loop_rest:
  "tk_blk st = pre @ mark (tk_escape st) @ cs @ 0 # pad \<Longrightarrow> s = length pre + length (mark (tk_escape st)) \<Longrightarrow> 0 \<notin> set cs
     \<Longrightarrow> argtok_loop maxargs s st = Some (early, Some p, st') \<Longrightarrow> \<exists>r. holds_text (drop p (tk_blk st')) r \<and> length r < length cs"
proof (induction cs arbitrary: st pre pad s)
  case Nil
  have "aread (tk_blk st) s = Some 0" using Nil(1,2) by (simp add: aread_def nth_append)
  then show ?case using Nil(4) by (subst (asm) argtok_loop.simps) simp
next
  case (Cons c cs)
  have c: "c \<noteq> 0" "0 \<notin> set cs" using Cons.prems(3) by auto
  have get: "aread (tk_blk st) s = Some c" using Cons.prems(1,2) by (simp add: aread_def nth_append)
  have step: "\<exists>r. holds_text (drop p (tk_blk st')) r \<and> length r < Suc (length cs)"
    if "argtok_loop maxargs s1 st1 = Some (early, Some p, st')" "tk_blk st1 = pre1 @ mark (tk_escape st1) @ cs @ 0 # pad1"
      "s1 = length pre1 + length (mark (tk_escape st1))" for s1 st1 pre1 pad1
    using Cons.IH [OF that(2,3) c(2) that(1)] by auto
  have "\<exists>r. holds_text (drop p (tk_blk st')) r \<and> length r < Suc (length cs)"
  proof (cases "tk_escape st")
    case True
    have "memmove_down (tk_blk st) s = Some (pre @ c # cs @ 0 # 0 # pad)"
      using memmove_down_text [OF c(2,1), of pre 92 pad] Cons.prems(1,2) True by simp
    moreover define st1 where "st1 = st\<lparr>tk_escape := False, tk_blk := pre @ c # cs @ 0 # 0 # pad\<rparr>"
    ultimately have "argtok_loop maxargs s st1 = Some (early, Some p, st')"
      using Cons.prems(4) get c(1) True by (subst (asm) argtok_loop.simps) simp
    moreover have "tk_blk st1 = (pre @ [c]) @ cs @ 0 # 0 # pad" "tk_escape st1 = False" by (simp_all add: st1_def)
    ultimately show ?thesis using Cons.prems(2) True step [of s st1 "pre @ [c]" "0 # pad"] by simp
  next
    case plain: False
    have blk: "tk_blk st = pre @ c # cs @ 0 # pad" "s = length pre" using Cons.prems(1,2) plain by simp_all
    have nul: "awrite (tk_blk st) s 0 = Some ((pre @ [0]) @ cs @ 0 # pad)" using blk by (simp add: awrite_def list_update_append)
    have next': "\<exists>r. holds_text (drop p (tk_blk st')) r \<and> length r < Suc (length cs)"
      if "argtok_loop maxargs (s + 1) st1 = Some (early, Some p, st')" "tk_blk st1 = tk_blk st \<or> tk_blk st1 = (pre @ [0]) @ cs @ 0 # pad"
        "\<not> tk_escape st1" for st1
      using that blk step [OF that(1), of "pre @ [c]" pad] step [OF that(1), of "pre @ [0]" pad] by auto
    have escaped: "\<exists>r. holds_text (drop p (tk_blk st')) r \<and> length r < Suc (length cs)"
      if "argtok_loop maxargs (s + 1) st1 = Some (early, Some p, st')" "tk_blk st1 = tk_blk st" "c = 92" "tk_escape st1" for st1
      using that blk step [OF that(1), of pre pad] by auto
    have pushed: "\<exists>st1. push_arg a st = Some st1 \<and> f st1 = Some out" if "Option.bind (push_arg a st) f = Some out" for a f and out :: "bool \<times> nat option \<times> tok"
      using that by (cases "push_arg a st") auto
    note run = Cons.prems(4) [unfolded argtok_loop.simps [of maxargs s st] get bind.bind_lunit nul]
    consider "c = 92" | "c = 34" | "c \<noteq> 92" "c \<noteq> 34" "tk_inquote st \<or> c_isspace c" | "\<not> tk_inquote st" "c = 35" | "\<not> tk_inquote st" "c = 59"
      | "c \<noteq> 92" "c \<noteq> 34" "c \<noteq> 35" "c \<noteq> 59" "\<not> tk_inquote st" "\<not> c_isspace c" by blast
    then show ?thesis
    proof cases
      case 1
      show ?thesis
      proof (cases "tk_head st")
        case True
        then show ?thesis using run 1 plain escaped [of "st\<lparr>tk_escape := True\<rparr>"] by simp
      next
        case False
        then obtain y where "push_arg (AAt s) st = Some y" "argtok_loop maxargs (s + 1) (y\<lparr>tk_escape := True\<rparr>) = Some (early, Some p, st')"
          using run 1 plain by (auto split: if_splits simp: bind_eq_Some_conv)
        then show ?thesis using 1 escaped [of "y\<lparr>tk_escape := True\<rparr>"] push_arg_keeps [of "AAt s" st y] by simp
      qed
    next
      case 2
      then show ?thesis using run c plain
        by (auto split: if_splits dest!: pushed push_arg_keeps intro!: next')
    next
      case 3
      then show ?thesis using run c plain by (auto split: if_splits intro!: next' simp: c_isspace_def)
    next
      case 4
      then show ?thesis using run c plain by (simp split: if_splits)
    next
      case 5
      then have "holds_text (drop p (tk_blk st')) cs" using run c plain blk by (auto simp: holds_text_alt)
      then show ?thesis by auto
    next
      case 6
      then show ?thesis using run c plain by (auto split: if_splits dest!: pushed push_arg_keeps intro!: next')
    qed
  qed
  then show ?case by simp
qed

lemma line_args_rest:
  assumes "holds_text blk t" "line_args blk = Some (argc, argv, Some b, complain)"
  shows "\<exists>r. holds_text b r \<and> length r < length t"
proof -
  obtain pad where blk: "blk = t @ 0 # pad" "0 \<notin> set t" using assms(1) by (auto simp: holds_text_alt)
  let ?st = "\<lparr>tk_blk = blk, tk_argv = replicate MAX_ARGC ANull, tk_ret = 0, tk_inquote = False, tk_escape = False, tk_head = False\<rparr>"
  obtain ret blk' av p where "argtok (replicate MAX_ARGC ANull) (Some blk) MAX_ARGC = Some (ret, Some p, blk', av, complain)" "b = drop p blk'"
    using assms(2) by (auto simp: line_args_def bind_eq_Some_conv split: prod.splits)
  then obtain st where "argtok_loop MAX_ARGC 0 ?st = Some (False, Some p, st)" "b = drop p (tk_blk st)"
    by (auto simp: argtok_def bind_eq_Some_conv split: if_splits)
  then show ?thesis using argtok_loop_rest [of ?st "[]" t pad 0 MAX_ARGC False p st] blk by simp
qed

section \<open>What commands leave alone\<close>

definition keeps :: "console \<Rightarrow> console \<Rightarrow> bool" where
  "keeps s s' \<longleftrightarrow> co_aliasnest s' = co_aliasnest s \<and> co_cmds s' = co_cmds s"

lemma keeps_refl [simp]: "keeps s s" by (simp add: keeps_def)

lemma keeps_trans [trans]: "keeps a b \<Longrightarrow> keeps b c \<Longrightarrow> keeps a c" by (simp add: keeps_def)

lemma CmdPrint_keeps: "CmdPrint t s = Some s' \<Longrightarrow> keeps s s'"
  by (auto simp: CmdPrint_def next_line_def keeps_def bind_eq_Some_conv)

lemma cmd_cmdlist_int_keeps: "cmd_cmdlist_int t pat s = Some (n, s') \<Longrightarrow> keeps s s'"
  by (induction t arbitrary: s n s')
    (auto split: if_splits bind_splits dest!: CmdPrint_keeps, (meson keeps_trans)+)

lemma print_cvars_keeps: "print_cvars pat cvs n s = Some (m, s') \<Longrightarrow> keeps s s'"
  by (induction cvs arbitrary: n s) (auto simp: bind_eq_Some_conv split: if_splits intro: keeps_trans dest!: CmdPrint_keeps)

lemma listalias_keeps: "listalias t s = Some (n, s') \<Longrightarrow> keeps s s'"
  by (induction t arbitrary: s n s') (auto split: bind_splits dest!: CmdPrint_keeps, (meson keeps_trans)+)

text \<open>The other parts of the program do not touch the static counter of nested aliases, and register no commands while a command runs.\<close>

definition quiet :: "cmdenv \<Rightarrow> bool" where
  "quiet env \<longleftrightarrow> (\<forall>f argv p s. keeps s (snd (ev_call env f argv p s))) \<and> (\<forall>argv s. keeps s (snd (ev_script env argv s)))
     \<and> (\<forall>t s. keeps s (snd (ev_calc env t s))) \<and> (\<forall>f a s. keeps s (ev_vrc env f a s))"

lemma co_put_keeps [simp]: "keeps s (co_put a v s') = keeps s s'" by (simp add: keeps_def co_put_def)

lemma cvar_check_keeps: "quiet env \<Longrightarrow> keeps s s' \<Longrightarrow> keeps s (cvar_check env cv s')"
  by (auto simp: cvar_check_def quiet_def intro: keeps_trans split: option.split)

lemma cvar_assign_keeps: "quiet env \<Longrightarrow> keeps s s' \<Longrightarrow> keeps s (cvar_assign env cv t s')"
  unfolding cvar_assign_def quiet_def case_prod_unfold Let_def by (auto intro: keeps_trans split: cvartype.split)

lemma cmd_change_keeps: "quiet env \<Longrightarrow> cmd_change env u f argv s = Some s' \<Longrightarrow> keeps s s'"
  by (auto simp: cmd_change_def cvar_check_keeps split: option.splits if_splits bind_splits dest: CmdPrint_keeps)

lemma cmd_mul_keeps: "quiet env \<Longrightarrow> cmd_mul env n argv s = Some s' \<Longrightarrow> keeps s s'"
  by (auto simp: cmd_mul_def cvar_check_keeps split: option.splits if_splits bind_splits dest: CmdPrint_keeps)

lemma cmd_set_keeps: "quiet env \<Longrightarrow> cmd_set env n argv s = Some s' \<Longrightarrow> keeps s s'"
  by (auto simp: cmd_set_def cvar_assign_keeps co_cvar_add_def keeps_def co_put_def split: option.splits if_splits bind_splits
      dest: CmdPrint_keeps [unfolded keeps_def] cvar_assign_keeps [OF _ keeps_refl, unfolded keeps_def])

lemma run_builtin_keeps:
  assumes "quiet env" "run_builtin env b n argv s = Some (act, s')" "b \<noteq> Exec" "b \<noteq> Time"
  shows "keeps s s' \<and> (\<exists>r. act = Result r)"
proof (cases b)
  case Alias
  then show ?thesis using assms(2)
    by (auto simp: run_builtin_def cmd_alias_def bind_eq_Some_conv CmdAliasAdd_def split: if_splits option.splits
        intro: keeps_trans dest!: CmdPrint_keeps listalias_keeps) (simp_all add: keeps_def)
next
  case Cmdlist
  then show ?thesis using assms(2)
    by (auto simp: run_builtin_def cmd_cmdlist_def bind_eq_Some_conv split: if_splits intro: keeps_trans dest!: CmdPrint_keeps cmd_cmdlist_int_keeps)
next
  case Cvarlist
  then show ?thesis using assms(2)
    by (auto simp: run_builtin_def cmd_cvarlist_def bind_eq_Some_conv split: if_splits intro: keeps_trans dest!: CmdPrint_keeps print_cvars_keeps)
next
  case Memory
  then show ?thesis using assms(2)
    by (auto simp: run_builtin_def cmd_memory_def bind_eq_Some_conv dest!: CmdPrint_keeps intro: keeps_trans)
qed (use assms in \<open>auto simp: run_builtin_def cmd_echo_def cmd_toggle_def cmd_inc_def cmd_dec_def split: if_splits
    dest: CmdPrint_keeps cmd_change_keeps cmd_mul_keeps cmd_set_keeps\<close>)

text \<open>No command of the tree is \<open>exec\<close> or \<open>time\<close>, which run lines without counting them.\<close>

definition harmless :: "console \<Rightarrow> bool" where
  "harmless s \<longleftrightarrow> (\<forall>name c. CmdFind s name = Some c \<longrightarrow> cm_proc c \<noteq> Builtin Exec \<and> cm_proc c \<noteq> Builtin Time)"

lemma keeps_harmless: "keeps s s' \<Longrightarrow> harmless s \<Longrightarrow> harmless s'"
  by (simp add: keeps_def harmless_def CmdFind_def)

lemma run_command_keeps:
  assumes "quiet env" "run_command env ret pc argc argv server sc s = Some (act, s')" "cm_proc pc \<noteq> Builtin Exec" "cm_proc pc \<noteq> Builtin Time"
  shows "keeps s s' \<and> (\<exists>r. act = Result r)"
proof (cases "cm_proc pc")
  case (Builtin b)
  then show ?thesis using assms run_builtin_keeps [OF assms(1), of b argc argv s act s'] by (auto simp: run_command_def split: if_splits)
next
  case (Foreign f)
  then have "\<exists>p r. ev_call env f argv p s = (r, s') \<and> act = Result r \<or> s' = s \<and> act = Result ret"
    using assms(2) by (auto simp: run_command_def Let_def split: if_splits prod.splits)
  moreover have "keeps s (snd (ev_call env f argv p s))" for p using assms(1) by (simp add: quiet_def)
  ultimately show ?thesis by (metis keeps_refl snd_conv)
qed

lemma run_cvar_keeps:
  assumes "quiet env" "run_cvar env ret cmd argv s = Some (act, s')"
  shows "keeps s s' \<and> (\<exists>r. act = Result r)"
  using assms(2) cvar_check_keeps [OF assms(1)] cvar_assign_keeps [OF assms(1)]
  by (auto simp: run_cvar_def Let_def split: option.splits if_splits bind_splits prod.splits dest!: CmdPrint_keeps) (meson keeps_refl keeps_trans)+

lemma CmdExecD_one_keeps:
  assumes "quiet env" "harmless s" "CmdExecD_one env ret blk server sc s = Some (act, post, s')"
  shows "keeps s s'" "(\<exists>r. act = Result r) \<or> (\<exists>t. act = RunAlias t)" "\<exists>argc argv complain. line_args blk = Some (argc, argv, post, complain)"
proof -
  obtain argc argv p complain s1 a0 where 1: "line_args blk = Some (argc, argv, p, complain)" "aread argv 0 = Some a0"
      "(if complain then CmdPrint (ascii ''Double quotes(\") doesn'' @ 39 # ascii ''t match.'') s else Some s) = Some s1"
    using assms(3) by (auto simp: CmdExecD_one_def bind_eq_Some_conv split: prod.splits)
  have s1: "keeps s s1" using 1(3) CmdPrint_keeps by (auto split: if_splits)
  have "keeps s1 s' \<and> ((\<exists>r. act = Result r) \<or> (\<exists>t. act = RunAlias t)) \<and> post = p"
  proof (cases "\<exists>cmd. a0 = Some cmd \<and> cmd \<noteq> [] \<and> hd cmd \<noteq> 35")
    case False
    then show ?thesis using assms(3) 1 by (auto simp: CmdExecD_one_def split: option.splits)
  next
    case True
    then obtain cmd0 cmd n av where cmd: "a0 = Some cmd0" "cmd0 \<noteq> []" "hd cmd0 \<noteq> 35" "at_sign cmd0 argc argv = (cmd, n, av)"
      by (metis prod_cases3)
    note run = assms(3) [unfolded CmdExecD_one_def 1 bind.bind_lunit prod.case cmd(1) option.case]
    show ?thesis
    proof (cases "CmdAliasFind s1 cmd")
      case (Some str)
      then show ?thesis using run cmd by (auto split: bind_splits)
    next
      case None
      have end': "(case CmdFind s1 cmd of
            Some pc \<Rightarrow> run_command env ret pc n av server sc s1
          | None \<Rightarrow> (case ev_script env av s1 of (Some r, s) \<Rightarrow> Some (Result r, s) | (None, s) \<Rightarrow> run_cvar env ret cmd av s)) = Some (act, s')"
        and "post = p"
        using run cmd None by (auto simp: bind_eq_Some_conv split: prod.splits)
      moreover have "keeps s1 s' \<and> (\<exists>r. act = Result r)"
      proof (cases "CmdFind s1 cmd")
        case None
        obtain r s2 where script: "ev_script env av s1 = (r, s2)" by (metis surj_pair)
        then have "keeps s1 s2" using assms(1) by (metis quiet_def snd_conv)
        then show ?thesis using end' None script run_cvar_keeps [OF assms(1), of ret cmd av s2 act s']
          by (auto split: option.splits intro: keeps_trans)
      next
        case (Some pc)
        then have "cm_proc pc \<noteq> Builtin Exec" "cm_proc pc \<noteq> Builtin Time"
          using keeps_harmless [OF s1 assms(2)] by (auto simp: harmless_def)
        then show ?thesis using end' Some run_command_keeps [OF assms(1)] by simp
      qed
      ultimately show ?thesis by blast
    qed
  qed
  then show "keeps s s'" "(\<exists>r. act = Result r) \<or> (\<exists>t. act = RunAlias t)" "\<exists>argc argv complain. line_args blk = Some (argc, argv, post, complain)"
    using s1 keeps_trans 1(1) by blast+
qed

section \<open>Lines end\<close>

definition ends :: "console \<Rightarrow> (int \<times> console) option option \<Rightarrow> bool" where
  "ends s res \<longleftrightarrow> (\<exists>r. res = Some r \<and> (\<forall>n s'. r = Some (n, s') \<longrightarrow> keeps s s'))"

lemma cmd_run_ends:
  "quiet env \<Longrightarrow> harmless s \<Longrightarrow> holds_text blk t \<Longrightarrow> ends s (cmd_run env (JLine ret blk server sc) s)"
proof (induction "(MAX_ALIAS_NESTS - co_aliasnest s, length t)" arbitrary: s blk t ret server sc
    rule: wf_induct_rule [OF wf_lex_prod [OF wf_less_than wf_less_than]])
  case (1 s t blk ret server sc)
  note quiet = "1.prems"(1) and IH = "1.hyps" [OF _ "1.prems"(1)]
  show ?case
  proof (cases "CmdExecD_one env ret blk server sc s")
    case None
    then show ?thesis by (simp add: cmd_run.simps ends_def)
  next
    case (Some one)
    obtain act post s1 where one: "CmdExecD_one env ret blk server sc s = Some (act, post, s1)" using Some by (cases one) auto
    note kept = CmdExecD_one_keeps [OF quiet "1.prems"(2) one]
    have rest: "ends s (cmd_run env (JLine n b server sc) s2)" if "keeps s s2" "post = Some b" for n b s2
    proof -
      have s2: "keeps s s2" "post = Some b" by fact+
      obtain r where r: "holds_text b r" "length r < length t" using kept(3) s2(2) line_args_rest [OF "1.prems"(3)] by blast
      have "ends s2 (cmd_run env (JLine n b server sc) s2)"
        using s2(1) r(2) by (intro IH [OF _ keeps_harmless [OF s2(1) "1.prems"(2)] r(1)]) (simp add: keeps_def)
      then show ?thesis using s2(1) keeps_trans unfolding ends_def by blast
    qed
    have finish: "ends s (cmd_run env (JLine ret blk server sc) s)"
      if "cmd_run env (JLine ret blk server sc) s = Option.bind res (\<lambda>r. case r of None \<Rightarrow> Some None
          | Some (n, s2) \<Rightarrow> (case post of None \<Rightarrow> Some (Some (n, s2)) | Some b \<Rightarrow> cmd_run env (JLine n b server sc) s2))" "ends s res" for res
      using that(2) rest unfolding that(1) ends_def by (auto split: option.splits)
    show ?thesis
    proof (cases act)
      case (Result n)
      then show ?thesis using kept(1) one
        by (intro finish [of "Some (Some (n, s1))"]) (simp_all add: cmd_run.simps ends_def)
    next
      case (RunAlias u)
      obtain b where b: "new_text env u (length u + 2) = Some b" "holds_text b (takeWhile (\<lambda>c. c \<noteq> 0) u)"
        using new_text_ok [of u "length u + 2" env] by auto
      define deeper where "deeper = s1\<lparr>co_aliasnest := co_aliasnest s1 + 1\<rparr>"
      have deep: "co_aliasnest deeper = co_aliasnest s + 1" "co_cmds deeper = co_cmds s" using kept(1) by (simp_all add: deeper_def keeps_def)
      define up_again where "up_again = (\<lambda>(r :: int, s :: console). (r, s\<lparr>co_aliasnest := co_aliasnest s - 1\<rparr>))"
      have up_again: "keeps s (snd (up_again x))" if "keeps deeper (snd x)" for x
        using that deep by (cases x) (simp add: keeps_def up_again_def)
      show ?thesis
      proof (cases "co_aliasnest s1 < MAX_ALIAS_NESTS")
        case True
        have "ends deeper (cmd_run env (JLine 0 b False None) deeper)"
          using "1.prems"(2) deep kept(1) True by (intro IH [OF _ _ b(2)]) (auto simp: harmless_def CmdFind_def keeps_def)
        then obtain r where r: "cmd_run env (JLine 0 b False None) deeper = Some r" "\<forall>x. r = Some x \<longrightarrow> keeps deeper (snd x)"
          by (auto simp: ends_def)
        have "ends s (Some (map_option up_again r))" using r(2) up_again by (cases r) (auto simp: ends_def, metis snd_conv)
        moreover have "cmd_run env (JLine ret blk server sc) s = Option.bind (Some (map_option up_again r)) (\<lambda>r. case r of None \<Rightarrow> Some None
          | Some (n, s2) \<Rightarrow> (case post of None \<Rightarrow> Some (Some (n, s2)) | Some b \<Rightarrow> cmd_run env (JLine n b server sc) s2))"
          using one RunAlias True b(1) by (subst cmd_run.simps) (simp add: r(1) [unfolded deeper_def, simplified] up_again_def)
        ultimately show ?thesis by (intro finish)
      next
        case False
        let ?res = "do { s \<leftarrow> CmdPrint (ascii ''Aliase stack overflow!'') deeper; s \<leftarrow> CmdPrint (ascii ''Infinite loop is likely the case.'') s; Some (up_again (-1, s)) }"
        have "keeps s (snd x)" if "?res = Some x" for x
          using that keeps_trans up_again by (auto simp: bind_eq_Some_conv dest!: CmdPrint_keeps)
        then have "ends s (Some ?res)" by (auto simp: ends_def)
        moreover have "cmd_run env (JLine ret blk server sc) s = Option.bind (Some ?res) (\<lambda>r. case r of None \<Rightarrow> Some None
          | Some (n, s2) \<Rightarrow> (case post of None \<Rightarrow> Some (Some (n, s2)) | Some b \<Rightarrow> cmd_run env (JLine n b server sc) s2))"
          using one RunAlias False by (subst cmd_run.simps) (simp add: deeper_def up_again_def)
        ultimately show ?thesis by (intro finish)
      qed
    qed (use kept(2) in auto)
  qed
qed



end
